(* ===== verification/Infinity_Prelude.thy ===== *)
theory Infinity_Prelude
  imports Main "HOL-Library.Word"
begin

text \<open>
  Shared vocabulary of the development: the fixed-width integers of the C++ code as words, the
  ways an operation can fail as one datatype, and the fallible byte readers and writers that
  model code working on a \<^verbatim>\<open>char *&\<close> cursor.  A reader receives the bytes from the cursor
  to the end of the allocation and hands back the bytes after the cursor it leaves; reading past
  the end of the allocation is \<open>UndefinedBehaviour\<close>.  A writer yields the bytes it stores from
  the cursor on.  Readers are composed with \<open>rd_bind\<close>, writers with \<open>wr_cat\<close>.
\<close>

section \<open>Machine types and errors\<close>

type_synonym byte = "8 word"
type_synonym u8 = "8 word"
type_synonym u16 = "16 word"
type_synonym u32 = "32 word"
type_synonym u64 = "64 word"
type_synonym i8 = "8 word"
type_synonym i16 = "16 word"
type_synonym i32 = "32 word"
type_synonym i64 = "64 word"

text \<open>
  The fixed text of an error message is kept; values formatted into it are kept where they are
  at hand as text or number.
  \<open>LengthError\<close> is the exception of the standard containers for an impossible size,
  \<open>StdException\<close> any other exception of the standard library,
  \<open>BadEnumerator\<close> a stored number that is no enumerator of the enumeration read.
\<close>

datatype infinity_error =
    UnrecoverableError string
  | RecoverableError string
  | ParserError string
  | LengthError
  | StdException string
  | BadEnumerator nat
  | UndefinedBehaviour

type_synonym 'a res = "infinity_error + 'a"
type_synonym 'a reader = "byte list \<Rightarrow> ('a \<times> byte list) res"

named_theorems codec_simps \<open>evaluation rules of readers and writers\<close>

section \<open>Results\<close>

definition res_bind :: "'a res \<Rightarrow> ('a \<Rightarrow> 'b res) \<Rightarrow> 'b res" where
  "res_bind r f = (case r of Inl e \<Rightarrow> Inl e | Inr x \<Rightarrow> f x)"

lemma res_bind_simps [simp]:
  "res_bind (Inl e) f = Inl e"
  "res_bind (Inr x) f = f x"
  by (simp_all add: res_bind_def)

lemma res_bind_eq_Inr: "res_bind r f = Inr y \<longleftrightarrow> (\<exists>x. r = Inr x \<and> f x = Inr y)"
  by (cases r) auto

lemma res_bind_Inr_right [simp]: "res_bind r Inr = r"
  by (cases r) auto

definition res_ok :: "'a res \<Rightarrow> bool" where
  "res_ok r \<longleftrightarrow> (case r of Inl _ \<Rightarrow> False | Inr _ \<Rightarrow> True)"

lemma res_ok_simps [simp]: "\<not> res_ok (Inl e)" "res_ok (Inr x)"
  by (simp_all add: res_ok_def)

section \<open>Readers\<close>

definition rd_return :: "'a \<Rightarrow> 'a reader" where
  "rd_return x bs = Inr (x, bs)"

definition rd_fail :: "infinity_error \<Rightarrow> 'a reader" where
  "rd_fail e bs = Inl e"

text \<open>A step that can fail but reads nothing.\<close>

definition rd_lift :: "'a res \<Rightarrow> 'a reader" where
  "rd_lift r = (case r of Inl e \<Rightarrow> rd_fail e | Inr x \<Rightarrow> rd_return x)"

definition rd_bind :: "'a reader \<Rightarrow> ('a \<Rightarrow> 'b reader) \<Rightarrow> 'b reader" where
  "rd_bind p f bs = (case p bs of Inl e \<Rightarrow> Inl e | Inr r \<Rightarrow> f (fst r) (snd r))"

text \<open>The number of bytes from the cursor to the end of the allocation.\<close>

definition rd_left :: "nat reader" where
  "rd_left bs = Inr (length bs, bs)"

text \<open>
  \<^verbatim>\<open>ptr_end - ptr\<close>, where \<^verbatim>\<open>ptr_end\<close> was set \<open>m\<close> bytes after a cursor that had \<open>start\<close>
  bytes of the allocation left, and the cursor now has \<open>now\<close> of them left.
\<close>

definition ptr_room :: "int \<Rightarrow> nat \<Rightarrow> nat \<Rightarrow> int" where
  "ptr_room m start now = m - (int start - int now)"

fun rd_times :: "nat \<Rightarrow> 'a reader \<Rightarrow> 'a list reader" where
  "rd_times 0 p = rd_return []"
| "rd_times (Suc n) p = rd_bind p (\<lambda>x. rd_bind (rd_times n p) (\<lambda>xs. rd_return (x # xs)))"

lemma rd_return_apply [codec_simps]: "rd_return x bs = Inr (x, bs)"
  by (simp add: rd_return_def)

lemma rd_fail_apply [codec_simps]: "rd_fail e bs = Inl e"
  by (simp add: rd_fail_def)

lemma rd_lift_simps [simp, codec_simps]:
  "rd_lift (Inl e) = rd_fail e" "rd_lift (Inr x) = rd_return x"
  by (simp_all add: rd_lift_def)

lemma rd_left_apply [codec_simps]: "rd_left bs = Inr (length bs, bs)"
  by (simp add: rd_left_def)

lemma rd_bind_Inr [codec_simps]: "p bs = Inr (x, bs') \<Longrightarrow> rd_bind p f bs = f x bs'"
  by (simp add: rd_bind_def)

lemma rd_bind_Inl [codec_simps]: "p bs = Inl e \<Longrightarrow> rd_bind p f bs = Inl e"
  by (simp add: rd_bind_def)

lemma rd_bind_eq_Inr:
  "rd_bind p f bs = Inr r \<longleftrightarrow> (\<exists>x bs'. p bs = Inr (x, bs') \<and> f x bs' = Inr r)"
  by (cases "p bs") (auto simp: rd_bind_def)

text \<open>A reader that never hands back more bytes than it was given.\<close>

definition rd_mono :: "'a reader \<Rightarrow> bool" where
  "rd_mono p \<longleftrightarrow> (\<forall>bs x bs'. p bs = Inr (x, bs') \<longrightarrow> length bs' \<le> length bs)"

lemma rd_monoD: "rd_mono p \<Longrightarrow> p bs = Inr (x, bs') \<Longrightarrow> length bs' \<le> length bs"
  by (simp add: rd_mono_def)

lemma rd_mono_return [intro, simp]: "rd_mono (rd_return x)"
  by (simp add: rd_mono_def rd_return_def)

lemma rd_mono_fail [intro, simp]: "rd_mono (rd_fail e)"
  by (simp add: rd_mono_def rd_fail_def)

lemma rd_mono_lift [intro, simp]: "rd_mono (rd_lift r)"
  by (cases r) simp_all

lemma rd_mono_left [intro, simp]: "rd_mono rd_left"
  by (simp add: rd_mono_def rd_left_def)

lemma rd_mono_bind [intro]:
  assumes "rd_mono p" and "\<And>x. rd_mono (f x)"
  shows "rd_mono (rd_bind p f)"
  unfolding rd_mono_def
proof (intro allI impI)
  fix bs y bs'
  assume "rd_bind p f bs = Inr (y, bs')"
  then obtain x cs where "p bs = Inr (x, cs)" and "f x cs = Inr (y, bs')"
    by (auto simp: rd_bind_eq_Inr)
  with assms show "length bs' \<le> length bs"
    by (meson order_trans rd_monoD)
qed

lemma rd_mono_times [intro]: "rd_mono p \<Longrightarrow> rd_mono (rd_times n p)"
  by (induction n) auto

lemma rd_mono_if [intro]: "rd_mono p \<Longrightarrow> rd_mono q \<Longrightarrow> rd_mono (if b then p else q)"
  by simp

text \<open>
  Reading a list of items of which each is read back from its own bytes.  An item may need that
  enough bytes follow; the bytes behind the whole list are enough for each of them.
\<close>

lemma rd_times_concat:
  assumes "\<And>x bs. x \<in> set xs \<Longrightarrow> length rest \<le> length bs \<Longrightarrow> p (enc x @ bs) = Inr (x, bs)"
  shows "rd_times (length xs) p (concat (map enc xs) @ rest) = Inr (xs, rest)"
  using assms
proof (induction xs)
  case (Cons x xs)
  then have "p (enc x @ (concat (map enc xs) @ rest)) = Inr (x, concat (map enc xs) @ rest)" by simp
  moreover have "rd_times (length xs) p (concat (map enc xs) @ rest) = Inr (xs, rest)"
    using Cons by simp
  ultimately show ?case by (simp add: rd_bind_def rd_return_def)
qed (simp add: rd_return_def)

lemma rd_times_cong:
  assumes "\<And>cs. length cs \<le> length bs \<Longrightarrow> p cs = q cs" and "rd_mono p"
  shows "rd_times n p bs = rd_times n q bs"
  using assms(1)
proof (induction n arbitrary: bs)
  case (Suc n)
  have "rd_bind p (\<lambda>x. rd_bind (rd_times n p) (\<lambda>xs. rd_return (x # xs))) bs
      = rd_bind q (\<lambda>x. rd_bind (rd_times n q) (\<lambda>xs. rd_return (x # xs))) bs"
  proof (cases "p bs")
    case (Inr r)
    then have "length (snd r) \<le> length bs" using rd_monoD [OF assms(2)] by (cases r) auto
    then have "rd_times n p (snd r) = rd_times n q (snd r)" using Suc by simp
    with Inr Suc.prems show ?thesis by (simp add: rd_bind_def)
  qed (use Suc.prems in \<open>simp add: rd_bind_def\<close>)
  then show ?case by simp
qed simp

section \<open>Writers\<close>

definition wr_cat :: "byte list res \<Rightarrow> byte list res \<Rightarrow> byte list res" where
  "wr_cat a b = res_bind a (\<lambda>xs. res_bind b (\<lambda>ys. Inr (xs @ ys)))"

definition wr_concat :: "byte list res list \<Rightarrow> byte list res" where
  "wr_concat ws = foldr wr_cat ws (Inr [])"

lemma wr_cat_Inr [codec_simps, simp]: "wr_cat (Inr xs) (Inr ys) = Inr (xs @ ys)"
  by (simp add: wr_cat_def)

lemma wr_cat_Inl [simp]: "wr_cat (Inl e) b = Inl e"
  by (simp add: wr_cat_def)

lemma wr_cat_eq_Inr:
  "wr_cat a b = Inr zs \<longleftrightarrow> (\<exists>xs ys. a = Inr xs \<and> b = Inr ys \<and> zs = xs @ ys)"
  by (auto simp: wr_cat_def res_bind_eq_Inr)

lemma wr_concat_simps [simp, codec_simps]:
  "wr_concat [] = Inr []"
  "wr_concat (w # ws) = wr_cat w (wr_concat ws)"
  by (simp_all add: wr_concat_def)

text \<open>Sums of sizes, accumulated in a C++ integer of some width.\<close>

definition sz_sum :: "('a::len) word res list \<Rightarrow> 'a word res" where
  "sz_sum ss = foldr (\<lambda>a b. res_bind a (\<lambda>x. res_bind b (\<lambda>y. Inr (x + y)))) ss (Inr 0)"

lemma sz_sum_simps [simp, codec_simps]:
  "sz_sum [] = Inr 0"
  "sz_sum (Inr x # ss) = res_bind (sz_sum ss) (\<lambda>y. Inr (x + y))"
  "sz_sum (Inl e # ss) = Inl e"
  by (simp_all add: sz_sum_def)

lemma wr_concat_map:
  "(\<And>x. x \<in> set xs \<Longrightarrow> enc x = Inr (b x)) \<Longrightarrow> wr_concat (map enc xs) = Inr (concat (map b xs))"
  by (induction xs) auto

lemma sz_sum_map:
  "(\<And>x. x \<in> set xs \<Longrightarrow> sz x = Inr (of_nat (length (b x)))) \<Longrightarrow>
     sz_sum (map sz xs) = Inr (of_nat (length (concat (map b xs))))"
  by (induction xs) auto

section \<open>The codec interface\<close>

text \<open>
  What a serialised type offers to the types that contain it: \<open>enc\<close> is its \<^verbatim>\<open>WriteAdv\<close>, \<open>dec m\<close>
  its \<^verbatim>\<open>ReadAdv\<close> with at most \<open>m\<close> bytes, \<open>size_of\<close> its \<^verbatim>\<open>GetSizeInBytes\<close>, and \<open>valid\<close>
  says which values the format can represent.  A valid value is written without error, is read
  back from what was written wherever that stands in a larger buffer, and has exactly the
  announced size (modulo the width of the size).
\<close>

locale sized_codec =
  fixes valid :: "'a \<Rightarrow> bool"
    and enc :: "'a \<Rightarrow> byte list res"
    and dec :: "int \<Rightarrow> 'a reader"
    and size_of :: "'a \<Rightarrow> ('l::len) word res"
  assumes round_trip:
    "valid x \<Longrightarrow> \<exists>bs. enc x = Inr bs \<and>
       (\<forall>m rest. int (length bs) \<le> m \<longrightarrow> dec m (bs @ rest) = Inr (x, rest))"
    and size_law: "valid x \<Longrightarrow> enc x = Inr bs \<Longrightarrow> size_of x = Inr (of_nat (length bs))"
begin

lemma enc_ok: "valid x \<Longrightarrow> \<exists>bs. enc x = Inr bs"
  using round_trip by blast

lemma dec_enc: "valid x \<Longrightarrow> enc x = Inr bs \<Longrightarrow> int (length bs) \<le> m \<Longrightarrow> dec m (bs @ rest) = Inr (x, rest)"
  by (drule round_trip) auto

lemma enc_inj:
  assumes "valid x" and "valid y" and "enc x = enc y"
  shows "x = y"
proof -
  obtain bs where bs: "enc x = Inr bs" using enc_ok [OF assms(1)] by blast
  have "dec (int (length bs)) (bs @ []) = Inr (x, [])"
    by (rule dec_enc [OF assms(1) bs]) simp
  moreover have "dec (int (length bs)) (bs @ []) = Inr (y, [])"
    by (rule dec_enc [OF assms(2)]) (use assms(3) bs in simp_all)
  ultimately show ?thesis by simp
qed

lemma enc_list_ok: "list_all valid xs \<Longrightarrow> \<exists>bs. wr_concat (map enc xs) = Inr bs"
proof (induction xs)
  case (Cons x xs)
  then show ?case using enc_ok by fastforce
qed simp

lemma dec_enc_list:
  "list_all valid xs \<Longrightarrow> wr_concat (map enc xs) = Inr bs \<Longrightarrow> int (length bs) \<le> m
   \<Longrightarrow> rd_times (length xs) (dec m) (bs @ rest) = Inr (xs, rest)"
proof (induction xs arbitrary: bs)
  case Nil
  then show ?case by (simp add: rd_return_def)
next
  case (Cons x xs)
  then obtain b1 b2 where b: "enc x = Inr b1" "wr_concat (map enc xs) = Inr b2" "bs = b1 @ b2"
    by (auto simp: wr_cat_eq_Inr)
  have "dec m (b1 @ b2 @ rest) = Inr (x, b2 @ rest)"
    using Cons.prems b by (intro dec_enc) auto
  moreover have "rd_times (length xs) (dec m) (b2 @ rest) = Inr (xs, rest)"
    using Cons b by auto
  ultimately show ?case by (simp add: b rd_bind_def rd_return_def)
qed

lemma size_list:
  "list_all valid xs \<Longrightarrow> wr_concat (map enc xs) = Inr bs \<Longrightarrow>
   sz_sum (map size_of xs) = Inr (of_nat (length bs))"
proof (induction xs arbitrary: bs)
  case (Cons x xs)
  then show ?case using size_law by (force simp: wr_cat_eq_Inr)
qed simp

end

end
