(* ===== verification/Serialize.thy ===== *)
theory Serialize
  imports Infinity_Prelude
begin

text \<open>
  \<^verbatim>\<open>src/parser/type/serialize.h\<close>: the primitive reads and writes every serialised structure is
  built from, on a little-endian machine.  A plain value of \<open>n\<close> bytes is a word of \<open>8 * n\<close> bits; a \<^verbatim>\<open>std::string\<close> is
  a \<open>string\<close>, whose characters are bytes, stored behind its length as an \<^verbatim>\<open>int32_t\<close>.
\<close>

section \<open>Little-endian numbers\<close>

fun le_bytes :: "nat \<Rightarrow> nat \<Rightarrow> byte list" where
  "le_bytes 0 n = []"
| "le_bytes (Suc k) n = word_of_nat (n mod 256) # le_bytes k (n div 256)"

fun le_val :: "byte list \<Rightarrow> nat" where
  "le_val [] = 0"
| "le_val (b # bs) = unat b + 256 * le_val bs"

lemma length_le_bytes [simp]: "length (le_bytes k n) = k"
  by (induction k arbitrary: n) auto

lemma unat_byte_mod [simp]: "unat (word_of_nat (n mod 256) :: byte) = n mod 256"
  by (simp add: unat_of_nat)

lemma le_val_le_bytes: "le_val (le_bytes k n) = n mod 256 ^ k"
proof (induction k arbitrary: n)
  case (Suc k)
  have "n mod (256 * 256 ^ k) = n mod 256 + 256 * (n div 256 mod 256 ^ k)"
    by (simp add: mod_mult2_eq)
  then show ?case by (simp add: Suc)
qed simp

lemma le_val_bound: "le_val bs < 256 ^ length bs"
proof (induction bs)
  case (Cons b bs)
  have "unat b < 256" using unsigned_less [of b] by simp
  then have "unat b + 256 * le_val bs < 256 * (le_val bs + 1)" by simp
  also have "\<dots> \<le> 256 * 256 ^ length bs" using Cons by (intro mult_le_mono2) simp
  finally show ?case by simp
qed simp

lemma le_bytes_le_val: "le_bytes (length bs) (le_val bs) = bs"
proof (induction bs)
  case (Cons b bs)
  have "unat b < 256" using unsigned_less [of b] by simp
  then have "(unat b + 256 * le_val bs) mod 256 = unat b"
    and "(unat b + 256 * le_val bs) div 256 = le_val bs" by simp_all
  then show ?case using Cons by simp
qed simp

section \<open>Plain values\<close>

definition sizeof :: "('a::len) word itself \<Rightarrow> nat" where
  "sizeof T = LENGTH('a) div 8"

definition WriteBufAdv :: "('a::len) word \<Rightarrow> byte list" where
  "WriteBufAdv value = le_bytes (sizeof TYPE('a word)) (unat value)"

definition ReadBufAdv :: "('a::len) word reader" where
  "ReadBufAdv buf =
     (if length buf < sizeof TYPE('a word) then Inl UndefinedBehaviour
      else Inr (word_of_nat (le_val (take (sizeof TYPE('a word)) buf)),
                drop (sizeof TYPE('a word)) buf))"

definition GetSizeInBytes_pod :: "('a::len) word \<Rightarrow> i32" where
  "GetSizeInBytes_pod v = word_of_nat (sizeof TYPE('a word))"

lemma sizeof_word [simp]:
  "sizeof TYPE(8 word) = 1" "sizeof TYPE(16 word) = 2"
  "sizeof TYPE(32 word) = 4" "sizeof TYPE(64 word) = 8"
  by (simp_all add: sizeof_def)

lemma length_WriteBufAdv [simp]: "length (WriteBufAdv (w :: ('a::len) word)) = sizeof TYPE('a word)"
  by (simp add: WriteBufAdv_def)

lemma ReadBufAdv_WriteBufAdv_gen:
  fixes w :: "('a::len) word"
  assumes "8 dvd LENGTH('a)"
  shows "ReadBufAdv (WriteBufAdv w @ rest) = Inr (w, rest)"
proof -
  have p: "(256::nat) ^ (LENGTH('a) div 8) = 2 ^ LENGTH('a)"
  proof -
    obtain k where "LENGTH('a) = 8 * k" using assms by blast
    then show ?thesis by (simp add: power_mult)
  qed
  have "unat w mod 256 ^ (LENGTH('a) div 8) = unat w"
    unfolding p by (rule mod_less) (rule unsigned_less)
  then show ?thesis
    by (simp add: ReadBufAdv_def WriteBufAdv_def sizeof_def le_val_le_bytes)
qed

lemma ReadBufAdv_WriteBufAdv [simp, codec_simps]:
  "ReadBufAdv (WriteBufAdv (w8 :: 8 word) @ rest) = Inr (w8, rest)"
  "ReadBufAdv (WriteBufAdv (w16 :: 16 word) @ rest) = Inr (w16, rest)"
  "ReadBufAdv (WriteBufAdv (w32 :: 32 word) @ rest) = Inr (w32, rest)"
  "ReadBufAdv (WriteBufAdv (w64 :: 64 word) @ rest) = Inr (w64, rest)"
  by (rule ReadBufAdv_WriteBufAdv_gen, simp)+

lemmas ReadBufAdv_WriteBufAdv_Nil [simp, codec_simps] =
  ReadBufAdv_WriteBufAdv [where rest = "[]", simplified append_Nil2]

lemma rd_mono_ReadBufAdv [intro, simp]: "rd_mono (ReadBufAdv :: ('a::len) word reader)"
  by (auto simp: rd_mono_def ReadBufAdv_def split: if_splits)

section \<open>Strings\<close>

definition byte_of_char :: "char \<Rightarrow> byte" where
  "byte_of_char c = word_of_nat (of_char c)"

definition char_of_byte :: "byte \<Rightarrow> char" where
  "char_of_byte b = char_of (unat b)"

lemma char_of_byte_of_char [simp]: "char_of_byte (byte_of_char c) = c"
proof -
  have "(of_char c :: nat) < 256" by simp
  then have "unat (word_of_nat (of_char c) :: byte) = of_char c"
    by (simp add: unat_of_nat)
  then show ?thesis by (simp add: byte_of_char_def char_of_byte_def)
qed

lemma map_char_of_byte [simp]: "map char_of_byte (map byte_of_char s) = s"
  by (simp add: comp_def map_idI)

definition WriteBufAdv_string :: "string \<Rightarrow> byte list" where
  "WriteBufAdv_string value =
     WriteBufAdv (word_of_nat (length value) :: i32) @ map byte_of_char value"

text \<open>
  A negative length becomes an impossible \<^verbatim>\<open>size_t\<close> in the constructor of the string, which
  throws.
\<close>

definition ReadBufAdv_string :: "string reader" where
  "ReadBufAdv_string =
     rd_bind ReadBufAdv (\<lambda>size :: i32. \<lambda>buf.
       if sint size < 0 then Inl LengthError
       else if length buf < nat (sint size) then Inl UndefinedBehaviour
       else Inr (map char_of_byte (take (nat (sint size)) buf), drop (nat (sint size)) buf))"

definition GetSizeInBytes_string :: "string \<Rightarrow> i32" where
  "GetSizeInBytes_string value = 4 + word_of_nat (length value)"

definition valid_string :: "string \<Rightarrow> bool" where
  "valid_string s \<longleftrightarrow> length s < 2 ^ 31"

lemma sint_word_of_nat32: "n < 2 ^ 31 \<Longrightarrow> sint (word_of_nat n :: 32 word) = int n"
proof -
  assume n: "n < 2 ^ 31"
  have "sint (word_of_nat n :: 32 word) = signed_take_bit 31 (int n)"
    by (simp add: signed_of_nat)
  also have "\<dots> = int n"
    using n by (intro signed_take_bit_int_eq_self) simp_all
  finally show ?thesis .
qed

lemma length_WriteBufAdv_string [simp]: "length (WriteBufAdv_string s) = 4 + length s"
  by (simp add: WriteBufAdv_string_def)

lemma ReadBufAdv_string_WriteBufAdv [simp, codec_simps]:
  "valid_string s \<Longrightarrow> ReadBufAdv_string (WriteBufAdv_string s @ rest) = Inr (s, rest)"
  by (simp add: ReadBufAdv_string_def WriteBufAdv_string_def rd_bind_def valid_string_def
      sint_word_of_nat32 del: map_map)

lemma size_string_law: "GetSizeInBytes_string s = word_of_nat (length (WriteBufAdv_string s))"
  by (simp add: GetSizeInBytes_string_def)

lemma rd_mono_ReadBufAdv_string [intro, simp]: "rd_mono ReadBufAdv_string"
  unfolding ReadBufAdv_string_def
  by (intro rd_mono_bind rd_mono_ReadBufAdv) (auto simp: rd_mono_def split: if_splits)

section \<open>Enumerations\<close>

text \<open>
  An enumeration is stored as the number of the enumerator in its underlying type; a stored
  number that is no enumerator is an error of the model.
\<close>

definition rd_enum :: "('a::len) word itself \<Rightarrow> (nat \<Rightarrow> 'e option) \<Rightarrow> 'e reader" where
  "rd_enum T of_num =
     rd_bind (ReadBufAdv :: 'a word reader) (\<lambda>w. case of_num (unat w) of
         Some e \<Rightarrow> rd_return e
       | None \<Rightarrow> rd_fail (BadEnumerator (unat w)))"

lemma rd_enum_WriteBufAdv [codec_simps]:
  "of_num n = Some e \<Longrightarrow> n < 256 \<Longrightarrow>
     rd_enum TYPE(8 word) of_num (WriteBufAdv (word_of_nat n :: 8 word) @ rest) = Inr (e, rest)"
  "of_num n = Some e \<Longrightarrow> n < 2 ^ 32 \<Longrightarrow>
     rd_enum TYPE(32 word) of_num (WriteBufAdv (word_of_nat n :: 32 word) @ rest) = Inr (e, rest)"
  by (simp_all add: rd_enum_def rd_bind_def rd_return_def unat_of_nat)

lemma rd_mono_rd_enum [intro, simp]: "rd_mono (rd_enum T of_num)"
  unfolding rd_enum_def by (intro rd_mono_bind rd_mono_ReadBufAdv) (auto split: option.split)

section \<open>The non-advancing string write\<close>

text \<open>
  \<^verbatim>\<open>WriteBuf<std::string>\<close> stores into memory at a fixed address.  It places the characters
  \<^verbatim>\<open>len\<close> bytes behind the address of the length, where \<^verbatim>\<open>ReadBuf<std::string>\<close> expects them
  four bytes behind it.
\<close>

definition mem_write :: "byte list \<Rightarrow> nat \<Rightarrow> byte list \<Rightarrow> byte list res" where
  "mem_write mem pos bs =
     (if pos + length bs \<le> length mem
      then Inr (take pos mem @ bs @ drop (pos + length bs) mem)
      else Inl UndefinedBehaviour)"

definition ReadBuf_string :: "byte list \<Rightarrow> nat \<Rightarrow> string res" where
  "ReadBuf_string mem buf =
     (if length mem < buf then Inl UndefinedBehaviour
      else res_bind (ReadBufAdv_string (drop buf mem)) (\<lambda>r. Inr (fst r)))"

definition WriteBuf_string :: "byte list \<Rightarrow> nat \<Rightarrow> string \<Rightarrow> byte list res" where
  "WriteBuf_string mem buf value =
     (let len = (word_of_nat (length value) :: i32)
      in res_bind (mem_write mem buf (WriteBufAdv len)) (\<lambda>mem1.
           mem_write mem1 (nat (int buf + sint len)) (map byte_of_char value)))"

end
