(* ===== verification/Text_Format.thy ===== *)
theory Text_Format
  imports Infinity_Prelude
begin

text \<open>
  The parts of the C++ library the program uses to print and parse numbers: \<^verbatim>\<open>std::to_string\<close>,
  the zero-padded \<^verbatim>\<open>{:0Nd}\<close> of \<^verbatim>\<open>std::format\<close>, \<^verbatim>\<open>std::isdigit\<close>, \<^verbatim>\<open>std::isspace\<close>,
  \<^verbatim>\<open>std::tolower\<close> (all in the C locale), \<^verbatim>\<open>std::from_chars\<close> on signed integers, \<^verbatim>\<open>std::stoi\<close>,
  \<^verbatim>\<open>std::stoll\<close> and \<^verbatim>\<open>std::strtoul\<close>.
\<close>

section \<open>Characters\<close>

definition char_code :: "char \<Rightarrow> nat" where
  "char_code c = of_char c"

definition digit_char :: "nat \<Rightarrow> char" where
  "digit_char d = char_of (48 + d)"

definition isdigit :: "char \<Rightarrow> bool" where
  "isdigit c \<longleftrightarrow> 48 \<le> char_code c \<and> char_code c \<le> 57"

definition isspace :: "char \<Rightarrow> bool" where
  "isspace c \<longleftrightarrow> char_code c = 32 \<or> (9 \<le> char_code c \<and> char_code c \<le> 13)"

definition tolower :: "char \<Rightarrow> char" where
  "tolower c = (if 65 \<le> char_code c \<and> char_code c \<le> 90 then char_of (char_code c + 32) else c)"

definition digit_val :: "char \<Rightarrow> int" where
  "digit_val c = int (char_code c) - 48"

lemma char_code_digit_char [simp]: "d < 10 \<Longrightarrow> char_code (digit_char d) = 48 + d"
  by (simp add: char_code_def digit_char_def take_bit_eq_mod)

lemma isdigit_digit_char [simp]: "d < 10 \<Longrightarrow> isdigit (digit_char d)"
  by (simp add: isdigit_def)

lemma digit_val_digit_char [simp]: "d < 10 \<Longrightarrow> digit_val (digit_char d) = int d"
  by (simp add: digit_val_def)

lemma digit_char_neq [simp]:
  assumes d: "d < 10"
  shows "digit_char d \<noteq> CHR ''-''" "digit_char d \<noteq> CHR '':''" "digit_char d \<noteq> CHR ''/''"
    "digit_char d \<noteq> CHR '' ''"
proof -
  have "char_code CHR ''-'' = 45" "char_code CHR '':'' = 58" "char_code CHR ''/'' = 47"
    "char_code CHR '' '' = 32"
    by (simp_all add: char_code_def)
  then show "digit_char d \<noteq> CHR ''-''" "digit_char d \<noteq> CHR '':''" "digit_char d \<noteq> CHR ''/''"
    "digit_char d \<noteq> CHR '' ''"
    using char_code_digit_char [OF d] d by fastforce+
qed

lemma not_isdigit_punct [simp]:
  "\<not> isdigit CHR ''-''" "\<not> isdigit CHR '':''" "\<not> isdigit CHR ''/''" "\<not> isdigit CHR '' ''"
  by (simp_all add: isdigit_def char_code_def)

lemma isdigit_not_isspace: "isdigit c \<Longrightarrow> \<not> isspace c"
  by (auto simp: isdigit_def isspace_def)

lemma isspace_punct [simp]: "\<not> isspace CHR ''-''" "isspace CHR '' ''"
  by (simp_all add: isspace_def char_code_def)

section \<open>Decimal digits\<close>

fun nat_digits :: "nat \<Rightarrow> string" where
  "nat_digits n = (if n < 10 then [digit_char n] else nat_digits (n div 10) @ [digit_char (n mod 10)])"

declare nat_digits.simps [simp del]

text \<open>The accumulation \<^verbatim>\<open>x = x * 10 + (c - '0')\<close> over a run of digits.\<close>

fun digits_val :: "int \<Rightarrow> string \<Rightarrow> int" where
  "digits_val acc [] = acc"
| "digits_val acc (c # cs) = digits_val (acc * 10 + digit_val c) cs"

lemma digits_val_append: "digits_val acc (xs @ ys) = digits_val (digits_val acc xs) ys"
  by (induction xs arbitrary: acc) auto

lemma nat_digits_nonempty [simp]: "nat_digits n \<noteq> []"
  by (subst nat_digits.simps) simp

lemma nat_digits_isdigit: "list_all isdigit (nat_digits n)"
proof (induction n rule: nat_digits.induct)
  case (1 n)
  then show ?case
    by (cases "n < 10") (simp_all add: nat_digits.simps [of n])
qed

lemma digits_val_nat_digits: "digits_val 0 (nat_digits n) = int n"
proof (induction n rule: nat_digits.induct)
  case (1 n)
  show ?case
  proof (cases "n < 10")
    case True
    then show ?thesis by (simp add: nat_digits.simps [of n])
  next
    case False
    then have "digits_val 0 (nat_digits n) = int (n div 10) * 10 + int (n mod 10)"
      using "1.IH" by (simp add: nat_digits.simps [of n] digits_val_append)
    also have "\<dots> = int n" by presburger
    finally show ?thesis .
  qed
qed

lemma digits_val_zeros: "digits_val 0 (replicate k (digit_char 0) @ s) = digits_val 0 s"
  by (induction k) simp_all

lemma length_nat_digits_le: "n < 10 ^ k \<Longrightarrow> 0 < k \<Longrightarrow> length (nat_digits n) \<le> k"
proof (induction n arbitrary: k rule: nat_digits.induct)
  case (1 n)
  show ?case
  proof (cases "n < 10")
    case True
    with "1.prems" show ?thesis by (simp add: nat_digits.simps [of n])
  next
    case False
    with "1.prems" have "1 < k" by (cases "k = 1") simp_all
    then obtain j where k: "k = Suc j" "0 < j" by (cases k) simp_all
    have "n div 10 < 10 ^ j" using "1.prems" k by (simp add: less_mult_imp_div_less mult.commute)
    with False k show ?thesis using "1.IH" [of j] by (simp add: nat_digits.simps [of n])
  qed
qed

section \<open>Printing\<close>

definition std_to_string :: "int \<Rightarrow> string" where
  "std_to_string i = (if i < 0 then CHR ''-'' # nat_digits (nat (- i)) else nat_digits (nat i))"

text \<open>\<^verbatim>\<open>{:0Nd}\<close>: zeros between the sign and the digits up to \<open>N\<close> characters.\<close>

definition format_0d :: "nat \<Rightarrow> int \<Rightarrow> string" where
  "format_0d N i =
     (let sign = (if i < 0 then ''-'' else []); ds = nat_digits (nat \<bar>i\<bar>)
      in sign @ replicate (N - length sign - length ds) (digit_char 0) @ ds)"

section \<open>from_chars\<close>

text \<open>
  \<^verbatim>\<open>std::from_chars\<close> into a signed integer of range \<open>[lo, hi]\<close>: the number of characters in front
  of the returned pointer, and the stored value if one is stored.  When the digits name a number
  out of range the pointer is behind them and nothing is stored.
\<close>

definition from_chars :: "int \<Rightarrow> int \<Rightarrow> string \<Rightarrow> nat \<times> int option" where
  "from_chars lo hi s =
     (let neg = (s \<noteq> [] \<and> hd s = CHR ''-'');
          body = (if neg then tl s else s);
          ds = takeWhile isdigit body;
          v = (if neg then - digits_val 0 ds else digits_val 0 ds)
      in if ds = [] then (0, None)
         else ((if neg then 1 else 0) + length ds, if lo \<le> v \<and> v \<le> hi then Some v else None))"

text \<open>
  \<^verbatim>\<open>std::stoi\<close> and \<^verbatim>\<open>std::stoll\<close>: leading space and a sign are allowed, what follows the digits is
  ignored.
\<close>

definition std_sto :: "int \<Rightarrow> int \<Rightarrow> string \<Rightarrow> int res" where
  "std_sto lo hi s =
     (let body = dropWhile isspace s;
          neg = (body \<noteq> [] \<and> hd body = CHR ''-'');
          body = (if body \<noteq> [] \<and> (hd body = CHR ''-'' \<or> hd body = CHR ''+'') then tl body else body);
          ds = takeWhile isdigit body;
          v = (if neg then - digits_val 0 ds else digits_val 0 ds)
      in if ds = [] then Inl (StdException ''invalid_argument'')
         else if lo \<le> v \<and> v \<le> hi then Inr v else Inl (StdException ''out_of_range''))"

definition std_stoi :: "string \<Rightarrow> int res" where
  "std_stoi = std_sto (- (2 ^ 31)) (2 ^ 31 - 1)"

definition std_stoll :: "string \<Rightarrow> int res" where
  "std_stoll = std_sto (- (2 ^ 63)) (2 ^ 63 - 1)"

text \<open>
  \<^verbatim>\<open>std::strtoul\<close> in base ten, with a 64 bit result: no digits give zero, too large a number the
  largest result, and a minus sign negates in 64 bits.
\<close>

definition std_strtoul :: "string \<Rightarrow> 64 word" where
  "std_strtoul s =
     (let body = dropWhile isspace s;
          neg = (body \<noteq> [] \<and> hd body = CHR ''-'');
          body = (if body \<noteq> [] \<and> (hd body = CHR ''-'' \<or> hd body = CHR ''+'') then tl body else body);
          v = digits_val 0 (takeWhile isdigit body)
      in if 2 ^ 64 \<le> v then - 1 else if neg then - word_of_int v else word_of_int v)"

lemma takeWhile_isdigit_nat_digits [simp]:
  "takeWhile isdigit (nat_digits n) = nat_digits n"
  using nat_digits_isdigit [of n] by (simp add: list_all_iff)

lemma hd_nat_digits_neq: "isdigit (hd (nat_digits n))"
  using nat_digits_isdigit [of n] by (cases "nat_digits n") simp_all

lemma from_chars_to_string:
  "from_chars lo hi (std_to_string i) =
     (length (std_to_string i), if lo \<le> i \<and> i \<le> hi then Some i else None)"
proof (cases "i < 0")
  case True
  then show ?thesis
    by (simp add: from_chars_def std_to_string_def digits_val_nat_digits Let_def)
next
  case False
  have "hd (nat_digits (nat i)) \<noteq> CHR ''-''"
    using hd_nat_digits_neq [of "nat i"] by auto
  with False show ?thesis
    by (simp add: from_chars_def std_to_string_def digits_val_nat_digits Let_def)
qed

lemma std_to_string_nonempty [simp]: "std_to_string i \<noteq> []"
  by (simp add: std_to_string_def)

lemma std_sto_nat_digits:
  assumes "rest = [] \<or> \<not> isdigit (hd rest)"
  shows "std_sto lo hi (nat_digits n @ rest)
    = (if lo \<le> int n \<and> int n \<le> hi then Inr (int n) else Inl (StdException ''out_of_range''))"
proof -
  have h: "isdigit (hd (nat_digits n @ rest))" using hd_nat_digits_neq [of n] by simp
  then have d: "dropWhile isspace (nat_digits n @ rest) = nat_digits n @ rest"
    using isdigit_not_isspace by (cases "nat_digits n @ rest") auto
  have p: "hd (nat_digits n @ rest) \<noteq> CHR ''-''" "hd (nat_digits n @ rest) \<noteq> CHR ''+''"
    using h by (auto simp: isdigit_def char_code_def)
  have "takeWhile isdigit rest = []" using assms by (cases rest) auto
  then have t: "takeWhile isdigit (nat_digits n @ rest) = nat_digits n"
    using nat_digits_isdigit [of n] by (simp add: takeWhile_append list_all_iff)
  show ?thesis
    unfolding std_sto_def d Let_def using p t by (simp add: digits_val_nat_digits del: hd_append2)
qed

end
