(* ===== verification/Logical_Type.thy ===== *)
theory Logical_Type
  imports Serialize Text_Format
begin

text \<open>
  \<^verbatim>\<open>src/parser/type/logical_type.h\<close>, \<^verbatim>\<open>logical_type.cpp\<close> and the element types of
  \<^verbatim>\<open>complex/embedding_type.h\<close>: the enumeration of SQL types, its name and width tables, the
  lookup of a type by name, and the common type of two embedding element types.  The tables are
  indexed by the number of the enumerator, as in the code.
\<close>

section \<open>Enumerations and their numbers\<close>

datatype logical_type =
    kBoolean | kTinyInt | kSmallInt | kInteger | kBigInt | kHugeInt | kDecimal
  | kFloat | kDouble | kVarchar | kDate | kTime | kDateTime | kTimestamp
  | kInterval | kArray | kTuple | kPoint | kLine | kLineSeg | kBox
  | kCircle | kUuid | kEmbedding | kRowID | kMixed | kNull | kMissing
  | kTensor | kTensorArray | kSparse | kEmptyArray | kInvalid

definition LogicalType_enumerators :: "logical_type list" where
  "LogicalType_enumerators =
     [kBoolean, kTinyInt, kSmallInt, kInteger, kBigInt, kHugeInt, kDecimal,
      kFloat, kDouble, kVarchar, kDate, kTime, kDateTime, kTimestamp,
      kInterval, kArray, kTuple, kPoint, kLine, kLineSeg, kBox,
      kCircle, kUuid, kEmbedding, kRowID, kMixed, kNull, kMissing,
      kTensor, kTensorArray, kSparse, kEmptyArray, kInvalid]"

fun LogicalType_num :: "logical_type \<Rightarrow> nat" where
  "LogicalType_num kBoolean = 0"
| "LogicalType_num kTinyInt = 1"
| "LogicalType_num kSmallInt = 2"
| "LogicalType_num kInteger = 3"
| "LogicalType_num kBigInt = 4"
| "LogicalType_num kHugeInt = 5"
| "LogicalType_num kDecimal = 6"
| "LogicalType_num kFloat = 7"
| "LogicalType_num kDouble = 8"
| "LogicalType_num kVarchar = 9"
| "LogicalType_num kDate = 10"
| "LogicalType_num kTime = 11"
| "LogicalType_num kDateTime = 12"
| "LogicalType_num kTimestamp = 13"
| "LogicalType_num kInterval = 14"
| "LogicalType_num kArray = 15"
| "LogicalType_num kTuple = 16"
| "LogicalType_num kPoint = 17"
| "LogicalType_num kLine = 18"
| "LogicalType_num kLineSeg = 19"
| "LogicalType_num kBox = 20"
| "LogicalType_num kCircle = 21"
| "LogicalType_num kUuid = 22"
| "LogicalType_num kEmbedding = 23"
| "LogicalType_num kRowID = 24"
| "LogicalType_num kMixed = 25"
| "LogicalType_num kNull = 26"
| "LogicalType_num kMissing = 27"
| "LogicalType_num kTensor = 28"
| "LogicalType_num kTensorArray = 29"
| "LogicalType_num kSparse = 30"
| "LogicalType_num kEmptyArray = 31"
| "LogicalType_num kInvalid = 32"

definition LogicalType_of_num :: "nat \<Rightarrow> logical_type option" where
  "LogicalType_of_num n =
     (if n < length LogicalType_enumerators then Some (LogicalType_enumerators ! n) else None)"

lemma LogicalType_num_less: "LogicalType_num t < 33"
  by (cases t) simp_all

lemma LogicalType_of_num_num [simp]: "LogicalType_of_num (LogicalType_num t) = Some t"
  by (cases t) (simp_all add: LogicalType_of_num_def LogicalType_enumerators_def)

lemma LogicalType_num_inject [simp]: "LogicalType_num s = LogicalType_num t \<longleftrightarrow> s = t"
  by (metis LogicalType_of_num_num option.inject)

datatype embedding_data_type =
    kElemBit | kElemInt8 | kElemInt16 | kElemInt32 | kElemInt64 | kElemFloat | kElemDouble
  | kElemInvalid

fun EmbeddingDataType_num :: "embedding_data_type \<Rightarrow> nat" where
  "EmbeddingDataType_num kElemBit = 0"
| "EmbeddingDataType_num kElemInt8 = 1"
| "EmbeddingDataType_num kElemInt16 = 2"
| "EmbeddingDataType_num kElemInt32 = 3"
| "EmbeddingDataType_num kElemInt64 = 4"
| "EmbeddingDataType_num kElemFloat = 5"
| "EmbeddingDataType_num kElemDouble = 6"
| "EmbeddingDataType_num kElemInvalid = 7"

definition EmbeddingDataType_of_num :: "nat \<Rightarrow> embedding_data_type option" where
  "EmbeddingDataType_of_num n =
     (let es = [kElemBit, kElemInt8, kElemInt16, kElemInt32, kElemInt64, kElemFloat, kElemDouble,
        kElemInvalid]
      in if n < length es then Some (es ! n) else None)"

lemma EmbeddingDataType_of_num_num [simp]:
  "EmbeddingDataType_of_num (EmbeddingDataType_num t) = Some t"
  by (cases t) (simp_all add: EmbeddingDataType_of_num_def)

lemma EmbeddingDataType_num_less: "EmbeddingDataType_num t < 8"
  by (cases t) simp_all

section \<open>Names and widths\<close>

definition type2name :: "string list" where
  "type2name =
     [''Boolean'', ''TinyInt'', ''SmallInt'', ''Integer'', ''BigInt'', ''HugeInt'', ''Decimal'',
      ''Float'', ''Double'', ''Varchar'', ''Date'', ''Time'', ''DateTime'', ''Timestamp'',
      ''Interval'', ''Array'', ''Tuple'', ''Point'', ''Line'', ''LineSegment'', ''Box'',
      ''Circle'', ''UUID'', ''Embedding'', ''RowID'', ''Heterogeneous'', ''Null'', ''Missing'',
      ''Tensor'', ''TensorArray'', ''Sparse'', ''EmptyArray'', ''Invalid'']"

definition LogicalType2Str :: "logical_type \<Rightarrow> string" where
  "LogicalType2Str t = type2name ! LogicalType_num t"

definition name2type :: "(string \<times> logical_type) list" where
  "name2type =
     [(''boolean'', kBoolean), (''tinyint'', kTinyInt), (''smallint'', kSmallInt),
      (''integer'', kInteger), (''bigint'', kBigInt), (''hugeint'', kHugeInt),
      (''decimal'', kDecimal), (''float'', kFloat), (''double'', kDouble),
      (''varchar'', kVarchar), (''date'', kDate), (''time'', kTime),
      (''datetime'', kDateTime), (''timestamp'', kTimestamp), (''interval'', kInterval),
      (''array'', kArray), (''tuple'', kTuple), (''point'', kPoint),
      (''line'', kLine), (''linesegment'', kLineSeg), (''box'', kBox),
      (''circle'', kCircle), (''uuid'', kUuid), (''embedding'', kEmbedding),
      (''rowid'', kRowID), (''heterogeneous'', kMixed), (''null'', kNull),
      (''missing'', kMissing), (''tensor'', kTensor), (''tensorarray'', kTensorArray),
      (''sparse'', kSparse), (''emptyarray'', kEmptyArray), (''invalid'', kInvalid)]"

definition Str2LogicalType :: "string \<Rightarrow> logical_type" where
  "Str2LogicalType str = (case map_of name2type str of Some t \<Rightarrow> t | None \<Rightarrow> kInvalid)"

definition type_size :: "int list" where
  "type_size = [1, 1, 2, 4, 8, 16, 16, 4, 8, 16, 4, 4, 8, 8, 8, 8, 4,
      16, 24, 32, 32, 24, 16, 8, 8, 16, 0, 0, 8, 8, 16, 0, 0]"

definition LogicalTypeWidth :: "logical_type \<Rightarrow> int" where
  "LogicalTypeWidth t = type_size ! LogicalType_num t"

section \<open>Common element type\<close>

text \<open>
  \<^verbatim>\<open>std::common_type_t\<close> of the C++ element types: equal types are kept, two different integer
  types are first promoted to \<^verbatim>\<open>int\<close>, a floating type absorbs an integer type.
\<close>

fun cpp_common_type :: "embedding_data_type \<Rightarrow> embedding_data_type \<Rightarrow> embedding_data_type" where
  "cpp_common_type a b =
     (if a = b then a
      else if a = kElemDouble \<or> b = kElemDouble then kElemDouble
      else if a = kElemFloat \<or> b = kElemFloat then kElemFloat
      else if a = kElemInt64 \<or> b = kElemInt64 then kElemInt64
      else kElemInt32)"

fun GetCommonLogicalType_of :: "embedding_data_type \<Rightarrow> logical_type" where
  "GetCommonLogicalType_of kElemInt8 = kTinyInt"
| "GetCommonLogicalType_of kElemInt16 = kSmallInt"
| "GetCommonLogicalType_of kElemInt32 = kInteger"
| "GetCommonLogicalType_of kElemInt64 = kBigInt"
| "GetCommonLogicalType_of kElemFloat = kFloat"
| "GetCommonLogicalType_of kElemDouble = kDouble"
| "GetCommonLogicalType_of _ = kInvalid"

definition GetCommonLogicalType_T :: "embedding_data_type \<Rightarrow> embedding_data_type \<Rightarrow> logical_type" where
  "GetCommonLogicalType_T T column_type =
     (case column_type of
        kElemBit \<Rightarrow> kInvalid
      | kElemInvalid \<Rightarrow> kInvalid
      | _ \<Rightarrow> GetCommonLogicalType_of (cpp_common_type T column_type))"

definition GetCommonLogicalType :: "embedding_data_type \<Rightarrow> embedding_data_type \<Rightarrow> logical_type" where
  "GetCommonLogicalType type1 type2 =
     (case type1 of
        kElemBit \<Rightarrow> kInvalid
      | kElemInvalid \<Rightarrow> kInvalid
      | _ \<Rightarrow> GetCommonLogicalType_T type1 type2)"

section \<open>Embedding sizes and element names\<close>

definition embedding_type_width :: "nat list" where
  "embedding_type_width = [0, 1, 2, 4, 8, 4, 8]"

text \<open>
  The width table has no slot for \<^verbatim>\<open>kElemInvalid\<close>; \<^verbatim>\<open>EmbeddingSize\<close> rejects that type first.
  The product wraps in a \<^verbatim>\<open>size_t\<close>.
\<close>

definition EmbeddingDataWidth :: "embedding_data_type \<Rightarrow> nat res" where
  "EmbeddingDataWidth t =
     (if EmbeddingDataType_num t < length embedding_type_width
      then Inr (embedding_type_width ! EmbeddingDataType_num t) else Inl UndefinedBehaviour)"

definition EmbeddingSize :: "embedding_data_type \<Rightarrow> u64 \<Rightarrow> u64 res" where
  "EmbeddingSize type dimension =
     (if type = kElemInvalid then Inl (ParserError ''Invalid embedding data type'')
      else if type = kElemBit then Inr (drop_bit 3 (dimension + 7))
      else res_bind (EmbeddingDataWidth type) (\<lambda>w. Inr (dimension * word_of_nat w)))"

definition EmbeddingDataType2String :: "embedding_data_type \<Rightarrow> string res" where
  "EmbeddingDataType2String t =
     (case t of
        kElemBit \<Rightarrow> Inr ''BIT''
      | kElemInt8 \<Rightarrow> Inr ''INT8''
      | kElemInt16 \<Rightarrow> Inr ''INT16''
      | kElemInt32 \<Rightarrow> Inr ''INT32''
      | kElemInt64 \<Rightarrow> Inr ''INT64''
      | kElemFloat \<Rightarrow> Inr ''FLOAT32''
      | kElemDouble \<Rightarrow> Inr ''FLOAT64''
      | kElemInvalid \<Rightarrow> Inl (ParserError ''Unexpected embedding type''))"

definition String2EmbeddingDataType :: "string \<Rightarrow> embedding_data_type res" where
  "String2EmbeddingDataType sv =
     (if sv = ''BIT'' then Inr kElemBit
      else if sv = ''INT8'' then Inr kElemInt8
      else if sv = ''INT16'' then Inr kElemInt16
      else if sv = ''INT32'' \<or> sv = ''INT'' then Inr kElemInt32
      else if sv = ''INT64'' then Inr kElemInt64
      else if sv = ''FLOAT32'' \<or> sv = ''FLOAT'' \<or> sv = ''F32'' then Inr kElemFloat
      else if sv = ''FLOAT64'' \<or> sv = ''DOUBLE'' \<or> sv = ''F64'' then Inr kElemDouble
      else Inl (ParserError ''Unexpected embedding type''))"

section \<open>Properties\<close>

lemma LogicalType_tables_length:
  "length type2name = 33" "length type_size = 33" "length LogicalType_enumerators = 33"
  by (simp_all add: type2name_def type_size_def LogicalType_enumerators_def)

lemma LogicalType_exhaustive: "list_all P LogicalType_enumerators \<Longrightarrow> P t"
  by (cases t) (simp_all add: LogicalType_enumerators_def)

lemma Str2LogicalType_lower_name:
  "Str2LogicalType (map tolower (LogicalType2Str t)) = t"
  by (rule LogicalType_exhaustive [where P = "\<lambda>t. Str2LogicalType (map tolower (LogicalType2Str t)) = t"])
    code_simp

lemma LogicalTypeWidth_nonneg: "0 \<le> LogicalTypeWidth t"
  by (rule LogicalType_exhaustive [where P = "\<lambda>t. 0 \<le> LogicalTypeWidth t"]) code_simp

lemma GetCommonLogicalType_commute: "GetCommonLogicalType a b = GetCommonLogicalType b a"
  by (cases a; cases b) (simp_all add: GetCommonLogicalType_def GetCommonLogicalType_T_def)

lemma String2EmbeddingDataType_inverse:
  "EmbeddingDataType2String t = Inr s \<Longrightarrow> String2EmbeddingDataType s = Inr t"
  by (cases t) (auto simp: EmbeddingDataType2String_def String2EmbeddingDataType_def)

end
