(* ===== verification/Json.thy ===== *)
theory Json
  imports Infinity_Prelude "HOL-Library.AList"
begin

text \<open>
  The fragment of the JSON values that the \<^verbatim>\<open>Serialize\<close>/\<^verbatim>\<open>Deserialize\<close> pairs of the catalog use:
  objects keep their members in an association list, \<^verbatim>\<open>j[k] = v\<close> updates one, and the conversion
  of a number to a machine integer keeps the low bits.  Reading a member that is absent from a
  constant object is undefined; converting a value of another kind throws.
\<close>

datatype json =
    JNull
  | JBool bool
  | JNumber int
  | JString string
  | JArray "json list"
  | JObject "(string \<times> json) list"

definition json_type_error :: infinity_error where
  "json_type_error = UnrecoverableError ''json type_error''"

definition json_set :: "string \<Rightarrow> json \<Rightarrow> json \<Rightarrow> json res" where
  "json_set k v j =
     (case j of
        JNull \<Rightarrow> Inr (JObject [(k, v)])
      | JObject kvs \<Rightarrow> Inr (JObject (AList.update k v kvs))
      | _ \<Rightarrow> Inl json_type_error)"

definition json_at :: "json \<Rightarrow> string \<Rightarrow> json res" where
  "json_at j k =
     (case j of
        JObject kvs \<Rightarrow> (case map_of kvs k of Some v \<Rightarrow> Inr v | None \<Rightarrow> Inl UndefinedBehaviour)
      | _ \<Rightarrow> Inl json_type_error)"

definition json_contains :: "json \<Rightarrow> string \<Rightarrow> bool" where
  "json_contains j k =
     (case j of JObject kvs \<Rightarrow> map_of kvs k \<noteq> None | _ \<Rightarrow> False)"

text \<open>
  \<open>json_word\<close> is the conversion to \<^verbatim>\<open>int64_t\<close> and \<^verbatim>\<open>uint64_t\<close>; the one to the narrower integers,
  \<open>json_narrow\<close>, also takes booleans.
\<close>

definition json_word :: "json \<Rightarrow> ('a::len) word res" where
  "json_word j = (case j of JNumber i \<Rightarrow> Inr (word_of_int i) | _ \<Rightarrow> Inl json_type_error)"

definition json_narrow :: "json \<Rightarrow> ('a::len) word res" where
  "json_narrow j =
     (case j of
        JNumber i \<Rightarrow> Inr (word_of_int i)
      | JBool b \<Rightarrow> Inr (if b then 1 else 0)
      | _ \<Rightarrow> Inl json_type_error)"

definition json_string :: "json \<Rightarrow> string res" where
  "json_string j = (case j of JString s \<Rightarrow> Inr s | _ \<Rightarrow> Inl json_type_error)"

definition json_bool :: "json \<Rightarrow> bool res" where
  "json_bool j = (case j of JBool b \<Rightarrow> Inr b | _ \<Rightarrow> Inl json_type_error)"

definition enum_cast :: "(nat \<Rightarrow> 'e option) \<Rightarrow> ('a::len) word \<Rightarrow> 'e res" where
  "enum_cast of_num w =
     (case of_num (unat w) of Some e \<Rightarrow> Inr e | None \<Rightarrow> Inl (BadEnumerator (unat w)))"

text \<open>An enumeration is converted through its underlying integer type.\<close>

definition json_enum :: "('a::len) word itself \<Rightarrow> (nat \<Rightarrow> 'e option) \<Rightarrow> json \<Rightarrow> 'e res" where
  "json_enum T of_num j = res_bind (json_word j) (\<lambda>w :: 'a word. enum_cast of_num w)"

lemmas json_simps = json_set_def json_at_def json_contains_def json_word_def json_string_def
  json_bool_def json_enum_def json_narrow_def enum_cast_def

end
