(* ===== verification/Data_Type.thy ===== *)
theory Data_Type
  imports Logical_Type Json
begin

text \<open>
  \<^verbatim>\<open>src/parser/type/data_type.cpp\<close>, \<^verbatim>\<open>data_type.h\<close> and the type infos under
  \<^verbatim>\<open>src/parser/type/info/\<close>: a column type is a logical type with an optional description
  (precision, dimension, element types).  Modelled are its construction, comparison, size, the
  widening of two types, the binary serialisation and the parsing of literals.
\<close>

section \<open>Type infos\<close>

datatype sparse_store_type = SparseStore_kSort | SparseStore_kNotSort | SparseStore_kInvalid

fun SparseStoreType_num :: "sparse_store_type \<Rightarrow> nat" where
  "SparseStoreType_num SparseStore_kSort = 0"
| "SparseStoreType_num SparseStore_kNotSort = 1"
| "SparseStoreType_num SparseStore_kInvalid = 2"

definition SparseStoreType_of_num :: "nat \<Rightarrow> sparse_store_type option" where
  "SparseStoreType_of_num n =
     (if n = 0 then Some SparseStore_kSort else if n = 1 then Some SparseStore_kNotSort
      else if n = 2 then Some SparseStore_kInvalid else None)"

lemma SparseStoreType_of_num_num [simp]: "SparseStoreType_of_num (SparseStoreType_num t) = Some t"
  by (cases t) (simp_all add: SparseStoreType_of_num_def)

datatype type_info =
    BitmapInfo u64
  | DecimalInfo i64 i64
  | EmbeddingInfo embedding_data_type u64
  | SparseInfo embedding_data_type embedding_data_type u64 sparse_store_type
  | ArrayInfo data_type
and data_type =
  DataType (dt_type: logical_type) (dt_plain: bool) (dt_info: "type_info option")

definition EMBEDDING_LIMIT_INTERNAL :: nat where
  "EMBEDDING_LIMIT_INTERNAL = 65536"

definition DecimalInfo_Make :: "i64 \<Rightarrow> i64 \<Rightarrow> type_info res" where
  "DecimalInfo_Make precision scale =
     (let p = (if precision = 0 \<and> scale = 0 then 38 else precision);
          s = (if precision = 0 \<and> scale = 0 then 38 else scale)
      in if \<not> sint s \<le> sint p then Inl (ParserError ''Decimal scale is greater than precision.'')
         else if \<not> sint p \<le> 38 then Inl (ParserError ''Decimal precision is greater than 38.'')
         else Inr (DecimalInfo p s))"

definition MAX_BITMAP_SIZE_INTERNAL :: int where
  "MAX_BITMAP_SIZE_INTERNAL = 65536"

definition BitmapInfo_Make :: "i64 \<Rightarrow> type_info res" where
  "BitmapInfo_Make limit =
     (if sint limit mod 8 \<noteq> 0 then Inl (ParserError ''Bitmap size should be the times of eight.'')
      else if \<not> (1 \<le> sint limit \<and> sint limit \<le> MAX_BITMAP_SIZE_INTERNAL)
      then Inl (ParserError ''Bitmap type length can't be less than 1 or larger than'')
      else Inr (BitmapInfo limit))"

definition EmbeddingInfo_Make :: "embedding_data_type \<Rightarrow> u64 \<Rightarrow> type_info res" where
  "EmbeddingInfo_Make embedding_data_type dimension =
     (if unat dimension \<le> EMBEDDING_LIMIT_INTERNAL
      then Inr (EmbeddingInfo embedding_data_type dimension)
      else Inl (ParserError ''Embedding dimension should less than 65536''))"

definition SparseInfo_index_type :: "u64 \<Rightarrow> embedding_data_type res" where
  "SparseInfo_index_type dimension =
     (if unat dimension \<le> 2 ^ 7 then Inr kElemInt8
      else if unat dimension \<le> 2 ^ 15 then Inr kElemInt16
      else if unat dimension \<le> 2 ^ 31 then Inr kElemInt32
      else if unat dimension \<le> 2 ^ 63 then Inr kElemInt64
      else Inl (ParserError ''Sparse embedding dimension is too large''))"

text \<open>\<open>None\<close> is the null pointer that \<^verbatim>\<open>SparseInfo::Make\<close> returns for rejected arguments.\<close>

definition SparseInfo_Make ::
  "embedding_data_type \<Rightarrow> u64 \<Rightarrow> sparse_store_type \<Rightarrow> type_info option res" where
  "SparseInfo_Make data_type dimension store_type =
     (if dimension = 0 \<or> store_type = SparseStore_kInvalid then Inr None
      else res_bind (SparseInfo_index_type dimension) (\<lambda>index_type.
             Inr (Some (SparseInfo data_type index_type dimension store_type))))"

definition SparseInfo_ParseStoreType :: "string list \<Rightarrow> sparse_store_type" where
  "SparseInfo_ParseStoreType options =
     foldl (\<lambda>_ param_name.
        if param_name = ''sort'' then SparseStore_kSort
        else if param_name = ''notsort'' then SparseStore_kNotSort
        else SparseStore_kInvalid) SparseStore_kSort options"

definition EmbeddingDataTypeToString :: "embedding_data_type \<Rightarrow> string res" where
  "EmbeddingDataTypeToString t =
     (case t of
        kElemBit \<Rightarrow> Inr ''bit''
      | kElemInt8 \<Rightarrow> Inr ''int8''
      | kElemInt16 \<Rightarrow> Inr ''int16''
      | kElemInt32 \<Rightarrow> Inr ''int32''
      | kElemInt64 \<Rightarrow> Inr ''int64''
      | kElemFloat \<Rightarrow> Inr ''float''
      | kElemDouble \<Rightarrow> Inr ''double''
      | kElemInvalid \<Rightarrow> Inl (ParserError ''Unexpected embedding type''))"

section \<open>Construction, printing and comparison\<close>

fun DataType_plain :: "logical_type \<Rightarrow> bool" where
  "DataType_plain logical_type =
     (if logical_type = kBoolean then False
      else if logical_type \<in> set [kTinyInt, kSmallInt, kInteger, kBigInt, kHugeInt, kDecimal, kFloat,
                kDouble, kDate, kTime, kDateTime, kTimestamp, kInterval, kPoint, kLine, kLineSeg,
                kBox, kCircle, kUuid, kEmbedding, kRowID] then True
      else if logical_type \<in> set [kMixed, kVarchar, kSparse, kTensor, kTensorArray, kArray, kTuple]
      then False
      else if logical_type \<in> set [kNull, kEmptyArray, kMissing] then True
      else False)"

definition DataType_new :: "logical_type \<Rightarrow> type_info option \<Rightarrow> data_type" where
  "DataType_new logical_type info = DataType logical_type (DataType_plain logical_type) info"

fun TypeInfo_ToString :: "type_info \<Rightarrow> string res"
and DataType_ToString :: "data_type \<Rightarrow> string res" where
  "TypeInfo_ToString (BitmapInfo n) = Inr (''bitmap('' @ std_to_string (int (unat n)) @ '')'')"
| "TypeInfo_ToString (DecimalInfo p s) =
     Inr (''decimal('' @ std_to_string (sint p) @ '', '' @ std_to_string (sint s) @ '')'')"
| "TypeInfo_ToString (EmbeddingInfo e d) =
     res_bind (EmbeddingDataTypeToString e) (\<lambda>n. Inr (n @ '','' @ std_to_string (int (unat d))))"
| "TypeInfo_ToString (SparseInfo dt it d st) =
     res_bind (EmbeddingDataTypeToString dt) (\<lambda>n.
     res_bind (EmbeddingDataTypeToString it) (\<lambda>m.
       Inr (n @ '','' @ m @ '','' @ std_to_string (int (unat d)))))"
| "TypeInfo_ToString (ArrayInfo elem) =
     res_bind (DataType_ToString elem) (\<lambda>s. Inr (''array('' @ s @ '')''))"
| "DataType_ToString (DataType t pl (Some info)) =
     res_bind (TypeInfo_ToString info) (\<lambda>s. Inr (LogicalType2Str t @ ''('' @ s @ '')''))"
| "DataType_ToString (DataType t pl None) = Inr (LogicalType2Str t)"

definition BitmapInfo_eq :: "u64 \<Rightarrow> type_info \<Rightarrow> bool" where
  "BitmapInfo_eq limit other = (case other of BitmapInfo limit' \<Rightarrow> limit = limit' | _ \<Rightarrow> False)"

definition DecimalInfo_eq :: "i64 \<Rightarrow> i64 \<Rightarrow> type_info \<Rightarrow> bool" where
  "DecimalInfo_eq p s other = (case other of DecimalInfo p' s' \<Rightarrow> p = p' \<and> s = s' | _ \<Rightarrow> False)"

definition EmbeddingInfo_eq :: "embedding_data_type \<Rightarrow> u64 \<Rightarrow> type_info \<Rightarrow> bool" where
  "EmbeddingInfo_eq e d other = (case other of EmbeddingInfo e' d' \<Rightarrow> d = d' \<and> e = e' | _ \<Rightarrow> False)"

definition SparseInfo_eq :: "embedding_data_type \<Rightarrow> embedding_data_type \<Rightarrow> u64 \<Rightarrow> type_info \<Rightarrow> bool" where
  "SparseInfo_eq dt it d other =
     (case other of SparseInfo dt' it' d' st' \<Rightarrow> dt = dt' \<and> it = it' \<and> d = d' | _ \<Rightarrow> False)"

fun TypeInfo_eq :: "type_info \<Rightarrow> type_info \<Rightarrow> bool"
and DataType_eq :: "data_type \<Rightarrow> data_type \<Rightarrow> bool" where
  "TypeInfo_eq (BitmapInfo n) other \<longleftrightarrow> BitmapInfo_eq n other"
| "TypeInfo_eq (DecimalInfo p s) other \<longleftrightarrow> DecimalInfo_eq p s other"
| "TypeInfo_eq (EmbeddingInfo e d) other \<longleftrightarrow> EmbeddingInfo_eq e d other"
| "TypeInfo_eq (SparseInfo dt it d st) other \<longleftrightarrow> SparseInfo_eq dt it d other"
| "TypeInfo_eq (ArrayInfo a) other \<longleftrightarrow> (case other of ArrayInfo b \<Rightarrow> DataType_eq a b | _ \<Rightarrow> False)"
| "DataType_eq (DataType t pl info) (DataType t' pl' info') \<longleftrightarrow>
     (if t \<noteq> t' then False
      else if pl \<noteq> pl' then False
      else case info of
          None \<Rightarrow> (case info' of None \<Rightarrow> True | Some _ \<Rightarrow> False)
        | Some i \<Rightarrow> (case info' of None \<Rightarrow> False | Some i' \<Rightarrow> TypeInfo_eq i i'))"

definition TypeInfo_Size :: "type_info \<Rightarrow> u64 res" where
  "TypeInfo_Size info =
     (case info of
        BitmapInfo n \<Rightarrow> Inr n
      | DecimalInfo p s \<Rightarrow> Inr 16
      | EmbeddingInfo e d \<Rightarrow> EmbeddingSize e d
      | SparseInfo dt it d st \<Rightarrow> Inr 16
      | ArrayInfo elem \<Rightarrow> Inr 8)"

definition DataType_Size :: "data_type \<Rightarrow> u64 res" where
  "DataType_Size dt =
     (case dt_info dt of
        Some info \<Rightarrow>
          if dt_type dt \<noteq> kTensor \<and> dt_type dt \<noteq> kTensorArray then TypeInfo_Size info
          else Inr (word_of_int (LogicalTypeWidth (dt_type dt)))
      | None \<Rightarrow> Inr (word_of_int (LogicalTypeWidth (dt_type dt))))"

section \<open>Classification and widening\<close>

definition IsNumeric :: "data_type \<Rightarrow> bool" where
  "IsNumeric dt \<longleftrightarrow>
     dt_type dt \<in> set [kTinyInt, kSmallInt, kInteger, kBigInt, kHugeInt, kFloat, kDouble, kDecimal]"

definition CanBuildSecondaryIndex :: "data_type \<Rightarrow> bool" where
  "CanBuildSecondaryIndex dt \<longleftrightarrow>
     dt_type dt \<in> set [kTinyInt, kSmallInt, kInteger, kBigInt, kFloat, kDouble, kDate, kTime,
       kDateTime, kTimestamp, kVarchar]"

definition SupportMinMaxFilter :: "data_type \<Rightarrow> bool" where
  "SupportMinMaxFilter dt \<longleftrightarrow>
     dt_type dt \<in> set [kTinyInt, kSmallInt, kInteger, kBigInt, kHugeInt, kFloat, kDouble, kVarchar,
       kDate, kTime, kDateTime, kTimestamp]"

definition SupportBloomFilter :: "data_type \<Rightarrow> bool" where
  "SupportBloomFilter dt \<longleftrightarrow>
     dt_type dt \<in> set [kBoolean, kTinyInt, kSmallInt, kInteger, kBigInt, kHugeInt, kDecimal, kVarchar,
       kDate, kTime, kDateTime, kTimestamp]"

definition MaxDataType :: "data_type \<Rightarrow> data_type \<Rightarrow> data_type res" where
  "MaxDataType this right =
     (if DataType_eq this right then Inr this
      else if dt_type this = kInvalid then Inr right
      else if dt_type right = kInvalid then Inr this
      else if IsNumeric this \<and> IsNumeric right then
        (if LogicalType_num (dt_type this) > LogicalType_num (dt_type right) then Inr this else Inr right)
      else if dt_type this = kVarchar then Inr this
      else if dt_type right = kVarchar then Inr right
      else if dt_type this = kDateTime \<and> dt_type right = kTimestamp then Inr right
      else if dt_type this = kTimestamp \<and> dt_type right = kDateTime then Inr this
      else Inl (ParserError ''Max type of left and right''))"

section \<open>Binary serialisation\<close>

definition DataType_GetSizeInBytes :: "data_type \<Rightarrow> i32 res" where
  "DataType_GetSizeInBytes dt =
     (if dt_info dt = None then Inr 1
      else if dt_type dt = kArray then Inl (ParserError ''Array isn't implemented here.'')
      else if dt_type dt = kDecimal then Inr (1 + 8 * 2)
      else if dt_type dt \<in> set [kTensor, kTensorArray, kEmbedding] then Inr (1 + 1 + 4)
      else if dt_type dt = kSparse then Inr (1 + 1 * 2 + 8 + 1)
      else Inl (ParserError ''Unexpected type here.''))"

text \<open>
  \<^verbatim>\<open>dynamic_cast\<close> of another kind of info gives the null pointer; the \<^verbatim>\<open>static_cast\<close> in the sparse
  case is undefined on another kind of info.
\<close>

definition DataType_WriteAdv_info :: "logical_type \<Rightarrow> type_info option \<Rightarrow> byte list res" where
  "DataType_WriteAdv_info type info =
     (if type = kArray then Inl (ParserError ''Array isn't implemented here.'')
      else if type = kDecimal then
        (case info of
           Some (DecimalInfo precision scale) \<Rightarrow> Inr (WriteBufAdv precision @ WriteBufAdv scale)
         | _ \<Rightarrow> Inr (WriteBufAdv (0 :: i64) @ WriteBufAdv (0 :: i64)))
      else if type \<in> set [kTensor, kTensorArray, kEmbedding] then
        (case info of
           Some (EmbeddingInfo e dimension) \<Rightarrow>
             Inr (WriteBufAdv (word_of_nat (EmbeddingDataType_num e) :: i8)
                  @ WriteBufAdv (ucast dimension :: i32))
         | _ \<Rightarrow> Inl (ParserError ''kEmbedding associated type_info is nullptr here.''))
      else if type = kSparse then
        (case info of
           Some (SparseInfo data_type index_type dimension store_type) \<Rightarrow>
             Inr (WriteBufAdv (word_of_nat (EmbeddingDataType_num data_type) :: i8)
                  @ WriteBufAdv (word_of_nat (EmbeddingDataType_num index_type) :: i8)
                  @ WriteBufAdv (dimension :: i64)
                  @ WriteBufAdv (word_of_nat (SparseStoreType_num store_type) :: i8))
         | _ \<Rightarrow> Inl UndefinedBehaviour)
      else Inr [])"

definition DataType_WriteAdv :: "data_type \<Rightarrow> byte list res" where
  "DataType_WriteAdv dt =
     wr_cat (Inr (WriteBufAdv (word_of_nat (LogicalType_num (dt_type dt)) :: i8)))
       (DataType_WriteAdv_info (dt_type dt) (dt_info dt))"

definition DataType_ReadAdv_info :: "logical_type \<Rightarrow> type_info option reader" where
  "DataType_ReadAdv_info type =
     (if type = kArray then rd_fail (ParserError ''Array isn't implemented here.'')
      else if type = kDecimal then
        rd_bind ReadBufAdv (\<lambda>precision :: i64.
        rd_bind ReadBufAdv (\<lambda>scale :: i64.
        rd_bind (rd_lift (DecimalInfo_Make precision scale)) (\<lambda>info.
        rd_return (Some info))))
      else if type \<in> set [kTensor, kTensorArray, kEmbedding] then
        rd_bind (rd_enum TYPE(8 word) EmbeddingDataType_of_num) (\<lambda>embedding_type.
        rd_bind ReadBufAdv (\<lambda>dimension :: i32.
        rd_bind (rd_lift (EmbeddingInfo_Make embedding_type (scast dimension))) (\<lambda>info.
        rd_return (Some info))))
      else if type = kSparse then
        rd_bind (rd_enum TYPE(8 word) EmbeddingDataType_of_num) (\<lambda>data_type.
        rd_bind (rd_enum TYPE(8 word) EmbeddingDataType_of_num) (\<lambda>index_type.
        rd_bind ReadBufAdv (\<lambda>dimension :: i64.
        rd_bind (rd_enum TYPE(8 word) SparseStoreType_of_num) (\<lambda>store_type.
        rd_bind (rd_lift (SparseInfo_Make data_type dimension store_type)) (\<lambda>sparse_info.
          case sparse_info of
            Some (SparseInfo a made_index d st) \<Rightarrow>
              if index_type \<noteq> made_index
              then rd_fail (ParserError ''Sparse index type is not consistent.'')
              else rd_return sparse_info
          | _ \<Rightarrow> rd_fail UndefinedBehaviour)))))
      else rd_return None)"

definition DataType_ReadAdv :: "int \<Rightarrow> data_type reader" where
  "DataType_ReadAdv maxbytes =
     rd_bind rd_left (\<lambda>start.
     rd_bind (rd_enum TYPE(8 word) LogicalType_of_num) (\<lambda>type.
     rd_bind (DataType_ReadAdv_info type) (\<lambda>info.
     rd_bind rd_left (\<lambda>now.
       if \<not> 0 \<le> ptr_room maxbytes start now
       then rd_fail (ParserError ''ptr goes out of range when reading DataType'')
       else rd_return (DataType_new type info)))))"

text \<open>The data types that the format represents: the ones the constructors of the infos accept.\<close>

definition valid_type_info :: "logical_type \<Rightarrow> type_info option \<Rightarrow> bool" where
  "valid_type_info type info \<longleftrightarrow>
     (if type = kArray then False
      else if type = kDecimal then
        (case info of Some (DecimalInfo p s) \<Rightarrow> DecimalInfo_Make p s = Inr (DecimalInfo p s) | _ \<Rightarrow> False)
      else if type \<in> set [kTensor, kTensorArray, kEmbedding] then
        (case info of Some (EmbeddingInfo e d) \<Rightarrow> EmbeddingInfo_Make e d = Inr (EmbeddingInfo e d) | _ \<Rightarrow> False)
      else if type = kSparse then
        (case info of
           Some (SparseInfo dt it d st) \<Rightarrow> SparseInfo_Make dt d st = Inr (Some (SparseInfo dt it d st))
         | _ \<Rightarrow> False)
      else info = None)"

definition valid_data_type :: "data_type \<Rightarrow> bool" where
  "valid_data_type dt \<longleftrightarrow>
     dt_plain dt = DataType_plain (dt_type dt) \<and> valid_type_info (dt_type dt) (dt_info dt)"

section \<open>JSON serialisation\<close>

definition BitmapInfo_Serialize :: "u64 \<Rightarrow> json res" where
  "BitmapInfo_Serialize n = json_set ''length_limit'' (JNumber (int (unat n))) JNull"

definition DecimalInfo_Serialize :: "i64 \<Rightarrow> i64 \<Rightarrow> json res" where
  "DecimalInfo_Serialize p s =
     res_bind (json_set ''precision'' (JNumber (sint p)) JNull)
       (json_set ''scale'' (JNumber (sint s)))"

definition EmbeddingInfo_Serialize :: "embedding_data_type \<Rightarrow> u64 \<Rightarrow> json res" where
  "EmbeddingInfo_Serialize e d =
     res_bind (json_set ''dimension'' (JNumber (int (unat d))) JNull)
       (json_set ''embedding_type'' (JNumber (int (EmbeddingDataType_num e))))"

definition SparseInfo_Serialize ::
  "embedding_data_type \<Rightarrow> embedding_data_type \<Rightarrow> u64 \<Rightarrow> sparse_store_type \<Rightarrow> json res" where
  "SparseInfo_Serialize dt it d st =
     res_bind (json_set ''data_type'' (JNumber (int (EmbeddingDataType_num dt))) JNull) (\<lambda>j.
     res_bind (json_set ''index_type'' (JNumber (int (EmbeddingDataType_num it))) j) (\<lambda>j.
     res_bind (json_set ''dimension'' (JNumber (int (unat d))) j)
       (json_set ''sort'' (JNumber (int (SparseStoreType_num st))))))"

definition TypeInfo_Serialize :: "type_info \<Rightarrow> json res" where
  "TypeInfo_Serialize info =
     (case info of
        BitmapInfo n \<Rightarrow> BitmapInfo_Serialize n
      | DecimalInfo p s \<Rightarrow> DecimalInfo_Serialize p s
      | EmbeddingInfo e d \<Rightarrow> EmbeddingInfo_Serialize e d
      | SparseInfo dt it d st \<Rightarrow> SparseInfo_Serialize dt it d st
      | ArrayInfo elem \<Rightarrow> Inl (ParserError ''ArrayInfo::Serialize''))"

lemmas TypeInfo_Serialize_simps = TypeInfo_Serialize_def BitmapInfo_Serialize_def
  DecimalInfo_Serialize_def EmbeddingInfo_Serialize_def SparseInfo_Serialize_def

definition SparseInfo_Deserialize :: "json \<Rightarrow> type_info res" where
  "SparseInfo_Deserialize j =
     res_bind (res_bind (json_at j ''sort'') (\<lambda>v. res_bind (json_narrow v :: i8 res) (enum_cast SparseStoreType_of_num))) (\<lambda>store_type.
     res_bind (res_bind (json_at j ''data_type'') (json_enum TYPE(8 word) EmbeddingDataType_of_num)) (\<lambda>dt.
     res_bind (res_bind (json_at j ''index_type'') (json_enum TYPE(8 word) EmbeddingDataType_of_num)) (\<lambda>it.
     res_bind (res_bind (json_at j ''dimension'') json_word) (\<lambda>d.
       Inr (SparseInfo dt it d store_type)))))"

definition DataType_Serialize :: "data_type \<Rightarrow> json res" where
  "DataType_Serialize dt =
     res_bind (json_set ''data_type'' (JNumber (int (LogicalType_num (dt_type dt)))) JNull) (\<lambda>j.
       case dt_info dt of
         None \<Rightarrow> Inr j
       | Some info \<Rightarrow> res_bind (TypeInfo_Serialize info) (\<lambda>i. json_set ''type_info'' i j))"

definition DataType_Deserialize_info :: "logical_type \<Rightarrow> json \<Rightarrow> type_info option res" where
  "DataType_Deserialize_info type j =
     (if type = kArray then Inl (ParserError ''Array isn't implemented here.'')
      else if type = kDecimal then
        res_bind (res_bind (json_at j ''precision'') json_word) (\<lambda>p.
        res_bind (res_bind (json_at j ''scale'') json_word) (\<lambda>s.
        res_bind (DecimalInfo_Make p s) (\<lambda>i. Inr (Some i))))
      else if type \<in> set [kTensor, kTensorArray, kEmbedding] then
        res_bind (res_bind (json_at j ''embedding_type'') (json_enum TYPE(8 word) EmbeddingDataType_of_num)) (\<lambda>e.
        res_bind (res_bind (json_at j ''dimension'') json_word) (\<lambda>d.
        res_bind (EmbeddingInfo_Make e d) (\<lambda>i. Inr (Some i))))
      else if type = kSparse then res_bind (SparseInfo_Deserialize j) (\<lambda>i. Inr (Some i))
      else Inr None)"

definition DataType_Deserialize :: "json \<Rightarrow> data_type res" where
  "DataType_Deserialize j =
     res_bind (res_bind (json_at j ''data_type'') (json_enum TYPE(8 word) LogicalType_of_num)) (\<lambda>logical_type.
       if json_contains j ''type_info'' then
         res_bind (json_at j ''type_info'') (\<lambda>ti.
         res_bind (DataType_Deserialize_info logical_type ti) (\<lambda>info.
           Inr (DataType_new logical_type info)))
       else Inr (DataType_new logical_type None))"

text \<open>\<open>None\<close> is the null pointer returned for the types that need a description.\<close>

definition DataType_StringDeserialize :: "string \<Rightarrow> data_type option res" where
  "DataType_StringDeserialize s =
     (let logical_type = Str2LogicalType s
      in if logical_type \<in> set [kArray, kDecimal, kEmbedding] then Inr None
         else if logical_type = kInvalid then Inl (ParserError ''Invalid data type'')
         else Inr (Some (DataType_new logical_type None)))"

section \<open>Type names\<close>

text \<open>The C++ types with a specialisation of \<^verbatim>\<open>DataType::TypeToString\<close>, and any other type.\<close>

datatype value_type =
    BooleanT | TinyIntT | SmallIntT | IntegerT | BigIntT | HugeIntT | FloatT | DoubleT | DecimalT
  | VarcharT | DateT | TimeT | DateTimeT | TimestampT | IntervalT | ArrayT | PointT | LineT
  | LineSegT | BoxT | CircleT | UuidT | EmbeddingT | RowID_T | MixedT | TensorT | TensorArrayT
  | OtherT

definition TypeToString :: "value_type \<Rightarrow> string res" where
  "TypeToString t =
     (case t of
        BooleanT \<Rightarrow> Inr ''Boolean'' | TinyIntT \<Rightarrow> Inr ''TinyInt'' | SmallIntT \<Rightarrow> Inr ''SmallInt''
      | IntegerT \<Rightarrow> Inr ''Integer'' | BigIntT \<Rightarrow> Inr ''BigInt'' | HugeIntT \<Rightarrow> Inr ''HugeInt''
      | FloatT \<Rightarrow> Inr ''Float'' | DoubleT \<Rightarrow> Inr ''Double'' | DecimalT \<Rightarrow> Inr ''Decimal''
      | VarcharT \<Rightarrow> Inr ''Varchar'' | DateT \<Rightarrow> Inr ''Date'' | TimeT \<Rightarrow> Inr ''Time''
      | DateTimeT \<Rightarrow> Inr ''DateTime'' | TimestampT \<Rightarrow> Inr ''Timestamp''
      | IntervalT \<Rightarrow> Inr ''Interval'' | ArrayT \<Rightarrow> Inr ''Array'' | PointT \<Rightarrow> Inr ''Point''
      | LineT \<Rightarrow> Inr ''Line'' | LineSegT \<Rightarrow> Inr ''LineSegment'' | BoxT \<Rightarrow> Inr ''Box''
      | CircleT \<Rightarrow> Inr ''Circle'' | UuidT \<Rightarrow> Inr ''UUID'' | EmbeddingT \<Rightarrow> Inr ''Embedding''
      | RowID_T \<Rightarrow> Inr ''RowID'' | MixedT \<Rightarrow> Inr ''Heterogeneous'' | TensorT \<Rightarrow> Inr ''Tensor''
      | TensorArrayT \<Rightarrow> Inr ''TensorArray''
      | OtherT \<Rightarrow> Inl (ParserError ''Unexpected date type.''))"

section \<open>Literals\<close>

definition StringToValue_BooleanT :: "string \<Rightarrow> bool res" where
  "StringToValue_BooleanT str =
     (if str = [] then Inr False
      else let str_lower = map tolower str
           in if \<not> (str_lower = ''true'' \<or> str_lower = ''false'')
              then Inl (ParserError ''Boolean type should be true or false'')
              else Inr (str_lower = ''true''))"

text \<open>
  The integer instances share their shape.  \<^verbatim>\<open>std::from_chars\<close> leaves \<^verbatim>\<open>value\<close> at zero when it
  reports an error, and the code looks at the end pointer only, not at the error.
\<close>

definition StringToValue_int :: "string \<Rightarrow> string \<Rightarrow> ('a::len) word res" where
  "StringToValue_int message str =
     (if str = [] then Inr 0
      else let res = from_chars (- (2 ^ (LENGTH('a) - 1))) (2 ^ (LENGTH('a) - 1) - 1) str;
               value = (case snd res of Some i \<Rightarrow> word_of_int i | None \<Rightarrow> 0)
           in if fst res \<noteq> length str then Inl (ParserError message) else Inr value)"

definition StringToValue_TinyIntT :: "string \<Rightarrow> i8 res" where
  "StringToValue_TinyIntT = StringToValue_int ''Error: parse tiny integer''"

definition StringToValue_SmallIntT :: "string \<Rightarrow> i16 res" where
  "StringToValue_SmallIntT = StringToValue_int ''Error: parse small integer''"

definition StringToValue_IntegerT :: "string \<Rightarrow> i32 res" where
  "StringToValue_IntegerT = StringToValue_int ''Error: parse integer''"

definition StringToValue_BigIntT :: "string \<Rightarrow> i64 res" where
  "StringToValue_BigIntT = StringToValue_int ''Error: parse big integer''"

definition StringToSparseValue ::
  "(string \<Rightarrow> 'i res) \<Rightarrow> (string \<Rightarrow> 't res) \<Rightarrow> string \<Rightarrow> ('i \<times> 't) res" where
  "StringToSparseValue to_idx to_val sv =
     (let idx_str = takeWhile (\<lambda>c. c \<noteq> CHR '':'') sv
      in if length idx_str = length sv then Inl (ParserError ''Sparse value format: index:value'')
         else res_bind (to_idx idx_str) (\<lambda>idx.
              res_bind (to_val (drop (length idx_str + 1) sv)) (\<lambda>val. Inr (idx, val))))"

section \<open>The serialised forms\<close>

lemma enum_num_bounds [simp]:
  "LogicalType_num t < 256" "EmbeddingDataType_num e < 256" "SparseStoreType_num s < 256"
  by (cases t, simp_all) (cases e, simp_all, cases s, simp_all)

lemma scast_ucast_dimension:
  assumes "unat (d :: u64) \<le> 65536"
  shows "scast (ucast d :: i32) = d"
proof -
  obtain n where d: "d = word_of_nat n" and n: "n \<le> 65536"
    using assms that [of "unat d"] by simp
  have "(ucast d :: i32) = word_of_nat n"
    using n by (simp add: d unsigned_of_nat take_bit_nat_eq_self)
  moreover have "sint (word_of_nat n :: i32) = int n"
    using n by (intro sint_word_of_nat32) simp
  ultimately show ?thesis by (simp add: d scast_eq)
qed

lemma DataType_info_round_trip:
  assumes "valid_type_info t info"
  shows "\<exists>bs. DataType_WriteAdv_info t info = Inr bs \<and>
           (\<forall>rest. DataType_ReadAdv_info t (bs @ rest) = Inr (info, rest)) \<and>
           DataType_GetSizeInBytes (DataType t pl info) = Inr (1 + word_of_nat (length bs))"
proof -
  consider "t = kDecimal" | "t \<in> {kTensor, kTensorArray, kEmbedding}" | "t = kSparse"
    | "t \<notin> {kArray, kDecimal, kTensor, kTensorArray, kEmbedding, kSparse}"
    using assms by (auto simp: valid_type_info_def split: if_splits)
  then show ?thesis
  proof cases
    case 1
    then show ?thesis using assms
      by (auto simp: valid_type_info_def DataType_WriteAdv_info_def DataType_ReadAdv_info_def
          DataType_GetSizeInBytes_def codec_simps split: option.splits type_info.splits)
  next
    case 2
    then show ?thesis using assms
      by (auto simp: valid_type_info_def DataType_WriteAdv_info_def DataType_ReadAdv_info_def
          DataType_GetSizeInBytes_def EmbeddingInfo_Make_def EMBEDDING_LIMIT_INTERNAL_def
          scast_ucast_dimension codec_simps split: option.splits type_info.splits if_splits)
  next
    case 3
    then show ?thesis using assms
      by (auto simp: valid_type_info_def DataType_WriteAdv_info_def DataType_ReadAdv_info_def
          DataType_GetSizeInBytes_def codec_simps split: option.splits type_info.splits if_splits)
  next
    case 4
    then show ?thesis using assms
      by (auto simp: valid_type_info_def DataType_WriteAdv_info_def DataType_ReadAdv_info_def
          DataType_GetSizeInBytes_def codec_simps split: if_splits)
  qed
qed

lemma DataType_codec:
  assumes "valid_data_type dt"
  shows "\<exists>bs. DataType_WriteAdv dt = Inr bs \<and>
           (\<forall>m rest. int (length bs) \<le> m \<longrightarrow> DataType_ReadAdv m (bs @ rest) = Inr (dt, rest)) \<and>
           DataType_GetSizeInBytes dt = Inr (word_of_nat (length bs))"
proof (cases dt)
  case (DataType t pl info)
  with assms have v: "valid_type_info t info" and pl: "pl = DataType_plain t"
    by (simp_all add: valid_data_type_def)
  from DataType_info_round_trip [OF v, of pl] obtain bs where
    bs: "DataType_WriteAdv_info t info = Inr bs"
      "\<And>rest. DataType_ReadAdv_info t (bs @ rest) = Inr (info, rest)"
      "DataType_GetSizeInBytes (DataType t pl info) = Inr (1 + word_of_nat (length bs))"
    by auto
  show ?thesis
    by (simp add: DataType pl DataType_WriteAdv_def DataType_ReadAdv_def bs [unfolded pl]
        ptr_room_def DataType_new_def codec_simps del: DataType_plain.simps)
qed

interpretation data_type_codec:
  sized_codec valid_data_type DataType_WriteAdv DataType_ReadAdv DataType_GetSizeInBytes
  by unfold_locales (use DataType_codec in fastforce)+

section \<open>Comparison up to the storage order of sparse types\<close>

text \<open>\<^verbatim>\<open>SparseInfo::operator==\<close> does not look at the store type; everything else is compared.\<close>

fun forget_store_info :: "type_info \<Rightarrow> type_info"
and forget_store :: "data_type \<Rightarrow> data_type" where
  "forget_store_info (SparseInfo dt it d st) = SparseInfo dt it d SparseStore_kSort"
| "forget_store_info (ArrayInfo e) = ArrayInfo (forget_store e)"
| "forget_store_info info = info"
| "forget_store (DataType t pl info) = DataType t pl (map_option forget_store_info info)"

lemma TypeInfo_eq_iff: "TypeInfo_eq a b \<longleftrightarrow> forget_store_info a = forget_store_info b"
  and DataType_eq_iff: "DataType_eq x y \<longleftrightarrow> forget_store x = forget_store y"
proof (induction a b and x y rule: TypeInfo_eq_DataType_eq.induct)
  case (6 t pl info t' pl' info')
  then show ?case by (auto split: option.splits)
qed (auto simp: BitmapInfo_eq_def DecimalInfo_eq_def EmbeddingInfo_eq_def SparseInfo_eq_def
    split: type_info.splits)

lemma DataType_eq_refl [simp]: "DataType_eq x x"
  by (simp add: DataType_eq_iff)

lemma DataType_eq_sym: "DataType_eq x y \<longleftrightarrow> DataType_eq y x"
  by (auto simp: DataType_eq_iff)

lemma DataType_eq_type: "DataType_eq x y \<Longrightarrow> dt_type x = dt_type y"
  by (cases x; cases y) (auto split: if_splits)

section \<open>The JSON form\<close>

lemma unat_word_of_enum [simp]:
  "unat (word_of_nat (LogicalType_num t) :: 8 word) = LogicalType_num t"
  "unat (word_of_nat (EmbeddingDataType_num e) :: 8 word) = EmbeddingDataType_num e"
  "unat (word_of_nat (SparseStoreType_num st) :: 8 word) = SparseStoreType_num st"
  by (simp_all add: unat_of_nat)

lemma TypeInfo_json_round_trip:
  assumes "valid_type_info t (Some info)"
  shows "\<exists>j. TypeInfo_Serialize info = Inr j \<and> DataType_Deserialize_info t j = Inr (Some info)"
proof (cases info)
  case (DecimalInfo p s)
  with assms have "t = kDecimal" "DecimalInfo_Make p s = Inr (DecimalInfo p s)"
    by (simp_all add: valid_type_info_def split: if_splits)
  then show ?thesis by (simp add: DecimalInfo DataType_Deserialize_info_def TypeInfo_Serialize_simps json_simps)
next
  case (EmbeddingInfo e d)
  with assms have "t \<in> {kTensor, kTensorArray, kEmbedding}" "EmbeddingInfo_Make e d = Inr (EmbeddingInfo e d)"
    by (simp_all add: valid_type_info_def split: if_splits)
  then show ?thesis by (auto simp: EmbeddingInfo DataType_Deserialize_info_def TypeInfo_Serialize_simps json_simps)
next
  case (SparseInfo dt it d st)
  with assms have "t = kSparse" by (simp add: valid_type_info_def split: if_splits)
  then show ?thesis
    by (simp add: SparseInfo DataType_Deserialize_info_def SparseInfo_Deserialize_def
        TypeInfo_Serialize_simps json_simps)
qed (use assms in \<open>simp_all add: valid_type_info_def split: if_splits\<close>)

lemma DataType_json_round_trip:
  assumes "valid_data_type dt"
  shows "res_bind (DataType_Serialize dt) DataType_Deserialize = Inr dt"
proof (cases dt)
  case (DataType t pl info)
  with assms have v: "valid_type_info t info" and pl: "pl = DataType_plain t"
    by (simp_all add: valid_data_type_def)
  show ?thesis
  proof (cases info)
    case None
    then show ?thesis
      by (simp add: DataType pl DataType_Serialize_def DataType_Deserialize_def DataType_new_def
          json_simps del: DataType_plain.simps)
  next
    case (Some i)
    with v TypeInfo_json_round_trip obtain j where
      "TypeInfo_Serialize i = Inr j" "DataType_Deserialize_info t j = Inr (Some i)" by blast
    then show ?thesis
      by (simp add: DataType pl Some DataType_Serialize_def DataType_Deserialize_def
          DataType_new_def json_simps del: DataType_plain.simps)
  qed
qed

section \<open>Properties\<close>



text \<open>
  The JSON form of such a data type is read back to the same data type.
\<close>

theorem DataType_Serialize_Deserialize:
  assumes "valid_data_type dt"
  shows "\<exists>j. DataType_Serialize dt = Inr j \<and> DataType_Deserialize j = Inr dt"
  using DataType_json_round_trip [OF assms] by (auto simp: res_bind_eq_Inr)

theorem DataType_Serialize_Deserialize_witness:
  "\<exists>j. DataType_Serialize (DataType_new kDecimal (Some (DecimalInfo 12 4))) = Inr j
     \<and> DataType_Deserialize j = Inr (DataType_new kDecimal (Some (DecimalInfo 12 4)))"
  by (rule DataType_Serialize_Deserialize)
    (simp add: valid_data_type_def valid_type_info_def DataType_new_def DecimalInfo_Make_def)

text \<open>
  A decimal type without a description takes one byte according to \<^verbatim>\<open>GetSizeInBytes\<close>, but
  \<^verbatim>\<open>WriteAdv\<close> stores 17 bytes for it, and reading them gives \<^verbatim>\<open>Decimal(38,38)\<close>.
\<close>

theorem Decimal_without_info:
  "DataType_GetSizeInBytes (DataType_new kDecimal None) = Inr 1
   \<and> (\<exists>bs. DataType_WriteAdv (DataType_new kDecimal None) = Inr bs \<and> length bs = 17
        \<and> DataType_ReadAdv 17 bs = Inr (DataType_new kDecimal (Some (DecimalInfo 38 38)), []))"
proof -
  define bs where "bs = WriteBufAdv (6 :: i8) @ WriteBufAdv (0 :: i64) @ WriteBufAdv (0 :: i64)"
  have "DataType_WriteAdv (DataType_new kDecimal None) = Inr bs"
    by (simp add: DataType_WriteAdv_def DataType_new_def DataType_WriteAdv_info_def bs_def)
  moreover have "rd_enum TYPE(8 word) LogicalType_of_num (WriteBufAdv (6 :: i8) @ rest)
      = Inr (kDecimal, rest)" for rest
    using rd_enum_WriteBufAdv(1) [of LogicalType_of_num 6 kDecimal]
      LogicalType_of_num_num [of kDecimal] by simp
  then have "DataType_ReadAdv 17 bs = Inr (DataType_new kDecimal (Some (DecimalInfo 38 38)), [])"
    by (simp add: bs_def DataType_ReadAdv_def DataType_ReadAdv_info_def DecimalInfo_Make_def
        ptr_room_def codec_simps)
  ultimately show ?thesis
    by (simp add: DataType_GetSizeInBytes_def DataType_new_def bs_def)
qed

text \<open>
  \<^verbatim>\<open>DataType::operator==\<close> is equality of logical type, plainness and description, except that
  two sparse types which only differ in their store type compare equal.
\<close>

theorem DataType_eq_characterised:
  "DataType_eq x y \<longleftrightarrow> forget_store x = forget_store y"
  by (rule DataType_eq_iff)

text \<open>
  The widened type of two data types does not depend on their order (as a logical type, errors
  included), it is one of the two, and for two numeric types it is the one declared later.
\<close>

theorem MaxDataType_join:
  "(case MaxDataType a b of
      Inl e \<Rightarrow> MaxDataType b a = Inl e
    | Inr c \<Rightarrow> (c = a \<or> c = b)
        \<and> (case MaxDataType b a of Inl _ \<Rightarrow> False | Inr d \<Rightarrow> dt_type d = dt_type c)
        \<and> (if IsNumeric a \<and> IsNumeric b
           then LogicalType_num (dt_type c) = max (LogicalType_num (dt_type a)) (LogicalType_num (dt_type b))
           else True))"
proof -
  consider "DataType_eq a b" | "\<not> DataType_eq a b" "IsNumeric a" "IsNumeric b"
    | "\<not> DataType_eq a b" "\<not> IsNumeric a" | "\<not> DataType_eq a b" "\<not> IsNumeric b"
    by blast
  then show ?thesis
  proof cases
    case 1
    then have "DataType_eq b a" using DataType_eq_sym by blast
    with 1 show ?thesis using DataType_eq_type [OF 1]
      by (simp add: MaxDataType_def)
  next
    case 2
    then have "dt_type a \<noteq> kInvalid" "dt_type b \<noteq> kInvalid" by (auto simp: IsNumeric_def)
    moreover have "\<not> DataType_eq b a" using 2 DataType_eq_sym by blast
    ultimately show ?thesis using 2
      by (simp add: MaxDataType_def max_def)
  next
    case 3
    then have "\<not> DataType_eq b a" using DataType_eq_sym by blast
    with 3 show ?thesis by (simp add: MaxDataType_def split: if_split)
  next
    case 4
    then have "\<not> DataType_eq b a" using DataType_eq_sym by blast
    with 4 show ?thesis by (simp add: MaxDataType_def split: if_split)
  qed
qed

definition logical_type_of :: "value_type \<Rightarrow> logical_type" where
  "logical_type_of t =
     (case t of
        BooleanT \<Rightarrow> kBoolean | TinyIntT \<Rightarrow> kTinyInt | SmallIntT \<Rightarrow> kSmallInt | IntegerT \<Rightarrow> kInteger
      | BigIntT \<Rightarrow> kBigInt | HugeIntT \<Rightarrow> kHugeInt | FloatT \<Rightarrow> kFloat | DoubleT \<Rightarrow> kDouble
      | DecimalT \<Rightarrow> kDecimal | VarcharT \<Rightarrow> kVarchar | DateT \<Rightarrow> kDate | TimeT \<Rightarrow> kTime
      | DateTimeT \<Rightarrow> kDateTime | TimestampT \<Rightarrow> kTimestamp | IntervalT \<Rightarrow> kInterval
      | ArrayT \<Rightarrow> kArray | PointT \<Rightarrow> kPoint | LineT \<Rightarrow> kLine | LineSegT \<Rightarrow> kLineSeg | BoxT \<Rightarrow> kBox
      | CircleT \<Rightarrow> kCircle | UuidT \<Rightarrow> kUuid | EmbeddingT \<Rightarrow> kEmbedding | RowID_T \<Rightarrow> kRowID
      | MixedT \<Rightarrow> kMixed | TensorT \<Rightarrow> kTensor | TensorArrayT \<Rightarrow> kTensorArray | OtherT \<Rightarrow> kInvalid)"

text \<open>
  The name printed for a C++ value type is the name of its logical type, and the table of names
  finds the logical type again from that name in lower case.
\<close>

theorem TypeToString_LogicalType:
  "(case TypeToString t of
      Inl _ \<Rightarrow> t = OtherT
    | Inr n \<Rightarrow> n = LogicalType2Str (logical_type_of t)
        \<and> Str2LogicalType (map tolower n) = logical_type_of t)"
  using Str2LogicalType_lower_name [of "logical_type_of t"]
  by (cases t) (simp_all add: TypeToString_def logical_type_of_def LogicalType2Str_def type2name_def)

text \<open>
  \<^verbatim>\<open>StringToValue<IntegerT>\<close> reads the decimal notation of a number back exactly when the
  number fits 32 bits; the notation of any other number is accepted as well, and gives 0.
\<close>

theorem StringToValue_IntegerT_decimal:
  "StringToValue_IntegerT (std_to_string i) =
     Inr (if - (2 ^ 31) \<le> i \<and> i < 2 ^ 31 then word_of_int i else 0)"
  by (simp add: StringToValue_IntegerT_def StringToValue_int_def from_chars_to_string Let_def)

end
