(* ===== verification/Date_Type.thy ===== *)
theory Date_Type
  imports Infinity_Prelude Text_Format "HOL-Library.Signed_Division"
begin

text \<open>
  \<^verbatim>\<open>src/parser/type/datetime/date_type.cpp\<close> and \<^verbatim>\<open>interval_type\<close>: a date is the number of days
  since 1970-01-01, converted from and to year, month and day with precomputed tables.  The tables
  are proved to be those of the proleptic Gregorian calendar, and the conversions to be inverse to
  each other.  An \<^verbatim>\<open>int32_t\<close> is an \<open>int\<close>; the places where the C++ arithmetic can leave the range
  of the type are explicit and are \<open>UndefinedBehaviour\<close>.  A function that returns \<^verbatim>\<open>bool\<close> and
  writes to output parameters yields \<open>None\<close> for \<^verbatim>\<open>false\<close>.
\<close>

section \<open>Integers and text\<close>

definition int32_ok :: "int \<Rightarrow> bool" where
  "int32_ok i \<longleftrightarrow> - (2 ^ 31) \<le> i \<and> i < 2 ^ 31"

definition int32 :: "int \<Rightarrow> int res" where
  "int32 i = (if int32_ok i then Inr i else Inl UndefinedBehaviour)"

lemma int32_simps [simp]: "int32_ok i \<Longrightarrow> int32 i = Inr i"
  by (simp add: int32_def)

text \<open>The memory behind a \<^verbatim>\<open>const char *\<close>; the text of a string view is a prefix of it.\<close>

definition char_at :: "char list \<Rightarrow> nat \<Rightarrow> char res" where
  "char_at mem pos = (if pos < length mem then Inr (mem ! pos) else Inl UndefinedBehaviour)"

function skip_spaces :: "char list \<Rightarrow> nat \<Rightarrow> nat \<Rightarrow> nat res" where
  "skip_spaces mem len pos =
     (if pos < len
      then res_bind (char_at mem pos) (\<lambda>c. if isspace c then skip_spaces mem len (pos + 1) else Inr pos)
      else Inr pos)"
  by pat_completeness auto
termination by (relation "measure (\<lambda>(mem, len, pos). len - pos)") auto

text \<open>
  The loops that read a number of year, month, day, hour, minute or second.  Their test for spaces
  is never reached: the loop only runs on digits.
\<close>

function scan_digits :: "int \<Rightarrow> char list \<Rightarrow> nat \<Rightarrow> nat \<Rightarrow> int \<Rightarrow> (nat \<times> int) option res" where
  "scan_digits limit mem len pos acc =
     (if pos < len
      then res_bind (char_at mem pos) (\<lambda>c.
        if isdigit c
        then let acc' = acc * 10 + digit_val c
             in if acc' > limit then Inr None else scan_digits limit mem len (pos + 1) acc'
        else Inr (Some (pos, acc)))
      else Inr (Some (pos, acc)))"
  by pat_completeness auto
termination by (relation "measure (\<lambda>(limit, mem, len, pos, acc). len - pos)") auto

declare skip_spaces.simps [simp del] scan_digits.simps [simp del]

section \<open>Intervals\<close>

datatype time_unit = kYear | kMonth | kDay | kHour | kMinute | kSecond | kInvalidUnit

record interval_type =
  iv_unit :: time_unit
  iv_value :: int

definition IntervalType_ToString :: "interval_type \<Rightarrow> string res" where
  "IntervalType_ToString iv =
     (case iv_unit iv of
        kYear \<Rightarrow> Inr (std_to_string (iv_value iv) @ '' YEAR'')
      | kMonth \<Rightarrow> Inr (std_to_string (iv_value iv) @ '' MONTH'')
      | kDay \<Rightarrow> Inr (std_to_string (iv_value iv) @ '' DAY'')
      | kHour \<Rightarrow> Inr (std_to_string (iv_value iv) @ '' HOUR'')
      | kMinute \<Rightarrow> Inr (std_to_string (iv_value iv) @ '' MINUTE'')
      | kSecond \<Rightarrow> Inr (std_to_string (iv_value iv) @ '' SECOND'')
      | kInvalidUnit \<Rightarrow> Inl (ParserError ''ToString() isn't implemented''))"

section \<open>Calendar tables\<close>

definition MIN_DATE_YEAR :: int where "MIN_DATE_YEAR = -1969"
definition MIN_DATE_MONTH :: int where "MIN_DATE_MONTH = 1"
definition MIN_DATE_DAY :: int where "MIN_DATE_DAY = 1"
definition MAX_DATE_YEAR :: int where "MAX_DATE_YEAR = 9999"
definition MAX_DATE_MONTH :: int where "MAX_DATE_MONTH = 12"
definition MAX_DATE_DAY :: int where "MAX_DATE_DAY = 31"
definition EPOCH_YEAR :: int where "EPOCH_YEAR = 1970"
definition YEAR_LEAP :: int where "YEAR_LEAP = 400"
definition DAYS_PER_YEAR_LEAP :: int where "DAYS_PER_YEAR_LEAP = 146097"
definition DAY_HOUR :: int where "DAY_HOUR = 24"
definition DAY_MINUTE :: int where "DAY_MINUTE = DAY_HOUR * 60"
definition DATE_DAY_SECOND :: int where "DATE_DAY_SECOND = DAY_MINUTE * 60"

lemmas date_consts = MIN_DATE_YEAR_def MIN_DATE_MONTH_def MIN_DATE_DAY_def MAX_DATE_YEAR_def
  MAX_DATE_MONTH_def MAX_DATE_DAY_def EPOCH_YEAR_def YEAR_LEAP_def DAYS_PER_YEAR_LEAP_def
  DAY_HOUR_def DAY_MINUTE_def DATE_DAY_SECOND_def

definition NORMAL_DAYS :: "int list" where
  "NORMAL_DAYS =
     [0, 31, 28, 31, 30, 31, 30, 31, 31, 30, 31, 30, 31]"

definition CUMULATIVE_DAYS :: "int list" where
  "CUMULATIVE_DAYS =
     [0, 31, 59, 90, 120, 151, 181, 212, 243, 273, 304, 334, 365]"

definition LEAP_DAYS :: "int list" where
  "LEAP_DAYS =
     [0, 31, 29, 31, 30, 31, 30, 31, 31, 30, 31, 30, 31]"

definition CUMULATIVE_LEAP_DAYS :: "int list" where
  "CUMULATIVE_LEAP_DAYS =
     [0, 31, 60, 91, 121, 152, 182, 213, 244, 274, 305, 335, 366]"

definition MONTH_PER_DAY_OF_YEAR :: "int list" where
  "MONTH_PER_DAY_OF_YEAR =
     [1, 1, 1, 1, 1, 1, 1, 1, 1, 1, 1, 1, 1, 1, 1, 1, 1, 1, 1, 1, 1, 1, 1, 1, 1, 1, 1, 1, 1,
      1, 1, 2, 2, 2, 2, 2, 2, 2, 2, 2, 2, 2, 2, 2, 2, 2, 2, 2, 2, 2, 2, 2, 2, 2, 2, 2, 2, 2,
      2, 3, 3, 3, 3, 3, 3, 3, 3, 3, 3, 3, 3, 3, 3, 3, 3, 3, 3, 3, 3, 3, 3, 3, 3, 3, 3, 3, 3,
      3, 3, 3, 4, 4, 4, 4, 4, 4, 4, 4, 4, 4, 4, 4, 4, 4, 4, 4, 4, 4, 4, 4, 4, 4, 4, 4, 4, 4,
      4, 4, 4, 4, 5, 5, 5, 5, 5, 5, 5, 5, 5, 5, 5, 5, 5, 5, 5, 5, 5, 5, 5, 5, 5, 5, 5, 5, 5,
      5, 5, 5, 5, 5, 5, 6, 6, 6, 6, 6, 6, 6, 6, 6, 6, 6, 6, 6, 6, 6, 6, 6, 6, 6, 6, 6, 6, 6,
      6, 6, 6, 6, 6, 6, 6, 7, 7, 7, 7, 7, 7, 7, 7, 7, 7, 7, 7, 7, 7, 7, 7, 7, 7, 7, 7, 7, 7,
      7, 7, 7, 7, 7, 7, 7, 7, 7, 8, 8, 8, 8, 8, 8, 8, 8, 8, 8, 8, 8, 8, 8, 8, 8, 8, 8, 8, 8,
      8, 8, 8, 8, 8, 8, 8, 8, 8, 8, 8, 9, 9, 9, 9, 9, 9, 9, 9, 9, 9, 9, 9, 9, 9, 9, 9, 9, 9,
      9, 9, 9, 9, 9, 9, 9, 9, 9, 9, 9, 9, 10, 10, 10, 10, 10, 10, 10, 10, 10, 10, 10, 10, 10,
      10, 10, 10, 10, 10, 10, 10, 10, 10, 10, 10, 10, 10, 10, 10, 10, 10, 10, 11, 11, 11, 11,
      11, 11, 11, 11, 11, 11, 11, 11, 11, 11, 11, 11, 11, 11, 11, 11, 11, 11, 11, 11, 11, 11,
      11, 11, 11, 11, 12, 12, 12, 12, 12, 12, 12, 12, 12, 12, 12, 12, 12, 12, 12, 12, 12, 12,
      12, 12, 12, 12, 12, 12, 12, 12, 12, 12, 12, 12, 12]"

definition LEAP_MONTH_PER_DAY_OF_YEAR :: "int list" where
  "LEAP_MONTH_PER_DAY_OF_YEAR =
     [1, 1, 1, 1, 1, 1, 1, 1, 1, 1, 1, 1, 1, 1, 1, 1, 1, 1, 1, 1, 1, 1, 1, 1, 1, 1, 1, 1, 1,
      1, 1, 2, 2, 2, 2, 2, 2, 2, 2, 2, 2, 2, 2, 2, 2, 2, 2, 2, 2, 2, 2, 2, 2, 2, 2, 2, 2, 2,
      2, 2, 3, 3, 3, 3, 3, 3, 3, 3, 3, 3, 3, 3, 3, 3, 3, 3, 3, 3, 3, 3, 3, 3, 3, 3, 3, 3, 3,
      3, 3, 3, 3, 4, 4, 4, 4, 4, 4, 4, 4, 4, 4, 4, 4, 4, 4, 4, 4, 4, 4, 4, 4, 4, 4, 4, 4, 4,
      4, 4, 4, 4, 4, 5, 5, 5, 5, 5, 5, 5, 5, 5, 5, 5, 5, 5, 5, 5, 5, 5, 5, 5, 5, 5, 5, 5, 5,
      5, 5, 5, 5, 5, 5, 5, 6, 6, 6, 6, 6, 6, 6, 6, 6, 6, 6, 6, 6, 6, 6, 6, 6, 6, 6, 6, 6, 6,
      6, 6, 6, 6, 6, 6, 6, 6, 7, 7, 7, 7, 7, 7, 7, 7, 7, 7, 7, 7, 7, 7, 7, 7, 7, 7, 7, 7, 7,
      7, 7, 7, 7, 7, 7, 7, 7, 7, 7, 8, 8, 8, 8, 8, 8, 8, 8, 8, 8, 8, 8, 8, 8, 8, 8, 8, 8, 8,
      8, 8, 8, 8, 8, 8, 8, 8, 8, 8, 8, 8, 9, 9, 9, 9, 9, 9, 9, 9, 9, 9, 9, 9, 9, 9, 9, 9, 9,
      9, 9, 9, 9, 9, 9, 9, 9, 9, 9, 9, 9, 9, 10, 10, 10, 10, 10, 10, 10, 10, 10, 10, 10, 10,
      10, 10, 10, 10, 10, 10, 10, 10, 10, 10, 10, 10, 10, 10, 10, 10, 10, 10, 10, 11, 11, 11,
      11, 11, 11, 11, 11, 11, 11, 11, 11, 11, 11, 11, 11, 11, 11, 11, 11, 11, 11, 11, 11, 11,
      11, 11, 11, 11, 11, 12, 12, 12, 12, 12, 12, 12, 12, 12, 12, 12, 12, 12, 12, 12, 12, 12,
      12, 12, 12, 12, 12, 12, 12, 12, 12, 12, 12, 12, 12, 12]"

definition CUMULATIVE_YEAR_DAYS :: "int list" where
  "CUMULATIVE_YEAR_DAYS =
     [0, 365, 730, 1096, 1461, 1826, 2191, 2557, 2922, 3287, 3652, 4018, 4383, 4748, 5113,
      5479, 5844, 6209, 6574, 6940, 7305, 7670, 8035, 8401, 8766, 9131, 9496, 9862, 10227,
      10592, 10957, 11323, 11688, 12053, 12418, 12784, 13149, 13514, 13879, 14245, 14610,
      14975, 15340, 15706, 16071, 16436, 16801, 17167, 17532, 17897, 18262, 18628, 18993,
      19358, 19723, 20089, 20454, 20819, 21184, 21550, 21915, 22280, 22645, 23011, 23376,
      23741, 24106, 24472, 24837, 25202, 25567, 25933, 26298, 26663, 27028, 27394, 27759,
      28124, 28489, 28855, 29220, 29585, 29950, 30316, 30681, 31046, 31411, 31777, 32142,
      32507, 32872, 33238, 33603, 33968, 34333, 34699, 35064, 35429, 35794, 36160, 36525,
      36890, 37255, 37621, 37986, 38351, 38716, 39082, 39447, 39812, 40177, 40543, 40908,
      41273, 41638, 42004, 42369, 42734, 43099, 43465, 43830, 44195, 44560, 44926, 45291,
      45656, 46021, 46387, 46752, 47117, 47482, 47847, 48212, 48577, 48942, 49308, 49673,
      50038, 50403, 50769, 51134, 51499, 51864, 52230, 52595, 52960, 53325, 53691, 54056,
      54421, 54786, 55152, 55517, 55882, 56247, 56613, 56978, 57343, 57708, 58074, 58439,
      58804, 59169, 59535, 59900, 60265, 60630, 60996, 61361, 61726, 62091, 62457, 62822,
      63187, 63552, 63918, 64283, 64648, 65013, 65379, 65744, 66109, 66474, 66840, 67205,
      67570, 67935, 68301, 68666, 69031, 69396, 69762, 70127, 70492, 70857, 71223, 71588,
      71953, 72318, 72684, 73049, 73414, 73779, 74145, 74510, 74875, 75240, 75606, 75971,
      76336, 76701, 77067, 77432, 77797, 78162, 78528, 78893, 79258, 79623, 79989, 80354,
      80719, 81084, 81450, 81815, 82180, 82545, 82911, 83276, 83641, 84006, 84371, 84736,
      85101, 85466, 85832, 86197, 86562, 86927, 87293, 87658, 88023, 88388, 88754, 89119,
      89484, 89849, 90215, 90580, 90945, 91310, 91676, 92041, 92406, 92771, 93137, 93502,
      93867, 94232, 94598, 94963, 95328, 95693, 96059, 96424, 96789, 97154, 97520, 97885,
      98250, 98615, 98981, 99346, 99711, 100076, 100442, 100807, 101172, 101537, 101903,
      102268, 102633, 102998, 103364, 103729, 104094, 104459, 104825, 105190, 105555, 105920,
      106286, 106651, 107016, 107381, 107747, 108112, 108477, 108842, 109208, 109573, 109938,
      110303, 110669, 111034, 111399, 111764, 112130, 112495, 112860, 113225, 113591, 113956,
      114321, 114686, 115052, 115417, 115782, 116147, 116513, 116878, 117243, 117608, 117974,
      118339, 118704, 119069, 119435, 119800, 120165, 120530, 120895, 121260, 121625, 121990,
      122356, 122721, 123086, 123451, 123817, 124182, 124547, 124912, 125278, 125643, 126008,
      126373, 126739, 127104, 127469, 127834, 128200, 128565, 128930, 129295, 129661, 130026,
      130391, 130756, 131122, 131487, 131852, 132217, 132583, 132948, 133313, 133678, 134044,
      134409, 134774, 135139, 135505, 135870, 136235, 136600, 136966, 137331, 137696, 138061,
      138427, 138792, 139157, 139522, 139888, 140253, 140618, 140983, 141349, 141714, 142079,
      142444, 142810, 143175, 143540, 143905, 144271, 144636, 145001, 145366, 145732, 146097]"

section \<open>Conversions\<close>

definition IsLeapYear :: "int \<Rightarrow> bool" where
  "IsLeapYear year \<longleftrightarrow> year smod 4 = 0 \<and> (year smod 100 \<noteq> 0 \<or> year smod 400 = 0)"

definition IsDateValid :: "int \<Rightarrow> int \<Rightarrow> int \<Rightarrow> bool" where
  "IsDateValid year month day \<longleftrightarrow>
     (if year < MIN_DATE_YEAR then False
      else if year = MIN_DATE_YEAR
        \<and> (month < MIN_DATE_MONTH \<or> (month = MIN_DATE_MONTH \<and> day < MIN_DATE_DAY)) then False
      else if year > MAX_DATE_YEAR then False
      else if year = MAX_DATE_YEAR
        \<and> (month > MAX_DATE_MONTH \<or> (month = MAX_DATE_MONTH \<and> day > MAX_DATE_DAY)) then False
      else if month < 1 \<or> month > 12 then False
      else if day < 1 then False
      else if IsLeapYear year then day \<le> LEAP_DAYS ! nat month
      else day \<le> NORMAL_DAYS ! nat month)"

definition YMD2Date :: "int \<Rightarrow> int \<Rightarrow> int \<Rightarrow> int option" where
  "YMD2Date year month day =
     (if \<not> IsDateValid year month day then None
      else let
        result = (if IsLeapYear year then CUMULATIVE_LEAP_DAYS ! nat (month - 1)
                  else CUMULATIVE_DAYS ! nat (month - 1)) + (day - 1)
      in if year < 1970 then
           let diff_from_base = 1970 - year;
               year_index = 400 - (diff_from_base smod 400);
               fractions = diff_from_base sdiv 400
           in Some (result + CUMULATIVE_YEAR_DAYS ! nat year_index - DAYS_PER_YEAR_LEAP
                    - fractions * DAYS_PER_YEAR_LEAP)
         else if year \<ge> 2370 then
           let diff_from_base = year - 2370;
               year_index = diff_from_base smod 400;
               fractions = diff_from_base sdiv 400
           in Some (result + CUMULATIVE_YEAR_DAYS ! nat year_index + DAYS_PER_YEAR_LEAP
                    + fractions * DAYS_PER_YEAR_LEAP)
         else Some (result + CUMULATIVE_YEAR_DAYS ! nat (year - 1970)))"

text \<open>The three loops of \<^verbatim>\<open>Date2YMD\<close>.\<close>

function normalize_up :: "int \<Rightarrow> int \<Rightarrow> int \<times> int" where
  "normalize_up days year =
     (if days < 0 then normalize_up (days + DAYS_PER_YEAR_LEAP) (year - YEAR_LEAP) else (days, year))"
  by pat_completeness auto
termination
  by (relation "measure (\<lambda>(days, year). nat (- days))") (auto simp: date_consts)

function normalize_down :: "int \<Rightarrow> int \<Rightarrow> int \<times> int" where
  "normalize_down days year =
     (if days \<ge> DAYS_PER_YEAR_LEAP then normalize_down (days - DAYS_PER_YEAR_LEAP) (year + YEAR_LEAP)
      else (days, year))"
  by pat_completeness auto
termination
  by (relation "measure (\<lambda>(days, year). nat days)") (auto simp: date_consts)

declare normalize_up.simps [simp del] normalize_down.simps [simp del]

text \<open>An offset below zero would index in front of the table.\<close>

fun find_year_offset :: "int \<Rightarrow> nat \<Rightarrow> nat res" where
  "find_year_offset days 0 =
     (if days < CUMULATIVE_YEAR_DAYS ! 0 then Inl UndefinedBehaviour else Inr 0)"
| "find_year_offset days (Suc k) =
     (if days < CUMULATIVE_YEAR_DAYS ! Suc k then find_year_offset days k else Inr (Suc k))"

text \<open>The result and the three output parameters.\<close>

definition Date2YMD :: "int \<Rightarrow> (bool \<times> int \<times> int \<times> int) res" where
  "Date2YMD days0 =
     (let (days1, year1) = normalize_up days0 EPOCH_YEAR;
          (days, year2) = normalize_down days1 year1
      in res_bind (find_year_offset days (nat (days sdiv 365))) (\<lambda>year_offset.
         let year = year2 + int year_offset;
             day0 = days - CUMULATIVE_YEAR_DAYS ! year_offset;
             month = (if IsLeapYear year then LEAP_MONTH_PER_DAY_OF_YEAR ! nat day0
                      else MONTH_PER_DAY_OF_YEAR ! nat day0);
             day = (if IsLeapYear year then day0 - CUMULATIVE_LEAP_DAYS ! nat (month - 1)
                    else day0 - CUMULATIVE_DAYS ! nat (month - 1)) + 1
         in Inr (IsDateValid year month day, year, month, day)))"

section \<open>Text form\<close>

definition DateType_ToString :: "int \<Rightarrow> string res" where
  "DateType_ToString v =
     res_bind (Date2YMD v) (\<lambda>(ok, year, month, day).
       if \<not> ok then Inl (ParserError ''Invalid date'')
       else Inr (format_0d 4 year @ ''-'' @ format_0d 2 month @ ''-'' @ format_0d 2 day))"

text \<open>\<open>None\<close>: rejected; otherwise the date and \<^verbatim>\<open>end_length\<close>.\<close>

definition DateType_ConvertFromString :: "char list \<Rightarrow> nat \<Rightarrow> (int \<times> nat) option res" where
  "DateType_ConvertFromString mem len =
     res_bind (skip_spaces mem len 0) (\<lambda>pos.
     res_bind (char_at mem pos) (\<lambda>c.
     let negative_year = (c = CHR ''-'');
         pos = (if negative_year then pos + 1 else pos)
     in res_bind (scan_digits 9999 mem len pos 0) (\<lambda>r.
     case r of None \<Rightarrow> Inr None | Some (pos, year) \<Rightarrow>
     let year = (if negative_year then - year else year)
     in res_bind (char_at mem pos) (\<lambda>c.
     if c \<noteq> CHR ''-'' \<and> c \<noteq> CHR ''/'' then Inr None
     else res_bind (scan_digits 12 mem len (pos + 1) 0) (\<lambda>r.
     case r of None \<Rightarrow> Inr None | Some (pos, month) \<Rightarrow>
     res_bind (char_at mem pos) (\<lambda>c.
     if c \<noteq> CHR ''-'' \<and> c \<noteq> CHR ''/'' then Inr None
     else res_bind (scan_digits 31 mem len (pos + 1) 0) (\<lambda>r.
     case r of None \<Rightarrow> Inr None | Some (pos, day) \<Rightarrow>
     Inr (map_option (\<lambda>date. (date, pos)) (YMD2Date year month day)))))))))"

definition DateType_FromString :: "char list \<Rightarrow> nat \<Rightarrow> (int \<times> nat) res" where
  "DateType_FromString mem len =
     res_bind (DateType_ConvertFromString mem len) (\<lambda>r.
       case r of
         None \<Rightarrow> Inl (ParserError ''Invalid date format (YYYY-MM-DD or YYYY/MM/DD).'')
       | Some x \<Rightarrow> Inr x)"

section \<open>Arithmetic\<close>

text \<open>
  \<open>None\<close>: \<^verbatim>\<open>false\<close> is returned and the output is left as it was.
\<close>

definition DateType_Add :: "int \<Rightarrow> interval_type \<Rightarrow> int option res" where
  "DateType_Add input interval =
     (case iv_unit interval of
        kYear \<Rightarrow>
          res_bind (Date2YMD input) (\<lambda>(ok, year, month, day).
            if \<not> ok then Inr None
            else res_bind (int32 (year + iv_value interval)) (\<lambda>year.
              Inr (YMD2Date year month day)))
      | kMonth \<Rightarrow>
          res_bind (Date2YMD input) (\<lambda>(ok, year, month, day).
            if \<not> ok then Inr None
            else res_bind (int32 (month + iv_value interval)) (\<lambda>month.
            res_bind
              (if month > 12 then
                 res_bind (int32 (year + (month - 1) sdiv 12)) (\<lambda>year. Inr (year, 1 + ((month - 1) smod 12)))
               else if month < 1 then
                 res_bind (int32 (month - 12)) (\<lambda>back.
                 res_bind (int32 (year + back sdiv 12)) (\<lambda>year. Inr (year, 12 + (back smod 12))))
               else Inr (year, month)) (\<lambda>(year, month).
              Inr (YMD2Date year month
                (min day (if IsLeapYear year then LEAP_DAYS ! nat month else NORMAL_DAYS ! nat month))))))
      | kDay \<Rightarrow> res_bind (int32 (input + iv_value interval)) (\<lambda>v. Inr (Some v))
      | kHour \<Rightarrow> res_bind (int32 (input + iv_value interval sdiv DAY_HOUR)) (\<lambda>v. Inr (Some v))
      | kMinute \<Rightarrow> res_bind (int32 (input + iv_value interval sdiv DAY_MINUTE)) (\<lambda>v. Inr (Some v))
      | kSecond \<Rightarrow> res_bind (int32 (input + iv_value interval sdiv DATE_DAY_SECOND)) (\<lambda>v. Inr (Some v))
      | kInvalidUnit \<Rightarrow> Inl (ParserError ''Invalid interval unit.''))"

definition DateType_Subtract :: "int \<Rightarrow> interval_type \<Rightarrow> int option res" where
  "DateType_Subtract input interval =
     res_bind (int32 (- iv_value interval)) (\<lambda>v. DateType_Add input (interval\<lparr>iv_value := v\<rparr>))"

definition DateType_GetDatePart :: "int \<Rightarrow> time_unit \<Rightarrow> int res" where
  "DateType_GetDatePart input unit =
     res_bind (Date2YMD input) (\<lambda>(ok, year, month, day).
       if \<not> ok then Inl (ParserError ''Invalid date value'')
       else case unit of
           kYear \<Rightarrow> Inr year
         | kMonth \<Rightarrow> Inr month
         | kDay \<Rightarrow> Inr day
         | kHour \<Rightarrow> Inl (ParserError ''Can't extract hour from date'')
         | kMinute \<Rightarrow> Inl (ParserError ''Can't extract minute from date'')
         | kSecond \<Rightarrow> Inl (ParserError ''Can't extract second from date'')
         | kInvalidUnit \<Rightarrow> Inl (ParserError ''Invalid time unit''))"

section \<open>The calendar\<close>

text \<open>
  The proleptic Gregorian calendar: the leap years up to a year, the days from 1970-01-01 to the
  first of January of a year, the days of a year in front of a month.
\<close>

definition leap_years :: "int \<Rightarrow> int" where
  "leap_years y = y div 4 - y div 100 + y div 400"

definition year_start :: "int \<Rightarrow> int" where
  "year_start y = 365 * (y - 1970) + leap_years (y - 1) - leap_years 1969"

definition leap :: "int \<Rightarrow> bool" where
  "leap y \<longleftrightarrow> 4 dvd y \<and> (\<not> 100 dvd y \<or> 400 dvd y)"

definition days_in_month :: "int \<Rightarrow> int \<Rightarrow> int" where
  "days_in_month y m =
     (if m = 2 then (if leap y then 29 else 28) else if m \<in> {4, 6, 9, 11} then 30 else 31)"

definition days_before_month :: "int \<Rightarrow> int \<Rightarrow> int" where
  "days_before_month y m = sum_list (map (days_in_month y) [1..m - 1])"

definition day_number :: "int \<Rightarrow> int \<Rightarrow> int \<Rightarrow> int" where
  "day_number y m d = year_start y + days_before_month y m + (d - 1)"

section \<open>The tables are those of the calendar\<close>

lemma CUMULATIVE_YEAR_DAYS_eq:
  "CUMULATIVE_YEAR_DAYS = map (\<lambda>k. year_start (1970 + k)) [0..400]"
  by code_simp

lemma CUMULATIVE_YEAR_DAYS_nth:
  assumes "k \<le> 400"
  shows "CUMULATIVE_YEAR_DAYS ! k = year_start (1970 + int k)"
proof -
  have "[0..400] ! k = int k" "k < length [0..(400::int)]"
    using assms by (simp_all add: nth_upto del: upto_rec_numeral)
  then show ?thesis unfolding CUMULATIVE_YEAR_DAYS_eq by (simp del: upto_rec_numeral)
qed

definition month_table_ok :: "int list \<Rightarrow> int list \<Rightarrow> bool" where
  "month_table_ok table cumulative \<longleftrightarrow>
     list_all (\<lambda>(d, m). 1 \<le> m \<and> m \<le> 12 \<and> cumulative ! nat (m - 1) \<le> d \<and> d < cumulative ! nat m)
       (zip [0..int (length table) - 1] table)"

lemma month_tables_ok:
  "month_table_ok MONTH_PER_DAY_OF_YEAR CUMULATIVE_DAYS"
  "month_table_ok LEAP_MONTH_PER_DAY_OF_YEAR CUMULATIVE_LEAP_DAYS"
  by code_simp+

lemma month_tables_length:
  "length MONTH_PER_DAY_OF_YEAR = 365" "length LEAP_MONTH_PER_DAY_OF_YEAR = 366"
  by (simp_all add: MONTH_PER_DAY_OF_YEAR_def LEAP_MONTH_PER_DAY_OF_YEAR_def)

lemma month_table_okD:
  assumes "month_table_ok table cumulative" and "d < length table" and "m = table ! d"
  shows "1 \<le> m" "m \<le> 12" "cumulative ! nat (m - 1) \<le> int d" "int d < cumulative ! nat m"
proof -
  let ?z = "zip [0..int (length table) - 1] table"
  have "d < length ?z" "?z ! d = (int d, m)"
    using assms(2,3) by (simp_all add: nth_upto)
  with assms(1) show "1 \<le> m" "m \<le> 12" "cumulative ! nat (m - 1) \<le> int d" "int d < cumulative ! nat m"
    by (force simp: month_table_ok_def list_all_length)+
qed

lemma month_cases:
  assumes "1 \<le> m" "m \<le> (12::int)"
  obtains "m = 1" | "m = 2" | "m = 3" | "m = 4" | "m = 5" | "m = 6" | "m = 7" | "m = 8" | "m = 9"
    | "m = 10" | "m = 11" | "m = 12"
proof -
  have "m = 1 \<or> m = 2 \<or> m = 3 \<or> m = 4 \<or> m = 5 \<or> m = 6 \<or> m = 7 \<or> m = 8 \<or> m = 9 \<or> m = 10
      \<or> m = 11 \<or> m = 12" using assms by presburger
  then show thesis using that by blast
qed

lemma leap_tables:
  assumes "leap y" "1 \<le> m" "m \<le> 12"
  shows "LEAP_DAYS ! nat m = days_in_month y m"
    and "CUMULATIVE_LEAP_DAYS ! nat (m - 1) = days_before_month y m"
    and "CUMULATIVE_LEAP_DAYS ! nat m = days_before_month y m + days_in_month y m"
  using assms(2,3)
  by (cases m rule: month_cases; simp add: LEAP_DAYS_def CUMULATIVE_LEAP_DAYS_def
      days_before_month_def days_in_month_def assms(1) upto_rec1)+

lemma normal_tables:
  assumes "\<not> leap y" "1 \<le> m" "m \<le> 12"
  shows "NORMAL_DAYS ! nat m = days_in_month y m"
    and "CUMULATIVE_DAYS ! nat (m - 1) = days_before_month y m"
    and "CUMULATIVE_DAYS ! nat m = days_before_month y m + days_in_month y m"
  using assms(2,3)
  by (cases m rule: month_cases; simp add: NORMAL_DAYS_def CUMULATIVE_DAYS_def
      days_before_month_def days_in_month_def assms(1) upto_rec1)+

section \<open>Years\<close>

lemma sdiv_smod_pos:
  assumes "0 < (b::int)"
  shows "0 \<le> a \<Longrightarrow> a sdiv b = a div b" and "0 \<le> a \<Longrightarrow> a smod b = a mod b"
    and "a smod b = 0 \<longleftrightarrow> b dvd a"
proof -
  show 1: "a sdiv b = a div b" if "0 \<le> a"
    using assms that by (cases "a = 0") (simp_all add: signed_divide_int_def)
  show "a smod b = a mod b" if "0 \<le> a"
    using assms that by (cases "a = 0") (simp_all add: signed_modulo_int_def)
  show "a smod b = 0 \<longleftrightarrow> b dvd a"
    using assms by (auto simp: signed_modulo_int_def sgn_if mod_eq_0_iff_dvd)
qed

lemma IsLeapYear_eq: "IsLeapYear y = leap y"
  by (simp add: IsLeapYear_def leap_def sdiv_smod_pos(3))

lemma div_pred:
  assumes "0 < (n::int)"
  shows "y div n = (y - 1) div n + of_bool (n dvd y)"
proof (cases "n dvd y")
  case True
  then obtain q where "y = n * q" by blast
  then have "(y - 1) div n = q - 1"
    using assms by (intro int_div_pos_eq [where r = "n - 1"]) (simp_all add: algebra_simps)
  with True \<open>y = n * q\<close> assms show ?thesis by simp
next
  case False
  then have "0 < y mod n" using assms by (metis mod_int_pos_iff dvd_eq_mod_eq_0 less_le pos_mod_sign)
  moreover have "y mod n < n" using assms by simp
  ultimately have "(y - 1) div n = y div n"
    using mult_div_mod_eq [of n y] by (intro int_div_pos_eq [where r = "y mod n - 1"]) linarith+
  with False show ?thesis by simp
qed

lemma leap_years_step: "leap_years y = leap_years (y - 1) + of_bool (leap y)"
proof -
  have "100 dvd y \<Longrightarrow> 4 dvd y" "400 dvd y \<Longrightarrow> 100 dvd y"
    by (rule dvd_trans [of _ 100], simp_all) (rule dvd_trans [of _ 400], simp_all)
  then have "(of_bool (leap y) :: int) = of_bool (4 dvd y) - of_bool (100 dvd y) + of_bool (400 dvd y)"
    by (cases "4 dvd y"; cases "100 dvd y"; cases "400 dvd y"; simp add: leap_def)
  then show ?thesis
    using div_pred [of 4 y] div_pred [of 100 y] div_pred [of 400 y]
    unfolding leap_years_def by linarith
qed

lemma year_start_Suc: "year_start (y + 1) = year_start y + (if leap y then 366 else 365)"
  using leap_years_step [of y] by (simp add: year_start_def)

lemma year_start_cycle: "year_start (y + 400 * k) = year_start y + 146097 * k"
proof -
  have "leap_years (z + 400 * k) = leap_years z + 97 * k" for z
  proof -
    have "(z + 400 * k) div 4 = z div 4 + 100 * k" "(z + 400 * k) div 100 = z div 100 + 4 * k"
      "(z + 400 * k) div 400 = z div 400 + k"
      using div_mult_self1 [of 4 z "100 * k"] div_mult_self1 [of 100 z "4 * k"]
        div_mult_self1 [of 400 z k] by (simp_all add: mult.assoc algebra_simps)
    then show ?thesis by (simp add: leap_years_def)
  qed
  from this [of "y - 1"] show ?thesis by (simp add: year_start_def algebra_simps)
qed

lemma leap_cycle: "leap (y + 400 * k) = leap y"
proof -
  have "4 dvd (y + 400 * k) \<longleftrightarrow> 4 dvd y" "100 dvd (y + 400 * k) \<longleftrightarrow> 100 dvd y"
    "400 dvd (y + 400 * k) \<longleftrightarrow> 400 dvd y"
    by (simp_all add: dvd_add_left_iff dvd_mult2)
  then show ?thesis by (simp add: leap_def)
qed

lemma year_start_gap: "y \<le> z \<Longrightarrow> year_start y + 365 * (z - y) \<le> year_start z"
proof (induction z rule: int_ge_induct)
  case (step z)
  then show ?case using year_start_Suc [of z] by (simp split: if_splits)
qed simp

lemma year_start_strict_mono: "y < z \<Longrightarrow> year_start (y + 1) \<le> year_start z"
  using year_start_gap [of "y + 1" z] by simp

section \<open>Days of a year\<close>

definition year_days :: "int \<Rightarrow> int" where
  "year_days y = (if leap y then 366 else 365)"

definition civil_date :: "int \<Rightarrow> int \<Rightarrow> int \<Rightarrow> bool" where
  "civil_date y m d \<longleftrightarrow> 1 \<le> m \<and> m \<le> 12 \<and> 1 \<le> d \<and> d \<le> days_in_month y m"

lemma days_in_month_bounds: "28 \<le> days_in_month y m" "days_in_month y m \<le> 31"
  by (simp_all add: days_in_month_def)

lemma days_before_month_Suc: "1 \<le> m \<Longrightarrow> days_before_month y (m + 1) = days_before_month y m + days_in_month y m"
  by (simp add: days_before_month_def upto_rec2)

lemma days_before_month_bounds:
  assumes "1 \<le> m" "m \<le> 12"
  shows "0 \<le> days_before_month y m" "days_before_month y m + days_in_month y m \<le> year_days y"
  using assms
  by (cases "leap y"; cases m rule: month_cases;
      simp add: days_before_month_def days_in_month_def year_days_def upto_rec1)+

lemma days_before_month_mono:
  assumes "m < m'" "1 \<le> m"
  shows "days_before_month y m + days_in_month y m \<le> days_before_month y m'"
  using assms(1)
proof (induction rule: int_gr_induct)
  case base
  then show ?case using assms(2) by (simp add: days_before_month_Suc)
next
  case (step k)
  then show ?case
    using days_before_month_Suc [of k y] days_in_month_bounds(1) [of y k] assms(2) by simp
qed

lemma day_number_in_year:
  assumes "civil_date y m d"
  shows "year_start y \<le> day_number y m d" "day_number y m d < year_start (y + 1)"
  using assms days_before_month_bounds [of m y]
  by (auto simp: civil_date_def day_number_def year_start_Suc year_days_def)

lemma day_number_inj:
  assumes "civil_date y m d" "civil_date y' m' d'" "day_number y m d = day_number y' m' d'"
  shows "y = y' \<and> m = m' \<and> d = d'"
proof -
  have y: "y = y'"
    using assms(3) day_number_in_year [OF assms(1)] day_number_in_year [OF assms(2)]
      year_start_strict_mono [of y y'] year_start_strict_mono [of y' y] by force
  have "\<not> m < m'"
    using assms days_before_month_mono [of m m' y] y by (auto simp: civil_date_def day_number_def)
  moreover have "\<not> m' < m"
    using assms days_before_month_mono [of m' m y] y by (auto simp: civil_date_def day_number_def)
  ultimately have "m = m'" by simp
  with y assms(3) show ?thesis by (simp add: day_number_def)
qed

section \<open>Correctness of the conversions\<close>

lemma IsDateValid_eq: "IsDateValid y m d \<longleftrightarrow> - 1969 \<le> y \<and> y \<le> 9999 \<and> civil_date y m d"
  using leap_tables(1) [of y m] normal_tables(1) [of y m] days_in_month_bounds(2) [of y m]
  by (auto simp: IsDateValid_def civil_date_def IsLeapYear_eq date_consts split: if_splits)

lemma YMD2Date_eq:
  "YMD2Date y m d = (if IsDateValid y m d then Some (day_number y m d) else None)"
proof (cases "IsDateValid y m d")
  case True
  then have m: "1 \<le> m" "m \<le> 12" by (simp_all add: IsDateValid_eq civil_date_def)
  have c: "(if IsLeapYear y then CUMULATIVE_LEAP_DAYS ! nat (m - 1) else CUMULATIVE_DAYS ! nat (m - 1))
      = days_before_month y m"
    using leap_tables(2) [of y m] normal_tables(2) [of y m] m by (simp add: IsLeapYear_eq)
  consider "y < 1970" | "1970 \<le> y" "y < 2370" | "2370 \<le> y" by linarith
  then show ?thesis
  proof cases
    case 1
    define a where "a = 1970 - y"
    have a: "a sdiv 400 = a div 400" "a smod 400 = a mod 400"
      using 1 by (simp_all add: a_def sdiv_smod_pos)
    have "CUMULATIVE_YEAR_DAYS ! nat (400 - a mod 400) = year_start (1970 + (400 - a mod 400))"
      using CUMULATIVE_YEAR_DAYS_nth [of "nat (400 - a mod 400)"] pos_mod_bound [of 400 a]
        pos_mod_sign [of 400 a] by (simp del: pos_mod_bound pos_mod_sign)
    moreover have "1970 + (400 - a mod 400) = y + 400 * (a div 400 + 1)"
      unfolding minus_mult_div_eq_mod [of a 400, symmetric] by (simp add: a_def)
    ultimately show ?thesis
      using True 1 c year_start_cycle [of y "a div 400 + 1"]
      by (simp add: YMD2Date_def Let_def a day_number_def date_consts flip: a_def)
  next
    case 2
    then show ?thesis using True c CUMULATIVE_YEAR_DAYS_nth [of "nat (y - 1970)"]
      by (simp add: YMD2Date_def Let_def day_number_def)
  next
    case 3
    define a where "a = y - 2370"
    have a: "a sdiv 400 = a div 400" "a smod 400 = a mod 400"
      using 3 by (simp_all add: a_def sdiv_smod_pos)
    have "CUMULATIVE_YEAR_DAYS ! nat (a mod 400) = year_start (1970 + a mod 400)"
      using CUMULATIVE_YEAR_DAYS_nth [of "nat (a mod 400)"] pos_mod_bound [of 400 a] by simp
    moreover have "y = 1970 + a mod 400 + 400 * (a div 400 + 1)"
      using mult_div_mod_eq [of 400 a] by (simp add: a_def)
    then have "year_start y = year_start (1970 + a mod 400) + 146097 * (a div 400 + 1)"
      using year_start_cycle [of "1970 + a mod 400" "a div 400 + 1"] by simp
    ultimately show ?thesis
      using True 3 c
      by (simp add: YMD2Date_def Let_def a day_number_def date_consts flip: a_def)
  qed
qed (simp add: YMD2Date_def)

lemma normalize_up_eq:
  "normalize_up days year =
     (if days < 0 then (days mod 146097, year + 400 * (days div 146097)) else (days, year))"
proof (induction days year rule: normalize_up.induct)
  case (1 days year)
  show ?case
  proof (cases "days < 0")
    case True
    have "(days + 146097) mod 146097 = days mod 146097" "(days + 146097) div 146097 = days div 146097 + 1"
      by simp_all
    moreover have "\<not> days + 146097 < 0 \<Longrightarrow> (days + 146097) mod 146097 = days + 146097 \<and> (days + 146097) div 146097 = 0"
      using True by (auto intro: mod_pos_pos_trivial div_pos_pos_trivial simp del: mod_add_self2)
    ultimately show ?thesis
      using 1 [OF True] True by (subst normalize_up.simps) (auto simp: date_consts)
  qed (simp add: normalize_up.simps)
qed

lemma normalize_down_eq:
  "0 \<le> days \<Longrightarrow> normalize_down days year = (days mod 146097, year + 400 * (days div 146097))"
proof (induction days year rule: normalize_down.induct)
  case (1 days year)
  show ?case
  proof (cases "146097 \<le> days")
    case True
    have "(days - 146097) mod 146097 = days mod 146097" "(days - 146097) div 146097 = days div 146097 - 1"
      by (simp_all add: minus_mod_self2)
    then show ?thesis
      using 1 True by (subst normalize_down.simps) (simp add: date_consts)
  next
    case False
    then show ?thesis using 1(2) by (simp add: normalize_down.simps date_consts)
  qed
qed

lemma find_year_offset_ok:
  assumes "0 \<le> days" "k \<le> 400" "days < year_start (1970 + int k + 1)"
  shows "\<exists>r \<le> k. find_year_offset days k = Inr r \<and> year_start (1970 + int r) \<le> days
           \<and> days < year_start (1970 + int r + 1)"
  using assms(2,3)
proof (induction k)
  case 0
  then show ?case using assms(1)
    by (simp add: CUMULATIVE_YEAR_DAYS_nth year_start_def leap_years_def)
next
  case (Suc k)
  show ?case
  proof (cases "days < year_start (1970 + int (Suc k))")
    case True
    then have "days < year_start (1970 + int k + 1)" by (simp add: algebra_simps)
    with Suc obtain r where "r \<le> k" "find_year_offset days k = Inr r"
      "year_start (1970 + int r) \<le> days" "days < year_start (1970 + int r + 1)" by auto
    with True Suc.prems(1) show ?thesis by (auto simp: CUMULATIVE_YEAR_DAYS_nth)
  next
    case False
    with Suc.prems show ?thesis by (auto simp: CUMULATIVE_YEAR_DAYS_nth)
  qed
qed

lemma Date2YMD_eq:
  "\<exists>y m d. Date2YMD v = Inr (IsDateValid y m d, y, m, d) \<and> civil_date y m d \<and> day_number y m d = v"
proof -
  define days q where "days = v mod 146097" and "q = v div 146097"
  have v: "v = days + 146097 * q" and days: "0 \<le> days" "days < 146097"
    by (simp_all add: days_def q_def)
  have norm: "normalize_up v EPOCH_YEAR = (d1, y1) \<Longrightarrow> normalize_down d1 y1 = (days, 1970 + 400 * q)" for d1 y1
    by (cases "v < 0")
      (auto simp: normalize_up_eq normalize_down_eq EPOCH_YEAR_def days_def q_def)
  have y0: "year_start 1970 = 0" by (simp add: year_start_def leap_years_def)
  let ?k = "nat (days div 365)"
  have "days div 365 \<le> 400" "0 \<le> days div 365"
    using zdiv_mono1 [of days 146096 365] days by (simp_all add: pos_imp_zdiv_nonneg_iff)
  then have "?k \<le> 400" "days < 365 * (int ?k + 1)"
    using mult_div_mod_eq [of 365 days] pos_mod_bound [of 365 days] by simp_all
  moreover from this have "days < year_start (1970 + int ?k + 1)"
    using year_start_gap [of 1970 "1970 + int ?k + 1"] y0 by simp
  ultimately obtain r where r: "r \<le> 400" "find_year_offset days ?k = Inr r"
      "year_start (1970 + int r) \<le> days" "days < year_start (1970 + int r + 1)"
    using find_year_offset_ok [of days ?k] days by (meson order_trans)
  define y where "y = 1970 + 400 * q + int r"
  have ys: "year_start y = year_start (1970 + int r) + 146097 * q"
    using year_start_cycle [of "1970 + int r" q] by (simp add: y_def add_ac)
  have lp: "leap y = leap (1970 + int r)"
    using leap_cycle [of "1970 + int r" q] by (simp add: y_def add_ac)
  define doy where "doy = days - year_start (1970 + int r)"
  define table cum where "table = (if leap y then LEAP_MONTH_PER_DAY_OF_YEAR else MONTH_PER_DAY_OF_YEAR)"
    and "cum = (if leap y then CUMULATIVE_LEAP_DAYS else CUMULATIVE_DAYS)"
  define m where "m = table ! nat doy"
  define d where "d = doy - cum ! nat (m - 1) + 1"
  have "nat doy < length table" "0 \<le> doy"
    using r(3,4) year_start_Suc [of "1970 + int r"]
    by (auto simp: doy_def table_def month_tables_length lp split: if_splits)
  moreover have "month_table_ok table cum" using month_tables_ok by (simp add: table_def cum_def)
  ultimately have m: "1 \<le> m" "m \<le> 12" "cum ! nat (m - 1) \<le> doy" "doy < cum ! nat m"
    using month_table_okD [of table cum "nat doy" m] by (simp_all add: m_def)
  then have cum: "cum ! nat (m - 1) = days_before_month y m"
      "cum ! nat m = days_before_month y m + days_in_month y m"
    using leap_tables [of y m] normal_tables [of y m] by (simp_all add: cum_def)
  have "civil_date y m d" "day_number y m d = v"
    using m cum ys v by (simp_all add: civil_date_def d_def day_number_def doy_def)
  moreover have "Date2YMD v = Inr (IsDateValid y m d, y, m, d)"
  proof -
    obtain d1 y1 where n: "normalize_up v EPOCH_YEAR = (d1, y1)" by fastforce
    show ?thesis
      using r(1,2) days
      by (simp add: Date2YMD_def n norm [OF n] sdiv_smod_pos Let_def IsLeapYear_eq
          CUMULATIVE_YEAR_DAYS_nth d_def m_def cum_def table_def doy_def y_def)
  qed
  ultimately show ?thesis by blast
qed

lemma Date2YMD_of_day_number:
  assumes "civil_date y m d"
  shows "Date2YMD (day_number y m d) = Inr (IsDateValid y m d, y, m, d)"
  using Date2YMD_eq [of "day_number y m d"] day_number_inj [OF _ assms] by metis

section \<open>Reading what was printed\<close>

lemma digits_val_ge: "list_all isdigit ds \<Longrightarrow> 0 \<le> acc \<Longrightarrow> acc \<le> digits_val acc ds"
proof (induction ds arbitrary: acc)
  case (Cons c cs)
  then have "0 \<le> digit_val c" by (simp add: isdigit_def digit_val_def)
  with Cons show ?case by (force intro: order_trans [of acc "acc * 10 + digit_val c"])
qed simp

lemma scan_digits_text:
  assumes "list_all isdigit ds" "0 \<le> acc" "digits_val acc ds \<le> limit"
    and "mem = pre @ ds @ post" "length pre + length ds \<le> len" "len \<le> length mem"
    and "length pre + length ds = len \<or> (post \<noteq> [] \<and> \<not> isdigit (hd post))"
  shows "scan_digits limit mem len (length pre) acc
    = Inr (Some (length pre + length ds, digits_val acc ds))"
  using assms
proof (induction ds arbitrary: acc pre)
  case Nil
  then show ?case
    by (subst scan_digits.simps) (cases post; auto simp: char_at_def nth_append)
next
  case (Cons c cs)
  have c: "isdigit c" "0 \<le> digit_val c" using Cons.prems by (auto simp: isdigit_def digit_val_def)
  have "acc * 10 + digit_val c \<le> digits_val (acc * 10 + digit_val c) cs"
    using Cons.prems c by (intro digits_val_ge) auto
  then have le: "acc * 10 + digit_val c \<le> limit" using Cons.prems(3) by simp
  have "scan_digits limit mem len (length (pre @ [c])) (acc * 10 + digit_val c)
    = Inr (Some (length (pre @ [c]) + length cs, digits_val (acc * 10 + digit_val c) cs))"
    using Cons.prems c by (intro Cons.IH) auto
  moreover have "char_at mem (length pre) = Inr c"
    using Cons.prems by (simp add: char_at_def)
  ultimately show ?case
    using Cons.prems c le by (subst scan_digits.simps) (simp add: Let_def)
qed

definition unsigned_0d :: "nat \<Rightarrow> int \<Rightarrow> string" where
  "unsigned_0d N i = replicate (N - length (nat_digits (nat \<bar>i\<bar>))) (digit_char 0) @ nat_digits (nat \<bar>i\<bar>)"

lemma unsigned_0d_digits: "list_all isdigit (unsigned_0d N i)" "digits_val 0 (unsigned_0d N i) = \<bar>i\<bar>"
  using nat_digits_isdigit [of "nat \<bar>i\<bar>"]
  by (auto simp: unsigned_0d_def list_all_iff digits_val_zeros digits_val_nat_digits)

lemma unsigned_0d_nonempty [simp]: "unsigned_0d N i \<noteq> []"
  by (simp add: unsigned_0d_def)

lemma format_0d_eq:
  "format_0d N i = (if i < 0 then CHR ''-'' # unsigned_0d (N - 1) i else unsigned_0d N i)"
  by (simp add: format_0d_def unsigned_0d_def Let_def)

lemma skip_spaces_none: "mem \<noteq> [] \<Longrightarrow> \<not> isspace (hd mem) \<Longrightarrow> skip_spaces mem len 0 = Inr 0"
  by (subst skip_spaces.simps) (cases mem; simp add: char_at_def)

definition date_text :: "int \<Rightarrow> int \<Rightarrow> int \<Rightarrow> string" where
  "date_text year month day = format_0d 4 year @ ''-'' @ format_0d 2 month @ ''-'' @ format_0d 2 day"

lemma DateType_ConvertFromString_text:
  assumes "IsDateValid y m d" "rest = [] \<or> \<not> isdigit (hd rest)"
  shows "DateType_ConvertFromString (date_text y m d @ rest @ tail) (length (date_text y m d @ rest))
    = Inr (Some (day_number y m d, length (date_text y m d)))"
proof -
  have v: "- 1969 \<le> y" "y \<le> 9999" "1 \<le> m" "m \<le> 12" "1 \<le> d" "d \<le> 31"
    using assms(1) days_in_month_bounds(2) [of y m] by (auto simp: IsDateValid_eq civil_date_def)
  define sg where "sg = (if y < 0 then ''-'' else [])"
  define ys ms ds where "ys = unsigned_0d (4 - length sg) y" and "ms = unsigned_0d 2 m" and "ds = unsigned_0d 2 d"
  have tx: "date_text y m d = sg @ ys @ ''-'' @ ms @ ''-'' @ ds"
    using v by (auto simp: date_text_def format_0d_eq sg_def ys_def ms_def ds_def)
  let ?mem = "sg @ ys @ ''-'' @ ms @ ''-'' @ ds @ rest @ tail"
  let ?len = "length (sg @ ys @ ''-'' @ ms @ ''-'' @ ds @ rest)"
  have dg: "list_all isdigit ys" "list_all isdigit ms" "list_all isdigit ds"
    "digits_val 0 ys = \<bar>y\<bar>" "digits_val 0 ms = m" "digits_val 0 ds = d"
    using v by (simp_all add: ys_def ms_def ds_def unsigned_0d_digits)
  have hd: "isdigit (hd ys)" "ys \<noteq> []" using dg(1) by (cases ys; simp add: ys_def)+
  have sp: "skip_spaces ?mem ?len 0 = Inr 0"
    using hd isdigit_not_isspace by (intro skip_spaces_none) (auto simp: sg_def)
  have c0: "\<exists>c. char_at ?mem 0 = Inr c \<and> (c = CHR ''-'' \<longleftrightarrow> y < 0)"
    using hd by (cases ys) (auto simp: char_at_def sg_def)
  have pos: "length sg = (if y < 0 then 1 else 0)" by (simp add: sg_def)
  have "scan_digits 9999 ?mem ?len (length sg) 0 = Inr (Some (length sg + length ys, \<bar>y\<bar>))"
    using dg v scan_digits_text [of ys 0 9999 ?mem sg "''-'' @ ms @ ''-'' @ ds @ rest @ tail" ?len] by simp
  moreover have "scan_digits 12 ?mem ?len (length (sg @ ys @ ''-'')) 0
      = Inr (Some (length (sg @ ys @ ''-'') + length ms, m))"
    using dg v scan_digits_text [of ms 0 12 ?mem "sg @ ys @ ''-''" "''-'' @ ds @ rest @ tail" ?len] by simp
  moreover have "scan_digits 31 ?mem ?len (length (sg @ ys @ ''-'' @ ms @ ''-'')) 0
      = Inr (Some (length (sg @ ys @ ''-'' @ ms @ ''-'') + length ds, d))"
    using dg v assms(2)
      scan_digits_text [of ds 0 31 ?mem "sg @ ys @ ''-'' @ ms @ ''-''" "rest @ tail" ?len]
    by (cases rest) simp_all
  moreover have "char_at ?mem (length sg + length ys) = Inr CHR ''-''"
    "char_at ?mem (length (sg @ ys @ ''-'') + length ms) = Inr CHR ''-''"
    by (simp_all add: char_at_def nth_append)
  moreover have "(if y < 0 then - \<bar>y\<bar> else \<bar>y\<bar>) = y" by simp
  ultimately show ?thesis
    using c0 sp pos assms(1) unfolding tx
    by (auto simp: DateType_ConvertFromString_def YMD2Date_eq Let_def add.assoc)
qed

lemma DateType_ToString_eq:
  assumes "DateType_ToString v = Inr s"
  obtains y m d where "IsDateValid y m d" "day_number y m d = v" "s = date_text y m d"
    "Date2YMD v = Inr (True, y, m, d)"
  using assms Date2YMD_eq [of v]
  by (auto simp: DateType_ToString_def date_text_def split: if_splits)

section \<open>Months\<close>

lemma sdiv_smod_neg:
  assumes "(a::int) < 0"
  shows "a sdiv 12 = (a + 11) div 12" and "12 + a smod 12 = (a + 11) mod 12 + 1"
proof -
  define q r where "q = (- a) div 12" and "r = (- a) mod 12"
  have a: "- a = 12 * q + r" "0 \<le> r" "r < 12" by (simp_all add: q_def r_def)
  have s: "a sdiv 12 = - q" "a smod 12 = - r"
    using assms by (simp_all add: signed_divide_int_def signed_modulo_int_def q_def r_def)
  have d: "(a + 11) div 12 = - q" using a by (intro int_div_pos_eq [where r = "11 - r"]) simp_all
  moreover have "(a + 11) mod 12 = 11 - r" using a by (intro int_mod_pos_eq [where q = "- q"]) simp_all
  ultimately show "a sdiv 12 = (a + 11) div 12" "12 + a smod 12 = (a + 11) mod 12 + 1"
    using s by simp_all
qed

lemma days_in_month_table:
  "1 \<le> m \<Longrightarrow> m \<le> 12 \<Longrightarrow>
    (if IsLeapYear y then LEAP_DAYS ! nat m else NORMAL_DAYS ! nat m) = days_in_month y m"
  using leap_tables(1) [of y m] normal_tables(1) [of y m] by (simp add: IsLeapYear_eq)

section \<open>Properties\<close>


text \<open>
  The two conversions are inverse to each other: \<^verbatim>\<open>YMD2Date\<close> accepts a year, month and day and
  gives \<open>v\<close> exactly when \<^verbatim>\<open>Date2YMD\<close> accepts \<open>v\<close> and gives them back.
\<close>

theorem YMD2Date_Date2YMD:
  "YMD2Date y m d = Some v \<longleftrightarrow> Date2YMD v = Inr (True, y, m, d)"
proof
  assume "YMD2Date y m d = Some v"
  then show "Date2YMD v = Inr (True, y, m, d)"
    using Date2YMD_of_day_number [of y m d] by (auto simp: YMD2Date_eq IsDateValid_eq split: if_splits)
next
  assume "Date2YMD v = Inr (True, y, m, d)"
  then show "YMD2Date y m d = Some v" using Date2YMD_eq [of v] by (auto simp: YMD2Date_eq)
qed

text \<open>
  What \<^verbatim>\<open>DateType::ToString\<close> prints is read back by \<^verbatim>\<open>DateType::FromString\<close> as the same date,
  completely and without a look behind the text.
\<close>

theorem DateType_string_round_trip:
  assumes "DateType_ToString v = Inr s"
  shows "DateType_FromString (s @ tail) (length s) = Inr (v, length s)"
proof -
  obtain y m d where "IsDateValid y m d" "day_number y m d = v" "s = date_text y m d"
    using DateType_ToString_eq [OF assms] .
  then show ?thesis
    using DateType_ConvertFromString_text [of y m d "[]" tail] by (simp add: DateType_FromString_def)
qed

lemma epoch_text: "DateType_ToString 0 = Inr ''1970-01-01''"
  by code_simp

theorem DateType_string_round_trip_witness:
  "DateType_ToString 0 = Inr ''1970-01-01''
   \<and> DateType_FromString (''1970-01-01'' @ [CHR 0x00]) (length ''1970-01-01'')
     = Inr (0, length ''1970-01-01'')"
  using DateType_string_round_trip [OF epoch_text, of "[CHR 0x00]"] epoch_text by simp

text \<open>
  Adding \<open>n\<close> months moves the date by exactly \<open>n\<close> in the count of months, to the same day of
  the month or to the last day of a shorter month; it fails only if the resulting year is out of
  range.
\<close>

theorem DateType_Add_month:
  assumes "Date2YMD v = Inr (True, y, m, d)" and "int32_ok (m + n)" and "int32_ok (m + n - 12)"
  shows "DateType_Add v \<lparr>iv_unit = kMonth, iv_value = n\<rparr> =
    (let i = 12 * y + (m - 1) + n; y' = i div 12; m' = i mod 12 + 1
     in Inr (YMD2Date y' m' (min d (days_in_month y' m'))))"
proof -
  have ymd: "- 1969 \<le> y" "y \<le> 9999" "1 \<le> m" "m \<le> 12"
    using assms(1) Date2YMD_eq [of v] by (auto simp: IsDateValid_eq civil_date_def)
  define i y' m' where "i = 12 * y + (m - 1) + n" and "y' = i div 12" and "m' = i mod 12 + 1"
  have m': "1 \<le> m'" "m' \<le> 12" by (simp_all add: m'_def)
  have y': "y' = y + (m + n - 1) div 12" "m' = (m + n - 1) mod 12 + 1"
    using div_mult_self2 [of 12 "m + n - 1" y] mod_mult_self2 [of "m + n - 1" 12 y]
    by (simp_all add: i_def y'_def m'_def algebra_simps)
  have bound: "int32_ok y'"
    using assms(2) ymd zdiv_mono1 [of "m + n - 1" "2 ^ 31" 12] zdiv_mono1 [of "- (2 ^ 31) - 1" "m + n - 1" 12]
    by (simp add: y'(1) int32_ok_def)
  let ?k = "\<lambda>(year, month). Inr (YMD2Date year month
      (min d (if IsLeapYear year then LEAP_DAYS ! nat month else NORMAL_DAYS ! nat month)))"
  have "(if m + n > 12 then
           res_bind (int32 (y + (m + n - 1) sdiv 12)) (\<lambda>year. Inr (year, 1 + ((m + n - 1) smod 12)))
         else if m + n < 1 then
           res_bind (int32 (m + n - 12)) (\<lambda>back.
           res_bind (int32 (y + back sdiv 12)) (\<lambda>year. Inr (year, 12 + (back smod 12))))
         else Inr (y, m + n)) = Inr (y', m')"
  proof -
    consider "12 < m + n" | "m + n < 1" | "1 \<le> m + n" "m + n \<le> 12" by linarith
    then show ?thesis
    proof cases
      case 1
      then show ?thesis using bound by (simp add: sdiv_smod_pos y')
    next
      case 2
      then show ?thesis
        using bound assms(3) sdiv_smod_neg [of "m + n - 12"] by (simp add: y' algebra_simps)
    next
      case 3
      then have "(m + n - 1) div 12 = 0" "(m + n - 1) mod 12 = m + n - 1" by simp_all
      with 3 show ?thesis by (simp add: y')
    qed
  qed
  then show ?thesis
    using assms(1,2) days_in_month_table [OF m', of y']
    by (simp add: DateType_Add_def Let_def flip: i_def y'_def m'_def)
qed

theorem DateType_Add_month_witness:
  "DateType_Add 30 \<lparr>iv_unit = kMonth, iv_value = 13\<rparr> =
    (let i = 12 * 1970 + (1 - 1) + 13; y' = i div 12; m' = i mod 12 + 1
     in Inr (YMD2Date y' m' (min 31 (days_in_month y' m'))))"
proof -
  have "civil_date 1970 1 31" "day_number 1970 1 31 = 30" "IsDateValid 1970 1 31"
    by (simp_all add: civil_date_def days_in_month_def day_number_def year_start_def leap_years_def
        days_before_month_def IsDateValid_eq)
  then have "Date2YMD 30 = Inr (True, 1970, 1, 31)"
    using Date2YMD_of_day_number [of 1970 1 31] by simp
  then show ?thesis by (rule DateType_Add_month) (simp_all add: int32_ok_def)
qed

end
