(* ===== verification/Constant_Expr.thy ===== *)
theory Constant_Expr
  imports Serialize Text_Format Json Date_Type
begin

text \<open>
  \<^verbatim>\<open>src/parser/expr/constant_expr.cpp\<close>: the literals of the parser, which are also the default values
  of columns, with their size, their binary form and their printed form.  A \<^verbatim>\<open>double\<close> is kept as its
  64 bits; a \<^verbatim>\<open>char *\<close> as the characters in front of the terminating zero.  Reading nests: the
  recursion takes the number of bytes left as its bound, which is proved never to run out.
\<close>

section \<open>Literals\<close>

datatype constant_expr =
    LitBoolean bool
  | LitDouble u64
  | LitString string
  | LitInteger i64
  | LitNull
  | LitDate string
  | LitTime string
  | LitDateTime string
  | LitTimestamp string
  | LitIntegerArray "i64 list"
  | LitDoubleArray "u64 list"
  | LitSubArrayArray "constant_expr list"
  | LitInterval time_unit i64
  | LitLongSparseArray "i64 list" "i64 list"
  | LitDoubleSparseArray "i64 list" "u64 list"
  | LitEmptyArray

datatype literal_type =
    LT_kBoolean | LT_kDouble | LT_kString | LT_kInteger | LT_kNull | LT_kDate | LT_kTime
  | LT_kDateTime | LT_kTimestamp | LT_kIntegerArray | LT_kDoubleArray | LT_kSubArrayArray
  | LT_kInterval | LT_kLongSparseArray | LT_kDoubleSparseArray | LT_kEmptyArray

definition LiteralType_enumerators :: "literal_type list" where
  "LiteralType_enumerators =
     [LT_kBoolean, LT_kDouble, LT_kString, LT_kInteger, LT_kNull, LT_kDate, LT_kTime, LT_kDateTime,
      LT_kTimestamp, LT_kIntegerArray, LT_kDoubleArray, LT_kSubArrayArray, LT_kInterval,
      LT_kLongSparseArray, LT_kDoubleSparseArray, LT_kEmptyArray]"

definition LiteralType_of_num :: "nat \<Rightarrow> literal_type option" where
  "LiteralType_of_num n =
     (if n < length LiteralType_enumerators then Some (LiteralType_enumerators ! n) else None)"

fun LiteralType_num :: "literal_type \<Rightarrow> nat" where
  "LiteralType_num LT_kBoolean = 0"
| "LiteralType_num LT_kDouble = 1"
| "LiteralType_num LT_kString = 2"
| "LiteralType_num LT_kInteger = 3"
| "LiteralType_num LT_kNull = 4"
| "LiteralType_num LT_kDate = 5"
| "LiteralType_num LT_kTime = 6"
| "LiteralType_num LT_kDateTime = 7"
| "LiteralType_num LT_kTimestamp = 8"
| "LiteralType_num LT_kIntegerArray = 9"
| "LiteralType_num LT_kDoubleArray = 10"
| "LiteralType_num LT_kSubArrayArray = 11"
| "LiteralType_num LT_kInterval = 12"
| "LiteralType_num LT_kLongSparseArray = 13"
| "LiteralType_num LT_kDoubleSparseArray = 14"
| "LiteralType_num LT_kEmptyArray = 15"

lemma LiteralType_of_num_num [simp]: "LiteralType_of_num (LiteralType_num t) = Some t"
  by (cases t) (simp_all add: LiteralType_of_num_def LiteralType_enumerators_def)

lemma LiteralType_num_less: "LiteralType_num t < 16"
  by (cases t) simp_all

fun TimeUnit_num :: "time_unit \<Rightarrow> nat" where
  "TimeUnit_num kYear = 0"
| "TimeUnit_num kMonth = 1"
| "TimeUnit_num kDay = 2"
| "TimeUnit_num kHour = 3"
| "TimeUnit_num kMinute = 4"
| "TimeUnit_num kSecond = 5"
| "TimeUnit_num kInvalidUnit = 6"

definition TimeUnit_of_num :: "nat \<Rightarrow> time_unit option" where
  "TimeUnit_of_num n =
     (let units = [kYear, kMonth, kDay, kHour, kMinute, kSecond, kInvalidUnit]
      in if n < length units then Some (units ! n) else None)"

lemma TimeUnit_of_num_num [simp]: "TimeUnit_of_num (TimeUnit_num u) = Some u"
  by (cases u) (simp_all add: TimeUnit_of_num_def)

lemma TimeUnit_num_less: "TimeUnit_num u < 7"
  by (cases u) simp_all

fun literal_type_of :: "constant_expr \<Rightarrow> literal_type" where
  "literal_type_of (LitBoolean _) = LT_kBoolean"
| "literal_type_of (LitDouble _) = LT_kDouble"
| "literal_type_of (LitString _) = LT_kString"
| "literal_type_of (LitInteger _) = LT_kInteger"
| "literal_type_of LitNull = LT_kNull"
| "literal_type_of (LitDate _) = LT_kDate"
| "literal_type_of (LitTime _) = LT_kTime"
| "literal_type_of (LitDateTime _) = LT_kDateTime"
| "literal_type_of (LitTimestamp _) = LT_kTimestamp"
| "literal_type_of (LitIntegerArray _) = LT_kIntegerArray"
| "literal_type_of (LitDoubleArray _) = LT_kDoubleArray"
| "literal_type_of (LitSubArrayArray _) = LT_kSubArrayArray"
| "literal_type_of (LitInterval _ _) = LT_kInterval"
| "literal_type_of (LitLongSparseArray _ _) = LT_kLongSparseArray"
| "literal_type_of (LitDoubleSparseArray _ _) = LT_kDoubleSparseArray"
| "literal_type_of LitEmptyArray = LT_kEmptyArray"

section \<open>Size and binary form\<close>

fun ConstantExpr_GetSizeInBytes :: "constant_expr \<Rightarrow> i32" where
  "ConstantExpr_GetSizeInBytes (LitBoolean b) = 4 + 1"
| "ConstantExpr_GetSizeInBytes (LitDouble d) = 4 + 8"
| "ConstantExpr_GetSizeInBytes (LitString s) = 4 + (4 + word_of_nat (length s))"
| "ConstantExpr_GetSizeInBytes (LitInteger i) = 4 + 8"
| "ConstantExpr_GetSizeInBytes LitNull = 4"
| "ConstantExpr_GetSizeInBytes (LitDate s) = 4 + (4 + word_of_nat (length s))"
| "ConstantExpr_GetSizeInBytes (LitTime s) = 4 + (4 + word_of_nat (length s))"
| "ConstantExpr_GetSizeInBytes (LitDateTime s) = 4 + (4 + word_of_nat (length s))"
| "ConstantExpr_GetSizeInBytes (LitTimestamp s) = 4 + (4 + word_of_nat (length s))"
| "ConstantExpr_GetSizeInBytes (LitIntegerArray xs) = 4 + 8 + 8 * word_of_nat (length xs)"
| "ConstantExpr_GetSizeInBytes (LitDoubleArray xs) = 4 + 8 + 8 * word_of_nat (length xs)"
| "ConstantExpr_GetSizeInBytes (LitSubArrayArray es) =
     4 + 8 + sum_list (map ConstantExpr_GetSizeInBytes es)"
| "ConstantExpr_GetSizeInBytes (LitInterval u i) = 4 + 4 + 8"
| "ConstantExpr_GetSizeInBytes (LitLongSparseArray xs ys) =
     4 + (8 + 8 * word_of_nat (length xs)) + (8 + 8 * word_of_nat (length ys))"
| "ConstantExpr_GetSizeInBytes (LitDoubleSparseArray xs ys) =
     4 + (8 + 8 * word_of_nat (length xs)) + (8 + 8 * word_of_nat (length ys))"
| "ConstantExpr_GetSizeInBytes LitEmptyArray = 4"

definition write_i64s :: "i64 list \<Rightarrow> byte list" where
  "write_i64s xs = WriteBufAdv (word_of_nat (length xs) :: i64) @ concat (map WriteBufAdv xs)"

fun ConstantExpr_WriteAdv_value :: "constant_expr \<Rightarrow> byte list"
and ConstantExpr_WriteAdv :: "constant_expr \<Rightarrow> byte list" where
  "ConstantExpr_WriteAdv_value (LitBoolean b) = WriteBufAdv (if b then 1 else 0 :: u8)"
| "ConstantExpr_WriteAdv_value (LitDouble d) = WriteBufAdv d"
| "ConstantExpr_WriteAdv_value (LitString s) = WriteBufAdv_string s"
| "ConstantExpr_WriteAdv_value (LitInteger i) = WriteBufAdv i"
| "ConstantExpr_WriteAdv_value LitNull = []"
| "ConstantExpr_WriteAdv_value (LitDate s) = WriteBufAdv_string s"
| "ConstantExpr_WriteAdv_value (LitTime s) = WriteBufAdv_string s"
| "ConstantExpr_WriteAdv_value (LitDateTime s) = WriteBufAdv_string s"
| "ConstantExpr_WriteAdv_value (LitTimestamp s) = WriteBufAdv_string s"
| "ConstantExpr_WriteAdv_value (LitIntegerArray xs) = write_i64s xs"
| "ConstantExpr_WriteAdv_value (LitDoubleArray xs) = write_i64s xs"
| "ConstantExpr_WriteAdv_value (LitSubArrayArray es) =
     WriteBufAdv (word_of_nat (length es) :: i64) @ concat (map ConstantExpr_WriteAdv es)"
| "ConstantExpr_WriteAdv_value (LitInterval u i) =
     WriteBufAdv (word_of_nat (TimeUnit_num u) :: i32) @ WriteBufAdv i"
| "ConstantExpr_WriteAdv_value (LitLongSparseArray xs ys) = write_i64s xs @ write_i64s ys"
| "ConstantExpr_WriteAdv_value (LitDoubleSparseArray xs ys) = write_i64s xs @ write_i64s ys"
| "ConstantExpr_WriteAdv_value LitEmptyArray = []"
| "ConstantExpr_WriteAdv e =
     WriteBufAdv (word_of_nat (LiteralType_num (literal_type_of e)) :: i32)
     @ ConstantExpr_WriteAdv_value e"

text \<open>A loop that appends \<open>len\<close> numbers, and one that sizes the vector first.\<close>

definition read_i64s :: "i64 list reader" where
  "read_i64s = rd_bind ReadBufAdv (\<lambda>len :: u64. rd_times (unat len) ReadBufAdv)"

definition read_i64s_resize :: "i64 list reader" where
  "read_i64s_resize =
     rd_bind ReadBufAdv (\<lambda>len :: u64.
       if 2 ^ 60 \<le> unat len then rd_fail LengthError else rd_times (unat len) ReadBufAdv)"

definition c_str :: "string \<Rightarrow> string" where
  "c_str s = takeWhile (\<lambda>c. c \<noteq> CHR 0x00) s"

definition rd_map :: "('a \<Rightarrow> 'b) \<Rightarrow> 'a reader \<Rightarrow> 'b reader" where
  "rd_map f p = rd_bind p (\<lambda>x. rd_return (f x))"

text \<open>The switch over the type; \<open>sub\<close> is the recursive call.\<close>

definition ConstantExpr_ReadAdv_value ::
  "(int \<Rightarrow> constant_expr reader) \<Rightarrow> int \<Rightarrow> nat \<Rightarrow> literal_type \<Rightarrow> constant_expr reader" where
  "ConstantExpr_ReadAdv_value sub maxbytes start literal_type =
     (case literal_type of
        LT_kBoolean \<Rightarrow> rd_map (\<lambda>b :: u8. LitBoolean (b \<noteq> 0)) ReadBufAdv
      | LT_kDouble \<Rightarrow> rd_map LitDouble ReadBufAdv
      | LT_kString \<Rightarrow> rd_map (\<lambda>s. LitString (c_str s)) ReadBufAdv_string
      | LT_kInteger \<Rightarrow> rd_map LitInteger ReadBufAdv
      | LT_kNull \<Rightarrow> rd_return LitNull
      | LT_kDate \<Rightarrow> rd_map (\<lambda>s. LitDate (c_str s)) ReadBufAdv_string
      | LT_kTime \<Rightarrow> rd_map (\<lambda>s. LitTime (c_str s)) ReadBufAdv_string
      | LT_kDateTime \<Rightarrow> rd_map (\<lambda>s. LitDateTime (c_str s)) ReadBufAdv_string
      | LT_kTimestamp \<Rightarrow> rd_map (\<lambda>s. LitTimestamp (c_str s)) ReadBufAdv_string
      | LT_kIntegerArray \<Rightarrow> rd_map LitIntegerArray read_i64s
      | LT_kDoubleArray \<Rightarrow> rd_map LitDoubleArray read_i64s
      | LT_kSubArrayArray \<Rightarrow>
          rd_bind ReadBufAdv (\<lambda>len :: u64.
            rd_map LitSubArrayArray
              (rd_times (unat len) (rd_bind rd_left (\<lambda>now. sub (ptr_room maxbytes start now)))))
      | LT_kInterval \<Rightarrow>
          rd_bind (rd_enum TYPE(32 word) TimeUnit_of_num) (\<lambda>u. rd_map (LitInterval u) ReadBufAdv)
      | LT_kLongSparseArray \<Rightarrow>
          rd_bind read_i64s_resize (\<lambda>xs. rd_map (LitLongSparseArray xs) read_i64s_resize)
      | LT_kDoubleSparseArray \<Rightarrow>
          rd_bind read_i64s_resize (\<lambda>xs. rd_map (LitDoubleSparseArray xs) read_i64s_resize)
      | LT_kEmptyArray \<Rightarrow> rd_return LitEmptyArray)"

fun ConstantExpr_ReadAdv_fuel :: "nat \<Rightarrow> int \<Rightarrow> constant_expr reader" where
  "ConstantExpr_ReadAdv_fuel 0 maxbytes = rd_fail UndefinedBehaviour"
| "ConstantExpr_ReadAdv_fuel (Suc fuel) maxbytes =
     rd_bind rd_left (\<lambda>start.
     rd_bind (rd_enum TYPE(32 word) LiteralType_of_num) (\<lambda>literal_type.
     rd_bind (ConstantExpr_ReadAdv_value (ConstantExpr_ReadAdv_fuel fuel) maxbytes start literal_type)
       (\<lambda>const_expr.
     rd_bind rd_left (\<lambda>now.
       if \<not> 0 \<le> ptr_room maxbytes start now
       then rd_fail (ParserError ''ptr goes out of range when reading constant expression'')
       else rd_return const_expr))))"

definition ConstantExpr_ReadAdv :: "int \<Rightarrow> constant_expr reader" where
  "ConstantExpr_ReadAdv maxbytes bs = ConstantExpr_ReadAdv_fuel (length bs + 1) maxbytes bs"

fun valid_constant_expr :: "constant_expr \<Rightarrow> bool" where
  "valid_constant_expr (LitString s) \<longleftrightarrow> valid_string s \<and> CHR 0x00 \<notin> set s"
| "valid_constant_expr (LitDate s) \<longleftrightarrow> valid_string s \<and> CHR 0x00 \<notin> set s"
| "valid_constant_expr (LitTime s) \<longleftrightarrow> valid_string s \<and> CHR 0x00 \<notin> set s"
| "valid_constant_expr (LitDateTime s) \<longleftrightarrow> valid_string s \<and> CHR 0x00 \<notin> set s"
| "valid_constant_expr (LitTimestamp s) \<longleftrightarrow> valid_string s \<and> CHR 0x00 \<notin> set s"
| "valid_constant_expr (LitIntegerArray xs) \<longleftrightarrow> length xs < 2 ^ 60"
| "valid_constant_expr (LitDoubleArray xs) \<longleftrightarrow> length xs < 2 ^ 60"
| "valid_constant_expr (LitSubArrayArray es) \<longleftrightarrow> length es < 2 ^ 60 \<and> list_all valid_constant_expr es"
| "valid_constant_expr (LitLongSparseArray xs ys) \<longleftrightarrow> length xs < 2 ^ 60 \<and> length ys < 2 ^ 60"
| "valid_constant_expr (LitDoubleSparseArray xs ys) \<longleftrightarrow> length xs < 2 ^ 60 \<and> length ys < 2 ^ 60"
| "valid_constant_expr _ \<longleftrightarrow> True"

section \<open>Reading what was written\<close>

lemma rd_map_Inr [codec_simps]: "p bs = Inr (x, bs') \<Longrightarrow> rd_map f p bs = Inr (f x, bs')"
  by (simp add: rd_map_def rd_bind_def rd_return_def)

lemma rd_mono_map [intro]: "rd_mono p \<Longrightarrow> rd_mono (rd_map f p)"
  unfolding rd_map_def by (intro rd_mono_bind) auto

lemma length_concat_words [simp]:
  "length (concat (map WriteBufAdv (xs :: 64 word list))) = 8 * length xs"
  by (induction xs) auto

lemma length_write_i64s [simp]: "length (write_i64s xs) = 8 + 8 * length xs"
  by (simp add: write_i64s_def)

lemma unat_word_of_nat64: "n < 2 ^ 64 \<Longrightarrow> unat (word_of_nat n :: 64 word) = n"
  by (simp add: unat_of_nat)

lemma read_write_i64s [codec_simps]:
  assumes "length xs < 2 ^ 60"
  shows "read_i64s (write_i64s xs @ rest) = Inr (xs, rest)"
    and "read_i64s_resize (write_i64s xs @ rest) = Inr (xs, rest)"
proof -
  have "rd_times (length xs) ReadBufAdv (concat (map WriteBufAdv xs) @ rest) = Inr (xs, rest)"
    by (rule rd_times_concat) simp
  moreover have "unat (word_of_nat (length xs) :: u64) = length xs"
    using assms by (intro unat_word_of_nat64) simp
  ultimately show "read_i64s (write_i64s xs @ rest) = Inr (xs, rest)"
    "read_i64s_resize (write_i64s xs @ rest) = Inr (xs, rest)"
    using assms by (simp_all add: read_i64s_def read_i64s_resize_def write_i64s_def rd_bind_def)
qed

lemma c_str_id [simp]: "CHR 0x00 \<notin> set s \<Longrightarrow> c_str s = s"
  by (auto simp: c_str_def takeWhile_eq_all_conv)

lemma rd_enum_literal_type [codec_simps]:
  "rd_enum TYPE(32 word) LiteralType_of_num
     (WriteBufAdv (word_of_nat (LiteralType_num t) :: 32 word) @ rest) = Inr (t, rest)"
  by (rule rd_enum_WriteBufAdv(2)) (use LiteralType_num_less [of t] in simp_all)

lemma rd_enum_time_unit [codec_simps]:
  "rd_enum TYPE(32 word) TimeUnit_of_num
     (WriteBufAdv (word_of_nat (TimeUnit_num u) :: 32 word) @ rest) = Inr (u, rest)"
  by (rule rd_enum_WriteBufAdv(2)) (use TimeUnit_num_less [of u] in simp_all)

lemma length_sub_le: "e \<in> set es \<Longrightarrow> length (f e) \<le> length (concat (map f es))"
  by (induction es) auto

lemma ConstantExpr_read_write_fuel:
  "valid_constant_expr e \<Longrightarrow> length (ConstantExpr_WriteAdv e) < fuel
   \<Longrightarrow> int (length (ConstantExpr_WriteAdv e)) \<le> m
   \<Longrightarrow> ConstantExpr_ReadAdv_fuel fuel m (ConstantExpr_WriteAdv e @ rest) = Inr (e, rest)"
proof (induction "length (ConstantExpr_WriteAdv e)" arbitrary: e fuel m rest rule: less_induct)
  case less
  obtain k where k: "fuel = Suc k" using less.prems by (cases fuel) auto
  define start where "start = length (ConstantExpr_WriteAdv e @ rest)"
  have "ConstantExpr_ReadAdv_value (ConstantExpr_ReadAdv_fuel k) m start (literal_type_of e)
      (ConstantExpr_WriteAdv_value e @ rest) = Inr (e, rest)"
  proof (cases e)
    case (LitSubArrayArray es)
    let ?body = "concat (map ConstantExpr_WriteAdv es)"
    have "rd_times (length es) (rd_bind rd_left (\<lambda>now. ConstantExpr_ReadAdv_fuel k (ptr_room m start now)))
        (?body @ rest) = Inr (es, rest)"
    proof (rule rd_times_concat)
      fix x and bs :: "byte list" assume x: "x \<in> set es" and bs: "length rest \<le> length bs"
      have "length (ConstantExpr_WriteAdv x) \<le> length ?body" by (rule length_sub_le [OF x])
      then have l: "length (ConstantExpr_WriteAdv x) + 12 \<le> length (ConstantExpr_WriteAdv e)"
        by (simp add: LitSubArrayArray)
      then have "int (length (ConstantExpr_WriteAdv x)) \<le> ptr_room m start (length (ConstantExpr_WriteAdv x @ bs))"
        using less.prems(3) bs by (simp add: ptr_room_def start_def del: ConstantExpr_WriteAdv.simps)
      then have "ConstantExpr_ReadAdv_fuel k (ptr_room m start (length (ConstantExpr_WriteAdv x @ bs)))
          (ConstantExpr_WriteAdv x @ bs) = Inr (x, bs)"
        using less.prems l k x LitSubArrayArray by (intro less.hyps) (auto simp: list_all_iff)
      then show "rd_bind rd_left (\<lambda>now. ConstantExpr_ReadAdv_fuel k (ptr_room m start now))
          (ConstantExpr_WriteAdv x @ bs) = Inr (x, bs)"
        by (simp add: rd_bind_def rd_left_def del: ConstantExpr_WriteAdv.simps)
    qed
    moreover have "unat (word_of_nat (length es) :: u64) = length es"
      using less.prems(1) LitSubArrayArray by (intro unat_word_of_nat64) simp
    ultimately show ?thesis
      by (simp add: LitSubArrayArray ConstantExpr_ReadAdv_value_def rd_bind_def [of ReadBufAdv] rd_map_Inr
          del: ConstantExpr_WriteAdv.simps)
  qed (use less.prems(1) in \<open>simp_all add: ConstantExpr_ReadAdv_value_def codec_simps\<close>)
  moreover have "0 \<le> ptr_room m start (length rest)"
    using less.prems(3) by (simp add: ptr_room_def start_def del: ConstantExpr_WriteAdv.simps)
  ultimately show ?case
    using start_def by (simp add: k rd_bind_def rd_left_def rd_return_def rd_enum_literal_type)
qed

text \<open>Every nested literal takes at least the four bytes of its type, so the bound never runs out.\<close>

lemma rd_enum_shrinks:
  assumes "rd_enum TYPE(32 word) of_num bs = Inr (t, cs)"
  shows "length cs < length bs"
proof -
  obtain w :: "32 word" where "ReadBufAdv bs = Inr (w, cs)"
    using assms
    by (auto simp: rd_enum_def rd_bind_eq_Inr rd_return_def rd_fail_def split: option.splits)
  then show ?thesis by (auto simp: ReadBufAdv_def split: if_splits)
qed

lemma rd_mono_read_i64s [intro, simp]: "rd_mono read_i64s" "rd_mono read_i64s_resize"
  unfolding read_i64s_def read_i64s_resize_def by (intro rd_mono_bind rd_mono_ReadBufAdv; auto)+

lemma rd_mono_value:
  assumes "\<And>i. rd_mono (sub i)"
  shows "rd_mono (ConstantExpr_ReadAdv_value sub m start t)"
  unfolding ConstantExpr_ReadAdv_value_def
  by (cases t; simp; intro rd_mono_bind rd_mono_map rd_mono_times rd_mono_left assms
      rd_mono_ReadBufAdv rd_mono_ReadBufAdv_string rd_mono_read_i64s rd_mono_rd_enum rd_mono_return)

lemma rd_mono_ReadAdv_fuel: "rd_mono (ConstantExpr_ReadAdv_fuel fuel m)"
  by (induction fuel arbitrary: m) (auto intro!: rd_mono_bind rd_mono_value)

lemma rd_bind_cong_left:
  "p bs = q bs \<Longrightarrow> (\<And>x cs. p bs = Inr (x, cs) \<Longrightarrow> f x cs = g x cs) \<Longrightarrow> rd_bind p f bs = rd_bind q g bs"
  by (cases "q bs") (auto simp: rd_bind_def)

lemma ConstantExpr_ReadAdv_fuel_enough:
  "length bs < fuel \<Longrightarrow> length bs < fuel' \<Longrightarrow>
   ConstantExpr_ReadAdv_fuel fuel m bs = ConstantExpr_ReadAdv_fuel fuel' m bs"
proof (induction "length bs" arbitrary: bs fuel fuel' m rule: less_induct)
  case less
  obtain k k' where k: "fuel = Suc k" "fuel' = Suc k'" using less.prems by (cases fuel; cases fuel') auto
  have val: "ConstantExpr_ReadAdv_value (ConstantExpr_ReadAdv_fuel k) m start t cs
      = ConstantExpr_ReadAdv_value (ConstantExpr_ReadAdv_fuel k') m start t cs"
    if cs: "length cs < length bs" for start t cs
  proof (cases "t = LT_kSubArrayArray")
    case True
    have "rd_times n (rd_bind rd_left (\<lambda>now. ConstantExpr_ReadAdv_fuel k (ptr_room m start now))) ds
        = rd_times n (rd_bind rd_left (\<lambda>now. ConstantExpr_ReadAdv_fuel k' (ptr_room m start now))) ds"
      if "length ds \<le> length cs" for n ds
      using that cs less k
      by (intro rd_times_cong rd_mono_bind rd_mono_left rd_mono_ReadAdv_fuel)
        (simp add: rd_bind_def rd_left_def)
    moreover have "ReadBufAdv cs = Inr (x :: u64, ds) \<Longrightarrow> length ds \<le> length cs" for x ds
      by (rule rd_monoD [OF rd_mono_ReadBufAdv])
    ultimately show ?thesis
      by (auto simp: True ConstantExpr_ReadAdv_value_def rd_map_def intro!: rd_bind_cong_left)
  qed (simp add: ConstantExpr_ReadAdv_value_def split: literal_type.split)
  show ?case
    using rd_enum_shrinks
    by (auto simp: k rd_left_def intro!: rd_bind_cong_left val)
qed

section \<open>The codec\<close>

lemma ConstantExpr_size:
  "ConstantExpr_GetSizeInBytes e = word_of_nat (length (ConstantExpr_WriteAdv e))"
proof (induction e)
  case (LitSubArrayArray es)
  then have "sum_list (map ConstantExpr_GetSizeInBytes es)
      = word_of_nat (length (concat (map ConstantExpr_WriteAdv es)))"
    by (induction es) auto
  then show ?case by simp
qed simp_all

interpretation constant_expr_codec:
  sized_codec valid_constant_expr "\<lambda>e. Inr (ConstantExpr_WriteAdv e)" ConstantExpr_ReadAdv
    "\<lambda>e. Inr (ConstantExpr_GetSizeInBytes e)"
proof unfold_locales
  fix e assume "valid_constant_expr e"
  then show "\<exists>bs. Inr (ConstantExpr_WriteAdv e) = Inr bs
      \<and> (\<forall>m rest. int (length bs) \<le> m \<longrightarrow> ConstantExpr_ReadAdv m (bs @ rest) = Inr (e, rest))"
    using ConstantExpr_read_write_fuel [of e]
    by (auto simp: ConstantExpr_ReadAdv_def simp del: ConstantExpr_WriteAdv.simps
        ConstantExpr_ReadAdv_fuel.simps)
qed (simp add: ConstantExpr_size del: ConstantExpr_WriteAdv.simps)

section \<open>Properties\<close>

text \<open>
  C28: A literal whose strings fit their length field and contain no zero character is read back
  unchanged from what \<^verbatim>\<open>ConstantExpr::WriteAdv\<close> stored, at any nesting of arrays, and
  \<^verbatim>\<open>GetSizeInBytes\<close> is the number of bytes stored.
\<close>

theorem ConstantExpr_round_trip:
  assumes "valid_constant_expr e" and "int (length (ConstantExpr_WriteAdv e)) \<le> m"
  shows "ConstantExpr_ReadAdv m (ConstantExpr_WriteAdv e @ rest) = Inr (e, rest)
    \<and> ConstantExpr_GetSizeInBytes e = word_of_nat (length (ConstantExpr_WriteAdv e))"
  using constant_expr_codec.dec_enc [OF assms(1) refl assms(2)] ConstantExpr_size by blast

theorem ConstantExpr_round_trip_witness:
  "ConstantExpr_ReadAdv 100
     (ConstantExpr_WriteAdv (LitSubArrayArray [LitIntegerArray [1, 2], LitSubArrayArray [LitString ''ab'']]) @ [7])
   = Inr (LitSubArrayArray [LitIntegerArray [1, 2], LitSubArrayArray [LitString ''ab'']], [7])
   \<and> ConstantExpr_GetSizeInBytes (LitSubArrayArray [LitIntegerArray [1, 2], LitSubArrayArray [LitString ''ab'']])
     = word_of_nat (length (ConstantExpr_WriteAdv
         (LitSubArrayArray [LitIntegerArray [1, 2], LitSubArrayArray [LitString ''ab'']])))"
  by (rule ConstantExpr_round_trip) (simp_all add: valid_string_def)

text \<open>
  On arbitrary bytes the bound on the nesting of the reader is no restriction: every larger bound
  gives the same result.
\<close>

theorem ConstantExpr_ReadAdv_bound:
  "ConstantExpr_ReadAdv_fuel (length bs + 1 + k) m bs = ConstantExpr_ReadAdv m bs"
  unfolding ConstantExpr_ReadAdv_def by (rule ConstantExpr_ReadAdv_fuel_enough) simp_all

end
