(* ===== verification/Table_Def.thy ===== *)
theory Table_Def
  imports Data_Type Constant_Expr
begin

text \<open>
  \<^verbatim>\<open>src/parser/definition/column_def.cpp\<close> and \<^verbatim>\<open>src/storage/definition/table_def.cpp\<close>: the definition of
  a table as it is written to the log, with its comparison and its look-up of columns by name.  The
  \<^verbatim>\<open>std::set\<close> of constraints is its elements in increasing order.
\<close>

section \<open>Constraints\<close>

datatype constraint_type = CT_kNull | CT_kNotNull | CT_kPrimaryKey | CT_kUnique | CT_kInvalid

fun ConstraintType_num :: "constraint_type \<Rightarrow> nat" where
  "ConstraintType_num CT_kNull = 0"
| "ConstraintType_num CT_kNotNull = 1"
| "ConstraintType_num CT_kPrimaryKey = 2"
| "ConstraintType_num CT_kUnique = 3"
| "ConstraintType_num CT_kInvalid = 4"

definition ConstraintType_of_num :: "nat \<Rightarrow> constraint_type option" where
  "ConstraintType_of_num n =
     (let ts = [CT_kNull, CT_kNotNull, CT_kPrimaryKey, CT_kUnique, CT_kInvalid]
      in if n < length ts then Some (ts ! n) else None)"

lemma ConstraintType_of_num_num [simp]: "ConstraintType_of_num (ConstraintType_num t) = Some t"
  by (cases t) (simp_all add: ConstraintType_of_num_def)

lemma ConstraintType_num_inject [simp]: "ConstraintType_num s = ConstraintType_num t \<longleftrightarrow> s = t"
  by (metis ConstraintType_of_num_num option.inject)

lemma ConstraintType_num_less: "ConstraintType_num t < 5"
  by (cases t) simp_all

instantiation constraint_type :: linorder
begin

definition less_eq_constraint_type :: "constraint_type \<Rightarrow> constraint_type \<Rightarrow> bool" where
  "s \<le> t \<longleftrightarrow> ConstraintType_num s \<le> ConstraintType_num t"

definition less_constraint_type :: "constraint_type \<Rightarrow> constraint_type \<Rightarrow> bool" where
  "s < t \<longleftrightarrow> ConstraintType_num s < ConstraintType_num t"

instance
  by standard (auto simp: less_eq_constraint_type_def less_constraint_type_def)

end

definition ConstrainTypeToString :: "constraint_type \<Rightarrow> string" where
  "ConstrainTypeToString type =
     (case type of
        CT_kPrimaryKey \<Rightarrow> ''PrimaryKey''
      | CT_kUnique \<Rightarrow> ''Unique''
      | CT_kNull \<Rightarrow> ''Nullable''
      | CT_kNotNull \<Rightarrow> ''Not nullable''
      | CT_kInvalid \<Rightarrow> ''Invalid'')"

definition string_to_constraint_type :: "(string \<times> constraint_type) list" where
  "string_to_constraint_type =
     [(''primary key'', CT_kPrimaryKey), (''unique'', CT_kUnique), (''null'', CT_kNull),
      (''not null'', CT_kNotNull), (''invalid'', CT_kInvalid)]"

definition StringToConstraintType :: "string \<Rightarrow> constraint_type" where
  "StringToConstraintType type =
     (case map_of string_to_constraint_type type of Some t \<Rightarrow> t | None \<Rightarrow> CT_kInvalid)"

section \<open>Columns and tables\<close>

record column_def =
  cd_id :: i64
  cd_column_type :: data_type
  cd_name :: string
  cd_constraints :: "constraint_type list"
  cd_default_expr :: constant_expr
  cd_build_bloom_filter :: bool

text \<open>The constructor: no default expression means the literal null.\<close>

definition ColumnDef_new ::
  "i64 \<Rightarrow> data_type \<Rightarrow> string \<Rightarrow> constraint_type list \<Rightarrow> constant_expr option \<Rightarrow> column_def" where
  "ColumnDef_new column_id column_type column_name constraints default_expr =
     \<lparr>cd_id = column_id, cd_column_type = column_type, cd_name = column_name, cd_constraints = constraints,
      cd_default_expr = (case default_expr of Some e \<Rightarrow> e | None \<Rightarrow> LitNull),
      cd_build_bloom_filter = False\<rparr>"

definition ColumnDef_eq :: "column_def \<Rightarrow> column_def \<Rightarrow> bool" where
  "ColumnDef_eq a b \<longleftrightarrow>
     (if \<not> (cd_id a = cd_id b \<and> cd_name a = cd_name b
        \<and> DataType_eq (cd_column_type a) (cd_column_type b)
        \<and> length (cd_constraints a) = length (cd_constraints b)
        \<and> cd_build_bloom_filter a = cd_build_bloom_filter b) then False
      else list_all (\<lambda>con. con \<in> set (cd_constraints b)) (cd_constraints a))"

record table_def =
  td_schema_name :: string
  td_table_name :: string
  td_columns :: "column_def list"

text \<open>\<^verbatim>\<open>column_name2id_\<close>, filled by the constructor in the order of the columns.\<close>

definition column_name2id :: "table_def \<Rightarrow> string \<rightharpoonup> nat" where
  "column_name2id td =
     foldl (\<lambda>m (idx, c). m(cd_name c \<mapsto> idx)) Map.empty (zip [0..<length (td_columns td)] (td_columns td))"

definition GetColIdByName :: "table_def \<Rightarrow> string \<Rightarrow> u64" where
  "GetColIdByName td name = (case column_name2id td name of Some i \<Rightarrow> word_of_nat i | None \<Rightarrow> - 1)"

definition TableDef_UnionWith :: "table_def \<Rightarrow> table_def \<Rightarrow> table_def" where
  "TableDef_UnionWith this other = this\<lparr>td_columns := td_columns this @ td_columns other\<rparr>"

definition TableDef_eq :: "table_def \<Rightarrow> table_def \<Rightarrow> bool" where
  "TableDef_eq a b \<longleftrightarrow>
     (if td_schema_name a \<noteq> td_schema_name b \<or> td_table_name a \<noteq> td_table_name b
        \<or> length (td_columns a) \<noteq> length (td_columns b)
        \<or> length (remdups (map cd_name (td_columns a))) \<noteq> length (remdups (map cd_name (td_columns b)))
      then False
      else list_all2 ColumnDef_eq (td_columns a) (td_columns b))"

section \<open>Size and binary form\<close>

definition ColumnDef_size :: "column_def \<Rightarrow> i32 res" where
  "ColumnDef_size cd =
     sz_sum [Inr 8, DataType_GetSizeInBytes (cd_column_type cd), Inr (4 + word_of_nat (length (cd_name cd))),
       Inr 4, Inr (word_of_nat (length (cd_constraints cd)) * 1),
       Inr (ConstantExpr_GetSizeInBytes (cd_default_expr cd)), Inr 1]"

definition TableDef_GetSizeInBytes :: "table_def \<Rightarrow> i32 res" where
  "TableDef_GetSizeInBytes td =
     sz_sum ([Inr (4 + word_of_nat (length (td_schema_name td))),
              Inr (4 + word_of_nat (length (td_table_name td))), Inr 4]
             @ map ColumnDef_size (td_columns td))"

definition ConstraintType_bytes :: "constraint_type \<Rightarrow> byte list" where
  "ConstraintType_bytes cons = WriteBufAdv (word_of_nat (ConstraintType_num cons) :: i8)"

definition ColumnDef_write :: "column_def \<Rightarrow> byte list res" where
  "ColumnDef_write cd =
     wr_concat [Inr (WriteBufAdv (cd_id cd)), DataType_WriteAdv (cd_column_type cd),
       Inr (WriteBufAdv_string (cd_name cd)),
       Inr (WriteBufAdv (word_of_nat (length (cd_constraints cd)) :: i32)),
       Inr (concat (map ConstraintType_bytes (cd_constraints cd))),
       Inr (ConstantExpr_WriteAdv (cd_default_expr cd)),
       Inr (WriteBufAdv (if cd_build_bloom_filter cd then 1 else 0 :: u8))]"

definition TableDef_WriteAdv :: "table_def \<Rightarrow> byte list res" where
  "TableDef_WriteAdv td =
     wr_concat ([Inr (WriteBufAdv_string (td_schema_name td)), Inr (WriteBufAdv_string (td_table_name td)),
                 Inr (WriteBufAdv (word_of_nat (length (td_columns td)) :: i32))]
                @ map ColumnDef_write (td_columns td))"

text \<open>A loop \<^verbatim>\<open>for (i32 j = 0; j < n; j++)\<close> does not run for a negative \<^verbatim>\<open>n\<close>.\<close>

definition ColumnDef_read :: "int \<Rightarrow> nat \<Rightarrow> column_def reader" where
  "ColumnDef_read maxbytes start =
     rd_bind ReadBufAdv (\<lambda>column_id :: i64.
     rd_bind rd_left (\<lambda>now.
     if ptr_room maxbytes start now \<le> 0
     then rd_fail (UnrecoverableError ''ptr goes out of range when reading TableDef'')
     else rd_bind (DataType_ReadAdv (ptr_room maxbytes start now)) (\<lambda>column_type.
     rd_bind ReadBufAdv_string (\<lambda>column_name.
     rd_bind ReadBufAdv (\<lambda>constraints_size :: i32.
     rd_bind (rd_times (nat (sint constraints_size)) (rd_enum TYPE(8 word) ConstraintType_of_num)) (\<lambda>cts.
     rd_bind (ConstantExpr_ReadAdv (ptr_room maxbytes start now)) (\<lambda>default_expr.
     rd_bind ReadBufAdv (\<lambda>bf :: u8.
     rd_return
       ((ColumnDef_new column_id column_type column_name
           (foldl (\<lambda>s c. insort_insert c s) [] cts) (Some default_expr))
         \<lparr>cd_build_bloom_filter := bf \<noteq> 0\<rparr>)))))))))"

definition TableDef_ReadAdv :: "int \<Rightarrow> table_def reader" where
  "TableDef_ReadAdv maxbytes =
     (if maxbytes \<le> 0 then rd_fail (UnrecoverableError ''ptr goes out of range when reading TableDef'')
      else
        rd_bind rd_left (\<lambda>start.
        rd_bind ReadBufAdv_string (\<lambda>schema_name.
        rd_bind ReadBufAdv_string (\<lambda>table_name.
        rd_bind ReadBufAdv (\<lambda>columns_size :: i32.
        rd_bind (rd_times (nat (sint columns_size)) (ColumnDef_read maxbytes start)) (\<lambda>columns.
        rd_bind rd_left (\<lambda>now.
          if ptr_room maxbytes start now < 0
          then rd_fail (UnrecoverableError ''ptr goes out of range when reading TableDef'')
          else rd_return \<lparr>td_schema_name = schema_name, td_table_name = table_name,
                          td_columns = columns\<rparr>)))))))"

definition valid_column_def :: "column_def \<Rightarrow> bool" where
  "valid_column_def cd \<longleftrightarrow>
     valid_data_type (cd_column_type cd) \<and> valid_string (cd_name cd)
     \<and> sorted_wrt (<) (cd_constraints cd) \<and> valid_constant_expr (cd_default_expr cd)"

definition valid_table_def :: "table_def \<Rightarrow> bool" where
  "valid_table_def td \<longleftrightarrow>
     valid_string (td_schema_name td) \<and> valid_string (td_table_name td)
     \<and> length (td_columns td) < 2 ^ 31 \<and> list_all valid_column_def (td_columns td)"

section \<open>Reading what was written\<close>

lemma foldl_insort_insert_sorted:
  "sorted_wrt (<) xs \<Longrightarrow> foldl (\<lambda>s c. insort_insert c s) [] xs = (xs :: 'a::linorder list)"
proof (induction xs rule: rev_induct)
  case (snoc x xs)
  then have "sorted_wrt (<) xs" "\<forall>y\<in>set xs. y < x" by (auto simp: sorted_wrt_append)
  then have "x \<notin> set xs" "insort x xs = xs @ [x]"
    by (auto intro: sorted_insort_is_snoc strict_sorted_imp_sorted less_imp_le)
  with snoc \<open>sorted_wrt (<) xs\<close> show ?case by (simp add: insort_insert_key_def)
qed simp

lemma sorted_constraints_length: "sorted_wrt (<) (xs :: constraint_type list) \<Longrightarrow> length xs < 2 ^ 31"
proof -
  assume "sorted_wrt (<) xs"
  then have "distinct xs" by (simp add: strict_sorted_iff)
  then have "length xs = card (set xs)" by (simp add: distinct_card)
  also have "\<dots> = card (ConstraintType_num ` set xs)" by (simp add: card_image inj_on_def)
  also have "\<dots> \<le> card {..<(5::nat)}" by (intro card_mono) (auto intro: ConstraintType_num_less)
  finally show ?thesis by simp
qed

lemma length_constraint_bytes [simp]: "length (concat (map ConstraintType_bytes cs)) = length cs"
  by (induction cs) (auto simp: ConstraintType_bytes_def)

lemma read_constraints [codec_simps]:
  "rd_times (length cs) (rd_enum TYPE(8 word) ConstraintType_of_num)
     (concat (map ConstraintType_bytes cs) @ rest) = Inr (cs, rest)"
proof (rule rd_times_concat)
  fix c and bs :: "byte list"
  show "rd_enum TYPE(8 word) ConstraintType_of_num (ConstraintType_bytes c @ bs) = Inr (c, bs)"
    unfolding ConstraintType_bytes_def
    by (rule rd_enum_WriteBufAdv(1)) (use ConstraintType_num_less [of c] in simp_all)
qed

lemma ColumnDef_codec:
  assumes "valid_column_def cd"
  shows "\<exists>bs. ColumnDef_write cd = Inr bs \<and> ColumnDef_size cd = Inr (word_of_nat (length bs))
    \<and> (\<forall>m start rest. int start - int (length rest) \<le> m \<longrightarrow> start \<ge> length (bs @ rest)
         \<longrightarrow> ColumnDef_read m start (bs @ rest) = Inr (cd, rest))"
proof -
  have v: "valid_data_type (cd_column_type cd)" "valid_string (cd_name cd)"
    "sorted_wrt (<) (cd_constraints cd)" "valid_constant_expr (cd_default_expr cd)"
    using assms by (simp_all add: valid_column_def_def)
  obtain tb where tb: "DataType_WriteAdv (cd_column_type cd) = Inr tb"
    using data_type_codec.enc_ok [OF v(1)] by blast
  note ts = data_type_codec.size_law [OF v(1) tb]
  note es = ConstantExpr_size [of "cd_default_expr cd"]
  define eb where "eb = ConstantExpr_WriteAdv (cd_default_expr cd)"
  define cb where "cb = concat (map ConstraintType_bytes (cd_constraints cd))"
  define bs where "bs = WriteBufAdv (cd_id cd) @ tb @ WriteBufAdv_string (cd_name cd)
      @ WriteBufAdv (word_of_nat (length (cd_constraints cd)) :: i32) @ cb @ eb
      @ WriteBufAdv (if cd_build_bloom_filter cd then 1 else 0 :: u8)"
  have len: "length cb = length (cd_constraints cd)" by (simp add: cb_def)
  have w: "ColumnDef_write cd = Inr bs"
    by (simp add: ColumnDef_write_def tb bs_def eb_def cb_def del: ConstantExpr_WriteAdv.simps)
  moreover have "ColumnDef_size cd = Inr (word_of_nat (length bs))"
    by (simp add: ColumnDef_size_def ts es eb_def [symmetric] bs_def len del: ConstantExpr_WriteAdv.simps)
  moreover have "ColumnDef_read m start (bs @ rest) = Inr (cd, rest)"
    if m: "int start - int (length rest) \<le> m" "start \<ge> length (bs @ rest)" for m start rest
  proof -
    define now where "now = length bs - 8 + length rest"
    have room: "int (length tb) \<le> ptr_room m start now" "int (length eb) \<le> ptr_room m start now"
      "\<not> ptr_room m start now \<le> 0"
      using m by (simp_all add: ptr_room_def now_def bs_def)
    have cs: "nat (sint (word_of_nat (length (cd_constraints cd)) :: i32)) = length (cd_constraints cd)"
      using sorted_constraints_length [OF v(3)] by (simp add: sint_word_of_nat32)
    have 1: "DataType_ReadAdv (ptr_room m start now) (tb @ more) = Inr (cd_column_type cd, more)" for more
      by (rule data_type_codec.dec_enc [OF v(1) tb room(1)])
    have 2: "ConstantExpr_ReadAdv (ptr_room m start now) (eb @ more) = Inr (cd_default_expr cd, more)" for more
      using constant_expr_codec.dec_enc [OF v(4) refl] room(2) by (simp add: eb_def)
    have l: "length (tb @ WriteBufAdv_string (cd_name cd) @ WriteBufAdv (word_of_nat (length (cd_constraints cd)) :: i32)
        @ cb @ eb @ WriteBufAdv (if cd_build_bloom_filter cd then 1 else 0 :: u8) @ rest) = now"
      by (simp add: now_def bs_def)
    show ?thesis
      unfolding ColumnDef_read_def bs_def append_assoc
      by (simp only: rd_bind_Inr rd_left_apply ReadBufAdv_WriteBufAdv l room(3) if_False 1 2
          ReadBufAdv_string_WriteBufAdv [OF v(2)] cs
          read_constraints [of "cd_constraints cd", folded cb_def])
        (simp add: rd_return_def ColumnDef_new_def foldl_insort_insert_sorted [OF v(3)])
  qed
  ultimately show ?thesis by blast
qed

lemma TableDef_codec:
  assumes "valid_table_def td"
  shows "\<exists>bs. TableDef_WriteAdv td = Inr bs \<and> TableDef_GetSizeInBytes td = Inr (word_of_nat (length bs))
    \<and> (\<forall>m rest. int (length bs) \<le> m \<longrightarrow> TableDef_ReadAdv m (bs @ rest) = Inr (td, rest))"
proof -
  have v: "valid_string (td_schema_name td)" "valid_string (td_table_name td)"
    "length (td_columns td) < 2 ^ 31" "\<And>c. c \<in> set (td_columns td) \<Longrightarrow> valid_column_def c"
    using assms by (simp_all add: valid_table_def_def list_all_iff)
  define b where "b c = projr (ColumnDef_write c)" for c
  have b: "ColumnDef_write c = Inr (b c)" "ColumnDef_size c = Inr (word_of_nat (length (b c)))"
    "\<And>m start rest. int start - int (length rest) \<le> m \<Longrightarrow> start \<ge> length (b c @ rest)
       \<Longrightarrow> ColumnDef_read m start (b c @ rest) = Inr (c, rest)"
    if "c \<in> set (td_columns td)" for c
    using ColumnDef_codec [OF v(4) [OF that]] by (auto simp: b_def)
  let ?cols = "concat (map b (td_columns td))"
  define bs where "bs = WriteBufAdv_string (td_schema_name td) @ WriteBufAdv_string (td_table_name td)
      @ WriteBufAdv (word_of_nat (length (td_columns td)) :: i32) @ ?cols"
  have "TableDef_WriteAdv td = Inr bs"
    using wr_concat_map [of "td_columns td" ColumnDef_write b] b(1)
    by (simp add: TableDef_WriteAdv_def bs_def)
  moreover have "TableDef_GetSizeInBytes td = Inr (word_of_nat (length bs))"
    using sz_sum_map [of "td_columns td" ColumnDef_size b] b(2)
    by (simp add: TableDef_GetSizeInBytes_def bs_def)
  moreover have "TableDef_ReadAdv m (bs @ rest) = Inr (td, rest)" if m: "int (length bs) \<le> m" for m rest
  proof -
    have n: "nat (sint (word_of_nat (length (td_columns td)) :: i32)) = length (td_columns td)"
      using v(3) by (simp add: sint_word_of_nat32)
    define start where "start = length (bs @ rest)"
    have cols: "rd_times (length (td_columns td)) (ColumnDef_read m start) (?cols @ rest) = Inr (td_columns td, rest)"
    proof -
      define suf where "suf = length ?cols"
      have "rd_times (length cs) (ColumnDef_read m start) (concat (map b cs) @ rest) = Inr (cs, rest)"
        if "set cs \<subseteq> set (td_columns td)" "length (concat (map b cs)) \<le> suf" for cs
        using that
      proof (induction cs)
        case (Cons c cs)
        have "ColumnDef_read m start (b c @ concat (map b cs) @ rest) = Inr (c, concat (map b cs) @ rest)"
          using Cons.prems m by (intro b(3)) (auto simp: start_def bs_def suf_def)
        moreover have "rd_times (length cs) (ColumnDef_read m start) (concat (map b cs) @ rest) = Inr (cs, rest)"
          using Cons by simp
        ultimately show ?case by (simp add: rd_bind_def rd_return_def)
      qed (simp add: rd_return_def)
      then show ?thesis by (simp add: suf_def)
    qed
    have room: "\<not> ptr_room m start (length rest) < 0" and pos: "\<not> m \<le> 0"
      using m by (simp_all add: ptr_room_def start_def bs_def)
    have "rd_left (bs @ rest) = Inr (start, bs @ rest)" by (simp add: rd_left_def start_def)
    then show ?thesis
      unfolding TableDef_ReadAdv_def bs_def append_assoc
      by (simp only: pos if_False rd_bind_Inr v ReadBufAdv_string_WriteBufAdv ReadBufAdv_WriteBufAdv n
          cols rd_left_apply room) (simp add: rd_return_def)
  qed
  ultimately show ?thesis by blast
qed

interpretation table_def_codec:
  sized_codec valid_table_def TableDef_WriteAdv TableDef_ReadAdv TableDef_GetSizeInBytes
  by unfold_locales (use TableDef_codec in fastforce)+

section \<open>Look-up by name\<close>

lemma column_name2id_foldl:
  "foldl (\<lambda>m (idx, c). m(cd_name c \<mapsto> idx)) m0 (zip is cs)
     = m0 ++ map_of (rev (zip (map cd_name cs) is))"
  by (induction cs arbitrary: m0 "is") (auto simp: zip_Cons1 split: list.splits)

section \<open>Properties\<close>

text \<open>
  C25: A table definition with valid column types, names and default values is written without
  error; what was written is read back unchanged wherever it stands in a larger buffer, and
  \<^verbatim>\<open>GetSizeInBytes\<close> is exactly the number of bytes written.
\<close>

theorem TableDef_round_trip:
  assumes "valid_table_def td"
  shows "\<exists>bs. TableDef_WriteAdv td = Inr bs \<and> TableDef_GetSizeInBytes td = Inr (word_of_nat (length bs))
    \<and> (\<forall>m rest. int (length bs) \<le> m \<longrightarrow> TableDef_ReadAdv m (bs @ rest) = Inr (td, rest))"
  using table_def_codec.enc_ok [OF assms] table_def_codec.dec_enc [OF assms]
    table_def_codec.size_law [OF assms] by blast

definition example_table :: table_def where
  "example_table =
     \<lparr>td_schema_name = ''default'', td_table_name = ''t'',
      td_columns =
        [ColumnDef_new 0 (DataType_new kInteger None) ''id'' [CT_kNotNull, CT_kPrimaryKey] None,
         ColumnDef_new 1 (DataType_new kEmbedding (Some (EmbeddingInfo kElemFloat 128))) ''v'' []
           (Some (LitDoubleArray [0, 1]))]\<rparr>"

theorem TableDef_round_trip_witness:
  "\<exists>bs. TableDef_WriteAdv example_table = Inr bs
    \<and> TableDef_GetSizeInBytes example_table = Inr (word_of_nat (length bs))
    \<and> (\<forall>m rest. int (length bs) \<le> m \<longrightarrow> TableDef_ReadAdv m (bs @ rest) = Inr (example_table, rest))"
  by (rule TableDef_round_trip)
    (simp add: example_table_def valid_table_def_def valid_column_def_def ColumnDef_new_def
      valid_data_type_def DataType_new_def valid_type_info_def EmbeddingInfo_Make_def
      EMBEDDING_LIMIT_INTERNAL_def valid_string_def less_constraint_type_def)

text \<open>
  \<^verbatim>\<open>GetColIdByName\<close> of a column of a table with distinct column names is its position, and of
  any other name the largest \<^verbatim>\<open>size_t\<close>; \<^verbatim>\<open>UnionWith\<close> keeps the positions of the columns of the
  left table whose names do not occur on the right.
\<close>

theorem GetColIdByName_position:
  assumes "distinct (map cd_name (td_columns td))"
  shows "(\<forall>i. i < length (td_columns td) \<longrightarrow>
            GetColIdByName td (cd_name (td_columns td ! i)) = word_of_nat i)
    \<and> (\<forall>name. name \<notin> set (map cd_name (td_columns td)) \<longrightarrow> GetColIdByName td name = - 1)
    \<and> (\<forall>other name. name \<notin> set (map cd_name (td_columns other)) \<longrightarrow>
         GetColIdByName (TableDef_UnionWith td other) name = GetColIdByName td name)"
proof (intro conjI allI impI)
  let ?names = "map cd_name (td_columns td)"
  fix i assume i: "i < length (td_columns td)"
  let ?z = "zip ?names [0..<length (td_columns td)]"
  have "distinct (map fst (rev ?z))" using assms by (simp add: rev_map [symmetric])
  moreover have "?z ! i = (cd_name (td_columns td ! i), i)" "i < length ?z" using i by simp_all
  then have "(cd_name (td_columns td ! i), i) \<in> set (rev ?z)" by (metis nth_mem set_rev)
  ultimately have "map_of (rev ?z) (cd_name (td_columns td ! i)) = Some i" by (rule map_of_is_SomeI)
  then show "GetColIdByName td (cd_name (td_columns td ! i)) = word_of_nat i"
    by (simp add: GetColIdByName_def column_name2id_def column_name2id_foldl)
next
  fix name assume "name \<notin> set (map cd_name (td_columns td))"
  then have "map_of (rev (zip (map cd_name (td_columns td)) [0..<length (td_columns td)])) name = None"
    by (auto simp: map_of_eq_None_iff dest: set_zip_leftD)
  then show "GetColIdByName td name = - 1"
    by (simp add: GetColIdByName_def column_name2id_def column_name2id_foldl)
next
  fix other :: table_def and name
  assume n: "name \<notin> set (map cd_name (td_columns other))"
  let ?l = "length (td_columns td)" and ?r = "length (td_columns other)"
  have "zip (map cd_name (td_columns td @ td_columns other)) [0..<?l + ?r]
      = zip (map cd_name (td_columns td)) [0..<?l] @ zip (map cd_name (td_columns other)) [?l..<?l + ?r]"
    using upt_add_eq_append [of 0 ?l ?r] by simp
  moreover have "map_of (rev (zip (map cd_name (td_columns other)) [?l..<?l + ?r])) name = None"
    using n by (auto simp: map_of_eq_None_iff dest: set_zip_leftD)
  ultimately show "GetColIdByName (TableDef_UnionWith td other) name = GetColIdByName td name"
    by (simp add: GetColIdByName_def column_name2id_def column_name2id_foldl TableDef_UnionWith_def
        map_add_def)
qed

theorem GetColIdByName_position_witness:
  "distinct (map cd_name (td_columns example_table))
   \<and> GetColIdByName example_table (cd_name (td_columns example_table ! 0)) = word_of_nat 0
   \<and> GetColIdByName example_table ''absent'' = - 1
   \<and> GetColIdByName (TableDef_UnionWith example_table example_table) ''absent'' = GetColIdByName example_table ''absent''"
proof -
  have d: "distinct (map cd_name (td_columns example_table))"
    and n: "0 < length (td_columns example_table)" "''absent'' \<notin> set (map cd_name (td_columns example_table))"
    by (simp_all add: example_table_def ColumnDef_new_def)
  from GetColIdByName_position [OF d] d n show ?thesis by blast
qed

end
