(* ===== verification/Index_Def.thy ===== *)
theory Index_Def
  imports Data_Type
begin

text \<open>
  \<^verbatim>\<open>src/storage/definition/index_base.cpp\<close> and the classes derived from \<^verbatim>\<open>IndexBase\<close>: the definition of
  an index as it is made from the parameters of a statement, checked against a table, written to the
  log and to the catalog.  The members of the derived classes are one datatype.
\<close>

section \<open>Enumerations\<close>

datatype index_type =
  IT_kIVFFlat | IT_kHnsw | IT_kBMP | IT_kFullText | IT_kSecondary | IT_kEMVB | IT_kInvalid

definition IndexType_enumerators :: "index_type list" where
  "IndexType_enumerators =
     [IT_kIVFFlat, IT_kHnsw, IT_kBMP, IT_kFullText, IT_kSecondary, IT_kEMVB, IT_kInvalid]"

fun IndexType_num :: "index_type \<Rightarrow> nat" where
  "IndexType_num IT_kIVFFlat = 0"
| "IndexType_num IT_kHnsw = 1"
| "IndexType_num IT_kBMP = 2"
| "IndexType_num IT_kFullText = 3"
| "IndexType_num IT_kSecondary = 4"
| "IndexType_num IT_kEMVB = 5"
| "IndexType_num IT_kInvalid = 6"

definition enum_of_num :: "'e list \<Rightarrow> nat \<Rightarrow> 'e option" where
  "enum_of_num es n = (if n < length es then Some (es ! n) else None)"

lemma IndexType_of_num_num [simp]: "enum_of_num IndexType_enumerators (IndexType_num t) = Some t"
  by (cases t) (simp_all add: enum_of_num_def IndexType_enumerators_def)

datatype metric_type = kMetricCosine | kMetricInnerProduct | kMetricL2 | MT_kInvalid

definition MetricType_enumerators :: "metric_type list" where
  "MetricType_enumerators = [kMetricCosine, kMetricInnerProduct, kMetricL2, MT_kInvalid]"

fun MetricType_num :: "metric_type \<Rightarrow> nat" where
  "MetricType_num kMetricCosine = 0"
| "MetricType_num kMetricInnerProduct = 1"
| "MetricType_num kMetricL2 = 2"
| "MetricType_num MT_kInvalid = 3"

lemma MetricType_of_num_num [simp]: "enum_of_num MetricType_enumerators (MetricType_num t) = Some t"
  by (cases t) (simp_all add: enum_of_num_def MetricType_enumerators_def)

datatype hnsw_encode_type = HE_kPlain | HE_kLVQ | HE_kInvalid

definition HnswEncodeType_enumerators :: "hnsw_encode_type list" where
  "HnswEncodeType_enumerators = [HE_kPlain, HE_kLVQ, HE_kInvalid]"

fun HnswEncodeType_num :: "hnsw_encode_type \<Rightarrow> nat" where
  "HnswEncodeType_num HE_kPlain = 0"
| "HnswEncodeType_num HE_kLVQ = 1"
| "HnswEncodeType_num HE_kInvalid = 2"

lemma HnswEncodeType_of_num_num [simp]:
  "enum_of_num HnswEncodeType_enumerators (HnswEncodeType_num t) = Some t"
  by (cases t) (simp_all add: enum_of_num_def HnswEncodeType_enumerators_def)

datatype bmp_compress_type = BMP_kRaw | BMP_kCompressed | BMP_kInvalid

definition BMPCompressType_enumerators :: "bmp_compress_type list" where
  "BMPCompressType_enumerators = [BMP_kRaw, BMP_kCompressed, BMP_kInvalid]"

fun BMPCompressType_num :: "bmp_compress_type \<Rightarrow> nat" where
  "BMPCompressType_num BMP_kRaw = 0"
| "BMPCompressType_num BMP_kCompressed = 1"
| "BMPCompressType_num BMP_kInvalid = 2"

lemma BMPCompressType_of_num_num [simp]:
  "enum_of_num BMPCompressType_enumerators (BMPCompressType_num t) = Some t"
  by (cases t) (simp_all add: enum_of_num_def BMPCompressType_enumerators_def)

lemma index_enum_bounds [simp]:
  "IndexType_num it < 256" "MetricType_num mt < 256" "HnswEncodeType_num he < 256"
  "BMPCompressType_num ct < 256"
  by (cases it, simp_all) (cases mt, simp_all, cases he, simp_all, cases ct, simp_all)

definition MetricTypeToString :: "metric_type \<Rightarrow> string" where
  "MetricTypeToString metric_type =
     (case metric_type of
        kMetricCosine \<Rightarrow> ''cos'' | kMetricInnerProduct \<Rightarrow> ''ip'' | kMetricL2 \<Rightarrow> ''l2''
      | MT_kInvalid \<Rightarrow> ''Invalid'')"

definition StringToMetricType :: "string \<Rightarrow> metric_type" where
  "StringToMetricType str =
     (if str = ''cos'' then kMetricCosine else if str = ''ip'' then kMetricInnerProduct
      else if str = ''l2'' then kMetricL2 else MT_kInvalid)"

definition StringToHnswEncodeType :: "string \<Rightarrow> hnsw_encode_type" where
  "StringToHnswEncodeType str =
     (if str = ''plain'' then HE_kPlain else if str = ''lvq'' then HE_kLVQ else HE_kInvalid)"

definition HnswEncodeTypeToString :: "hnsw_encode_type \<Rightarrow> string" where
  "HnswEncodeTypeToString encode_type =
     (case encode_type of HE_kPlain \<Rightarrow> ''plain'' | HE_kLVQ \<Rightarrow> ''lvq'' | HE_kInvalid \<Rightarrow> ''invalid'')"

definition BMCompressTypeFromString :: "string \<Rightarrow> bmp_compress_type" where
  "BMCompressTypeFromString str =
     (if str = ''raww'' then BMP_kRaw else if str = ''compress'' then BMP_kCompressed
      else BMP_kInvalid)"

definition BMCompressTypeToString :: "bmp_compress_type \<Rightarrow> string" where
  "BMCompressTypeToString compress_type =
     (case compress_type of
        BMP_kRaw \<Rightarrow> ''raw'' | BMP_kCompressed \<Rightarrow> ''compress'' | BMP_kInvalid \<Rightarrow> ''Invalid'')"

definition IndexTypeToString :: "index_type \<Rightarrow> string res" where
  "IndexTypeToString index_type =
     (case index_type of
        IT_kIVFFlat \<Rightarrow> Inr ''IVFFlat'' | IT_kHnsw \<Rightarrow> Inr ''HNSW'' | IT_kFullText \<Rightarrow> Inr ''FULLTEXT''
      | IT_kSecondary \<Rightarrow> Inr ''SECONDARY'' | IT_kEMVB \<Rightarrow> Inr ''EMVB'' | IT_kBMP \<Rightarrow> Inr ''BMP''
      | IT_kInvalid \<Rightarrow> Inl (ParserError ''Invalid conflict type.''))"

definition StringToIndexType :: "string \<Rightarrow> index_type" where
  "StringToIndexType str =
     (if str = ''IVFFlat'' then IT_kIVFFlat else if str = ''HNSW'' then IT_kHnsw
      else if str = ''FULLTEXT'' then IT_kFullText else if str = ''SECONDARY'' then IT_kSecondary
      else if str = ''EMVB'' then IT_kEMVB else if str = ''BMP'' then IT_kBMP else IT_kInvalid)"

section \<open>Index definitions\<close>

datatype index_params =
    IVFFlatParams u64 metric_type
  | HnswParams metric_type hnsw_encode_type u64 u64 u64
  | FullTextParams string u8
  | SecondaryParams
  | EMVBParams u32 u32
  | BMPParams u64 bmp_compress_type

record index_base =
  ib_index_name :: string
  ib_file_name :: string
  ib_column_names :: "string list"
  ib_params :: index_params

definition ib_index_type :: "index_base \<Rightarrow> index_type" where
  "ib_index_type ib =
     (case ib_params ib of
        IVFFlatParams _ _ \<Rightarrow> IT_kIVFFlat | HnswParams _ _ _ _ _ \<Rightarrow> IT_kHnsw
      | FullTextParams _ _ \<Rightarrow> IT_kFullText | SecondaryParams \<Rightarrow> IT_kSecondary
      | EMVBParams _ _ \<Rightarrow> IT_kEMVB | BMPParams _ _ \<Rightarrow> IT_kBMP)"

definition IndexBase_eq :: "index_base \<Rightarrow> index_base \<Rightarrow> bool" where
  "IndexBase_eq a b \<longleftrightarrow>
     ib_index_type a = ib_index_type b \<and> ib_column_names a = ib_column_names b"

section \<open>Making an index from the parameters of a statement\<close>

type_synonym init_parameter = "string \<times> string"

definition InvalidIndexParam :: "string \<Rightarrow> infinity_error" where
  "InvalidIndexParam name = RecoverableError (''Invalid index parameter type: '' @ name)"

fun IndexHnsw_Make_loop ::
  "init_parameter list \<Rightarrow> u64 \<times> u64 \<times> u64 \<times> metric_type \<times> hnsw_encode_type \<Rightarrow>
   (u64 \<times> u64 \<times> u64 \<times> metric_type \<times> hnsw_encode_type) res" where
  "IndexHnsw_Make_loop [] st = Inr st"
| "IndexHnsw_Make_loop ((name, val) # ps) (M, ef_construction, ef, metric, encode) =
     (if name = ''M'' then
        res_bind (std_stoi val) (\<lambda>i. IndexHnsw_Make_loop ps (word_of_int i, ef_construction, ef, metric, encode))
      else if name = ''ef_construction'' then
        res_bind (std_stoi val) (\<lambda>i. IndexHnsw_Make_loop ps (M, word_of_int i, ef, metric, encode))
      else if name = ''ef'' then
        res_bind (std_stoi val) (\<lambda>i. IndexHnsw_Make_loop ps (M, ef_construction, word_of_int i, metric, encode))
      else if name = ''metric'' then
        IndexHnsw_Make_loop ps (M, ef_construction, ef, StringToMetricType val, encode)
      else if name = ''encode'' then
        IndexHnsw_Make_loop ps (M, ef_construction, ef, metric, StringToHnswEncodeType val)
      else Inl (InvalidIndexParam name))"

definition IndexHnsw_Make ::
  "string \<Rightarrow> string \<Rightarrow> string list \<Rightarrow> init_parameter list \<Rightarrow> index_base res" where
  "IndexHnsw_Make index_name file_name column_names params =
     res_bind (IndexHnsw_Make_loop params (16, 200, 200, MT_kInvalid, HE_kPlain))
       (\<lambda>(M, ef_construction, ef, metric, encode).
         if metric = MT_kInvalid then Inl (InvalidIndexParam ''Metric type'')
         else if encode = HE_kInvalid then Inl (InvalidIndexParam ''Encode type'')
         else Inr \<lparr>ib_index_name = index_name, ib_file_name = file_name, ib_column_names = column_names,
                   ib_params = HnswParams metric encode M ef_construction ef\<rparr>)"

fun IndexIVFFlat_Make_loop :: "init_parameter list \<Rightarrow> u64 \<times> metric_type \<Rightarrow> (u64 \<times> metric_type) res" where
  "IndexIVFFlat_Make_loop [] st = Inr st"
| "IndexIVFFlat_Make_loop ((name, val) # ps) (centroids_count, metric) =
     (if name = ''centroids_count'' then
        res_bind (std_stoi val) (\<lambda>i. IndexIVFFlat_Make_loop ps (word_of_int i, metric))
      else if name = ''metric'' then IndexIVFFlat_Make_loop ps (centroids_count, StringToMetricType val)
      else IndexIVFFlat_Make_loop ps (centroids_count, metric))"

definition IndexIVFFlat_Make ::
  "string \<Rightarrow> string \<Rightarrow> string list \<Rightarrow> init_parameter list \<Rightarrow> index_base res" where
  "IndexIVFFlat_Make index_name file_name column_names params =
     res_bind (IndexIVFFlat_Make_loop params (0, MT_kInvalid)) (\<lambda>(centroids_count, metric).
       if metric = MT_kInvalid then Inl (RecoverableError ''Lack index parameter'')
       else Inr \<lparr>ib_index_name = index_name, ib_file_name = file_name, ib_column_names = column_names,
                 ib_params = IVFFlatParams centroids_count metric\<rparr>)"

definition OPTION_FLAG_ALL :: u8 where
  "OPTION_FLAG_ALL = 31"

fun IndexFullText_Make_loop :: "init_parameter list \<Rightarrow> string \<times> u64 \<Rightarrow> string \<times> u64" where
  "IndexFullText_Make_loop [] st = st"
| "IndexFullText_Make_loop ((name, val) # ps) (analyzer_name, flag) =
     (let para_name = map tolower name
      in if para_name = ''analyzer'' then IndexFullText_Make_loop ps (val, flag)
         else if para_name = ''flag'' then IndexFullText_Make_loop ps (analyzer_name, std_strtoul val)
         else IndexFullText_Make_loop ps (analyzer_name, flag))"

text \<open>\<open>get_analyzer\<close> is the look-up in the analyzer pool, which fails with the status it reports.\<close>

definition IndexFullText_Make ::
  "(string \<Rightarrow> infinity_error option) \<Rightarrow> string \<Rightarrow> string \<Rightarrow> string list \<Rightarrow> init_parameter list
   \<Rightarrow> index_base res" where
  "IndexFullText_Make get_analyzer index_name file_name column_names params =
     (let (name, flag) = IndexFullText_Make_loop params ([], ucast OPTION_FLAG_ALL);
          analyzer_name = (if name = [] then ''standard'' else name)
      in case get_analyzer analyzer_name of
           Some e \<Rightarrow> Inl e
         | None \<Rightarrow> Inr \<lparr>ib_index_name = index_name, ib_file_name = file_name,
                      ib_column_names = column_names,
                      ib_params = FullTextParams analyzer_name (ucast flag)\<rparr>)"

fun IndexEMVB_Make_loop :: "init_parameter list \<Rightarrow> u32 \<times> u32 \<Rightarrow> (u32 \<times> u32) res" where
  "IndexEMVB_Make_loop [] st = Inr st"
| "IndexEMVB_Make_loop ((name, val) # ps) (num, bits) =
     (if name = ''pq_subspace_num'' then
        res_bind (std_stoi val) (\<lambda>i.
          if i \<le> 0 then Inl (InvalidIndexParam ''pq_subspace_num'')
          else IndexEMVB_Make_loop ps (word_of_int i, bits))
      else if name = ''pq_subspace_bits'' then
        res_bind (std_stoi val) (\<lambda>i.
          if i \<le> 0 then Inl (InvalidIndexParam ''pq_subspace_bits'')
          else IndexEMVB_Make_loop ps (num, word_of_int i))
      else Inl (InvalidIndexParam name))"

definition accepable_residual_pq_subspace_num :: "u32 list" where
  "accepable_residual_pq_subspace_num = [1, 2, 4, 8, 16, 32, 64, 128]"

definition accepable_residual_pq_subspace_bits :: "u32 list" where
  "accepable_residual_pq_subspace_bits = [8, 16]"

definition IndexEMVB_Make ::
  "string \<Rightarrow> string \<Rightarrow> string list \<Rightarrow> init_parameter list \<Rightarrow> index_base res" where
  "IndexEMVB_Make index_name file_name column_names params =
     res_bind (IndexEMVB_Make_loop params (0, 0)) (\<lambda>(num, bits).
       if num \<notin> set accepable_residual_pq_subspace_num then Inl (InvalidIndexParam ''pq_subspace_num'')
       else if bits \<notin> set accepable_residual_pq_subspace_bits then Inl (InvalidIndexParam ''pq_subspace_bits'')
       else Inr \<lparr>ib_index_name = index_name, ib_file_name = file_name, ib_column_names = column_names,
                 ib_params = EMVBParams num bits\<rparr>)"

fun IndexBMP_Make_loop ::
  "init_parameter list \<Rightarrow> u64 \<times> bmp_compress_type \<Rightarrow> (u64 \<times> bmp_compress_type) res" where
  "IndexBMP_Make_loop [] st = Inr st"
| "IndexBMP_Make_loop ((name, val) # ps) (block_size, compress_type) =
     (if name = ''block_size'' then
        res_bind (std_stoi val) (\<lambda>i.
          let block_size = (word_of_int i :: u64)
          in if block_size \<le> 0 \<or> block_size > 255 + 1 then Inl (InvalidIndexParam ''Block size'')
             else IndexBMP_Make_loop ps (block_size, compress_type))
      else if name = ''compress_type'' then
        IndexBMP_Make_loop ps (block_size, BMCompressTypeFromString val)
      else Inl (InvalidIndexParam name))"

definition IndexBMP_Make ::
  "string \<Rightarrow> string \<Rightarrow> string list \<Rightarrow> init_parameter list \<Rightarrow> index_base res" where
  "IndexBMP_Make index_name file_name column_names params =
     res_bind (IndexBMP_Make_loop params (16, BMP_kCompressed)) (\<lambda>(block_size, compress_type).
       if compress_type = BMP_kInvalid then Inl (InvalidIndexParam ''Compress type'')
       else Inr \<lparr>ib_index_name = index_name, ib_file_name = file_name, ib_column_names = column_names,
                 ib_params = BMPParams block_size compress_type\<rparr>)"

section \<open>Checking the column\<close>

text \<open>The columns of the table reference: names and types, of the same length.\<close>

definition find_column :: "string list \<Rightarrow> data_type list \<Rightarrow> string \<Rightarrow> data_type res" where
  "find_column names types column_name =
     (let column_id = length (takeWhile (\<lambda>n. n \<noteq> column_name) names)
      in if column_id = length names then Inl (RecoverableError ''Column doesn't exist'')
         else if column_id < length types then Inr (types ! column_id)
         else Inl UndefinedBehaviour)"

definition InvalidIndexDefinition :: infinity_error where
  "InvalidIndexDefinition = RecoverableError ''Invalid index definition''"

definition IndexHnsw_ValidateColumnDataType :: "string list \<Rightarrow> data_type list \<Rightarrow> string \<Rightarrow> unit res" where
  "IndexHnsw_ValidateColumnDataType names types column_name =
     res_bind (find_column names types column_name) (\<lambda>t.
       if dt_type t \<noteq> kEmbedding then Inl InvalidIndexDefinition else Inr ())"

definition IndexIVFFlat_ValidateColumnDataType :: "string list \<Rightarrow> data_type list \<Rightarrow> string \<Rightarrow> unit res" where
  "IndexIVFFlat_ValidateColumnDataType names types column_name =
     res_bind (find_column names types column_name) (\<lambda>t.
       if dt_type t \<noteq> kEmbedding then Inl InvalidIndexDefinition else Inr ())"

definition IndexFullText_ValidateColumnDataType :: "string list \<Rightarrow> data_type list \<Rightarrow> string \<Rightarrow> unit res" where
  "IndexFullText_ValidateColumnDataType names types column_name =
     res_bind (find_column names types column_name) (\<lambda>t.
       if dt_type t \<noteq> kVarchar then Inl InvalidIndexDefinition else Inr ())"

definition IndexSecondary_ValidateColumnDataType :: "string list \<Rightarrow> data_type list \<Rightarrow> string \<Rightarrow> unit res" where
  "IndexSecondary_ValidateColumnDataType names types column_name =
     res_bind (find_column names types column_name) (\<lambda>t.
       if \<not> CanBuildSecondaryIndex t then Inl InvalidIndexDefinition else Inr ())"

definition IndexEMVB_ValidateColumnDataType :: "string list \<Rightarrow> data_type list \<Rightarrow> string \<Rightarrow> unit res" where
  "IndexEMVB_ValidateColumnDataType names types column_name =
     res_bind (find_column names types column_name) (\<lambda>t.
       if dt_type t \<noteq> kTensor then Inl InvalidIndexDefinition
       else case dt_info t of
           Some (EmbeddingInfo e d) \<Rightarrow> if e \<noteq> kElemFloat then Inl InvalidIndexDefinition else Inr ()
         | _ \<Rightarrow> Inl UndefinedBehaviour)"

definition IndexBMP_ValidateColumnDataType :: "string list \<Rightarrow> data_type list \<Rightarrow> string \<Rightarrow> unit res" where
  "IndexBMP_ValidateColumnDataType names types column_name =
     res_bind (find_column names types column_name) (\<lambda>t.
       if dt_type t \<noteq> kSparse then Inl InvalidIndexDefinition
       else case dt_info t of
           Some (SparseInfo dt it d st) \<Rightarrow>
             if dt \<noteq> kElemFloat \<and> dt \<noteq> kElemDouble then Inl InvalidIndexDefinition
             else if it \<noteq> kElemInt32 \<and> it \<noteq> kElemInt16 \<and> it \<noteq> kElemInt8 then Inl InvalidIndexDefinition
             else Inr ()
         | _ \<Rightarrow> Inl UndefinedBehaviour)"

section \<open>Comparison and printing\<close>

definition same_index :: "index_base \<Rightarrow> index_base \<Rightarrow> bool" where
  "same_index a b \<longleftrightarrow>
     ib_index_type a = ib_index_type b \<and> ib_file_name a = ib_file_name b
     \<and> ib_column_names a = ib_column_names b"

definition IndexHnsw_eq :: "index_base \<Rightarrow> index_base \<Rightarrow> bool" where
  "IndexHnsw_eq a b \<longleftrightarrow>
     same_index a b \<and>
     (case (ib_params a, ib_params b) of
        (HnswParams metric encode M efc ef, HnswParams metric' encode' M' efc' ef') \<Rightarrow>
          metric = metric' \<and> encode = encode' \<and> M = M' \<and> efc = efc' \<and> ef = ef'
      | _ \<Rightarrow> False)"

definition IndexIVFFlat_eq :: "index_base \<Rightarrow> index_base \<Rightarrow> bool" where
  "IndexIVFFlat_eq a b \<longleftrightarrow>
     same_index a b \<and>
     (case (ib_params a, ib_params b) of
        (IVFFlatParams n metric, IVFFlatParams n' metric') \<Rightarrow> n = n' \<and> metric = metric'
      | _ \<Rightarrow> False)"

definition IndexFullText_eq :: "index_base \<Rightarrow> index_base \<Rightarrow> bool" where
  "IndexFullText_eq a b \<longleftrightarrow>
     same_index a b \<and>
     (case (ib_params a, ib_params b) of
        (FullTextParams analyzer flag, FullTextParams analyzer' flag') \<Rightarrow> analyzer = analyzer'
      | _ \<Rightarrow> False)"

fun join_names :: "string list \<Rightarrow> string" where
  "join_names [] = []"
| "join_names [n] = n"
| "join_names (n # ns) = n @ '', '' @ join_names ns"

definition IndexBase_ToString :: "index_base \<Rightarrow> string res" where
  "IndexBase_ToString ib =
     res_bind (IndexTypeToString (ib_index_type ib)) (\<lambda>t.
       Inr (''IndexBase: '' @ t @ '', ['' @ join_names (ib_column_names ib) @ '']''))"

section \<open>The binary form\<close>

definition enum32 :: "nat \<Rightarrow> byte list" where
  "enum32 n = WriteBufAdv (word_of_nat n :: i32)"

definition IndexBase_GetSizeInBytes :: "index_base \<Rightarrow> i32" where
  "IndexBase_GetSizeInBytes ib =
     4 + 4 + word_of_nat (length (ib_index_name ib)) + 4 + word_of_nat (length (ib_file_name ib)) + 4
     + sum_list (map (\<lambda>n. 4 + word_of_nat (length n)) (ib_column_names ib))"

definition IndexBase_WriteAdv :: "index_base \<Rightarrow> byte list" where
  "IndexBase_WriteAdv ib =
     enum32 (IndexType_num (ib_index_type ib))
     @ WriteBufAdv_string (ib_index_name ib)
     @ WriteBufAdv_string (ib_file_name ib)
     @ WriteBufAdv (word_of_nat (length (ib_column_names ib)) :: i32)
     @ concat (map WriteBufAdv_string (ib_column_names ib))"

text \<open>The derived classes continue the sum in a \<^verbatim>\<open>size_t\<close> and return it as an \<^verbatim>\<open>int32_t\<close>.\<close>

definition IndexHnsw_GetSizeInBytes :: "index_base \<Rightarrow> i32" where
  "IndexHnsw_GetSizeInBytes ib = ucast (scast (IndexBase_GetSizeInBytes ib) + 4 + 4 + 8 + 8 + 8 :: u64)"

definition IndexHnsw_WriteAdv ::
  "index_base \<Rightarrow> metric_type \<Rightarrow> hnsw_encode_type \<Rightarrow> u64 \<Rightarrow> u64 \<Rightarrow> u64 \<Rightarrow> byte list" where
  "IndexHnsw_WriteAdv ib metric encode M ef_construction ef =
     IndexBase_WriteAdv ib @ enum32 (MetricType_num metric) @ enum32 (HnswEncodeType_num encode)
     @ WriteBufAdv M @ WriteBufAdv ef_construction @ WriteBufAdv ef"

definition IndexIVFFlat_GetSizeInBytes :: "index_base \<Rightarrow> i32" where
  "IndexIVFFlat_GetSizeInBytes ib = ucast (scast (IndexBase_GetSizeInBytes ib) + 8 + 4 :: u64)"

definition IndexIVFFlat_WriteAdv :: "index_base \<Rightarrow> u64 \<Rightarrow> metric_type \<Rightarrow> byte list" where
  "IndexIVFFlat_WriteAdv ib centroids_count metric =
     IndexBase_WriteAdv ib @ WriteBufAdv centroids_count @ enum32 (MetricType_num metric)"

definition IndexFullText_GetSizeInBytes :: "index_base \<Rightarrow> string \<Rightarrow> i32" where
  "IndexFullText_GetSizeInBytes ib analyzer =
     ucast (scast (IndexBase_GetSizeInBytes ib) + (4 + word_of_nat (length analyzer)) + 1 :: u64)"

definition IndexFullText_WriteAdv :: "index_base \<Rightarrow> string \<Rightarrow> u8 \<Rightarrow> byte list" where
  "IndexFullText_WriteAdv ib analyzer flag =
     IndexBase_WriteAdv ib @ WriteBufAdv_string analyzer @ WriteBufAdv flag"

definition IndexEMVB_GetSizeInBytes :: "index_base \<Rightarrow> i32" where
  "IndexEMVB_GetSizeInBytes ib = ucast (scast (IndexBase_GetSizeInBytes ib) + 4 + 4 :: u64)"

definition IndexEMVB_WriteAdv :: "index_base \<Rightarrow> u32 \<Rightarrow> u32 \<Rightarrow> byte list" where
  "IndexEMVB_WriteAdv ib num bits = IndexBase_WriteAdv ib @ WriteBufAdv num @ WriteBufAdv bits"

definition IndexBMP_GetSizeInBytes :: "index_base \<Rightarrow> i32" where
  "IndexBMP_GetSizeInBytes ib = IndexBase_GetSizeInBytes ib + 8 + 1"

definition IndexBMP_WriteAdv :: "index_base \<Rightarrow> u64 \<Rightarrow> bmp_compress_type \<Rightarrow> byte list" where
  "IndexBMP_WriteAdv ib block_size compress_type =
     IndexBase_WriteAdv ib @ WriteBufAdv block_size
     @ WriteBufAdv (word_of_nat (BMPCompressType_num compress_type) :: i8)"

text \<open>The virtual calls.\<close>

definition Index_GetSizeInBytes :: "index_base \<Rightarrow> i32 res" where
  "Index_GetSizeInBytes ib = Inr
     (case ib_params ib of
        IVFFlatParams _ _ \<Rightarrow> IndexIVFFlat_GetSizeInBytes ib
      | HnswParams _ _ _ _ _ \<Rightarrow> IndexHnsw_GetSizeInBytes ib
      | FullTextParams analyzer _ \<Rightarrow> IndexFullText_GetSizeInBytes ib analyzer
      | SecondaryParams \<Rightarrow> IndexBase_GetSizeInBytes ib
      | EMVBParams _ _ \<Rightarrow> IndexEMVB_GetSizeInBytes ib
      | BMPParams _ _ \<Rightarrow> IndexBMP_GetSizeInBytes ib)"

definition Index_WriteAdv :: "index_base \<Rightarrow> byte list res" where
  "Index_WriteAdv ib = Inr
     (case ib_params ib of
        IVFFlatParams n metric \<Rightarrow> IndexIVFFlat_WriteAdv ib n metric
      | HnswParams metric encode M efc ef \<Rightarrow> IndexHnsw_WriteAdv ib metric encode M efc ef
      | FullTextParams analyzer flag \<Rightarrow> IndexFullText_WriteAdv ib analyzer flag
      | SecondaryParams \<Rightarrow> IndexBase_WriteAdv ib
      | EMVBParams num bits \<Rightarrow> IndexEMVB_WriteAdv ib num bits
      | BMPParams block_size compress_type \<Rightarrow> IndexBMP_WriteAdv ib block_size compress_type)"

definition rd_metric :: "metric_type reader" where
  "rd_metric = rd_enum TYPE(32 word) (enum_of_num MetricType_enumerators)"

definition rd_encode :: "hnsw_encode_type reader" where
  "rd_encode = rd_enum TYPE(32 word) (enum_of_num HnswEncodeType_enumerators)"

definition rd_compress :: "bmp_compress_type reader" where
  "rd_compress = rd_enum TYPE(8 word) (enum_of_num BMPCompressType_enumerators)"

definition IndexBase_ReadAdv_params :: "i32 \<Rightarrow> index_params reader" where
  "IndexBase_ReadAdv_params index_type =
     (case enum_of_num IndexType_enumerators (unat index_type) of
        Some IT_kIVFFlat \<Rightarrow>
          rd_bind ReadBufAdv (\<lambda>centroids_count. rd_bind rd_metric (\<lambda>metric.
            rd_return (IVFFlatParams centroids_count metric)))
      | Some IT_kHnsw \<Rightarrow>
          rd_bind rd_metric (\<lambda>metric. rd_bind rd_encode (\<lambda>encode. rd_bind ReadBufAdv (\<lambda>M.
          rd_bind ReadBufAdv (\<lambda>ef_construction. rd_bind ReadBufAdv (\<lambda>ef.
            rd_return (HnswParams metric encode M ef_construction ef))))))
      | Some IT_kFullText \<Rightarrow>
          rd_bind ReadBufAdv_string (\<lambda>analyzer. rd_bind ReadBufAdv (\<lambda>flag.
            rd_return (FullTextParams analyzer flag)))
      | Some IT_kSecondary \<Rightarrow> rd_return SecondaryParams
      | Some IT_kEMVB \<Rightarrow>
          rd_bind ReadBufAdv (\<lambda>num. rd_bind ReadBufAdv (\<lambda>bits. rd_return (EMVBParams num bits)))
      | Some IT_kBMP \<Rightarrow>
          rd_bind ReadBufAdv (\<lambda>block_size. rd_bind rd_compress (\<lambda>compress_type.
            rd_return (BMPParams block_size compress_type)))
      | Some IT_kInvalid \<Rightarrow> rd_fail (UnrecoverableError ''Error index method while reading'')
      | None \<Rightarrow> rd_fail (RecoverableError ''Not implemented''))"

definition IndexBase_ReadAdv :: "int \<Rightarrow> index_base reader" where
  "IndexBase_ReadAdv maxbytes =
     (if maxbytes \<le> 0 then rd_fail (UnrecoverableError ''ptr goes out of range when reading IndexBase'')
      else
        rd_bind rd_left (\<lambda>start.
        rd_bind ReadBufAdv (\<lambda>index_type.
        rd_bind ReadBufAdv_string (\<lambda>index_name.
        rd_bind ReadBufAdv_string (\<lambda>file_name.
        rd_bind ReadBufAdv (\<lambda>column_names_size :: i32.
        rd_bind (rd_times (nat (sint column_names_size)) ReadBufAdv_string) (\<lambda>column_names.
        rd_bind (IndexBase_ReadAdv_params index_type) (\<lambda>params.
        rd_bind rd_left (\<lambda>now.
          if ptr_room maxbytes start now < 0
          then rd_fail (UnrecoverableError ''ptr goes out of range when reading IndexBase'')
          else rd_return \<lparr>ib_index_name = index_name, ib_file_name = file_name,
                          ib_column_names = column_names, ib_params = params\<rparr>)))))))))"

section \<open>The JSON form\<close>

definition IndexBase_Serialize :: "index_base \<Rightarrow> json res" where
  "IndexBase_Serialize ib =
     res_bind (IndexTypeToString (ib_index_type ib)) (\<lambda>t.
     res_bind (json_set ''index_type'' (JString t) JNull) (\<lambda>j.
     res_bind (json_set ''index_name'' (JString (ib_index_name ib)) j) (\<lambda>j.
     res_bind (json_set ''file_name'' (JString (ib_file_name ib)) j) (\<lambda>j.
       json_set ''column_names'' (JArray (map JString (ib_column_names ib))) j))))"

definition IndexHnsw_Serialize ::
  "index_base \<Rightarrow> metric_type \<Rightarrow> hnsw_encode_type \<Rightarrow> u64 \<Rightarrow> u64 \<Rightarrow> u64 \<Rightarrow> json res" where
  "IndexHnsw_Serialize ib metric encode M ef_construction ef =
     res_bind (IndexBase_Serialize ib) (\<lambda>j.
     res_bind (json_set ''metric_type'' (JString (MetricTypeToString metric)) j) (\<lambda>j.
     res_bind (json_set ''encode_type'' (JString (HnswEncodeTypeToString encode)) j) (\<lambda>j.
     res_bind (json_set ''M'' (JNumber (uint M)) j) (\<lambda>j.
     res_bind (json_set ''ef_construction'' (JNumber (uint ef_construction)) j) (\<lambda>j.
       json_set ''ef'' (JNumber (uint ef)) j)))))"

definition IndexIVFFlat_Serialize :: "index_base \<Rightarrow> u64 \<Rightarrow> metric_type \<Rightarrow> json res" where
  "IndexIVFFlat_Serialize ib centroids_count metric =
     res_bind (IndexBase_Serialize ib) (\<lambda>j.
     res_bind (json_set ''centroids_count'' (JNumber (uint centroids_count)) j) (\<lambda>j.
       json_set ''metric_type'' (JString (MetricTypeToString metric)) j))"

definition IndexFullText_Serialize :: "index_base \<Rightarrow> string \<Rightarrow> json res" where
  "IndexFullText_Serialize ib analyzer =
     res_bind (IndexBase_Serialize ib) (\<lambda>j. json_set ''analyzer'' (JString analyzer) j)"

definition IndexEMVB_Serialize :: "index_base \<Rightarrow> u32 \<Rightarrow> u32 \<Rightarrow> json res" where
  "IndexEMVB_Serialize ib num bits =
     res_bind (IndexBase_Serialize ib) (\<lambda>j.
     res_bind (json_set ''pq_subspace_num'' (JNumber (uint num)) j) (\<lambda>j.
       json_set ''pq_subspace_bits'' (JNumber (uint bits)) j))"

definition IndexBMP_Serialize :: "index_base \<Rightarrow> u64 \<Rightarrow> bmp_compress_type \<Rightarrow> json res" where
  "IndexBMP_Serialize ib block_size compress_type =
     res_bind (IndexBase_Serialize ib) (\<lambda>j.
     res_bind (json_set ''block_size'' (JNumber (uint block_size)) j) (\<lambda>j.
       json_set ''compress_type'' (JNumber (int (BMPCompressType_num compress_type))) j))"

definition Index_Serialize :: "index_base \<Rightarrow> json res" where
  "Index_Serialize ib =
     (case ib_params ib of
        IVFFlatParams n metric \<Rightarrow> IndexIVFFlat_Serialize ib n metric
      | HnswParams metric encode M efc ef \<Rightarrow> IndexHnsw_Serialize ib metric encode M efc ef
      | FullTextParams analyzer flag \<Rightarrow> IndexFullText_Serialize ib analyzer
      | SecondaryParams \<Rightarrow> IndexBase_Serialize ib
      | EMVBParams num bits \<Rightarrow> IndexEMVB_Serialize ib num bits
      | BMPParams block_size compress_type \<Rightarrow> IndexBMP_Serialize ib block_size compress_type)"

fun json_strings :: "json list \<Rightarrow> string list res" where
  "json_strings [] = Inr []"
| "json_strings (j # js) = res_bind (json_string j) (\<lambda>s. res_bind (json_strings js) (\<lambda>ss. Inr (s # ss)))"

definition json_string_array :: "json \<Rightarrow> string list res" where
  "json_string_array j = (case j of JArray js \<Rightarrow> json_strings js | _ \<Rightarrow> Inl json_type_error)"

definition json_get :: "json \<Rightarrow> string \<Rightarrow> (json \<Rightarrow> 'a res) \<Rightarrow> 'a res" where
  "json_get j k conv = res_bind (json_at j k) conv"

definition IndexBase_Deserialize_params :: "index_type \<Rightarrow> json \<Rightarrow> index_params res" where
  "IndexBase_Deserialize_params index_type j =
     (case index_type of
        IT_kIVFFlat \<Rightarrow>
          res_bind (json_get j ''centroids_count'' json_word) (\<lambda>centroids_count.
          res_bind (json_get j ''metric_type'' json_string) (\<lambda>metric.
            Inr (IVFFlatParams centroids_count (StringToMetricType metric))))
      | IT_kHnsw \<Rightarrow>
          res_bind (json_get j ''M'' json_word) (\<lambda>M.
          res_bind (json_get j ''ef_construction'' json_word) (\<lambda>ef_construction.
          res_bind (json_get j ''ef'' json_word) (\<lambda>ef.
          res_bind (json_get j ''metric_type'' json_string) (\<lambda>metric.
          res_bind (json_get j ''encode_type'' json_string) (\<lambda>encode.
            Inr (HnswParams (StringToMetricType metric) (StringToHnswEncodeType encode)
                   M ef_construction ef))))))
      | IT_kFullText \<Rightarrow>
          res_bind (json_get j ''analyzer'' json_string) (\<lambda>analyzer.
            Inr (FullTextParams analyzer OPTION_FLAG_ALL))
      | IT_kSecondary \<Rightarrow> Inr SecondaryParams
      | IT_kEMVB \<Rightarrow>
          res_bind (json_get j ''pq_subspace_num'' json_narrow) (\<lambda>num.
          res_bind (json_get j ''pq_subspace_bits'' json_narrow) (\<lambda>bits. Inr (EMVBParams num bits)))
      | IT_kBMP \<Rightarrow>
          res_bind (json_get j ''block_size'' json_word) (\<lambda>block_size.
          res_bind (json_get j ''compress_type''
              (json_enum TYPE(8 word) (enum_of_num BMPCompressType_enumerators))) (\<lambda>compress_type.
            Inr (BMPParams block_size compress_type)))
      | IT_kInvalid \<Rightarrow> Inl (UnrecoverableError ''Error index method while deserializing''))"

definition IndexBase_Deserialize :: "json \<Rightarrow> index_base res" where
  "IndexBase_Deserialize j =
     res_bind (json_get j ''index_type'' json_string) (\<lambda>index_type_name.
     let index_type = StringToIndexType index_type_name in
     res_bind (json_get j ''index_name'' json_string) (\<lambda>index_name.
     res_bind (json_get j ''file_name'' json_string) (\<lambda>file_name.
     res_bind (json_get j ''column_names'' json_string_array) (\<lambda>column_names.
     res_bind (IndexBase_Deserialize_params index_type j) (\<lambda>params.
       Inr \<lparr>ib_index_name = index_name, ib_file_name = file_name,
            ib_column_names = column_names, ib_params = params\<rparr>)))))"

section \<open>Reading what was written\<close>

definition valid_index :: "index_base \<Rightarrow> bool" where
  "valid_index ib \<longleftrightarrow>
     valid_string (ib_index_name ib) \<and> valid_string (ib_file_name ib)
     \<and> length (ib_column_names ib) < 2 ^ 31 \<and> list_all valid_string (ib_column_names ib)
     \<and> (case ib_params ib of FullTextParams analyzer flag \<Rightarrow> valid_string analyzer | _ \<Rightarrow> True)"

lemma ucast_scast_add: "ucast (scast (x :: i32) + (y :: u64)) = x + (ucast y :: i32)"
proof transfer
  fix x y :: int
  show "take_bit LENGTH(32) (take_bit LENGTH(64) (signed_take_bit (LENGTH(32) - Suc 0) x + y))
      = take_bit LENGTH(32) (x + take_bit LENGTH(64) y)"
    using take_bit_add [of 32 "signed_take_bit 31 x" y] take_bit_add [of 32 x y]
      take_bit_add [of 32 x "take_bit 64 y"]
    by (simp add: take_bit_signed_take_bit)
qed

lemma ucast_of_nat: "(ucast (word_of_nat n :: u64) :: i32) = word_of_nat n"
  by transfer (simp add: take_bit_of_nat [symmetric])

lemma length_enum32 [simp]: "length (enum32 n) = 4"
  by (simp add: enum32_def)

lemma rd_enum32:
  "of_num n = Some e \<Longrightarrow> n < 256 \<Longrightarrow> rd_enum TYPE(32 word) of_num (enum32 n @ rest) = Inr (e, rest)"
  unfolding enum32_def by (rule rd_enum_WriteBufAdv(2)) simp_all

lemma index_rd_enum [codec_simps]:
  "rd_metric (enum32 (MetricType_num mt) @ rest) = Inr (mt, rest)"
  "rd_encode (enum32 (HnswEncodeType_num he) @ rest) = Inr (he, rest)"
  "rd_compress (WriteBufAdv (word_of_nat (BMPCompressType_num ct) :: 8 word) @ rest) = Inr (ct, rest)"
  by (simp_all add: rd_metric_def rd_encode_def rd_compress_def rd_enum32 rd_enum_WriteBufAdv)

text \<open>The part of the written bytes that belongs to the derived class.\<close>

fun params_bytes :: "index_params \<Rightarrow> byte list" where
  "params_bytes (IVFFlatParams n metric) = WriteBufAdv n @ enum32 (MetricType_num metric)"
| "params_bytes (HnswParams metric encode M efc ef) =
     enum32 (MetricType_num metric) @ enum32 (HnswEncodeType_num encode)
     @ WriteBufAdv M @ WriteBufAdv efc @ WriteBufAdv ef"
| "params_bytes (FullTextParams analyzer flag) = WriteBufAdv_string analyzer @ WriteBufAdv flag"
| "params_bytes SecondaryParams = []"
| "params_bytes (EMVBParams num bits) = WriteBufAdv num @ WriteBufAdv bits"
| "params_bytes (BMPParams block_size compress_type) =
     WriteBufAdv block_size @ WriteBufAdv (word_of_nat (BMPCompressType_num compress_type) :: i8)"

lemma Index_WriteAdv_params: "Index_WriteAdv ib = Inr (IndexBase_WriteAdv ib @ params_bytes (ib_params ib))"
  by (cases "ib_params ib")
    (simp_all add: Index_WriteAdv_def IndexIVFFlat_WriteAdv_def IndexHnsw_WriteAdv_def
      IndexFullText_WriteAdv_def IndexEMVB_WriteAdv_def IndexBMP_WriteAdv_def)

lemma length_column_names:
  "(word_of_nat (length (concat (map WriteBufAdv_string ns))) :: i32)
     = sum_list (map (\<lambda>n. 4 + word_of_nat (length n)) ns)"
  by (induction ns) simp_all

lemma IndexBase_size: "IndexBase_GetSizeInBytes ib = word_of_nat (length (IndexBase_WriteAdv ib))"
  by (simp add: IndexBase_GetSizeInBytes_def IndexBase_WriteAdv_def length_column_names [symmetric])

lemma Index_size:
  "Index_GetSizeInBytes ib = Inr (word_of_nat (length (IndexBase_WriteAdv ib @ params_bytes (ib_params ib))))"
proof -
  have up: "scast (x :: i32) + 4 + (4 + (y :: u64)) + 1 = scast x + (9 + y)"
    "scast x + (4 + y) + 1 = scast x + (5 + y)" for x y
    by simp_all
  have u: "(ucast (5 + word_of_nat n :: u64) :: i32) = 5 + word_of_nat n" for n
    using ucast_scast_add [of 5 "word_of_nat n"] by (simp add: ucast_of_nat)
  show ?thesis
    by (cases "ib_params ib")
      (simp_all add: Index_GetSizeInBytes_def IndexIVFFlat_GetSizeInBytes_def IndexHnsw_GetSizeInBytes_def
        IndexFullText_GetSizeInBytes_def IndexEMVB_GetSizeInBytes_def IndexBMP_GetSizeInBytes_def
        IndexBase_size add.assoc ucast_scast_add u up(2))
qed

lemma IndexType_word [simp]:
  "enum_of_num IndexType_enumerators (unat (word_of_nat (IndexType_num t) :: 32 word)) = Some t"
  by (cases t) (simp_all add: enum_of_num_def IndexType_enumerators_def)

lemma read_params:
  assumes "valid_index ib"
  shows "IndexBase_ReadAdv_params (word_of_nat (IndexType_num (ib_index_type ib)))
      (params_bytes (ib_params ib) @ rest) = Inr (ib_params ib, rest)"
  using assms
  by (cases "ib_params ib")
    (simp_all add: IndexBase_ReadAdv_params_def ib_index_type_def valid_index_def
      enum_of_num_def IndexType_enumerators_def rd_bind_Inr index_rd_enum rd_return_def)

lemma read_column_names:
  "list_all valid_string ns \<Longrightarrow>
     rd_times (length ns) ReadBufAdv_string (concat (map WriteBufAdv_string ns) @ rest) = Inr (ns, rest)"
  by (rule rd_times_concat) (simp add: list_all_iff)

lemma Index_read:
  assumes "valid_index ib" and m: "int (length (IndexBase_WriteAdv ib @ params_bytes (ib_params ib))) \<le> m"
  shows "IndexBase_ReadAdv m ((IndexBase_WriteAdv ib @ params_bytes (ib_params ib)) @ rest) = Inr (ib, rest)"
proof -
  let ?bs = "IndexBase_WriteAdv ib @ params_bytes (ib_params ib)"
  have v: "valid_string (ib_index_name ib)" "valid_string (ib_file_name ib)"
    "length (ib_column_names ib) < 2 ^ 31" "list_all valid_string (ib_column_names ib)"
    using assms(1) by (simp_all add: valid_index_def)
  define start where "start = length (?bs @ rest)"
  have n: "nat (sint (word_of_nat (length (ib_column_names ib)) :: i32)) = length (ib_column_names ib)"
    using v(3) by (simp add: sint_word_of_nat32)
  have room: "\<not> ptr_room m start (length rest) < 0" and pos: "\<not> m \<le> 0"
    using m by (simp_all add: ptr_room_def start_def IndexBase_WriteAdv_def)
  have "rd_left (?bs @ rest) = Inr (start, ?bs @ rest)" by (simp add: rd_left_def start_def)
  then show ?thesis
    unfolding IndexBase_ReadAdv_def IndexBase_WriteAdv_def enum32_def append_assoc
    by (simp only: pos if_False rd_bind_Inr v ReadBufAdv_string_WriteBufAdv ReadBufAdv_WriteBufAdv n
        read_column_names read_params [OF assms(1)] rd_left_apply room) (simp add: rd_return_def)
qed

interpretation index_codec: sized_codec valid_index Index_WriteAdv IndexBase_ReadAdv Index_GetSizeInBytes
proof (unfold_locales, goal_cases)
  case (1 ib)
  then show ?case by (auto simp: Index_WriteAdv_params intro: Index_read [unfolded append_assoc])
next
  case (2 ib bs)
  then show ?case by (simp add: Index_WriteAdv_params Index_size)
qed

text \<open>
  C26: An index definition whose names fit their length fields is written without error, is read back
  unchanged by \<^verbatim>\<open>IndexBase::ReadAdv\<close> for every kind of index, and \<^verbatim>\<open>GetSizeInBytes\<close> of the
  derived class is the number of bytes written.
\<close>

theorem IndexBase_round_trip:
  assumes "valid_index ib"
  shows "\<exists>bs. Index_WriteAdv ib = Inr bs \<and> Index_GetSizeInBytes ib = Inr (word_of_nat (length bs))
    \<and> (\<forall>m rest. int (length bs) \<le> m \<longrightarrow> IndexBase_ReadAdv m (bs @ rest) = Inr (ib, rest))"
  using index_codec.enc_ok [OF assms] index_codec.dec_enc [OF assms] index_codec.size_law [OF assms] by blast

definition example_index :: index_base where
  "example_index =
     \<lparr>ib_index_name = ''idx'', ib_file_name = ''idx.hnsw'', ib_column_names = [''v''],
      ib_params = HnswParams kMetricL2 HE_kLVQ 16 200 200\<rparr>"

theorem IndexBase_round_trip_witness:
  "\<exists>bs. Index_WriteAdv example_index = Inr bs
    \<and> Index_GetSizeInBytes example_index = Inr (word_of_nat (length bs))
    \<and> (\<forall>m rest. int (length bs) \<le> m \<longrightarrow> IndexBase_ReadAdv m (bs @ rest) = Inr (example_index, rest))"
  by (rule IndexBase_round_trip) (simp add: example_index_def valid_index_def valid_string_def)

lemma json_strings_map [simp]: "json_strings (map JString ns) = Inr ns"
  by (induction ns) (simp_all add: json_string_def)

lemma index_enum_strings [simp]:
  "StringToMetricType (MetricTypeToString mt) = mt"
  "StringToHnswEncodeType (HnswEncodeTypeToString he) = he"
  by (cases mt, simp_all add: StringToMetricType_def MetricTypeToString_def)
    (cases he, simp_all add: StringToHnswEncodeType_def HnswEncodeTypeToString_def)

lemma BMPCompressType_word [simp]:
  "enum_of_num BMPCompressType_enumerators (unat (word_of_nat (BMPCompressType_num t) :: 8 word)) = Some t"
  by (cases t) (simp_all add: enum_of_num_def BMPCompressType_enumerators_def)

lemmas index_json_simps =
  Index_Serialize_def IndexBase_Serialize_def IndexBase_Deserialize_def IndexBase_Deserialize_params_def
  json_get_def json_string_array_def IndexTypeToString_def StringToIndexType_def ib_index_type_def
  IndexIVFFlat_Serialize_def IndexHnsw_Serialize_def IndexFullText_Serialize_def
  IndexEMVB_Serialize_def IndexBMP_Serialize_def

text \<open>
  C33: The JSON form of every index definition is read back to the same definition, except that a
  full-text index comes back with all option flags set: the flags are not part of the JSON form.
\<close>

theorem Index_Serialize_Deserialize:
  "\<exists>j. Index_Serialize ib = Inr j
     \<and> IndexBase_Deserialize j =
         Inr (ib\<lparr>ib_params := (case ib_params ib of
                FullTextParams analyzer flag \<Rightarrow> FullTextParams analyzer OPTION_FLAG_ALL
              | p \<Rightarrow> p)\<rparr>)"
  by (cases "ib_params ib") (simp_all add: index_json_simps json_simps)

text \<open>
  The names of metrics, encodings and index types are read back to the same enumerator, and so
  is the name of a compression of a BMP index unless it is \<^verbatim>\<open>kRaw\<close>: its name is not accepted.
\<close>

theorem index_enum_names:
  "StringToMetricType (MetricTypeToString mt) = mt
   \<and> StringToHnswEncodeType (HnswEncodeTypeToString he) = he
   \<and> (case IndexTypeToString it of Inr s \<Rightarrow> StringToIndexType s = it | Inl _ \<Rightarrow> it = IT_kInvalid)
   \<and> (BMCompressTypeFromString (BMCompressTypeToString ct) = ct \<longleftrightarrow> ct \<noteq> BMP_kRaw)"
  by (cases it; cases ct)
    (simp_all add: IndexTypeToString_def StringToIndexType_def BMCompressTypeFromString_def
      BMCompressTypeToString_def)

lemma word_ge_1: "w \<noteq> 0 \<Longrightarrow> 1 \<le> (w :: u64)"
  by (simp add: word_le_nat_alt unat_gt_0 Suc_le_eq)

lemma IndexBMP_Make_loop_range:
  "IndexBMP_Make_loop params (b, c) = Inr (b', c') \<Longrightarrow> 1 \<le> b \<and> b \<le> 256 \<Longrightarrow> 1 \<le> b' \<and> b' \<le> 256"
  by (induction params "(b, c)" arbitrary: b c rule: IndexBMP_Make_loop.induct)
    (auto simp: res_bind_eq_Inr Let_def word_ge_1 not_less split: if_splits)

lemma IndexEMVB_Make_range:
  "IndexEMVB_Make index_name file_name column_names params = Inr ib \<Longrightarrow>
     \<exists>num bits. ib_params ib = EMVBParams num bits \<and> num \<in> set accepable_residual_pq_subspace_num
       \<and> bits \<in> set accepable_residual_pq_subspace_bits"
  by (clarsimp simp: IndexEMVB_Make_def res_bind_eq_Inr split: if_splits)

lemma IndexBMP_Make_range:
  assumes "IndexBMP_Make index_name file_name column_names params = Inr ib"
  shows "\<exists>block_size compress_type. ib_params ib = BMPParams block_size compress_type
    \<and> 1 \<le> block_size \<and> block_size \<le> 256 \<and> compress_type \<noteq> BMP_kInvalid"
proof -
  obtain b c where l: "IndexBMP_Make_loop params (16, BMP_kCompressed) = Inr (b, c)"
    and c: "c \<noteq> BMP_kInvalid" "ib_params ib = BMPParams b c"
    using assms by (clarsimp simp: IndexBMP_Make_def res_bind_eq_Inr split: if_splits)
  have "1 \<le> b \<and> b \<le> 256" by (rule IndexBMP_Make_loop_range [OF l]) simp
  with c show ?thesis by blast
qed

text \<open>
  Whatever parameters a statement gives, an EMVB index is only made with a supported number of
  subspaces and bits, and a BMP index only with a block size from 1 to 256 (a negative number is
  refused, as it becomes a large unsigned one) and a known compression.
\<close>

theorem index_Make_params:
  "(case IndexEMVB_Make index_name file_name column_names params of
      Inl _ \<Rightarrow> True
    | Inr ib \<Rightarrow> \<exists>num bits. ib_params ib = EMVBParams num bits
        \<and> num \<in> {1, 2, 4, 8, 16, 32, 64, 128} \<and> bits \<in> {8, 16})
   \<and> (case IndexBMP_Make index_name file_name column_names params of
      Inl _ \<Rightarrow> True
    | Inr ib \<Rightarrow> \<exists>block_size compress_type. ib_params ib = BMPParams block_size compress_type
        \<and> 1 \<le> block_size \<and> block_size \<le> 256 \<and> compress_type \<noteq> BMP_kInvalid)"
  using IndexEMVB_Make_range [of index_name file_name column_names params]
    IndexBMP_Make_range [of index_name file_name column_names params]
  by (simp add: accepable_residual_pq_subspace_num_def accepable_residual_pq_subspace_bits_def
      split: sum.split)

end
