(* ===== verification/Date_Time.thy ===== *)
theory Date_Time
  imports Date_Type
begin

text \<open>
  \<^verbatim>\<open>src/parser/type/datetime/time_type.cpp\<close> and \<^verbatim>\<open>datetime_type.cpp\<close>: the time of day in seconds,
  and a date with a time of day.  As for dates, the C++ integers are \<open>int\<close>, and leaving the range of
  \<^verbatim>\<open>int32_t\<close> is \<open>UndefinedBehaviour\<close>.
\<close>

section \<open>Time of day\<close>

definition MIN_TIME_HOUR :: int where "MIN_TIME_HOUR = 0"
definition MIN_TIME_MINUTE :: int where "MIN_TIME_MINUTE = 0"
definition MIN_TIME_SECOND :: int where "MIN_TIME_SECOND = 0"
definition MAX_TIME_HOUR :: int where "MAX_TIME_HOUR = 23"
definition MAX_TIME_MINUTE :: int where "MAX_TIME_MINUTE = 59"
definition MAX_TIME_SECOND :: int where "MAX_TIME_SECOND = 59"
definition SECOND_SECOND :: int where "SECOND_SECOND = 1"
definition MINUTE_SECOND :: int where "MINUTE_SECOND = 60"
definition HOUR_SECOND :: int where "HOUR_SECOND = 60 * MINUTE_SECOND"
definition DAY_SECOND :: int where "DAY_SECOND = 24 * HOUR_SECOND"

lemmas time_consts = MIN_TIME_HOUR_def MIN_TIME_MINUTE_def MIN_TIME_SECOND_def MAX_TIME_HOUR_def
  MAX_TIME_MINUTE_def MAX_TIME_SECOND_def SECOND_SECOND_def MINUTE_SECOND_def HOUR_SECOND_def
  DAY_SECOND_def

definition IsTimeValid :: "int \<Rightarrow> int \<Rightarrow> int \<Rightarrow> bool" where
  "IsTimeValid hour minute second \<longleftrightarrow>
     hour \<ge> MIN_TIME_HOUR \<and> hour \<le> MAX_TIME_HOUR \<and> minute \<ge> MIN_TIME_MINUTE
     \<and> minute \<le> MAX_TIME_MINUTE \<and> second \<ge> MIN_TIME_SECOND \<and> second \<le> MAX_TIME_SECOND"

definition HMS2Time :: "int \<Rightarrow> int \<Rightarrow> int \<Rightarrow> int option" where
  "HMS2Time hour minute second =
     (if \<not> IsTimeValid hour minute second then None
      else Some (hour * HOUR_SECOND + minute * MINUTE_SECOND + second * SECOND_SECOND))"

definition Time2HMS :: "int \<Rightarrow> (int \<times> int \<times> int) option" where
  "Time2HMS seconds =
     (if seconds < 0 \<or> seconds \<ge> DAY_SECOND then None
      else let hour = seconds sdiv HOUR_SECOND;
               seconds = seconds smod HOUR_SECOND;
               minute = seconds sdiv MINUTE_SECOND;
               second = seconds smod MINUTE_SECOND
           in Some (hour, minute, second))"

definition TimeType_ToString :: "int \<Rightarrow> string res" where
  "TimeType_ToString v =
     (case Time2HMS v of
        None \<Rightarrow> Inl (ParserError ''Invalid second value'')
      | Some (hour, minute, second) \<Rightarrow>
          Inr (format_0d 2 hour @ '':'' @ format_0d 2 minute @ '':'' @ format_0d 2 second))"

definition TimeType_ConvertFromString :: "char list \<Rightarrow> nat \<Rightarrow> int option res" where
  "TimeType_ConvertFromString mem len =
     res_bind (skip_spaces mem len 0) (\<lambda>pos.
     res_bind (scan_digits MAX_TIME_HOUR mem len pos 0) (\<lambda>r.
     case r of None \<Rightarrow> Inr None | Some (pos, hour) \<Rightarrow>
     res_bind (char_at mem pos) (\<lambda>c.
     if c \<noteq> CHR '':'' then Inr None
     else res_bind (scan_digits MAX_TIME_MINUTE mem len (pos + 1) 0) (\<lambda>r.
     case r of None \<Rightarrow> Inr None | Some (pos, minute) \<Rightarrow>
     res_bind (char_at mem pos) (\<lambda>c.
     if c \<noteq> CHR '':'' then Inr None
     else res_bind (scan_digits MAX_TIME_SECOND mem len (pos + 1) 0) (\<lambda>r.
     case r of None \<Rightarrow> Inr None | Some (pos, second) \<Rightarrow>
     Inr (HMS2Time hour minute second)))))))"

definition TimeType_FromString :: "char list \<Rightarrow> nat \<Rightarrow> int res" where
  "TimeType_FromString mem len =
     res_bind (TimeType_ConvertFromString mem len) (\<lambda>r.
       case r of
         None \<Rightarrow> Inl (ParserError ''Invalid time format (need to be HH:MM:SS).'')
       | Some v \<Rightarrow> Inr v)"

text \<open>The lambda \<^verbatim>\<open>calc_overflow_days\<close>: the new time of day and the days carried over.\<close>

definition calc_overflow_days :: "int \<Rightarrow> int \<Rightarrow> int \<Rightarrow> (int \<times> int) res" where
  "calc_overflow_days input_value interval_value interval_product_seconds =
     res_bind (int32 (interval_value * interval_product_seconds)) (\<lambda>p.
     res_bind (int32 (input_value + p)) (\<lambda>tot.
     let res = ((tot smod DAY_SECOND) + DAY_SECOND) smod DAY_SECOND
     in res_bind (int32 (tot - res)) (\<lambda>diff. Inr (res, diff sdiv DAY_SECOND))))"

text \<open>
  The variant with \<^verbatim>\<open>overflow_days\<close>: output and, if the variant writes it, the overflow.
\<close>

definition TimeType_Add_overflow :: "int \<Rightarrow> interval_type \<Rightarrow> (int \<times> int option) res" where
  "TimeType_Add_overflow input interval =
     (let carry = (\<lambda>product. res_bind (calc_overflow_days input (iv_value interval) product)
                     (\<lambda>(res, days). Inr (res, Some days)))
      in case iv_unit interval of
           kYear \<Rightarrow> Inr (input, None)
         | kMonth \<Rightarrow> Inr (input, None)
         | kDay \<Rightarrow> Inr (input, None)
         | kHour \<Rightarrow> carry HOUR_SECOND
         | kMinute \<Rightarrow> carry MINUTE_SECOND
         | kSecond \<Rightarrow> carry SECOND_SECOND
         | kInvalidUnit \<Rightarrow> Inl (ParserError ''Invalid interval unit.''))"

definition TimeType_Subtract_overflow :: "int \<Rightarrow> interval_type \<Rightarrow> (int \<times> int option) res" where
  "TimeType_Subtract_overflow input interval =
     res_bind (int32 (- iv_value interval)) (\<lambda>v. TimeType_Add_overflow input (interval\<lparr>iv_value := v\<rparr>))"

definition calc_time_add :: "int \<Rightarrow> int \<Rightarrow> int \<Rightarrow> int res" where
  "calc_time_add input_value interval_value interval_product_seconds =
     res_bind (int32 (interval_value * interval_product_seconds)) (\<lambda>p.
     res_bind (int32 (input_value + p)) (\<lambda>tot.
     Inr (((tot smod DAY_SECOND) + DAY_SECOND) smod DAY_SECOND)))"

definition TimeType_Add :: "int \<Rightarrow> interval_type \<Rightarrow> int res" where
  "TimeType_Add input interval =
     (case iv_unit interval of
        kYear \<Rightarrow> Inr input
      | kMonth \<Rightarrow> Inr input
      | kDay \<Rightarrow> Inr input
      | kHour \<Rightarrow> calc_time_add input (iv_value interval) HOUR_SECOND
      | kMinute \<Rightarrow> calc_time_add input (iv_value interval) MINUTE_SECOND
      | kSecond \<Rightarrow> calc_time_add input (iv_value interval) SECOND_SECOND
      | kInvalidUnit \<Rightarrow> Inl (ParserError ''Invalid interval unit.''))"

definition TimeType_Subtract :: "int \<Rightarrow> interval_type \<Rightarrow> int res" where
  "TimeType_Subtract input interval =
     res_bind (int32 (- iv_value interval)) (\<lambda>v. TimeType_Add input (interval\<lparr>iv_value := v\<rparr>))"

definition TimeType_GetTimePart :: "int \<Rightarrow> time_unit \<Rightarrow> int res" where
  "TimeType_GetTimePart input unit =
     (case Time2HMS input of
        None \<Rightarrow> Inl (ParserError ''Invalid time value'')
      | Some (hour, minute, second) \<Rightarrow>
          (case unit of
             kYear \<Rightarrow> Inl (ParserError ''Can't extract year from time'')
           | kMonth \<Rightarrow> Inl (ParserError ''Can't extract month from time'')
           | kDay \<Rightarrow> Inl (ParserError ''Can't extract day from time'')
           | kHour \<Rightarrow> Inr hour
           | kMinute \<Rightarrow> Inr minute
           | kSecond \<Rightarrow> Inr second
           | kInvalidUnit \<Rightarrow> Inl (ParserError ''Invalid time unit'')))"

section \<open>Date and time\<close>

record datetime_type =
  dt_date :: int
  dt_time :: int

definition int32_cast :: "int \<Rightarrow> int" where
  "int32_cast i = signed_take_bit 31 i"

definition int64 :: "int \<Rightarrow> int res" where
  "int64 i = (if - (2 ^ 63) \<le> i \<and> i < 2 ^ 63 then Inr i else Inl UndefinedBehaviour)"

definition DateTimeType_of_epoch :: "int \<Rightarrow> datetime_type res" where
  "DateTimeType_of_epoch epoch_time =
     (let TotalSecondsInDay = 24 * 60 * 60;
          seconds = int32_cast (epoch_time smod TotalSecondsInDay);
          seconds = (if seconds < 0 then seconds + TotalSecondsInDay else seconds)
      in res_bind (int64 (epoch_time - seconds)) (\<lambda>diff.
         Inr \<lparr>dt_date = int32_cast (diff sdiv TotalSecondsInDay), dt_time = seconds\<rparr>))"

definition DateTimeType_GetEpochTime :: "datetime_type \<Rightarrow> int res" where
  "DateTimeType_GetEpochTime dt =
     (let TotalSecondsInDay = 24 * 60 * 60
      in res_bind (int32 (dt_date dt * TotalSecondsInDay)) (\<lambda>p. int32 (p + dt_time dt)))"

function skip_blanks :: "char list \<Rightarrow> nat \<Rightarrow> nat \<Rightarrow> nat res" where
  "skip_blanks mem len pos =
     (if pos < len
      then res_bind (char_at mem pos) (\<lambda>c. if c = CHR '' '' then skip_blanks mem len (pos + 1) else Inr pos)
      else Inr pos)"
  by pat_completeness auto
termination by (relation "measure (\<lambda>(mem, len, pos). len - pos)") auto

declare skip_blanks.simps [simp del]

definition DateTimeType_FromString :: "char list \<Rightarrow> nat \<Rightarrow> datetime_type res" where
  "DateTimeType_FromString mem len =
     res_bind (DateType_FromString mem len) (\<lambda>(date, date_length).
     res_bind (skip_blanks mem len date_length) (\<lambda>date_length.
       if date_length < len then
         res_bind (TimeType_FromString (drop date_length mem) (len - date_length)) (\<lambda>time.
           Inr \<lparr>dt_date = date, dt_time = time\<rparr>)
       else Inr \<lparr>dt_date = date, dt_time = 0\<rparr>))"

definition DateTimeType_ToString :: "datetime_type \<Rightarrow> string res" where
  "DateTimeType_ToString dt =
     res_bind (DateType_ToString (dt_date dt)) (\<lambda>d.
     res_bind (TimeType_ToString (dt_time dt)) (\<lambda>t. Inr (d @ '' '' @ t)))"

text \<open>
  \<^verbatim>\<open>DateType::Add\<close> writes into the date of the copied input; when it returns \<^verbatim>\<open>false\<close> the date is
  left as it was, and the result is not looked at.
\<close>

definition DateTimeType_Add :: "datetime_type \<Rightarrow> interval_type \<Rightarrow> datetime_type res" where
  "DateTimeType_Add input interval =
     (if iv_unit interval \<in> set [kYear, kMonth, kDay] then
        res_bind (DateType_Add (dt_date input) interval) (\<lambda>r.
          case r of None \<Rightarrow> Inr input | Some date \<Rightarrow> Inr (input\<lparr>dt_date := date\<rparr>))
      else if iv_unit interval \<in> set [kHour, kMinute, kSecond] then
        res_bind (TimeType_Add_overflow (dt_time input) interval) (\<lambda>(time, ov).
          let overflow_days = (case ov of Some d \<Rightarrow> d | None \<Rightarrow> 0);
              input = input\<lparr>dt_time := time\<rparr>
          in if overflow_days \<noteq> 0 then
               res_bind (DateType_Add (dt_date input) \<lparr>iv_unit = kDay, iv_value = overflow_days\<rparr>) (\<lambda>r.
                 case r of None \<Rightarrow> Inr input | Some date \<Rightarrow> Inr (input\<lparr>dt_date := date\<rparr>))
             else Inr input)
      else Inl (ParserError ''Invalid interval unit.''))"

definition DateTimeType_Subtract :: "datetime_type \<Rightarrow> interval_type \<Rightarrow> datetime_type res" where
  "DateTimeType_Subtract input interval =
     res_bind (int32 (- iv_value interval)) (\<lambda>v. DateTimeType_Add input (interval\<lparr>iv_value := v\<rparr>))"

definition DateTimeType_GetDateTimePart :: "datetime_type \<Rightarrow> time_unit \<Rightarrow> int res" where
  "DateTimeType_GetDateTimePart input unit =
     (if unit \<in> set [kYear, kMonth, kDay] then DateType_GetDatePart (dt_date input) unit
      else if unit \<in> set [kHour, kMinute, kSecond] then TimeType_GetTimePart (dt_time input) unit
      else Inl (ParserError ''Invalid time unit''))"

definition DateTimeType_le :: "datetime_type \<Rightarrow> datetime_type \<Rightarrow> bool" where
  "DateTimeType_le a b \<longleftrightarrow> dt_date a < dt_date b \<or> (dt_date a = dt_date b \<and> dt_time a \<le> dt_time b)"

definition DateTimeType_less :: "datetime_type \<Rightarrow> datetime_type \<Rightarrow> bool" where
  "DateTimeType_less a b \<longleftrightarrow> dt_date a < dt_date b \<or> (dt_date a = dt_date b \<and> dt_time a < dt_time b)"

definition DateTimeType_YMDHMS2DateTime ::
  "int \<Rightarrow> int \<Rightarrow> int \<Rightarrow> int \<Rightarrow> int \<Rightarrow> int \<Rightarrow> datetime_type option" where
  "DateTimeType_YMDHMS2DateTime year month day hour minute second =
     (case HMS2Time hour minute second of
        None \<Rightarrow> None
      | Some time \<Rightarrow>
          map_option (\<lambda>date. \<lparr>dt_date = date, dt_time = time\<rparr>) (YMD2Date year month day))"

section \<open>Times\<close>

definition time_ok :: "int \<Rightarrow> bool" where
  "time_ok t \<longleftrightarrow> 0 \<le> t \<and> t < 86400"

definition epoch_seconds :: "datetime_type \<Rightarrow> int" where
  "epoch_seconds dt = dt_date dt * 86400 + dt_time dt"

lemma Time2HMS_eq:
  "Time2HMS v = (if time_ok v then Some (v div 3600, v mod 3600 div 60, v mod 60) else None)"
proof -
  have "v mod 3600 mod 60 = v mod 60" by (rule mod_mod_cancel) simp
  then show ?thesis
    by (simp add: Time2HMS_def time_ok_def time_consts sdiv_smod_pos Let_def)
qed

lemma HMS_inverse: "HMS2Time h m s = Some v \<longleftrightarrow> Time2HMS v = Some (h, m, s)"
proof
  assume "HMS2Time h m s = Some v"
  then have v: "v = 3600 * h + (60 * m + s)" and r: "0 \<le> h" "h \<le> 23" "0 \<le> m" "m \<le> 59" "0 \<le> s" "s \<le> 59"
    by (auto simp: HMS2Time_def IsTimeValid_def time_consts split: if_splits)
  have "v div 3600 = h" using v r by (intro int_div_pos_eq [where r = "60 * m + s"]) simp_all
  moreover have "v mod 3600 = 60 * m + s" using v r by (intro int_mod_pos_eq [where q = h]) simp_all
  moreover have "(60 * m + s) div 60 = m" using r by (intro int_div_pos_eq [where r = s]) simp_all
  moreover have "v mod 60 = s" using v r by (intro int_mod_pos_eq [where q = "60 * h + m"]) simp_all
  moreover have "time_ok v" using v r by (simp add: time_ok_def)
  ultimately show "Time2HMS v = Some (h, m, s)" by (simp add: Time2HMS_eq)
next
  assume "Time2HMS v = Some (h, m, s)"
  then have hms: "h = v div 3600" "m = v mod 3600 div 60" "s = v mod 60" and v: "time_ok v"
    by (auto simp: Time2HMS_eq split: if_splits)
  define w where "w = v mod 3600"
  have w: "0 \<le> w" "w < 3600" "w mod 60 = v mod 60"
    using mod_mod_cancel [of 60 3600 v] by (simp_all add: w_def)
  have "h \<le> 23" "0 \<le> h"
    using v zdiv_mono1 [of v 86399 3600] by (simp_all add: hms time_ok_def pos_imp_zdiv_nonneg_iff)
  moreover have "m \<le> 59" "0 \<le> m"
    using w zdiv_mono1 [of w 3599 60] by (simp_all add: hms pos_imp_zdiv_nonneg_iff flip: w_def)
  moreover have "s < 60" "0 \<le> s" by (simp_all add: hms)
  moreover have "h * 3600 + w = v" unfolding hms w_def by (rule div_mult_mod_eq)
  moreover have "m * 60 + s = w" unfolding hms w(3) [symmetric] w_def [symmetric] by (rule div_mult_mod_eq)
  ultimately show "HMS2Time h m s = Some v" by (simp add: HMS2Time_def IsTimeValid_def time_consts)
qed

definition time_text :: "int \<Rightarrow> int \<Rightarrow> int \<Rightarrow> string" where
  "time_text hour minute second =
     format_0d 2 hour @ '':'' @ format_0d 2 minute @ '':'' @ format_0d 2 second"

lemma TimeType_ToString_eq:
  assumes "TimeType_ToString v = Inr s"
  obtains h m x where "HMS2Time h m x = Some v" "s = time_text h m x"
  using assms by (auto simp: TimeType_ToString_def time_text_def HMS_inverse split: option.splits)

lemma TimeType_FromString_text:
  assumes "HMS2Time h m s = Some v"
  shows "TimeType_FromString (time_text h m s @ tail) (length (time_text h m s)) = Inr v"
proof -
  have r: "0 \<le> h" "h \<le> 23" "0 \<le> m" "m \<le> 59" "0 \<le> s" "s \<le> 59"
    using assms by (auto simp: HMS2Time_def IsTimeValid_def time_consts split: if_splits)
  define hs ms ss where "hs = unsigned_0d 2 h" and "ms = unsigned_0d 2 m" and "ss = unsigned_0d 2 s"
  have tx: "time_text h m s = hs @ '':'' @ ms @ '':'' @ ss"
    using r by (auto simp: time_text_def format_0d_eq hs_def ms_def ss_def)
  let ?mem = "hs @ '':'' @ ms @ '':'' @ ss @ tail"
  let ?len = "length (hs @ '':'' @ ms @ '':'' @ ss)"
  have dg: "list_all isdigit hs" "list_all isdigit ms" "list_all isdigit ss"
    "digits_val 0 hs = h" "digits_val 0 ms = m" "digits_val 0 ss = s"
    using r by (simp_all add: hs_def ms_def ss_def unsigned_0d_digits)
  have "isdigit (hd hs)" "hs \<noteq> []" using dg(1) by (cases hs; simp add: hs_def)+
  then have "skip_spaces ?mem ?len 0 = Inr 0"
    using isdigit_not_isspace by (intro skip_spaces_none) auto
  moreover have "scan_digits 23 ?mem ?len 0 0 = Inr (Some (length hs, h))"
    using dg r scan_digits_text [of hs 0 23 ?mem "[]" "'':'' @ ms @ '':'' @ ss @ tail" ?len] by simp
  moreover have "scan_digits 59 ?mem ?len (length (hs @ '':'')) 0
      = Inr (Some (length (hs @ '':'') + length ms, m))"
    using dg r scan_digits_text [of ms 0 59 ?mem "hs @ '':''" "'':'' @ ss @ tail" ?len] by simp
  moreover have "scan_digits 59 ?mem ?len (length (hs @ '':'' @ ms @ '':'')) 0
      = Inr (Some (length (hs @ '':'' @ ms @ '':'') + length ss, s))"
    using dg r scan_digits_text [of ss 0 59 ?mem "hs @ '':'' @ ms @ '':''" tail ?len] by simp
  moreover have "char_at ?mem (length hs) = Inr CHR '':''"
    "char_at ?mem (length (hs @ '':'') + length ms) = Inr CHR '':''"
    by (simp_all add: char_at_def nth_append)
  ultimately show ?thesis
    using assms unfolding tx
    by (simp add: TimeType_FromString_def TimeType_ConvertFromString_def time_consts add.assoc)
qed

section \<open>Date times\<close>

lemma skip_blanks_one:
  assumes "pos + 1 < len" "pos + 1 < length mem" "mem ! pos = CHR '' ''" "mem ! (pos + 1) \<noteq> CHR '' ''"
  shows "skip_blanks mem len pos = Inr (pos + 1)"
proof -
  have "skip_blanks mem len (pos + 1) = Inr (pos + 1)"
    using assms by (subst skip_blanks.simps) (simp add: char_at_def)
  then show ?thesis using assms by (subst skip_blanks.simps) (simp add: char_at_def)
qed

lemma hd_time_text:
  assumes "HMS2Time h m s = Some v"
  shows "time_text h m s \<noteq> []" "isdigit (hd (time_text h m s))"
proof -
  have "0 \<le> h" using assms by (auto simp: HMS2Time_def IsTimeValid_def time_consts split: if_splits)
  then show "time_text h m s \<noteq> []" "isdigit (hd (time_text h m s))"
    using unsigned_0d_digits(1) [of 2 h]
    by (cases "unsigned_0d 2 h"; simp add: time_text_def format_0d_eq)+
qed

lemma DateTimeType_text:
  assumes "DateTimeType_ToString dt = Inr s"
  shows "DateTimeType_FromString (s @ tail) (length s) = Inr dt"
proof -
  obtain ds ts where "DateType_ToString (dt_date dt) = Inr ds" "TimeType_ToString (dt_time dt) = Inr ts"
    and s: "s = ds @ '' '' @ ts"
    using assms by (auto simp: DateTimeType_ToString_def res_bind_eq_Inr)
  then obtain y mo d h mi x where date: "IsDateValid y mo d" "day_number y mo d = dt_date dt" "ds = date_text y mo d"
    and time: "HMS2Time h mi x = Some (dt_time dt)" "ts = time_text h mi x"
    by (metis DateType_ToString_eq TimeType_ToString_eq)
  note hd = hd_time_text [OF time(1), folded time(2)]
  have "DateType_FromString (s @ tail) (length s) = Inr (dt_date dt, length ds)"
    using DateType_ConvertFromString_text [OF date(1), of "'' '' @ ts" tail]
    by (simp add: DateType_FromString_def date s)
  moreover have "skip_blanks (s @ tail) (length s) (length ds) = Inr (length ds + 1)"
    using hd by (intro skip_blanks_one) (auto simp: s nth_append hd_conv_nth)
  moreover have "TimeType_FromString (drop (length ds + 1) (s @ tail)) (length s - (length ds + 1)) = Inr (dt_time dt)"
    using TimeType_FromString_text [OF time(1), of tail] by (simp add: s time(2))
  ultimately show ?thesis using hd(1) by (simp add: DateTimeType_FromString_def s)
qed

lemma smod_wrap:
  "((tot smod 86400) + 86400) smod 86400 = tot mod (86400 :: int)"
proof -
  have "0 \<le> tot smod 86400 + 86400"
    using pos_mod_bound [of 86400 "\<bar>tot\<bar>"] by (auto simp: signed_modulo_int_def sgn_if)
  then have "((tot smod 86400) + 86400) smod 86400 = tot smod 86400 mod 86400"
    by (simp add: sdiv_smod_pos)
  also have "\<dots> = (tot - tot sdiv 86400 * 86400) mod 86400"
    by (simp add: sdiv_mult_smod_eq minus_sdiv_mult_eq_smod)
  also have "\<dots> = tot mod 86400" by (simp add: mod_diff_eq [symmetric, of tot])
  finally show ?thesis .
qed

definition unit_seconds :: "time_unit \<Rightarrow> int" where
  "unit_seconds u = (case u of kHour \<Rightarrow> 3600 | kMinute \<Rightarrow> 60 | kSecond \<Rightarrow> 1 | _ \<Rightarrow> 0)"

lemma mult_sdiv_day: "(86400 * q) sdiv 86400 = (q :: int)"
  by (simp add: signed_divide_int_def sgn_mult abs_mult mult_sgn_abs)

lemma calc_overflow_days_eq:
  assumes "time_ok t" "\<bar>n * u\<bar> < 2 ^ 30"
  shows "calc_overflow_days t n u = Inr ((t + n * u) mod 86400, (t + n * u) div 86400)"
proof -
  define tot where "tot = t + n * u"
  have "tot - tot mod 86400 = 86400 * (tot div 86400)" by (simp add: minus_mod_eq_mult_div)
  moreover have "(86400 * (tot div 86400)) sdiv 86400 = tot div (86400::int)"
    by (rule mult_sdiv_day)
  moreover have "0 \<le> tot mod 86400" "tot mod 86400 < 86400" by simp_all
  ultimately show ?thesis
    using assms
    by (simp add: calc_overflow_days_def int32_def int32_ok_def time_ok_def time_consts Let_def smod_wrap
        flip: tot_def) (auto simp: tot_def)
qed

lemma smod_day_range: "\<bar>e smod 86400\<bar> < (86400 :: int)"
  using pos_mod_bound [of 86400 "\<bar>e\<bar>"] by (auto simp: signed_modulo_int_def sgn_if)

lemma smod_fix:
  "(if e smod 86400 < 0 then e smod 86400 + 86400 else e smod 86400) = e mod (86400 :: int)"
proof (cases "e smod 86400 < 0")
  case True
  then have "0 \<le> e smod 86400 + 86400" "e smod 86400 + 86400 < 86400"
    using smod_day_range [of e] by auto
  then have "(e smod 86400 + 86400) smod 86400 = e smod 86400 + 86400"
    by (simp add: sdiv_smod_pos(2) mod_pos_pos_trivial del: mod_add_self2)
  then show ?thesis using True smod_wrap [of e] by simp
next
  case False
  then have "(e smod 86400 + 86400) smod 86400 = e smod 86400"
    using smod_day_range [of e] by (simp add: sdiv_smod_pos)
  with False smod_wrap [of e] show ?thesis by simp
qed

lemma int32_cast_id: "int32_ok i \<Longrightarrow> int32_cast i = i"
  by (simp add: int32_cast_def int32_ok_def signed_take_bit_int_eq_self)

section \<open>Properties\<close>

text \<open>
  \<^verbatim>\<open>Time2HMS\<close> and \<^verbatim>\<open>HMS2Time\<close> are inverse to each other on exactly the 86400 seconds of a day.
\<close>

theorem HMS2Time_Time2HMS: "HMS2Time h m s = Some v \<longleftrightarrow> Time2HMS v = Some (h, m, s)"
  by (rule HMS_inverse)

text \<open>
  C30: What \<^verbatim>\<open>DateTimeType::ToString\<close> prints is read back by \<^verbatim>\<open>DateTimeType::FromString\<close> unchanged.
\<close>

theorem DateTimeType_string_round_trip:
  assumes "DateTimeType_ToString dt = Inr s"
  shows "DateTimeType_FromString (s @ tail) (length s) = Inr dt"
  using assms by (rule DateTimeType_text)

lemma datetime_text_example:
  "DateTimeType_ToString \<lparr>dt_date = 1, dt_time = 3661\<rparr> = Inr ''1970-01-02 01:01:01''"
  by code_simp

theorem DateTimeType_string_round_trip_witness:
  "DateTimeType_FromString (''1970-01-02 01:01:01'' @ [CHR 0x00]) (length ''1970-01-02 01:01:01'')
     = Inr \<lparr>dt_date = 1, dt_time = 3661\<rparr>"
  using datetime_text_example by (rule DateTimeType_string_round_trip)



text \<open>
  The comparison operators of date times with a valid time of day are the order of their
  distances from the epoch.
\<close>

theorem DateTimeType_order:
  assumes "time_ok (dt_time a)" and "time_ok (dt_time b)"
  shows "(DateTimeType_less a b \<longleftrightarrow> epoch_seconds a < epoch_seconds b)
    \<and> (DateTimeType_le a b \<longleftrightarrow> epoch_seconds a \<le> epoch_seconds b)"
  using assms
  by (auto simp: DateTimeType_less_def DateTimeType_le_def epoch_seconds_def time_ok_def)

theorem DateTimeType_order_witness:
  "(DateTimeType_less \<lparr>dt_date = 3, dt_time = 86399\<rparr> \<lparr>dt_date = 4, dt_time = 0\<rparr>
      \<longleftrightarrow> epoch_seconds \<lparr>dt_date = 3, dt_time = 86399\<rparr> < epoch_seconds \<lparr>dt_date = 4, dt_time = 0\<rparr>)
   \<and> (DateTimeType_le \<lparr>dt_date = 3, dt_time = 86399\<rparr> \<lparr>dt_date = 4, dt_time = 0\<rparr>
      \<longleftrightarrow> epoch_seconds \<lparr>dt_date = 3, dt_time = 86399\<rparr> \<le> epoch_seconds \<lparr>dt_date = 4, dt_time = 0\<rparr>)"
  by (rule DateTimeType_order) (simp_all add: time_ok_def)

text \<open>
  C32: A date time is made from every count of seconds whose day fits an \<^verbatim>\<open>int32_t\<close>, and it denotes
  that count; \<^verbatim>\<open>GetEpochTime\<close> gives it back only while the count of seconds itself fits an
  \<^verbatim>\<open>int32_t\<close>, as its product is computed in 32 bits.
\<close>

theorem DateTimeType_epoch_round_trip:
  assumes "- (86400 * 2 ^ 31) \<le> e" and "e < 86400 * 2 ^ 31"
  shows "\<exists>dt. DateTimeType_of_epoch e = Inr dt \<and> epoch_seconds dt = e \<and> time_ok (dt_time dt)
    \<and> DateTimeType_GetEpochTime dt =
        (if int32_ok (dt_date dt * 86400) \<and> int32_ok e then Inr e else Inl UndefinedBehaviour)"
proof -
  have "int32_ok (e smod 86400)" using smod_day_range [of e] by (auto simp: int32_ok_def)
  moreover have "int32_ok (e div 86400)"
    using assms zdiv_mono1 [of "- (86400 * 2 ^ 31)" e 86400] zdiv_mono1 [of e "86400 * 2 ^ 31 - 1" 86400]
    by (simp add: int32_ok_def)
  moreover have "e - e mod 86400 = 86400 * (e div 86400)" by (simp add: minus_mod_eq_mult_div)
  moreover have "0 \<le> e mod 86400" "e mod 86400 < 86400" by simp_all
  moreover have "int64 (86400 * (e div 86400)) = Inr (86400 * (e div 86400))"
    using calculation(2) by (simp add: int64_def int32_ok_def)
  ultimately have "DateTimeType_of_epoch e = Inr \<lparr>dt_date = e div 86400, dt_time = e mod 86400\<rparr>"
    using smod_fix [of e]
    by (cases "e smod 86400 < 0")
      (simp_all add: DateTimeType_of_epoch_def int32_cast_id mult_sdiv_day Let_def)
  then show ?thesis
    by (auto simp: epoch_seconds_def time_ok_def DateTimeType_GetEpochTime_def int32_def mult.commute)
qed

theorem DateTimeType_epoch_round_trip_witness:
  "\<exists>dt. DateTimeType_of_epoch (-1) = Inr dt \<and> epoch_seconds dt = -1 \<and> time_ok (dt_time dt)
    \<and> DateTimeType_GetEpochTime dt =
        (if int32_ok (dt_date dt * 86400) \<and> int32_ok (-1) then Inr (-1) else Inl UndefinedBehaviour)"
  by (rule DateTimeType_epoch_round_trip) simp_all

end
