(* ===== verification/Crc.thy ===== *)
theory Crc
  imports Infinity_Prelude
begin

unbundle bit_operations_syntax

text \<open>
  \<^verbatim>\<open>src/common/utility/crc.cppm\<close>: the table-driven checksum of the log entries, the bitwise division it
  computes, and the corruptions it detects.
\<close>

section \<open>The checksum\<close>

definition CRC32_IEEE :: u32 where
  "CRC32_IEEE = 0xEDB88320"

definition crc_bit :: "u32 \<Rightarrow> u32" where
  "crc_bit c = (if odd c then CRC32_IEEE XOR drop_bit 1 c else drop_bit 1 c)"

text \<open>The constructor of \<^verbatim>\<open>CRCBase\<close> computes one entry of the table from each index.\<close>

definition CRCBase_tab :: "u32 list" where
  "CRCBase_tab = map (\<lambda>i. (crc_bit ^^ 8) (word_of_nat i)) [0..<256]"

definition crc_step :: "u32 \<Rightarrow> byte \<Rightarrow> u32" where
  "crc_step crc b = CRCBase_tab ! unat ((crc XOR ucast b) AND 0xff) XOR drop_bit 8 crc"

definition CRC_initial :: u32 where
  "CRC_initial = 0xFFFFFFFF"

definition CRC_update :: "u32 \<Rightarrow> byte list \<Rightarrow> u32" where
  "CRC_update crc buf = foldl crc_step crc buf"

definition CRC_finalize :: "u32 \<Rightarrow> u32" where
  "CRC_finalize crc = crc XOR 0xFFFFFFFF"

definition makeCRC :: "byte list \<Rightarrow> u32" where
  "makeCRC buf = foldl crc_step CRC_initial buf XOR 0xFFFFFFFF"

section \<open>The reference: one bit at a time\<close>

definition crc_byte :: "u32 \<Rightarrow> byte \<Rightarrow> u32" where
  "crc_byte crc b = (crc_bit ^^ 8) (crc XOR ucast b)"

definition crc_reference :: "byte list \<Rightarrow> u32" where
  "crc_reference buf = NOT (foldl crc_byte (NOT 0) buf)"

lemma crc_bit_xor: "crc_bit (c XOR d) = crc_bit c XOR crc_bit d"
proof -
  have o: "odd (c XOR d) \<longleftrightarrow> odd c \<noteq> odd d"
    by (simp add: bit_xor_iff flip: bit_0)
  show ?thesis
    by (cases "odd c"; cases "odd d") (simp_all add: crc_bit_def o drop_bit_xor ac_simps)
qed

lemma crc_bits_xor: "(crc_bit ^^ n) (c XOR d) = (crc_bit ^^ n) c XOR (crc_bit ^^ n) d"
  by (induction n) (simp_all add: crc_bit_xor)

lemma crc_bits_low_zero: "take_bit n x = 0 \<Longrightarrow> (crc_bit ^^ n) x = drop_bit n x"
proof (induction n arbitrary: x)
  case (Suc n)
  have "even x" using Suc.prems by (metis bit_0 bit_take_bit_iff bit_0_eq bot_apply bot_bool_def zero_less_Suc)
  then have 1: "crc_bit x = drop_bit 1 x" by (simp add: crc_bit_def)
  have "take_bit n (drop_bit 1 x) = drop_bit 1 (take_bit (Suc n) x)"
    by (simp add: drop_bit_take_bit)
  then have "take_bit n (drop_bit 1 x) = 0" using Suc.prems by simp
  then have "(crc_bit ^^ n) (drop_bit 1 x) = drop_bit n (drop_bit 1 x)" by (rule Suc.IH)
  then show ?case by (simp add: funpow_swap1 1 drop_bit_drop_bit add.commute)
qed simp

lemma and_ff_take_bit: "(x AND 0xff :: u32) = take_bit 8 x"
  by (simp add: take_bit_eq_mask mask_eq_exp_minus_1 ac_simps)

lemma unat_take_bit_8: "unat (take_bit 8 x :: u32) < 256"
  using take_bit_nat_less_exp [of 8 "unat x"] by (simp add: unsigned_take_bit_eq)

lemma drop_bit_ucast_byte: "drop_bit 8 (ucast (b :: byte) :: u32) = 0"
  by (rule bit_word_eqI) (auto simp: bit_simps dest: bit_imp_le_length)

lemma crc_step_byte: "crc_step crc b = crc_byte crc b"
proof -
  define x where "x = crc XOR ucast b"
  have split: "take_bit 8 x XOR push_bit 8 (drop_bit 8 x) = x"
    by (rule bit_word_eqI) (auto simp: bit_simps)
  have high: "take_bit 8 (push_bit 8 (drop_bit 8 x)) = 0"
    by (rule bit_word_eqI) (simp add: bit_simps)
  have "drop_bit 8 (push_bit 8 (drop_bit 8 x)) = drop_bit 8 x"
    by (rule bit_word_eqI) (auto simp: bit_simps dest: bit_imp_le_length)
  also have "\<dots> = drop_bit 8 crc" by (simp add: x_def drop_bit_xor drop_bit_ucast_byte)
  finally have h: "(crc_bit ^^ 8) (push_bit 8 (drop_bit 8 x)) = drop_bit 8 crc"
    using crc_bits_low_zero [OF high] by simp
  have "CRCBase_tab ! unat (take_bit 8 x) = (crc_bit ^^ 8) (take_bit 8 x)"
    using unat_take_bit_8 [of x] by (simp add: CRCBase_tab_def)
  then have "crc_step crc b = (crc_bit ^^ 8) (take_bit 8 x) XOR (crc_bit ^^ 8) (push_bit 8 (drop_bit 8 x))"
    by (simp add: crc_step_def x_def [symmetric] h and_ff_take_bit)
  also have "\<dots> = (crc_bit ^^ 8) x"
    by (simp only: crc_bits_xor [symmetric] split)
  finally show ?thesis by (simp add: crc_byte_def x_def)
qed

lemma foldl_crc_step: "foldl crc_step c bs = foldl crc_byte c bs"
  by (induction bs arbitrary: c) (simp_all add: crc_step_byte)

lemma all_ones: "(0xFFFFFFFF :: u32) = - 1"
  by simp

lemma xor_all_ones: "(c :: u32) XOR 0xFFFFFFFF = NOT c"
proof -
  have "(0xFFFFFFFF :: u32) = NOT 0" by simp
  then show ?thesis by (simp only:) (rule bit_word_eqI, simp add: bit_simps)
qed

section \<open>Detected changes\<close>

lemma xor_cancel: "c XOR x = c XOR y \<Longrightarrow> x = (y :: u32)"
proof -
  assume "c XOR x = c XOR y"
  then have "c XOR (c XOR x) = c XOR (c XOR y)" by simp
  then show ?thesis by (simp flip: xor.assoc)
qed

lemma crc_bit_inj: "crc_bit c = crc_bit d \<Longrightarrow> c = d"
proof -
  assume eq: "crc_bit c = crc_bit d"
  have top: "bit (crc_bit x) 31 \<longleftrightarrow> odd x" for x
    using bit_imp_le_length [of x 32] by (auto simp: crc_bit_def CRC32_IEEE_def bit_simps)
  have o: "odd c \<longleftrightarrow> odd d" using eq top by metis
  then have "drop_bit 1 c = drop_bit 1 d"
    using eq by (cases "odd c") (auto simp: crc_bit_def dest: xor_cancel)
  then have "bit (drop_bit 1 c) n \<longleftrightarrow> bit (drop_bit 1 d) n" for n by simp
  then have "bit c (Suc n) \<longleftrightarrow> bit d (Suc n)" for n by (simp add: bit_drop_bit_eq)
  moreover have "bit c 0 \<longleftrightarrow> bit d 0" using o by (simp add: bit_0)
  ultimately have "bit c n \<longleftrightarrow> bit d n" for n by (cases n) blast+
  then show "c = d" by (intro bit_word_eqI) blast
qed

lemma crc_bits_inj: "(crc_bit ^^ n) c = (crc_bit ^^ n) d \<Longrightarrow> c = d"
  by (induction n) (auto dest: crc_bit_inj)

lemma foldl_crc_inj: "foldl crc_byte c bs = foldl crc_byte d bs \<Longrightarrow> c = d"
proof (induction bs arbitrary: c d)
  case (Cons b bs)
  then have "crc_byte c b = crc_byte d b" by simp
  then have "c XOR ucast b = d XOR ucast b" unfolding crc_byte_def by (rule crc_bits_inj)
  then show ?case by (auto intro: xor_cancel [of "ucast b"] simp: xor.commute)
qed simp

text \<open>Up to four bytes, packed into the word they are divided as.\<close>

fun crc_pack :: "byte list \<Rightarrow> u32" where
  "crc_pack [] = 0"
| "crc_pack (b # bs) = ucast b XOR push_bit 8 (crc_pack bs)"

lemma bit_crc_pack: "bit (crc_pack bs) n \<Longrightarrow> n < 8 * length bs"
proof (induction bs arbitrary: n)
  case (Cons b bs)
  then show ?case
    by (auto simp: bit_simps dest!: Cons.IH dest: bit_imp_le_length)
qed simp

lemma crc_pack_drop:
  assumes "length bs \<le> 3"
  shows "drop_bit 8 (push_bit 8 (crc_pack bs)) = crc_pack bs"
proof (rule bit_word_eqI)
  fix n assume "n < LENGTH(32)"
  then show "bit (drop_bit 8 (push_bit 8 (crc_pack bs))) n \<longleftrightarrow> bit (crc_pack bs) n"
    using bit_crc_pack [of bs n] assms by (auto simp: bit_simps)
qed

lemma foldl_crc_pack:
  "length bs \<le> 4 \<Longrightarrow> foldl crc_byte c bs = (crc_bit ^^ (8 * length bs)) (c XOR crc_pack bs)"
proof (induction bs arbitrary: c)
  case (Cons b bs)
  have "take_bit 8 (push_bit 8 (crc_pack bs)) = 0"
    by (rule bit_word_eqI) (simp add: bit_simps)
  then have "(crc_bit ^^ 8) (push_bit 8 (crc_pack bs)) = crc_pack bs"
    using crc_bits_low_zero crc_pack_drop Cons.prems by simp
  then have "crc_byte c b XOR crc_pack bs = (crc_bit ^^ 8) (c XOR crc_pack (b # bs))"
    by (simp add: crc_byte_def crc_bits_xor flip: xor.assoc)
  moreover have "foldl crc_byte (crc_byte c b) bs = (crc_bit ^^ (8 * length bs)) (crc_byte c b XOR crc_pack bs)"
    using Cons by simp
  ultimately show ?case
    by (simp add: funpow_add [symmetric, THEN fun_cong, unfolded comp_def] algebra_simps)
qed simp

lemma crc_pack_inj:
  "crc_pack xs = crc_pack ys \<Longrightarrow> length xs = length ys \<Longrightarrow> length xs \<le> 4 \<Longrightarrow> xs = ys"
proof (induction xs arbitrary: ys)
  case (Cons x xs)
  then obtain y ys' where ys: "ys = y # ys'" by (cases ys) auto
  have low: "take_bit 8 (crc_pack (b # bs)) = ucast b" for b bs
    by (rule bit_word_eqI) (auto simp: bit_simps dest: bit_imp_le_length)
  have high: "drop_bit 8 (crc_pack (b # bs)) = crc_pack bs" if "length bs \<le> 3" for b bs
    using crc_pack_drop [OF that] by (simp add: drop_bit_xor drop_bit_ucast_byte)
  have "take_bit 8 (crc_pack (x # xs)) = take_bit 8 (crc_pack (y # ys'))"
    using Cons.prems(1) ys by (simp only:)
  then have "unat (ucast x :: u32) = unat (ucast y :: u32)" unfolding low by (simp only:)
  moreover have "unat (ucast b :: u32) = unat b" for b :: byte
  proof -
    have "unat b < 256" using unsigned_less [of b, where 'a = nat] by simp
    then show ?thesis by (simp add: unsigned_ucast_eq take_bit_nat_eq_self_iff)
  qed
  ultimately have "x = y" by (simp add: word_unat_eq_iff)
  moreover have "drop_bit 8 (crc_pack (x # xs)) = drop_bit 8 (crc_pack (y # ys'))"
    using Cons.prems(1) ys by (simp only:)
  then have "crc_pack xs = crc_pack ys'"
    using high [of xs x] high [of ys' y] Cons.prems(2,3) ys by (simp del: crc_pack.simps)
  ultimately show ?case using Cons ys by simp
qed simp

lemma makeCRC_burst:
  assumes "length ys = length zs" and "length ys \<le> 4" and "ys \<noteq> zs"
  shows "makeCRC (xs @ ys @ ws) \<noteq> makeCRC (xs @ zs @ ws)"
proof
  assume "makeCRC (xs @ ys @ ws) = makeCRC (xs @ zs @ ws)"
  then have "foldl crc_byte CRC_initial (xs @ ys @ ws) = foldl crc_byte CRC_initial (xs @ zs @ ws)"
    unfolding makeCRC_def foldl_crc_step xor_all_ones by (simp only: bit.compl_eq_compl_iff)
  then have "foldl crc_byte (foldl crc_byte CRC_initial xs) ys = foldl crc_byte (foldl crc_byte CRC_initial xs) zs"
    by (auto dest: foldl_crc_inj)
  then have "(crc_bit ^^ (8 * length ys)) (foldl crc_byte CRC_initial xs XOR crc_pack ys)
      = (crc_bit ^^ (8 * length ys)) (foldl crc_byte CRC_initial xs XOR crc_pack zs)"
    using assms by (simp add: foldl_crc_pack)
  then have "foldl crc_byte CRC_initial xs XOR crc_pack ys = foldl crc_byte CRC_initial xs XOR crc_pack zs"
    by (rule crc_bits_inj)
  then have "crc_pack ys = crc_pack zs" by (rule xor_cancel)
  with assms show False using crc_pack_inj by blast
qed

text \<open>
  C37: The table-driven checksum is the bitwise division of the reference; computing it in pieces with
  \<^verbatim>\<open>update\<close> and \<^verbatim>\<open>finalize\<close> gives the same value.
\<close>

theorem makeCRC_reference:
  "makeCRC buf = crc_reference buf
   \<and> CRC_finalize (CRC_update (CRC_update CRC_initial xs) ys) = makeCRC (xs @ ys)"
  unfolding makeCRC_def xor_all_ones
  by (simp add: crc_reference_def CRC_initial_def CRC_update_def CRC_finalize_def
      foldl_crc_step xor_all_ones flip: all_ones)

text \<open>
  C38: A change of a buffer that is confined to at most four consecutive bytes always changes the
  checksum.
\<close>

theorem makeCRC_detects_burst:
  assumes "length ys = length zs" and "length ys \<le> 4" and "ys \<noteq> zs"
  shows "makeCRC (xs @ ys @ ws) \<noteq> makeCRC (xs @ zs @ ws)"
  by (rule makeCRC_burst [OF assms])

theorem makeCRC_detects_burst_witness:
  "makeCRC ([1, 2] @ [3, 4, 5, 6] @ [7]) \<noteq> makeCRC ([1, 2] @ [3, 0, 255, 6] @ [7])"
  by (rule makeCRC_detects_burst) simp_all

end
