(* ===== verification/Bitmask.thy ===== *)
theory Bitmask
  imports Serialize
begin

unbundle bit_operations_syntax

text \<open>
  \<^verbatim>\<open>src/storage/column_vector/bitmask.cpp\<close> and \<^verbatim>\<open>bitmask_buffer.cpp\<close>: the validity masks of column
  vectors and the results of filters.  A mask without a buffer (\<open>None\<close>) has all bits set.  The first
  part treats a mask as a value that owns its buffer; the second part adds the identity of the
  buffers, which \<^verbatim>\<open>ShallowCopy\<close> and \<^verbatim>\<open>Merge\<close> share between masks.
\<close>

section \<open>Masks that own their buffer\<close>

definition UnitCount :: "nat \<Rightarrow> nat" where
  "UnitCount capacity = (capacity + 63) div 64"

definition power_of_2 :: "nat \<Rightarrow> bool" where
  "power_of_2 count \<longleftrightarrow> count AND (count - 1) = 0"

definition BitmaskBuffer_Make :: "nat \<Rightarrow> u64 list res" where
  "BitmaskBuffer_Make count =
     (if \<not> power_of_2 count then Inl (UnrecoverableError ''Capacity need to be N power of 2.'')
      else Inr (replicate (UnitCount count) (- 1)))"

definition BitmaskBuffer_Make_copy :: "u64 list \<Rightarrow> nat \<Rightarrow> u64 list res" where
  "BitmaskBuffer_Make_copy input count =
     (if \<not> power_of_2 count then Inl (UnrecoverableError ''Capacity need to be N power of 2.'')
      else if length input < UnitCount count then Inl UndefinedBehaviour
      else Inr (take (UnitCount count) input))"

record bitmask =
  bm_count :: nat
  bm_data :: "u64 list option"

definition Bitmask_empty :: bitmask where
  "Bitmask_empty = \<lparr>bm_count = 0, bm_data = None\<rparr>"

definition Bitmask_Initialize :: "nat \<Rightarrow> bitmask \<Rightarrow> bitmask res" where
  "Bitmask_Initialize count bm =
     (if bm_count bm \<noteq> 0 then Inl (UnrecoverableError ''Bitmask is already initialized.'')
      else if \<not> power_of_2 count then Inl (UnrecoverableError ''Capacity need to be N power of 2.'')
      else Inr (bm\<lparr>bm_count := count\<rparr>))"

definition Bitmask_Make :: "nat \<Rightarrow> bitmask res" where
  "Bitmask_Make count = Bitmask_Initialize count Bitmask_empty"

definition Bitmask_Reset :: "bitmask \<Rightarrow> bitmask" where
  "Bitmask_Reset bm = bm\<lparr>bm_data := None, bm_count := 0\<rparr>"

definition IsAllTrue :: "bitmask \<Rightarrow> bool" where
  "IsAllTrue bm =
     (case bm_data bm of
        None \<Rightarrow> True
      | Some data \<Rightarrow> list_all (\<lambda>d. d = - 1) (take (UnitCount (bm_count bm)) data))"

definition Bitmask_DeepCopy :: "bitmask \<Rightarrow> bitmask res" where
  "Bitmask_DeepCopy ref =
     (if IsAllTrue ref then Inr \<lparr>bm_count = bm_count ref, bm_data = None\<rparr>
      else case bm_data ref of
          None \<Rightarrow> Inl UndefinedBehaviour
        | Some data \<Rightarrow> res_bind (BitmaskBuffer_Make_copy data (bm_count ref)) (\<lambda>data'.
            Inr \<lparr>bm_count = bm_count ref, bm_data = Some data'\<rparr>))"

text \<open>\<^verbatim>\<open>memcpy\<close> of \<open>n\<close> bytes between arrays of 64-bit units.\<close>

definition unit_bytes :: "u64 list \<Rightarrow> byte list" where
  "unit_bytes ds = concat (map WriteBufAdv ds)"

fun units_of_bytes :: "byte list \<Rightarrow> u64 list" where
  "units_of_bytes (b0 # b1 # b2 # b3 # b4 # b5 # b6 # b7 # bs) =
     word_of_nat (le_val [b0, b1, b2, b3, b4, b5, b6, b7]) # units_of_bytes bs"
| "units_of_bytes _ = []"

definition memcpy_units :: "u64 list \<Rightarrow> u64 list \<Rightarrow> nat \<Rightarrow> u64 list res" where
  "memcpy_units target source n =
     (if 8 * length target < n \<or> 8 * length source < n then Inl UndefinedBehaviour
      else Inr (units_of_bytes (take n (unit_bytes source) @ drop n (unit_bytes target))))"

definition Bitmask_Resize :: "nat \<Rightarrow> bitmask \<Rightarrow> bitmask res" where
  "Bitmask_Resize new_count bm =
     (if \<not> power_of_2 new_count then Inl (UnrecoverableError ''New capacity need to be N power of 2.'')
      else if new_count < bm_count bm then Inl (UnrecoverableError ''New capacity < old capacity.'')
      else case bm_data bm of
          None \<Rightarrow> Inr (bm\<lparr>bm_count := new_count\<rparr>)
        | Some data \<Rightarrow>
            res_bind (BitmaskBuffer_Make new_count) (\<lambda>new_data.
            res_bind (memcpy_units new_data data (bm_count bm div 8)) (\<lambda>new_data.
              Inr (bm\<lparr>bm_data := Some new_data, bm_count := new_count\<rparr>))))"

definition IsTrue :: "nat \<Rightarrow> bitmask \<Rightarrow> bool res" where
  "IsTrue row_index bm =
     (case bm_data bm of
        None \<Rightarrow> Inr True
      | Some data \<Rightarrow>
          let u64_index = row_index div 64; index_in_u64 = row_index - u64_index * 64
          in if u64_index < length data
             then Inr (data ! u64_index AND push_bit index_in_u64 1 \<noteq> 0)
             else Inl UndefinedBehaviour)"

definition SetTrue :: "nat \<Rightarrow> bitmask \<Rightarrow> bitmask res" where
  "SetTrue row_index bm =
     (case bm_data bm of
        None \<Rightarrow> Inr bm
      | Some data \<Rightarrow>
          let u64_index = row_index div 64; index_in_u64 = row_index - u64_index * 64
          in if u64_index < length data
             then Inr (bm\<lparr>bm_data := Some (data[u64_index := data ! u64_index OR push_bit index_in_u64 1])\<rparr>)
             else Inl UndefinedBehaviour)"

definition ensure_buffer :: "bitmask \<Rightarrow> u64 list res" where
  "ensure_buffer bm =
     (case bm_data bm of None \<Rightarrow> BitmaskBuffer_Make (bm_count bm) | Some data \<Rightarrow> Inr data)"

definition SetFalse :: "nat \<Rightarrow> bitmask \<Rightarrow> bitmask res" where
  "SetFalse row_index bm =
     res_bind (ensure_buffer bm) (\<lambda>data.
       let u64_index = row_index div 64; index_in_u64 = row_index - u64_index * 64
       in if u64_index < length data
          then Inr (bm\<lparr>bm_data :=
                 Some (data[u64_index := data ! u64_index AND NOT (push_bit index_in_u64 1)])\<rparr>)
          else Inl UndefinedBehaviour)"

definition Bitmask_Set :: "nat \<Rightarrow> bool \<Rightarrow> bitmask \<Rightarrow> bitmask res" where
  "Bitmask_Set row_index valid bm = (if valid then SetTrue row_index bm else SetFalse row_index bm)"

definition SetAllTrue :: "bitmask \<Rightarrow> bitmask" where
  "SetAllTrue bm = (case bm_data bm of None \<Rightarrow> bm | Some _ \<Rightarrow> bm\<lparr>bm_data := None\<rparr>)"

definition SetAllFalse :: "bitmask \<Rightarrow> bitmask res" where
  "SetAllFalse bm =
     res_bind (ensure_buffer bm) (\<lambda>data.
       if UnitCount (bm_count bm) \<le> length data
       then Inr (bm\<lparr>bm_data := Some (replicate (UnitCount (bm_count bm)) 0
                                   @ drop (UnitCount (bm_count bm)) data)\<rparr>)
       else Inl UndefinedBehaviour)"

text \<open>The loop that clears the lowest set bit until none is left.\<close>

lemma and_minus_1_less: "elem \<noteq> 0 \<Longrightarrow> unat (elem AND (elem - 1)) < unat (elem :: u64)"
proof -
  assume "elem \<noteq> 0"
  have "elem AND (elem - 1) \<le> elem - 1" by (rule word_and_le1)
  then have "unat (elem AND (elem - 1)) \<le> unat (elem - 1)" by (simp add: word_le_nat_alt)
  also have "\<dots> < unat elem" using \<open>elem \<noteq> 0\<close> by (metis measure_unat)
  finally show ?thesis .
qed

function count_bits :: "u64 \<Rightarrow> nat \<Rightarrow> nat" where
  "count_bits elem count_true =
     (if elem \<noteq> 0 then count_bits (elem AND (elem - 1)) (count_true + 1) else count_true)"
  by pat_completeness auto
termination
  by (relation "measure (\<lambda>(elem, _). unat elem)") (auto intro: and_minus_1_less)

declare count_bits.simps [simp del]

definition CountTrue :: "bitmask \<Rightarrow> nat res" where
  "CountTrue bm =
     (case bm_data bm of
        None \<Rightarrow> Inr (bm_count bm)
      | Some data \<Rightarrow>
          if length data < UnitCount (bm_count bm) then Inl UndefinedBehaviour
          else Inr (foldl (\<lambda>count_true d. if d = - 1 then count_true + 64 else count_bits d count_true)
                      0 (take (UnitCount (bm_count bm)) data)))"

definition CountFalse :: "bitmask \<Rightarrow> u64 res" where
  "CountFalse bm = res_bind (CountTrue bm) (\<lambda>n. Inr (word_of_nat (bm_count bm) - word_of_nat n))"

definition merge_units :: "(u64 \<Rightarrow> u64 \<Rightarrow> u64) \<Rightarrow> nat \<Rightarrow> u64 list \<Rightarrow> u64 list \<Rightarrow> u64 list res" where
  "merge_units f n xs ys =
     (if length xs < n \<or> length ys < n then Inl UndefinedBehaviour
      else Inr (map2 f (take n xs) (take n ys) @ drop n xs))"

definition Bitmask_Merge :: "bitmask \<Rightarrow> bitmask \<Rightarrow> bitmask res" where
  "Bitmask_Merge this other =
     (if IsAllTrue other then Inr this
      else if IsAllTrue this then Inr \<lparr>bm_count = bm_count other, bm_data = bm_data other\<rparr>
      else if bm_count this \<noteq> bm_count other
      then Inl (UnrecoverableError ''Attempt to merge two bitmasks with different size.'')
      else case (bm_data this, bm_data other) of
          (Some xs, Some ys) \<Rightarrow>
            res_bind (merge_units (AND) (UnitCount (bm_count this)) xs ys) (\<lambda>zs.
              Inr (this\<lparr>bm_data := Some zs\<rparr>))
        | _ \<Rightarrow> Inl UndefinedBehaviour)"

definition Bitmask_MergeOr :: "bitmask \<Rightarrow> bitmask \<Rightarrow> bitmask res" where
  "Bitmask_MergeOr this other =
     (if IsAllTrue this then Inr this
      else if IsAllTrue other then Inr (SetAllTrue this)
      else if bm_count this \<noteq> bm_count other
      then Inl (UnrecoverableError ''Attempt to merge two bitmasks with different size.'')
      else case (bm_data this, bm_data other) of
          (Some xs, Some ys) \<Rightarrow>
            res_bind (merge_units (OR) (UnitCount (bm_count this)) xs ys) (\<lambda>zs.
              Inr (this\<lparr>bm_data := Some zs\<rparr>))
        | _ \<Rightarrow> Inl UndefinedBehaviour)"

definition Bitmask_eq :: "bitmask \<Rightarrow> bitmask \<Rightarrow> bool" where
  "Bitmask_eq bm other \<longleftrightarrow>
     bm_count bm = bm_count other
     \<and> (case (bm_data bm, bm_data other) of
          (None, None) \<Rightarrow> True
        | (Some a, Some b) \<Rightarrow> take (UnitCount (bm_count bm)) a = take (UnitCount (bm_count bm)) b
        | _ \<Rightarrow> False)"

definition Bitmask_GetSizeInBytes :: "bitmask \<Rightarrow> i32 res" where
  "Bitmask_GetSizeInBytes bm =
     Inr ((if IsAllTrue bm then 0 else word_of_nat (UnitCount (bm_count bm) * 8)) + (4 + 1))"

definition Bitmask_WriteAdv :: "bitmask \<Rightarrow> byte list res" where
  "Bitmask_WriteAdv bm =
     (if IsAllTrue bm
      then Inr (WriteBufAdv (word_of_nat (bm_count bm) :: i32) @ WriteBufAdv (1 :: i8))
      else case bm_data bm of
          None \<Rightarrow> Inl UndefinedBehaviour
        | Some data \<Rightarrow>
            if length data < UnitCount (bm_count bm) then Inl UndefinedBehaviour
            else Inr (WriteBufAdv (word_of_nat (bm_count bm) :: i32) @ WriteBufAdv (0 :: i8)
                      @ unit_bytes (take (UnitCount (bm_count bm)) data)))"

text \<open>The signed count is converted to \<^verbatim>\<open>size_t\<close>.\<close>

definition Bitmask_ReadAdv :: "int \<Rightarrow> bitmask reader" where
  "Bitmask_ReadAdv maxbytes =
     rd_bind ReadBufAdv (\<lambda>c :: i32.
     let count = unat (scast c :: u64) in
     rd_bind (rd_lift (Bitmask_Make count)) (\<lambda>bm.
     rd_bind ReadBufAdv (\<lambda>all_true :: i8.
     if all_true \<noteq> 0 then rd_return bm
     else rd_bind (rd_lift (SetAllFalse bm)) (\<lambda>bm.
          rd_bind (rd_times (UnitCount count) ReadBufAdv) (\<lambda>data :: u64 list.
            rd_return (bm\<lparr>bm_data := Some data\<rparr>))))))"

section \<open>Bits of stored units\<close>

lemma bit_low_byte: "i < 8 \<Longrightarrow> bit (n :: nat) i \<longleftrightarrow> bit (n mod 256) i"
  using bit_take_bit_iff [of 8 n i] by (simp add: take_bit_eq_mod)

lemma bit_high_bytes: "8 \<le> i \<Longrightarrow> bit (n :: nat) i \<longleftrightarrow> bit (n div 256) (i - 8)"
  using bit_drop_bit_eq [of 8 n] by (auto simp: drop_bit_eq_div fun_eq_iff)

definition bbit :: "byte list \<Rightarrow> nat \<Rightarrow> bool" where
  "bbit bs i \<longleftrightarrow> bit (bs ! (i div 8)) (i mod 8)"

lemma bbit_Cons: "bbit (b # bs) i = (if i < 8 then bit b i else bbit bs (i - 8))"
proof (cases "i < 8")
  case False
  then obtain j where j: "i = 8 + j" by (metis le_Suc_ex not_less)
  then have "i div 8 = Suc (j div 8)" by simp
  with j show ?thesis by (simp add: bbit_def)
qed (simp add: bbit_def)

lemma bbit_append: "bbit (xs @ ys) i = (if i < 8 * length xs then bbit xs i else bbit ys (i - 8 * length xs))"
proof (cases "i < 8 * length xs")
  case True
  then have "i div 8 < length xs" by (simp add: div_less_iff_less_mult mult.commute)
  with True show ?thesis by (simp add: bbit_def nth_append)
next
  case False
  then obtain j where j: "i = 8 * length xs + j" by (metis le_Suc_ex not_less)
  then have "i div 8 = length xs + j div 8" "i mod 8 = j mod 8" by (simp_all add: div_add1_eq)
  with j show ?thesis by (simp add: bbit_def nth_append)
qed

lemma bbit_take: "i < 8 * n \<Longrightarrow> n \<le> length bs \<Longrightarrow> bbit (take n bs) i = bbit bs i"
  by (simp add: bbit_def div_less_iff_less_mult mult.commute)

lemma bbit_drop: "n \<le> length bs \<Longrightarrow> bbit (drop n bs) i = bbit bs (8 * n + i)"
  by (simp add: bbit_def)

lemma bit_le_val: "bit (le_val bs) i \<longleftrightarrow> i < 8 * length bs \<and> bbit bs i"
proof (induction bs arbitrary: i)
  case (Cons b bs)
  have b: "unat b < 256" using unsigned_less [of b, where 'a = nat] by simp
  show ?case
  proof (cases "i < 8")
    case True
    then show ?thesis using b by (simp add: bit_low_byte bbit_Cons bit_unsigned_iff)
  next
    case False
    then have "bit (le_val (b # bs)) i \<longleftrightarrow> bit (le_val bs) (i - 8)"
      using b by (simp add: bit_high_bytes)
    with False show ?thesis by (auto simp: Cons bbit_Cons)
  qed
qed simp

lemma bit_unit: "i < 64 \<Longrightarrow> length bs = 8 \<Longrightarrow> bit (word_of_nat (le_val bs) :: u64) i \<longleftrightarrow> bbit bs i"
  by (simp add: bit_of_nat_iff bit_le_val)

lemma WriteBufAdv_le_val: "word_of_nat (le_val (WriteBufAdv (d :: u64))) = d"
proof -
  have "(256::nat) ^ 8 = 2 ^ 64" by simp
  then show ?thesis
    using unsigned_less [of d, where 'a = nat] by (simp add: WriteBufAdv_def le_val_le_bytes)
qed

lemma bbit_WriteBufAdv: "i < 64 \<Longrightarrow> bbit (WriteBufAdv (d :: u64)) i \<longleftrightarrow> bit d i"
  using bit_unit [of i "WriteBufAdv d"] by (simp add: WriteBufAdv_le_val)

lemma length_unit_bytes [simp]: "length (unit_bytes ds) = 8 * length ds"
  by (induction ds) (simp_all add: unit_bytes_def)

lemma unit_bytes_Cons: "unit_bytes (d # ds) = WriteBufAdv d @ unit_bytes ds"
  by (simp add: unit_bytes_def)

text \<open>The bit \<open>i\<close> of an array of units.\<close>

definition ubit :: "u64 list \<Rightarrow> nat \<Rightarrow> bool" where
  "ubit ds i \<longleftrightarrow> bit (ds ! (i div 64)) (i mod 64)"

lemma ubit_Cons: "ubit (d # ds) i = (if i < 64 then bit d i else ubit ds (i - 64))"
proof (cases "i < 64")
  case False
  then obtain j where j: "i = 64 + j" by (metis le_Suc_ex not_less)
  then have "i div 64 = Suc (j div 64)" by simp
  with j show ?thesis by (simp add: ubit_def)
qed (simp add: ubit_def)

lemma bbit_unit_bytes: "i < 64 * length ds \<Longrightarrow> bbit (unit_bytes ds) i \<longleftrightarrow> ubit ds i"
proof (induction ds arbitrary: i)
  case (Cons d ds)
  then show ?case
    by (auto simp: unit_bytes_Cons bbit_append bbit_WriteBufAdv ubit_Cons)
qed simp

lemma eight_bytes:
  assumes "length bs = 8 * Suc n"
  obtains u us where "bs = u @ us" "length u = 8" "length us = 8 * n"
    "units_of_bytes bs = word_of_nat (le_val u) # units_of_bytes us"
proof -
  obtain b0 b1 b2 b3 b4 b5 b6 b7 us where "bs = b0 # b1 # b2 # b3 # b4 # b5 # b6 # b7 # us"
    using assms by (auto simp: length_Suc_conv numeral_eq_Suc)
  then show ?thesis using that [of "[b0, b1, b2, b3, b4, b5, b6, b7]" us] assms by simp
qed

lemma units_of_bytes_spec:
  assumes "length bs = 8 * n"
  shows "length (units_of_bytes bs) = n \<and> (\<forall>i < 64 * n. ubit (units_of_bytes bs) i = bbit bs i)"
  using assms
proof (induction n arbitrary: bs)
  case (Suc n)
  obtain u us where u: "bs = u @ us" "length u = 8" "length us = 8 * n"
    "units_of_bytes bs = word_of_nat (le_val u) # units_of_bytes us"
    by (rule eight_bytes [OF Suc.prems])
  with Suc.IH [OF u(3)] show ?case
    by (auto simp: ubit_Cons bbit_append bit_unit)
qed simp

lemma memcpy_units_spec:
  assumes "n \<le> 8 * length target" and "n \<le> 8 * length source"
  shows "\<exists>ds. memcpy_units target source n = Inr ds \<and> length ds = length target
    \<and> (\<forall>i < 64 * length target. ubit ds i = (if i < 8 * n then ubit source i else ubit target i))"
proof -
  define bs where "bs = take n (unit_bytes source) @ drop n (unit_bytes target)"
  have l: "length bs = 8 * length target" using assms by (simp add: bs_def)
  have "bbit bs i = (if i < 8 * n then ubit source i else ubit target i)" if "i < 64 * length target" for i
    using that assms
    by (simp add: bs_def bbit_append bbit_take bbit_drop bbit_unit_bytes)
  then show ?thesis
    using assms units_of_bytes_spec [OF l] by (simp add: memcpy_units_def bs_def [symmetric])
qed

section \<open>Powers of two\<close>

lemma and_pred_even: "0 < f \<Longrightarrow> (2 * f) AND (2 * f - 1) = 2 * (f AND (f - 1))" for f :: nat
proof -
  assume "0 < f"
  then have "(2 * f - 1) div 2 = f - 1" by simp
  then show ?thesis using and_rec [of "2 * f" "2 * f - 1"] by simp
qed

lemma and_pred_odd: "(2 * f + 1) AND (2 * f) = 2 * (f :: nat)"
  using and_rec [of "2 * f + 1" "2 * f"] by simp

lemma power_of_2_cases: "power_of_2 n \<Longrightarrow> n = 0 \<or> (\<exists>k. n = 2 ^ k)"
  unfolding power_of_2_def
proof (induction n rule: less_induct)
  case (less n)
  consider "n = 0" | f where "n = 2 * f" "0 < f" | f where "n = 2 * f + 1"
    by (metis evenE oddE gr0I mult_0_right)
  then show ?case
  proof cases
    case (2 f)
    then have "f AND (f - 1) = 0" using less.prems and_pred_even [of f] by simp
    with less.IH [of f] 2 obtain k where "f = 2 ^ k" by auto
    with 2 show ?thesis by (intro disjI2 exI [of _ "Suc k"]) simp
  next
    case (3 f)
    then have "f = 0" using less.prems by (simp add: and_pred_odd [simplified])
    with 3 show ?thesis by (intro disjI2 exI [of _ 0]) simp
  qed simp
qed

lemma power_of_2_dvd:
  assumes "power_of_2 n" and "2 ^ k \<le> n"
  shows "2 ^ k dvd n"
  using power_of_2_cases [OF assms(1)] assms(2) by (auto intro: le_imp_power_dvd)

text \<open>The number of set bits.\<close>

fun npop :: "nat \<Rightarrow> nat" where
  "npop n = (if n = 0 then 0 else n mod 2 + npop (n div 2))"

declare npop.simps [simp del]

lemma npop_0 [simp]: "npop 0 = 0"
  by (simp add: npop.simps)

lemma npop_double: "npop (2 * f) = npop f"
  by (cases "f = 0") (simp, subst npop.simps, simp)

lemma npop_odd: "npop (2 * f + 1) = npop f + 1"
  by (subst npop.simps) simp

lemma npop_and_pred: "0 < n \<Longrightarrow> npop n = npop (n AND (n - 1)) + 1"
proof (induction n rule: less_induct)
  case (less n)
  consider f where "n = 2 * f" "0 < f" | f where "n = 2 * f + 1"
    using less.prems by (metis evenE oddE gr0I mult_0_right)
  then show ?case
  proof cases
    case (1 f)
    then have "npop (n AND (n - 1)) = npop (f AND (f - 1))"
      using and_pred_even [of f] by (simp add: npop_double)
    with 1 show ?thesis using less.IH [of f] by (simp add: npop_double)
  next
    case (2 f)
    then show ?thesis using npop_odd [of f] by (simp add: and_pred_odd [simplified] npop_double)
  qed
qed

lemma count_bits_npop: "count_bits d c = c + npop (unat d)"
proof (induction d c rule: count_bits.induct)
  case (1 d c)
  show ?case
  proof (cases "d = 0")
    case False
    then have "0 < unat d" "unat (d - 1) = unat d - 1" by (simp_all add: unat_minus_one unat_gt_0)
    then have "npop (unat d) = npop (unat (d AND (d - 1))) + 1"
      using npop_and_pred [of "unat d"] by (simp add: unsigned_and_eq)
    with False 1 show ?thesis by (subst count_bits.simps) simp
  qed (simp add: count_bits.simps)
qed

lemma npop_card: "n < 2 ^ k \<Longrightarrow> npop n = card {i. i < k \<and> bit n i}"
proof (induction k arbitrary: n)
  case (Suc k)
  have h: "npop (n div 2) = card {i. i < k \<and> bit (n div 2) i}" using Suc by (intro Suc.IH) auto
  have "{i. i < Suc k \<and> bit n i} = (if odd n then {0} else {}) \<union> Suc ` {i. i < k \<and> bit (n div 2) i}"
  proof (rule set_eqI)
    fix i
    show "i \<in> {i. i < Suc k \<and> bit n i} \<longleftrightarrow>
        i \<in> (if odd n then {0} else {}) \<union> Suc ` {i. i < k \<and> bit (n div 2) i}"
      by (cases i) (auto simp: bit_0 bit_Suc image_iff)
  qed
  then have "card {i. i < Suc k \<and> bit n i} = (if odd n then 1 else 0) + card {i. i < k \<and> bit (n div 2) i}"
    by (auto simp: card_image card_insert_if image_iff)
  moreover have "npop n = n mod 2 + npop (n div 2)" by (cases "n = 0") (simp_all add: npop.simps)
  ultimately show ?case using h by (simp add: mod_2_eq_odd)
qed simp

lemma count_unit:
  "(if d = - 1 then c + 64 else count_bits d c) = c + card {i. i < 64 \<and> bit (d :: u64) i}"
proof -
  have "npop (unat d) = card {i. i < 64 \<and> bit (unat d) i}"
    by (rule npop_card) (use unsigned_less [of d, where 'a = nat] in simp)
  also have "{i. i < 64 \<and> bit (unat d) i} = {i. i < 64 \<and> bit d i}" by (auto simp: bit_unsigned_iff)
  finally have "count_bits d c = c + card {i. i < 64 \<and> bit d i}" by (simp add: count_bits_npop)
  moreover have "{i. i < 64 \<and> bit (- 1 :: u64) i} = {..<64}" by auto
  ultimately show ?thesis by simp
qed

lemma count_units:
  "foldl (\<lambda>c d. if d = - 1 then c + 64 else count_bits d c) c ds = c + card {i. i < 64 * length ds \<and> ubit ds i}"
proof (induction ds arbitrary: c)
  case (Cons d ds)
  have "{i. i < 64 * length (d # ds) \<and> ubit (d # ds) i}
      = {i. i < 64 \<and> bit d i} \<union> (\<lambda>i. i + 64) ` {i. i < 64 * length ds \<and> ubit ds i}"
    (is "?l = ?a \<union> ?b")
  proof (rule set_eqI)
    fix i
    show "i \<in> ?l \<longleftrightarrow> i \<in> ?a \<union> ?b"
    proof (cases "i < 64")
      case False
      then obtain j where "i = j + 64" by (metis add.commute le_Suc_ex not_less)
      then show ?thesis by (auto simp: ubit_Cons)
    qed (auto simp: ubit_Cons)
  qed
  moreover have "card (?a \<union> ?b) = card ?a + card {i. i < 64 * length ds \<and> ubit ds i}"
    by (subst card_Un_disjoint) (auto simp: card_image)
  moreover have "foldl (\<lambda>c d. if d = - 1 then c + 64 else count_bits d c) c (d # ds)
      = c + card ?a + card {i. i < 64 * length ds \<and> ubit ds i}"
    unfolding foldl.simps count_unit by (simp only: Cons [unfolded count_unit])
  ultimately show ?case by simp
qed simp

section \<open>What the operations do to the bits\<close>

definition bm_inv :: "bitmask \<Rightarrow> bool" where
  "bm_inv bm \<longleftrightarrow> power_of_2 (bm_count bm) \<and>
     (case bm_data bm of None \<Rightarrow> True | Some data \<Rightarrow> length data = UnitCount (bm_count bm))"

definition bm_bit :: "bitmask \<Rightarrow> nat \<Rightarrow> bool" where
  "bm_bit bm i \<longleftrightarrow> (case bm_data bm of None \<Rightarrow> True | Some data \<Rightarrow> ubit data i)"

lemma UnitCount_bound: "count \<le> 64 * UnitCount count"
  by (simp add: UnitCount_def)

lemma row_in_range: "i < count \<Longrightarrow> i div 64 < UnitCount count"
  using UnitCount_bound [of count] by (simp add: div_less_iff_less_mult mult.commute)

lemma unit_bit: "d AND 2 ^ k = 0 \<longleftrightarrow> \<not> bit (d :: u64) k"
  by (simp add: bit_iff_and_push_bit_not_eq_0)

lemma row_split: "i - i div 64 * 64 = i mod (64 :: nat)"
  by (simp add: minus_div_mult_eq_mod)

lemma ubit_update:
  assumes "i div 64 < length data" and "\<And>k. k < 64 \<Longrightarrow> bit d k \<longleftrightarrow> (if k = i mod 64 then v else bit (data ! (i div 64)) k)"
  shows "ubit (data[i div 64 := d]) j = (if j = i then v else ubit data j)"
proof (cases "j div 64 = i div 64")
  case True
  moreover have "j = i" if "j mod 64 = i mod 64" using True that by (metis div_mult_mod_eq)
  ultimately show ?thesis using assms by (auto simp: ubit_def)
next
  case False
  then show ?thesis by (auto simp: ubit_def)
qed

lemma ubit_replicate_ones: "i < 64 * n \<Longrightarrow> ubit (replicate n (- 1)) i"
  by (simp add: ubit_def div_less_iff_less_mult mult.commute)

lemma ensure_buffer_spec:
  assumes "bm_inv bm"
  shows "\<exists>data. ensure_buffer bm = Inr data \<and> length data = UnitCount (bm_count bm)
    \<and> (\<forall>i < 64 * UnitCount (bm_count bm). ubit data i = bm_bit bm i)"
  using assms
  by (cases "bm_data bm")
    (auto simp: ensure_buffer_def bm_inv_def bm_bit_def BitmaskBuffer_Make_def ubit_replicate_ones)

lemma IsTrue_bit: "bm_inv bm \<Longrightarrow> i < bm_count bm \<Longrightarrow> IsTrue i bm = Inr (bm_bit bm i)"
  using row_in_range [of i "bm_count bm"]
  by (auto simp: IsTrue_def bm_inv_def bm_bit_def ubit_def Let_def row_split unit_bit split: option.split)

lemma SetFalse_spec:
  assumes "bm_inv bm" and "i < bm_count bm"
  shows "\<exists>bm'. SetFalse i bm = Inr bm' \<and> bm_inv bm' \<and> bm_count bm' = bm_count bm
    \<and> (\<forall>j < 64 * UnitCount (bm_count bm). bm_bit bm' j = (j \<noteq> i \<and> bm_bit bm j))"
proof -
  obtain data where d: "ensure_buffer bm = Inr data" "length data = UnitCount (bm_count bm)"
    "\<And>j. j < 64 * UnitCount (bm_count bm) \<Longrightarrow> ubit data j = bm_bit bm j"
    using ensure_buffer_spec [OF assms(1)] by blast
  have r: "i div 64 < length data" using row_in_range [OF assms(2)] d by simp
  define data' where "data' = data[i div 64 := data ! (i div 64) AND NOT (push_bit (i mod 64) 1)]"
  have "ubit data' j = (if j = i then False else ubit data j)" for j
    unfolding data'_def using r by (intro ubit_update) (auto simp: bit_simps)
  then have "\<forall>j < 64 * UnitCount (bm_count bm). ubit data' j = (j \<noteq> i \<and> bm_bit bm j)" using d(3) by simp
  moreover have "SetFalse i bm = Inr (bm\<lparr>bm_data := Some data'\<rparr>)"
    using r by (simp add: SetFalse_def d Let_def row_split data'_def)
  ultimately show ?thesis using assms(1) d(2) by (simp add: bm_inv_def bm_bit_def data'_def)
qed

lemma SetTrue_spec:
  assumes "bm_inv bm" and "i < bm_count bm"
  shows "\<exists>bm'. SetTrue i bm = Inr bm' \<and> bm_inv bm' \<and> bm_count bm' = bm_count bm
    \<and> (\<forall>j < 64 * UnitCount (bm_count bm). bm_bit bm' j = (j = i \<or> bm_bit bm j))"
proof (cases "bm_data bm")
  case None
  then show ?thesis using assms by (simp add: SetTrue_def bm_bit_def)
next
  case (Some data)
  have r: "i div 64 < length data" using row_in_range [OF assms(2)] assms(1) Some by (simp add: bm_inv_def)
  define data' where "data' = data[i div 64 := data ! (i div 64) OR push_bit (i mod 64) 1]"
  have "ubit data' j = (if j = i then True else ubit data j)" for j
    unfolding data'_def using r by (intro ubit_update) (auto simp: bit_simps)
  moreover have "SetTrue i bm = Inr (bm\<lparr>bm_data := Some data'\<rparr>)"
    using r by (simp add: SetTrue_def Some Let_def row_split data'_def)
  ultimately show ?thesis using assms(1) Some by (simp add: bm_inv_def bm_bit_def data'_def)
qed

text \<open>
  The interface the column vectors and filters use: a mask over a fixed number of rows whose entries
  are read and set one by one.
\<close>

locale row_mask =
  fixes inv :: "'m \<Rightarrow> bool"
    and rows :: "'m \<Rightarrow> nat"
    and get :: "nat \<Rightarrow> 'm \<Rightarrow> bool res"
    and put :: "nat \<Rightarrow> bool \<Rightarrow> 'm \<Rightarrow> 'm res"
  assumes get_total: "inv m \<Longrightarrow> i < rows m \<Longrightarrow> \<exists>b. get i m = Inr b"
    and put_law: "inv m \<Longrightarrow> i < rows m \<Longrightarrow>
      \<exists>m'. put i v m = Inr m' \<and> inv m' \<and> rows m' = rows m
         \<and> (\<forall>j < rows m. get j m' = (if j = i then Inr v else get j m))"
begin

text \<open>Setting the rows of a list, one after the other.\<close>

lemma put_all:
  assumes "inv m" and "\<forall>i \<in> set is. i < rows m"
  shows "\<exists>m'. foldl (\<lambda>r i. res_bind r (put i v)) (Inr m) is = Inr m' \<and> inv m' \<and> rows m' = rows m
    \<and> (\<forall>j < rows m. get j m' = (if j \<in> set is then Inr v else get j m))"
  using assms
proof (induction "is" arbitrary: m)
  case (Cons i "is")
  obtain m1 where m1: "put i v m = Inr m1" "inv m1" "rows m1 = rows m"
    "\<And>j. j < rows m \<Longrightarrow> get j m1 = (if j = i then Inr v else get j m)"
    using put_law [of m i v] Cons.prems by auto
  obtain m2 where "foldl (\<lambda>r i. res_bind r (put i v)) (Inr m1) is = Inr m2" "inv m2" "rows m2 = rows m1"
    "\<And>j. j < rows m1 \<Longrightarrow> get j m2 = (if j \<in> set is then Inr v else get j m1)"
    using Cons.IH [of m1] Cons.prems m1 by auto
  then show ?case using m1 by auto
qed simp

end

lemma Bitmask_Set_law:
  assumes "bm_inv m" and "i < bm_count m"
  shows "\<exists>m'. Bitmask_Set i v m = Inr m' \<and> bm_inv m' \<and> bm_count m' = bm_count m
    \<and> (\<forall>j < bm_count m. IsTrue j m' = (if j = i then Inr v else IsTrue j m))"
proof (cases v)
  case True
  then obtain m' where m': "Bitmask_Set i v m = Inr m'" "bm_inv m'" "bm_count m' = bm_count m"
    "\<forall>j < 64 * UnitCount (bm_count m). bm_bit m' j = (j = i \<or> bm_bit m j)"
    using SetTrue_spec [OF assms] by (auto simp: Bitmask_Set_def)
  then show ?thesis
    using assms True UnitCount_bound [of "bm_count m"] by (intro exI [of _ m']) (auto simp: IsTrue_bit)
next
  case False
  then obtain m' where m': "Bitmask_Set i v m = Inr m'" "bm_inv m'" "bm_count m' = bm_count m"
    "\<forall>j < 64 * UnitCount (bm_count m). bm_bit m' j = (j \<noteq> i \<and> bm_bit m j)"
    using SetFalse_spec [OF assms] by (auto simp: Bitmask_Set_def)
  then show ?thesis
    using assms False UnitCount_bound [of "bm_count m"] by (intro exI [of _ m']) (auto simp: IsTrue_bit)
qed

interpretation mask: row_mask bm_inv bm_count IsTrue Bitmask_Set
  by unfold_locales (simp add: IsTrue_bit, rule Bitmask_Set_law)

lemma IsAllTrue_bits:
  assumes "bm_inv bm"
  shows "IsAllTrue bm \<longleftrightarrow> (\<forall>i < 64 * UnitCount (bm_count bm). bm_bit bm i)"
proof (cases "bm_data bm")
  case (Some data)
  then have l: "length data = UnitCount (bm_count bm)" using assms by (simp add: bm_inv_def)
  have "(\<forall>k < length data. data ! k = - 1) \<longleftrightarrow> (\<forall>i < 64 * length data. ubit data i)"
  proof (intro iffI allI impI)
    fix i assume "\<forall>k < length data. data ! k = - 1" "i < 64 * length data"
    then show "ubit data i" by (simp add: ubit_def div_less_iff_less_mult mult.commute)
  next
    fix k assume a: "\<forall>i < 64 * length data. ubit data i" "k < length data"
    show "data ! k = - 1"
    proof (rule bit_word_eqI)
      fix n assume "n < LENGTH(64)"
      then have "ubit data (64 * k + n)" using a by simp
      with \<open>n < LENGTH(64)\<close> show "bit (data ! k) n \<longleftrightarrow> bit (- 1 :: u64) n" by (simp add: ubit_def)
    qed
  qed
  with Some l show ?thesis by (simp add: IsAllTrue_def bm_bit_def list_all_length)
qed (simp add: IsAllTrue_def bm_bit_def)

lemma ubit_merge:
  assumes "length xs = n" and "length ys = n" and "i < 64 * n"
    and "\<And>x y k. bit (f x y) k \<longleftrightarrow> g (bit x k) (bit y k)"
  shows "ubit (map2 f xs ys) i \<longleftrightarrow> g (ubit xs i) (ubit ys i)"
proof -
  have "i div 64 < n" using assms(3) by (simp add: div_less_iff_less_mult mult.commute)
  then show ?thesis using assms by (simp add: ubit_def)
qed

lemma merge_units_all:
  "length xs = n \<Longrightarrow> length ys = n \<Longrightarrow> merge_units f n xs ys = Inr (map2 f xs ys)"
  by (simp add: merge_units_def)

text \<open>
  On masks of the same size, \<^verbatim>\<open>Merge\<close> is the conjunction and \<^verbatim>\<open>MergeOr\<close> the disjunction of the
  rows, whichever of the masks have a buffer, and both keep the masks well formed.
\<close>

theorem Bitmask_Merge_bits:
  assumes "bm_inv a" and "bm_inv b" and "bm_count a = bm_count b"
  shows "\<exists>m d. Bitmask_Merge a b = Inr m \<and> Bitmask_MergeOr a b = Inr d \<and> bm_inv m \<and> bm_inv d
    \<and> (\<forall>i < bm_count a. IsTrue i m = Inr (bm_bit a i \<and> bm_bit b i))
    \<and> (\<forall>i < bm_count a. IsTrue i d = Inr (bm_bit a i \<or> bm_bit b i))"
proof -
  have at: "IsAllTrue x \<Longrightarrow> i < bm_count x \<Longrightarrow> bm_bit x i" if "bm_inv x" for x i
    using IsAllTrue_bits [OF that] UnitCount_bound [of "bm_count x"] by auto
  consider "IsAllTrue b" | "\<not> IsAllTrue b" "IsAllTrue a" | "\<not> IsAllTrue b" "\<not> IsAllTrue a" by blast
  then show ?thesis
  proof cases
    case 1
    define d where "d = (if IsAllTrue a then a else SetAllTrue a)"
    have "Bitmask_MergeOr a b = Inr d" using 1 by (simp add: Bitmask_MergeOr_def d_def)
    moreover have "bm_inv d" "bm_count d = bm_count a" "\<And>i. i < bm_count a \<Longrightarrow> bm_bit d i"
      using assms(1) at [OF assms(1)]
      by (auto simp: d_def SetAllTrue_def bm_inv_def bm_bit_def split: option.split)
    moreover have "Bitmask_Merge a b = Inr a" using 1 by (simp add: Bitmask_Merge_def)
    ultimately show ?thesis using assms at [OF assms(2)] 1 by (auto simp: IsTrue_bit)
  next
    case 2
    then have "Bitmask_Merge a b = Inr b" "Bitmask_MergeOr a b = Inr a"
      by (simp_all add: Bitmask_Merge_def Bitmask_MergeOr_def)
    then show ?thesis using assms at [OF assms(1)] 2 by (auto simp: IsTrue_bit)
  next
    case 3
    then obtain xs ys where d: "bm_data a = Some xs" "bm_data b = Some ys"
      by (auto simp: IsAllTrue_def split: option.splits)
    have l: "length xs = UnitCount (bm_count a)" "length ys = UnitCount (bm_count a)"
      using assms d by (simp_all add: bm_inv_def)
    let ?m = "a\<lparr>bm_data := Some (map2 (AND) xs ys)\<rparr>" and ?d = "a\<lparr>bm_data := Some (map2 (OR) xs ys)\<rparr>"
    have "Bitmask_Merge a b = Inr ?m" "Bitmask_MergeOr a b = Inr ?d"
      using 3 d assms(3) by (simp_all add: Bitmask_Merge_def Bitmask_MergeOr_def merge_units_all l)
    moreover have "bm_inv ?m" "bm_inv ?d" using assms(1) l by (simp_all add: bm_inv_def)
    moreover have "bm_bit ?m i = (bm_bit a i \<and> bm_bit b i)" "bm_bit ?d i = (bm_bit a i \<or> bm_bit b i)"
      if "i < bm_count a" for i
    proof -
      have i: "i < 64 * UnitCount (bm_count a)" using that UnitCount_bound [of "bm_count a"] by simp
      show "bm_bit ?m i = (bm_bit a i \<and> bm_bit b i)"
        using ubit_merge [OF l i, of "(AND)" "(\<and>)"] d by (simp add: bm_bit_def bit_and_iff)
      show "bm_bit ?d i = (bm_bit a i \<or> bm_bit b i)"
        using ubit_merge [OF l i, of "(OR)" "(\<or>)"] d by (simp add: bm_bit_def bit_or_iff)
    qed
    ultimately show ?thesis by (auto simp: IsTrue_bit)
  qed
qed

theorem Bitmask_Merge_bits_witness:
  "\<exists>m d. Bitmask_Merge \<lparr>bm_count = 8, bm_data = Some [254]\<rparr> \<lparr>bm_count = 8, bm_data = None\<rparr> = Inr m
    \<and> Bitmask_MergeOr \<lparr>bm_count = 8, bm_data = Some [254]\<rparr> \<lparr>bm_count = 8, bm_data = None\<rparr> = Inr d
    \<and> bm_inv m \<and> bm_inv d"
proof -
  have "bm_inv \<lparr>bm_count = 8, bm_data = Some [254]\<rparr>" "bm_inv \<lparr>bm_count = 8, bm_data = None\<rparr>"
    by (simp_all add: bm_inv_def power_of_2_def UnitCount_def)
  from Bitmask_Merge_bits [OF this] show ?thesis by (simp del: One_nat_def) blast
qed

text \<open>
  Setting or clearing the rows of a list, in any order and with repetitions, changes exactly
  those rows of the mask.
\<close>

theorem Bitmask_Set_rows:
  assumes "bm_inv m" and "\<forall>i \<in> set is. i < bm_count m"
  shows "\<exists>m'. foldl (\<lambda>r i. res_bind r (Bitmask_Set i v)) (Inr m) is = Inr m' \<and> bm_inv m'
    \<and> bm_count m' = bm_count m
    \<and> (\<forall>j < bm_count m. IsTrue j m' = (if j \<in> set is then Inr v else IsTrue j m))"
  by (rule mask.put_all [OF assms])

theorem Bitmask_Set_rows_witness:
  "\<exists>m'. foldl (\<lambda>r i. res_bind r (Bitmask_Set i False)) (Inr \<lparr>bm_count = 128, bm_data = None\<rparr>) [3, 100, 3] = Inr m'
    \<and> bm_inv m' \<and> bm_count m' = 128"
  using Bitmask_Set_rows [of "\<lparr>bm_count = 128, bm_data = None\<rparr>" "[3, 100, 3]" False]
  by (simp add: bm_inv_def power_of_2_def) blast

text \<open>
  \<^verbatim>\<open>CountTrue\<close> is the number of set rows of a mask without a buffer and of a mask with at least 64
  rows.  A smaller mask with a buffer is counted as if it had 64 rows.
\<close>

theorem CountTrue_rows:
  assumes "bm_inv bm" and "bm_count bm \<noteq> 0"
  shows "CountTrue bm =
    Inr (card {i. i < (if bm_data bm = None \<or> 64 \<le> bm_count bm then bm_count bm else 64) \<and> bm_bit bm i})"
proof (cases "bm_data bm")
  case (Some data)
  have l: "length data = UnitCount (bm_count bm)" using assms Some by (simp add: bm_inv_def)
  have "64 * UnitCount (bm_count bm) = (if 64 \<le> bm_count bm then bm_count bm else 64)"
  proof (cases "64 \<le> bm_count bm")
    case True
    then have "2 ^ 6 dvd bm_count bm"
      using assms by (intro power_of_2_dvd) (simp_all add: bm_inv_def)
    then obtain k where "bm_count bm = 64 * k" by (auto elim: dvdE)
    then show ?thesis using True by (simp add: UnitCount_def)
  next
    case False
    then have "(bm_count bm + 63) div 64 = 1" using assms(2) by simp
    with False show ?thesis by (simp add: UnitCount_def)
  qed
  then show ?thesis using Some l by (simp add: CountTrue_def count_units bm_bit_def)
qed (simp add: CountTrue_def bm_bit_def)

theorem CountTrue_rows_witness:
  "CountTrue \<lparr>bm_count = 8, bm_data = Some [- 2]\<rparr> = Inr (card {i. i < 64 \<and> bm_bit \<lparr>bm_count = 8, bm_data = Some [- 2]\<rparr> i})"
  using CountTrue_rows [of "\<lparr>bm_count = 8, bm_data = Some [- 2]\<rparr>"]
  by (simp add: bm_inv_def power_of_2_def UnitCount_def)

text \<open>
  \<^verbatim>\<open>Resize\<close> to a larger power of two keeps the rows of a mask with at least 8 rows and sets the
  new ones.  Of a smaller mask no byte is copied, and all its rows come out set.
\<close>

theorem Bitmask_Resize_rows:
  assumes "bm_inv bm" and "power_of_2 n" and "bm_count bm \<le> n"
  shows "\<exists>bm'. Bitmask_Resize n bm = Inr bm' \<and> bm_inv bm' \<and> bm_count bm' = n
    \<and> (\<forall>i < n. IsTrue i bm' = Inr (if i < bm_count bm \<and> 8 \<le> bm_count bm then bm_bit bm i else True))"
proof (cases "bm_data bm")
  case None
  then have r: "Bitmask_Resize n bm = Inr (bm\<lparr>bm_count := n\<rparr>)" "bm_inv (bm\<lparr>bm_count := n\<rparr>)"
    using assms by (simp_all add: Bitmask_Resize_def bm_inv_def)
  then show ?thesis using None by (auto simp: IsTrue_def bm_bit_def)
next
  case (Some data)
  have l: "length data = UnitCount (bm_count bm)" using assms Some by (simp add: bm_inv_def)
  define new where "new = replicate (UnitCount n) (- 1 :: u64)"
  have "UnitCount (bm_count bm) \<le> UnitCount n" using assms(3) by (simp add: UnitCount_def div_le_mono)
  then have c: "bm_count bm div 8 \<le> 8 * length new" "bm_count bm div 8 \<le> 8 * length data"
    using UnitCount_bound [of "bm_count bm"] l by (simp_all add: new_def)
  obtain ds where ds: "memcpy_units new data (bm_count bm div 8) = Inr ds" "length ds = UnitCount n"
    "\<And>i. i < 64 * UnitCount n \<Longrightarrow> ubit ds i = (if i < 8 * (bm_count bm div 8) then ubit data i else True)"
    using memcpy_units_spec [OF c] by (auto simp: new_def ubit_replicate_ones)
  have e: "8 * (bm_count bm div 8) = (if 8 \<le> bm_count bm then bm_count bm else 0)"
    using power_of_2_dvd [of "bm_count bm" 3] assms(1) by (auto simp: bm_inv_def)
  let ?bm = "bm\<lparr>bm_data := Some ds, bm_count := n\<rparr>"
  have "Bitmask_Resize n bm = Inr ?bm"
    using assms Some ds(1) by (simp add: Bitmask_Resize_def BitmaskBuffer_Make_def new_def)
  moreover have inv: "bm_inv ?bm" using assms(2) ds(2) by (simp add: bm_inv_def)
  moreover have "bm_bit ?bm i = (if i < bm_count bm \<and> 8 \<le> bm_count bm then bm_bit bm i else True)"
    if "i < n" for i
    using that ds(3) [of i] UnitCount_bound [of n] Some by (auto simp: bm_bit_def e)
  ultimately show ?thesis using IsTrue_bit [OF inv] by auto
qed

theorem Bitmask_Resize_rows_witness:
  "\<exists>bm'. Bitmask_Resize 64 \<lparr>bm_count = 8, bm_data = Some [- 2]\<rparr> = Inr bm' \<and> bm_inv bm' \<and> bm_count bm' = 64"
  using Bitmask_Resize_rows [of "\<lparr>bm_count = 8, bm_data = Some [- 2]\<rparr>" 64]
  by (simp add: bm_inv_def power_of_2_def UnitCount_def) blast

section \<open>Reading what was written\<close>

text \<open>A mask whose buffer has all bits set is written like one without a buffer.\<close>

definition Bitmask_norm :: "bitmask \<Rightarrow> bitmask" where
  "Bitmask_norm bm = \<lparr>bm_count = bm_count bm, bm_data = (if IsAllTrue bm then None else bm_data bm)\<rparr>"

definition valid_bitmask :: "bitmask \<Rightarrow> bool" where
  "valid_bitmask bm \<longleftrightarrow> bm_inv bm \<and> bm_count bm < 2 ^ 31 \<and> Bitmask_norm bm = bm"

lemma Bitmask_norm_norm:
  assumes "bm_inv bm" and "bm_count bm < 2 ^ 31"
  shows "valid_bitmask (Bitmask_norm bm)" and "Bitmask_WriteAdv (Bitmask_norm bm) = Bitmask_WriteAdv bm"
    and "Bitmask_GetSizeInBytes (Bitmask_norm bm) = Bitmask_GetSizeInBytes bm"
    and "bm_bit (Bitmask_norm bm) i = bm_bit bm i \<or> \<not> i < bm_count bm"
proof -
  have n: "IsAllTrue (Bitmask_norm bm) = IsAllTrue bm"
    by (cases "bm_data bm") (simp_all add: Bitmask_norm_def IsAllTrue_def)
  have c: "bm_count (Bitmask_norm bm) = bm_count bm"
    and d: "bm_data (Bitmask_norm bm) = (if IsAllTrue bm then None else bm_data bm)"
    by (simp_all add: Bitmask_norm_def)
  show "valid_bitmask (Bitmask_norm bm)"
    using assms n by (cases "bm_data bm") (simp_all add: valid_bitmask_def bm_inv_def Bitmask_norm_def)
  show "Bitmask_WriteAdv (Bitmask_norm bm) = Bitmask_WriteAdv bm"
    by (simp add: Bitmask_WriteAdv_def n c d split: option.split)
  show "Bitmask_GetSizeInBytes (Bitmask_norm bm) = Bitmask_GetSizeInBytes bm"
    by (simp add: Bitmask_GetSizeInBytes_def n c)
  show "bm_bit (Bitmask_norm bm) i = bm_bit bm i \<or> \<not> i < bm_count bm"
    using IsAllTrue_bits [OF assms(1)] UnitCount_bound [of "bm_count bm"]
    by (auto simp: Bitmask_norm_def bm_bit_def)
qed

lemma unat_scast_count: "n < 2 ^ 31 \<Longrightarrow> unat (scast (word_of_nat n :: i32) :: u64) = n"
proof -
  assume n: "n < 2 ^ 31"
  have "(scast (word_of_nat n :: i32) :: u64) = word_of_int (sint (word_of_nat n :: i32))"
    by (rule scast_eq)
  also have "sint (word_of_nat n :: i32) = int n" by (rule sint_word_of_nat32 [OF n])
  finally have e: "(scast (word_of_nat n :: i32) :: u64) = word_of_nat n" by simp
  have "n < 2 ^ 64" using n by simp
  then show ?thesis unfolding e by (simp add: unsigned_of_nat take_bit_nat_eq_self_iff)
qed

interpretation bitmask_codec: sized_codec valid_bitmask Bitmask_WriteAdv Bitmask_ReadAdv Bitmask_GetSizeInBytes
proof (unfold_locales, goal_cases)
  case (1 bm)
  then have v: "bm_inv bm" "bm_count bm < 2 ^ 31" "Bitmask_norm bm = bm" by (simp_all add: valid_bitmask_def)
  have mk: "Bitmask_Make (bm_count bm) = Inr \<lparr>bm_count = bm_count bm, bm_data = None\<rparr>"
    using v by (simp add: Bitmask_Make_def Bitmask_Initialize_def Bitmask_empty_def bm_inv_def)
  show ?case
  proof (cases "IsAllTrue bm")
    case True
    then have "bm = \<lparr>bm_count = bm_count bm, bm_data = None\<rparr>" using v(3) by (simp add: Bitmask_norm_def)
    then show ?thesis
      using True v(2) mk
      by (simp add: Bitmask_WriteAdv_def Bitmask_ReadAdv_def rd_bind_Inr Let_def unat_scast_count rd_return_apply)
  next
    case False
    then obtain data where d: "bm_data bm = Some data" by (auto simp: IsAllTrue_def split: option.splits)
    then have l: "length data = UnitCount (bm_count bm)" using v by (simp add: bm_inv_def)
    have af: "SetAllFalse \<lparr>bm_count = bm_count bm, bm_data = None\<rparr> =
        Inr \<lparr>bm_count = bm_count bm, bm_data = Some (replicate (UnitCount (bm_count bm)) 0)\<rparr>"
      using v by (simp add: SetAllFalse_def ensure_buffer_def BitmaskBuffer_Make_def bm_inv_def)
    have rd: "rd_times (length data) ReadBufAdv (unit_bytes data @ rest) = Inr (data, rest)" for rest
      unfolding unit_bytes_def by (rule rd_times_concat) simp
    have "bm = \<lparr>bm_count = bm_count bm, bm_data = Some data\<rparr>" using d by simp
    then show ?thesis
      using False d l v(2) mk af rd
      by (simp add: Bitmask_WriteAdv_def Bitmask_ReadAdv_def rd_bind_Inr Let_def unat_scast_count rd_return_apply)
  qed
next
  case (2 bm bs)
  then show ?case
    by (auto simp: Bitmask_WriteAdv_def Bitmask_GetSizeInBytes_def split: if_splits option.splits)
qed

section \<open>Shared buffers\<close>

text \<open>
  The buffers are numbered in the order of their allocation; a mask refers to its buffer by number.
\<close>

type_synonym buffers = "u64 list list"

record bitmask_ref =
  br_count :: nat
  br_buf :: "nat option"

definition bm_view :: "buffers \<Rightarrow> bitmask_ref \<Rightarrow> bitmask" where
  "bm_view st r = \<lparr>bm_count = br_count r, bm_data = map_option (nth st) (br_buf r)\<rparr>"

text \<open>An update in place, which allocates a buffer for a mask that had none.\<close>

definition put_view :: "buffers \<Rightarrow> bitmask_ref \<Rightarrow> bitmask \<Rightarrow> buffers \<times> bitmask_ref" where
  "put_view st r bm =
     (case bm_data bm of
        None \<Rightarrow> (st, \<lparr>br_count = bm_count bm, br_buf = None\<rparr>)
      | Some data \<Rightarrow>
          (case br_buf r of
             Some k \<Rightarrow> (st[k := data], \<lparr>br_count = bm_count bm, br_buf = Some k\<rparr>)
           | None \<Rightarrow> (st @ [data], \<lparr>br_count = bm_count bm, br_buf = Some (length st)\<rparr>)))"

definition SetFalse_ref :: "nat \<Rightarrow> buffers \<Rightarrow> bitmask_ref \<Rightarrow> (buffers \<times> bitmask_ref) res" where
  "SetFalse_ref i st r = res_bind (SetFalse i (bm_view st r)) (\<lambda>bm. Inr (put_view st r bm))"

definition ShallowCopy :: "buffers \<Rightarrow> bitmask_ref \<Rightarrow> bitmask_ref" where
  "ShallowCopy st ref =
     \<lparr>br_count = br_count ref, br_buf = (if IsAllTrue (bm_view st ref) then None else br_buf ref)\<rparr>"

definition DeepCopy_ref :: "buffers \<Rightarrow> bitmask_ref \<Rightarrow> (buffers \<times> bitmask_ref) res" where
  "DeepCopy_ref st ref =
     res_bind (Bitmask_DeepCopy (bm_view st ref)) (\<lambda>bm.
       Inr (put_view st \<lparr>br_count = 0, br_buf = None\<rparr> bm))"

definition Merge_ref :: "buffers \<Rightarrow> bitmask_ref \<Rightarrow> bitmask_ref \<Rightarrow> (buffers \<times> bitmask_ref) res" where
  "Merge_ref st this other =
     (if IsAllTrue (bm_view st other) then Inr (st, this)
      else let this = (if IsAllTrue (bm_view st this) then ShallowCopy st other else this)
        in if br_buf this = br_buf other then Inr (st, this)
           else if br_count this \<noteq> br_count other
           then Inl (UnrecoverableError ''Attempt to merge two bitmasks with different size.'')
           else case (bm_data (bm_view st this), bm_data (bm_view st other)) of
               (Some xs, Some ys) \<Rightarrow>
                 res_bind (merge_units (AND) (UnitCount (br_count this)) xs ys) (\<lambda>zs.
                   Inr (put_view st this \<lparr>bm_count = br_count this, bm_data = Some zs\<rparr>))
             | _ \<Rightarrow> Inl UndefinedBehaviour)"

definition ref_ok :: "buffers \<Rightarrow> bitmask_ref \<Rightarrow> bool" where
  "ref_ok st r \<longleftrightarrow> bm_inv (bm_view st r) \<and> (case br_buf r of None \<Rightarrow> True | Some k \<Rightarrow> k < length st)"

lemma SetFalse_data: "SetFalse i bm = Inr bm' \<Longrightarrow> \<exists>data. bm_data bm' = Some data \<and> bm_count bm' = bm_count bm"
  by (auto simp: SetFalse_def res_bind_eq_Inr Let_def split: if_splits)

lemma shared_buffer:
  assumes "ref_ok st this" and "ref_ok st other" and "IsAllTrue (bm_view st this)"
    and "\<not> IsAllTrue (bm_view st other)" and "i < br_count other"
  shows "\<exists>r st' r'. Merge_ref st this other = Inr (st, r) \<and> br_buf r = br_buf other
      \<and> SetFalse_ref i st r = Inr (st', r') \<and> IsTrue i (bm_view st' other) = Inr False"
    and "\<exists>st1 r st' r'. DeepCopy_ref st other = Inr (st1, r) \<and> SetFalse_ref i st1 r = Inr (st', r')
      \<and> bm_view st' other = bm_view st other"
proof -
  obtain k where k: "br_buf other = Some k" "k < length st"
    using assms(2,4) by (cases "br_buf other") (auto simp: ref_ok_def IsAllTrue_def bm_view_def)
  have inv: "bm_inv (bm_view st other)" "i < bm_count (bm_view st other)"
    using assms(2,5) by (simp_all add: ref_ok_def bm_view_def)
  obtain bm' data where bm': "SetFalse i (bm_view st other) = Inr bm'" "bm_inv bm'"
      "bm_count bm' = br_count other" "bm_data bm' = Some data"
    and bits: "\<not> bm_bit bm' i"
    using SetFalse_spec [OF inv] SetFalse_data [of i "bm_view st other"] inv(2)
      UnitCount_bound [of "br_count other"] by (fastforce simp: bm_view_def)
  let ?r = "ShallowCopy st other"
  have r: "?r = other" using assms(4) by (simp add: ShallowCopy_def)
  have m: "Merge_ref st this other = Inr (st, ?r)" using assms(3,4) by (simp add: Merge_ref_def r)
  have s: "SetFalse_ref i st ?r = Inr (st[k := data], other)"
    using bm' k r by (simp add: SetFalse_ref_def put_view_def)
  have v: "bm_view (st[k := data]) other = bm'" using bm' k by (simp add: bm_view_def)
  have "IsTrue i bm' = Inr False" using IsTrue_bit [OF bm'(2)] bm'(3) bits assms(5) by simp
  with m s v r show "\<exists>r st' r'. Merge_ref st this other = Inr (st, r) \<and> br_buf r = br_buf other
      \<and> SetFalse_ref i st r = Inr (st', r') \<and> IsTrue i (bm_view st' other) = Inr False"
    by auto
  have copy: "Bitmask_DeepCopy (bm_view st other) = Inr (bm_view st other)"
    using inv(1) assms(4) k
    by (simp add: Bitmask_DeepCopy_def BitmaskBuffer_Make_copy_def bm_inv_def bm_view_def)
  let ?c = "\<lparr>br_count = br_count other, br_buf = Some (length st)\<rparr>"
  have d: "DeepCopy_ref st other = Inr (st @ [st ! k], ?c)"
    using copy k by (simp add: DeepCopy_ref_def put_view_def bm_view_def)
  have "bm_view (st @ [st ! k]) ?c = bm_view st other" using k by (simp add: bm_view_def)
  then have "SetFalse_ref i (st @ [st ! k]) ?c = Inr (st @ [data], ?c)"
    using bm' by (simp add: SetFalse_ref_def put_view_def)
  moreover have "bm_view (st @ [data]) other = bm_view st other"
    using k by (simp add: bm_view_def nth_append)
  ultimately show "\<exists>st1 r st' r'. DeepCopy_ref st other = Inr (st1, r) \<and> SetFalse_ref i st1 r = Inr (st', r')
      \<and> bm_view st' other = bm_view st other"
    using d by blast
qed

text \<open>
  C40: A mask with all rows set that is merged with another mask takes over its buffer, so that a row
  cleared afterwards in the result is cleared in the other mask as well.  A deep copy is
  independent: clearing a row in it leaves its source as it was.
\<close>

theorem Merge_shares_buffer:
  assumes "ref_ok st this" and "ref_ok st other" and "IsAllTrue (bm_view st this)"
    and "\<not> IsAllTrue (bm_view st other)" and "i < br_count other"
  shows "(\<exists>r st' r'. Merge_ref st this other = Inr (st, r) \<and> br_buf r = br_buf other
      \<and> SetFalse_ref i st r = Inr (st', r') \<and> IsTrue i (bm_view st' other) = Inr False)
    \<and> (\<exists>st1 r st' r'. DeepCopy_ref st other = Inr (st1, r) \<and> SetFalse_ref i st1 r = Inr (st', r')
      \<and> bm_view st' other = bm_view st other)"
  using shared_buffer [OF assms] by blast

theorem Merge_shares_buffer_witness:
  "\<exists>r st' r'. Merge_ref [[254]] \<lparr>br_count = 8, br_buf = None\<rparr> \<lparr>br_count = 8, br_buf = Some 0\<rparr> = Inr ([[254]], r)
      \<and> br_buf r = Some 0
      \<and> SetFalse_ref 5 [[254]] r = Inr (st', r')
      \<and> IsTrue 5 (bm_view st' \<lparr>br_count = 8, br_buf = Some 0\<rparr>) = Inr False"
  using Merge_shares_buffer [of "[[254]]" "\<lparr>br_count = 8, br_buf = None\<rparr>" "\<lparr>br_count = 8, br_buf = Some 0\<rparr>" 5]
  by (simp add: ref_ok_def bm_view_def bm_inv_def power_of_2_def UnitCount_def IsAllTrue_def)

end
