(* ===== verification/Fix_Heap.thy ===== *)
theory Fix_Heap
  imports Text_Format
begin

text \<open>
  \<^verbatim>\<open>src/storage/column_vector/fix_heap.cpp\<close>: the chunked heap that holds the variable-length parts of
  a column vector in memory (without a buffer manager).  The contents of a new chunk are
  indeterminate; \<open>fh_uninit\<close> stands for whatever the memory holds.
\<close>

section \<open>State\<close>

record fix_heap =
  fh_size :: nat
  fh_cross :: bool
  fh_chunks :: "nat \<rightharpoonup> byte list"
  fh_idx :: "nat option"
  fh_off :: nat
  fh_uninit :: "nat \<Rightarrow> nat \<Rightarrow> byte"

definition FixHeapManager_new :: "nat \<Rightarrow> bool \<Rightarrow> (nat \<Rightarrow> nat \<Rightarrow> byte) \<Rightarrow> fix_heap" where
  "FixHeapManager_new chunk_size allow_cross_chunk uninit =
     \<lparr>fh_size = chunk_size, fh_cross = allow_cross_chunk, fh_chunks = Map.empty, fh_idx = None,
      fh_off = 0, fh_uninit = uninit\<rparr>"

definition total_size :: "fix_heap \<Rightarrow> nat" where
  "total_size h = (case fh_idx h of None \<Rightarrow> 0 | Some idx \<Rightarrow> fh_size h * idx + fh_off h)"

definition total_mem :: "fix_heap \<Rightarrow> nat" where
  "total_mem h = (case fh_idx h of None \<Rightarrow> 0 | Some idx \<Rightarrow> fh_size h * (idx + 1))"

section \<open>Operations\<close>

definition AllocateChunk :: "nat \<Rightarrow> fix_heap \<Rightarrow> byte list" where
  "AllocateChunk idx h = map (fh_uninit h idx) [0..<fh_size h]"

definition emplace_chunk :: "nat \<Rightarrow> fix_heap \<Rightarrow> fix_heap" where
  "emplace_chunk idx h =
     h\<lparr>fh_idx := Some idx,
       fh_chunks := (case fh_chunks h idx of
                       None \<Rightarrow> (fh_chunks h)(idx \<mapsto> AllocateChunk idx h)
                     | Some _ \<Rightarrow> fh_chunks h)\<rparr>"

text \<open>
  The loop of \<^verbatim>\<open>Allocate\<close> and the ones below make no progress with chunks of size zero; all chunk
  sizes in use are positive constants.
\<close>

function alloc_loop :: "nat \<Rightarrow> nat \<Rightarrow> fix_heap \<Rightarrow> nat \<times> nat \<times> fix_heap" where
  "alloc_loop rest_nbytes idx h =
     (if fh_size h < rest_nbytes \<and> 0 < fh_size h
      then alloc_loop (rest_nbytes - fh_size h) (idx + 1) (emplace_chunk (idx + 1) h)
      else (rest_nbytes, idx, h))"
  by pat_completeness auto
termination
  by (relation "measure (\<lambda>(rest, _, h). rest)") (auto simp: emplace_chunk_def)

declare alloc_loop.simps [simp del]

definition Allocate :: "nat \<Rightarrow> fix_heap \<Rightarrow> ((nat \<times> nat) \<times> fix_heap) res" where
  "Allocate nbytes h0 =
     (if nbytes = 0 then Inl (UnrecoverableError (''Attempt to allocate memory with size: '' @ nat_digits nbytes @ '' as the string heap''))
      else
        let h = (case fh_idx h0 of None \<Rightarrow> emplace_chunk 0 h0 | Some _ \<Rightarrow> h0);
            idx = the (fh_idx h)
        in if \<not> fh_cross h then
             (if nbytes > fh_size h
              then Inl (UnrecoverableError (''Attempt to allocate memory with size: '' @ nat_digits nbytes @ '' as the tensor heap''))
              else if fh_off h + nbytes \<le> fh_size h
              then Inr ((idx, fh_off h), h\<lparr>fh_off := fh_off h + nbytes\<rparr>)
              else Inr ((idx + 1, 0), (emplace_chunk (idx + 1) h)\<lparr>fh_off := nbytes\<rparr>))
           else if fh_off h + nbytes > fh_size h then
             (let (rest, idx', h') = alloc_loop (nbytes - (fh_size h - fh_off h)) idx h
              in Inr ((idx, fh_off h), (emplace_chunk (idx' + 1) h')\<lparr>fh_off := rest\<rparr>))
           else Inr ((idx, fh_off h), h\<lparr>fh_off := fh_off h + nbytes\<rparr>))"

definition ReadChunk :: "nat \<Rightarrow> fix_heap \<Rightarrow> byte list res" where
  "ReadChunk chunk_id h =
     (case fh_chunks h chunk_id of
        Some chunk \<Rightarrow> Inr chunk
      | None \<Rightarrow> Inl (UnrecoverableError ''No such chunk in heap''))"

definition put_chunk :: "nat \<Rightarrow> nat \<Rightarrow> byte list \<Rightarrow> byte list \<Rightarrow> fix_heap \<Rightarrow> fix_heap" where
  "put_chunk chunk_id off chunk bs h =
     h\<lparr>fh_chunks := (fh_chunks h)(chunk_id \<mapsto> take off chunk @ bs @ drop (off + length bs) chunk)\<rparr>"

function write_loop :: "byte list \<Rightarrow> nat \<Rightarrow> nat \<Rightarrow> fix_heap \<Rightarrow> ((nat \<times> nat) \<times> fix_heap) res" where
  "write_loop data chunk_id chunk_offset h =
     (if data = [] \<or> fh_size h = 0 then Inr ((chunk_id, chunk_offset), h)
      else res_bind (ReadChunk chunk_id h) (\<lambda>chunk.
        let remain = fh_size h - chunk_offset
        in if length data \<le> remain
           then Inr ((chunk_id, chunk_offset + length data), put_chunk chunk_id chunk_offset chunk data h)
           else write_loop (drop remain data) (chunk_id + 1) 0
                  (put_chunk chunk_id chunk_offset chunk (take remain data) h)))"
  by pat_completeness auto
termination
  by (relation "measure (\<lambda>(data, _, off, h). 2 * length data + (if off = 0 then 0 else 1))")
    (auto simp: put_chunk_def)

declare write_loop.simps [simp del]

definition AppendToHeap :: "byte list \<Rightarrow> fix_heap \<Rightarrow> ((nat \<times> nat) \<times> fix_heap) res" where
  "AppendToHeap data h =
     res_bind (Allocate (length data) h) (\<lambda>((chunk_id, chunk_offset), h1).
     res_bind (write_loop data chunk_id chunk_offset h1) (\<lambda>(_, h2).
       Inr ((chunk_id, chunk_offset), h2)))"

fun write_pieces :: "byte list list \<Rightarrow> nat \<times> nat \<Rightarrow> fix_heap \<Rightarrow> fix_heap res" where
  "write_pieces [] pos h = Inr h"
| "write_pieces (p # ps) (chunk_id, chunk_offset) h =
     res_bind (write_loop p chunk_id chunk_offset h) (\<lambda>(pos, h). write_pieces ps pos h)"

definition AppendToHeap_pieces :: "byte list list \<Rightarrow> fix_heap \<Rightarrow> ((nat \<times> nat) \<times> fix_heap) res" where
  "AppendToHeap_pieces data_ptrs h =
     res_bind (Allocate (sum_list (map length data_ptrs)) h) (\<lambda>(pos, h1).
     res_bind (write_pieces data_ptrs pos h1) (\<lambda>h2. Inr (pos, h2)))"

function ReadFromHeap :: "nat \<Rightarrow> nat \<Rightarrow> nat \<Rightarrow> fix_heap \<Rightarrow> byte list res" where
  "ReadFromHeap chunk_id chunk_offset nbytes h =
     (if nbytes = 0 \<or> fh_size h = 0 then Inr []
      else res_bind (ReadChunk chunk_id h) (\<lambda>chunk.
        let remain = fh_size h - chunk_offset
        in if nbytes \<le> remain then Inr (take nbytes (drop chunk_offset chunk))
           else res_bind (ReadFromHeap (chunk_id + 1) 0 (nbytes - remain) h) (\<lambda>bs.
                  Inr (take remain (drop chunk_offset chunk) @ bs))))"
  by pat_completeness auto
termination
  by (relation "measure (\<lambda>(_, off, n, h). 2 * n + (if off = 0 then 0 else 1))") auto

declare ReadFromHeap.simps [simp del]

text \<open>Copying from another heap, from chunk to chunk.\<close>

definition copy_size :: "nat \<Rightarrow> nat \<Rightarrow> nat \<Rightarrow> nat" where
  "copy_size nbytes current_remain src_remain =
     (if nbytes > src_remain then min current_remain src_remain else min current_remain nbytes)"

function copy_loop :: "nat \<Rightarrow> nat \<Rightarrow> nat \<Rightarrow> nat \<Rightarrow> nat \<Rightarrow> fix_heap \<Rightarrow> fix_heap \<Rightarrow> fix_heap res" where
  "copy_loop nbytes chunk_id chunk_offset src_chunk_id src_chunk_offset src h =
     (if nbytes = 0 \<or> fh_size h = 0 \<or> fh_size src = 0 then Inr h
      else res_bind (ReadChunk chunk_id h) (\<lambda>dst_chunk.
        let current_remain = fh_size h - chunk_offset;
            src_remain = fh_size src - src_chunk_offset;
            n = copy_size nbytes current_remain src_remain
        in res_bind (ReadChunk src_chunk_id src) (\<lambda>src_chunk.
             copy_loop (nbytes - n)
               (if current_remain - n = 0 then chunk_id + 1 else chunk_id)
               (if current_remain - n = 0 then 0 else chunk_offset + n)
               (if src_remain - n = 0 then src_chunk_id + 1 else src_chunk_id)
               (if src_remain - n = 0 then 0 else src_chunk_offset + n)
               src
               (put_chunk chunk_id chunk_offset dst_chunk (take n (drop src_chunk_offset src_chunk)) h))))"
  by pat_completeness auto
termination
proof (relation "measure (\<lambda>(n, _, off, _, off', src, h).
    3 * n + (if fh_size h \<le> off then 1 else 0) + (if fh_size src \<le> off' then 1 else 0))", goal_cases)
  case (2 nbytes chunk_id off src_id off' src h dst cr sr n sc)
  have s: "fh_size (put_chunk chunk_id off dst (take n (drop off' sc)) h) = fh_size h"
    by (simp add: put_chunk_def)
  show ?case
  proof (cases "n = 0")
    case True
    then have "cr = 0 \<or> sr = 0" using 2 by (auto simp: copy_size_def split: if_splits)
    then show ?thesis using 2 True s by auto
  next
    case False
    have "n \<le> nbytes" using 2 by (auto simp: copy_size_def split: if_splits)
    then show ?thesis using False s by auto
  qed
qed simp

declare copy_loop.simps [simp del]

definition AppendToHeap_copy ::
  "fix_heap \<Rightarrow> nat \<Rightarrow> nat \<Rightarrow> nat \<Rightarrow> fix_heap \<Rightarrow> ((nat \<times> nat) \<times> fix_heap) res" where
  "AppendToHeap_copy src src_chunk_id src_chunk_offset nbytes h =
     res_bind (Allocate nbytes h) (\<lambda>((chunk_id, chunk_offset), h1).
     res_bind (copy_loop nbytes chunk_id chunk_offset src_chunk_id src_chunk_offset src h1) (\<lambda>h2.
       Inr ((chunk_id, chunk_offset), h2)))"

section \<open>The heap as one linear memory\<close>

definition byte_at :: "fix_heap \<Rightarrow> nat \<Rightarrow> byte" where
  "byte_at h a = the (fh_chunks h (a div fh_size h)) ! (a mod fh_size h)"

definition mem_ok :: "fix_heap \<Rightarrow> nat \<Rightarrow> bool" where
  "mem_ok h m \<longleftrightarrow> 0 < fh_size h \<and>
     (\<forall>k. fh_size h * k < m \<longrightarrow> (\<exists>c. fh_chunks h k = Some c \<and> length c = fh_size h))"

lemma mem_ok_chunk:
  "mem_ok h m \<Longrightarrow> fh_size h * k < m \<Longrightarrow> \<exists>c. fh_chunks h k = Some c \<and> length c = fh_size h"
  by (simp add: mem_ok_def)

lemma byte_at_chunk:
  "0 < fh_size h \<Longrightarrow> j < fh_size h \<Longrightarrow> byte_at h (fh_size h * k + j) = the (fh_chunks h k) ! j"
  by (simp add: byte_at_def)

lemma chunk_slice:
  assumes "fh_chunks h k = Some c" and "length c = fh_size h" and "off + n \<le> fh_size h"
  shows "take n (drop off c) = map (byte_at h) [fh_size h * k + off..<fh_size h * k + off + n]"
proof (rule nth_equalityI)
  fix j assume "j < length (take n (drop off c))"
  then have "off + j < fh_size h" "j < n" using assms by auto
  then have "byte_at h (fh_size h * k + (off + j)) = c ! (off + j)"
    using byte_at_chunk [of h "off + j" k] assms by simp
  then show "take n (drop off c) ! j = map (byte_at h) [fh_size h * k + off..<fh_size h * k + off + n] ! j"
    using \<open>j < n\<close> \<open>off + j < fh_size h\<close> assms by (simp add: add.assoc)
qed (use assms in simp)

lemma ReadFromHeap_bytes:
  "mem_ok h (fh_size h * id' + off + n) \<Longrightarrow> off \<le> fh_size h \<Longrightarrow>
     ReadFromHeap id' off n h = Inr (map (byte_at h) [fh_size h * id' + off..<fh_size h * id' + off + n])"
proof (induction id' off n h rule: ReadFromHeap.induct)
  case (1 k off n h)
  show ?case
  proof (cases "n = 0")
    case False
    have pos: "0 < fh_size h" using 1(2) by (simp add: mem_ok_def)
    obtain c where c: "fh_chunks h k = Some c" "length c = fh_size h"
      using mem_ok_chunk [OF 1(2), of k] False by auto
    show ?thesis
    proof (cases "n \<le> fh_size h - off")
      case True
      then have "off + n \<le> fh_size h" using False by simp
      then show ?thesis
        using False pos c True chunk_slice [OF c] by (subst ReadFromHeap.simps) (simp add: ReadChunk_def)
    next
      case r: False
      have g: "\<not> (n = 0 \<or> fh_size h = 0)" using False pos by simp
      let ?r = "fh_size h - off"
      have split: "fh_size h * (k + 1) + 0 + (n - ?r) = fh_size h * k + off + n"
        "fh_size h * (k + 1) = fh_size h * k + off + ?r" using r 1(3) by (simp_all add: algebra_simps)
      have "ReadFromHeap (k + 1) 0 (n - ?r) h =
          Inr (map (byte_at h) [fh_size h * (k + 1) + 0..<fh_size h * (k + 1) + 0 + (n - ?r)])"
        using 1(1) [OF g refl r] 1(2) unfolding split(1) by simp
      moreover have "take ?r (drop off c) = map (byte_at h) [fh_size h * k + off..<fh_size h * k + off + ?r]"
        by (rule chunk_slice [OF c]) (use 1(3) in simp)
      moreover have "[fh_size h * k + off..<fh_size h * k + off + n] =
          [fh_size h * k + off..<fh_size h * k + off + ?r] @ [fh_size h * k + off + ?r..<fh_size h * k + off + n]"
        using r upt_add_eq_append [of "fh_size h * k + off" "fh_size h * k + off + ?r" "n - ?r"]
        by (simp add: add.assoc)
      ultimately show ?thesis
        using False pos c r split by (subst ReadFromHeap.simps) (simp add: ReadChunk_def add.commute)
    qed
  qed (simp add: ReadFromHeap.simps)
qed

text \<open>Two heaps that differ in the bytes of their chunks only.\<close>

definition same_shape :: "fix_heap \<Rightarrow> fix_heap \<Rightarrow> bool" where
  "same_shape h h' \<longleftrightarrow>
     fh_size h' = fh_size h \<and> fh_cross h' = fh_cross h \<and> fh_idx h' = fh_idx h \<and> fh_off h' = fh_off h
     \<and> (\<forall>k. map_option length (fh_chunks h' k) = map_option length (fh_chunks h k))"

lemma same_shape_refl [simp]: "same_shape h h"
  by (simp add: same_shape_def)

lemma same_shape_trans: "same_shape a b \<Longrightarrow> same_shape b c \<Longrightarrow> same_shape a c"
  by (simp add: same_shape_def)

lemma same_shape_mem_ok: "same_shape h h' \<Longrightarrow> mem_ok h' m = mem_ok h m"
proof -
  assume s: "same_shape h h'"
  have "(\<exists>c. fh_chunks h' k = Some c \<and> length c = n) \<longleftrightarrow> (\<exists>c. fh_chunks h k = Some c \<and> length c = n)" for k n
  proof -
    have "map_option length (fh_chunks h' k) = map_option length (fh_chunks h k)"
      using s by (simp add: same_shape_def)
    then show ?thesis by (cases "fh_chunks h k"; cases "fh_chunks h' k") auto
  qed
  then show ?thesis using s by (simp add: mem_ok_def same_shape_def)
qed

lemma same_shape_total [simp]: "same_shape h h' \<Longrightarrow> total_size h' = total_size h"
  by (auto simp: same_shape_def total_size_def split: option.split)

lemma put_chunk_spec:
  assumes c: "fh_chunks h k = Some c" "length c = fh_size h" and l: "off + length bs \<le> fh_size h"
    and pos: "0 < fh_size h"
  shows "same_shape h (put_chunk k off c bs h)"
    and "byte_at (put_chunk k off c bs h) a =
      (if fh_size h * k + off \<le> a \<and> a < fh_size h * k + off + length bs
       then bs ! (a - (fh_size h * k + off)) else byte_at h a)"
proof -
  show "same_shape h (put_chunk k off c bs h)"
    using assms by (simp add: same_shape_def put_chunk_def)
  have m: "a mod fh_size h < fh_size h" using pos by simp
  show "byte_at (put_chunk k off c bs h) a =
      (if fh_size h * k + off \<le> a \<and> a < fh_size h * k + off + length bs
       then bs ! (a - (fh_size h * k + off)) else byte_at h a)"
  proof (cases "a div fh_size h = k")
    case True
    then have a: "a = fh_size h * k + a mod fh_size h" by (metis mult_div_mod_eq)
    have n: "(take off c @ bs @ drop (off + length bs) c) ! j =
        (if off \<le> j \<and> j < off + length bs then bs ! (j - off) else c ! j)" if "j < fh_size h" for j
      using that l c by (auto simp: nth_append)
    have "fh_size h * k + off \<le> a \<and> a < fh_size h * k + off + length bs
        \<longleftrightarrow> off \<le> a mod fh_size h \<and> a mod fh_size h < off + length bs"
      using a by linarith
    moreover have "a - (fh_size h * k + off) = a mod fh_size h - off" using a by linarith
    ultimately show ?thesis
      using True n [OF m] c by (simp add: byte_at_def put_chunk_def)
  next
    case False
    have "\<not> (fh_size h * k + off \<le> a \<and> a < fh_size h * k + off + length bs)"
    proof
      assume r: "fh_size h * k + off \<le> a \<and> a < fh_size h * k + off + length bs"
      then have "k * fh_size h \<le> a" "a < (k + 1) * fh_size h" using l by (simp_all add: algebra_simps)
      then have "a div fh_size h = k" using pos by (simp add: div_nat_eqI algebra_simps)
      with False show False by simp
    qed
    with False show ?thesis by (auto simp: byte_at_def put_chunk_def)
  qed
qed

lemma write_loop_bytes:
  "mem_ok h (fh_size h * k + off + length data) \<Longrightarrow> off \<le> fh_size h \<Longrightarrow>
     \<exists>k' off' h'. write_loop data k off h = Inr ((k', off'), h') \<and> same_shape h h'
       \<and> fh_size h * k' + off' = fh_size h * k + off + length data \<and> off' \<le> fh_size h
       \<and> (\<forall>a. byte_at h' a = (if fh_size h * k + off \<le> a \<and> a < fh_size h * k + off + length data
            then data ! (a - (fh_size h * k + off)) else byte_at h a))"
proof (induction data k off h rule: write_loop.induct)
  case (1 data k off h)
  show ?case
  proof (cases "data = []")
    case False
    have pos: "0 < fh_size h" using 1(2) by (simp add: mem_ok_def)
    obtain c where c: "fh_chunks h k = Some c" "length c = fh_size h"
      using mem_ok_chunk [OF 1(2), of k] False by auto
    show ?thesis
    proof (cases "length data \<le> fh_size h - off")
      case True
      then have l: "off + length data \<le> fh_size h" using 1(3) by simp
      have "write_loop data k off h = Inr ((k, off + length data), put_chunk k off c data h)"
        using False pos c True by (subst write_loop.simps) (simp add: ReadChunk_def)
      then show ?thesis using put_chunk_spec [OF c l pos] l by simp
    next
      case r: False
      have g: "\<not> (data = [] \<or> fh_size h = 0)" using False pos by simp
      let ?r = "fh_size h - off" and ?h = "put_chunk k off c (take (fh_size h - off) data) h"
      have lr: "length (take ?r data) = ?r" using r by simp
      have l: "off + length (take ?r data) \<le> fh_size h" using 1(3) lr by simp
      note p = put_chunk_spec [OF c l pos]
      have sz: "fh_size ?h = fh_size h" by (simp add: put_chunk_def)
      have e: "fh_size h * (k + 1) = fh_size h * k + off + ?r" using 1(3) by (simp add: algebra_simps)
      have len: "length (drop ?r data) = length data - ?r" by simp
      have tot: "fh_size h * (k + 1) + 0 + length (drop ?r data) = fh_size h * k + off + length data"
        using e r by simp
      have "mem_ok ?h (fh_size ?h * (k + 1) + 0 + length (drop ?r data))"
        using 1(2) unfolding sz same_shape_mem_ok [OF p(1)] tot .
      note ih = 1(1) [OF g refl r this, unfolded sz, OF le0]
      obtain k' off' h' where w: "write_loop (drop ?r data) (k + 1) 0 ?h = Inr ((k', off'), h')"
        and s: "same_shape ?h h'"
        and e': "fh_size h * k' + off' = fh_size h * (k + 1) + length (drop ?r data)" "off' \<le> fh_size h"
        and b: "\<And>a. byte_at h' a = (if fh_size h * (k + 1) \<le> a \<and> a < fh_size h * (k + 1) + length (drop ?r data)
            then drop ?r data ! (a - fh_size h * (k + 1)) else byte_at ?h a)"
        using ih by (auto simp only: add_0_right)
      have "write_loop data k off h = Inr ((k', off'), h')"
        using False pos c r w by (subst write_loop.simps) (simp add: ReadChunk_def)
      moreover have "same_shape h h'" using p(1) s by (rule same_shape_trans)
      moreover have "fh_size h * k' + off' = fh_size h * k + off + length data"
        using e e' r by simp
      moreover have "byte_at h' a = (if fh_size h * k + off \<le> a \<and> a < fh_size h * k + off + length data
            then data ! (a - (fh_size h * k + off)) else byte_at h a)" for a
      proof -
        let ?b = "fh_size h * k + off"
        consider "a < ?b" | "?b \<le> a" "a < ?b + ?r" | "?b + ?r \<le> a" by linarith
        then show ?thesis
        proof cases
          case 3
          then have "?r + (a - (?b + ?r)) = a - ?b" by linarith
          with 3 show ?thesis using b [of a] p(2) [of a] r lr e by (auto simp: len add.commute)
        qed (use b [of a] p(2) [of a] r lr e in \<open>auto simp: len\<close>)
      qed
      ultimately show ?thesis using e'(2) by blast
    qed
  qed (use 1 in \<open>auto simp: write_loop.simps\<close>)
qed

section \<open>Allocation\<close>

definition heap_inv :: "fix_heap \<Rightarrow> bool" where
  "heap_inv h \<longleftrightarrow>
     0 < fh_size h
     \<and> (case fh_idx h of
          None \<Rightarrow> fh_off h = 0 \<and> fh_chunks h = Map.empty
        | Some i \<Rightarrow> fh_off h \<le> fh_size h \<and> dom (fh_chunks h) = {..i})
     \<and> (\<forall>k c. fh_chunks h k = Some c \<longrightarrow> length c = fh_size h)"

definition keeps :: "fix_heap \<Rightarrow> fix_heap \<Rightarrow> bool" where
  "keeps h h' \<longleftrightarrow> fh_size h' = fh_size h \<and> fh_cross h' = fh_cross h \<and> fh_chunks h \<subseteq>\<^sub>m fh_chunks h'"

lemma keeps_trans: "keeps a b \<Longrightarrow> keeps b c \<Longrightarrow> keeps a c"
  by (auto simp: keeps_def intro: map_le_trans)

lemma keeps_refl [simp]: "keeps h h"
  by (simp add: keeps_def)

lemma heap_inv_mem_ok: "heap_inv h \<Longrightarrow> mem_ok h (total_size h)"
proof -
  assume inv: "heap_inv h"
  show ?thesis
  proof (cases "fh_idx h")
    case (Some i)
    have "\<exists>c. fh_chunks h k = Some c \<and> length c = fh_size h" if k: "fh_size h * k < fh_size h * i + fh_off h" for k
    proof -
      have "fh_size h * k < fh_size h * (i + 1)" using k inv Some by (simp add: heap_inv_def)
      then have "k < i + 1" by (metis mult_less_cancel1)
      then have "k \<in> dom (fh_chunks h)" using inv Some by (simp add: heap_inv_def)
      then show ?thesis using inv by (auto simp: heap_inv_def)
    qed
    then show ?thesis using inv Some by (simp add: mem_ok_def total_size_def heap_inv_def)
  qed (use inv in \<open>simp add: mem_ok_def total_size_def heap_inv_def\<close>)
qed

lemma emplace_next:
  assumes "fh_idx h = Some i" and "heap_inv h" and "k = i + 1"
  shows "heap_inv (emplace_chunk k h)" and "fh_idx (emplace_chunk k h) = Some k"
    and "keeps h (emplace_chunk k h)" and "fh_off (emplace_chunk k h) = fh_off h"
proof -
  have "k \<notin> dom (fh_chunks h)" using assms by (simp add: heap_inv_def)
  then have "fh_chunks h k = None" by (simp add: domIff)
  then show "heap_inv (emplace_chunk k h)" "fh_idx (emplace_chunk k h) = Some k"
    "keeps h (emplace_chunk k h)" "fh_off (emplace_chunk k h) = fh_off h"
    using assms by (auto simp: heap_inv_def emplace_chunk_def AllocateChunk_def keeps_def map_le_def
        domIff atMost_Suc)
qed

lemma emplace_first:
  assumes "fh_idx h = None" and "heap_inv h"
  shows "heap_inv (emplace_chunk 0 h)" and "fh_idx (emplace_chunk 0 h) = Some 0"
    and "keeps h (emplace_chunk 0 h)" and "fh_off (emplace_chunk 0 h) = 0"
  using assms by (auto simp: heap_inv_def emplace_chunk_def AllocateChunk_def keeps_def map_le_def)

lemma alloc_loop_spec:
  assumes "heap_inv h" and "fh_idx h = Some i" and "0 < rest"
  shows "\<exists>rest' i' h'. alloc_loop rest i h = (rest', i', h') \<and> heap_inv h' \<and> fh_idx h' = Some i'
    \<and> keeps h h' \<and> 0 < rest' \<and> rest' \<le> fh_size h \<and> fh_size h * i' + rest' = fh_size h * i + rest"
  using assms
proof (induction rest i h rule: alloc_loop.induct)
  case (1 rest i h)
  show ?case
  proof (cases "fh_size h < rest")
    case True
    have pos: "0 < fh_size h" using 1(2) by (simp add: heap_inv_def)
    note e = emplace_next [OF 1(3,2) refl]
    have sz: "fh_size (emplace_chunk (i + 1) h) = fh_size h" using e(3) by (simp add: keeps_def)
    obtain rest' i' h' where l: "alloc_loop (rest - fh_size h) (i + 1) (emplace_chunk (i + 1) h) = (rest', i', h')"
      "heap_inv h'" "fh_idx h' = Some i'" "keeps (emplace_chunk (i + 1) h) h'" "0 < rest'" "rest' \<le> fh_size h"
      "fh_size h * i' + rest' = fh_size h * (i + 1) + (rest - fh_size h)"
      using 1(1) [OF conjI [OF True pos] e(1,2)] True unfolding sz by auto
    have "alloc_loop rest i h = (rest', i', h')" using True pos l(1) by (subst alloc_loop.simps) simp
    moreover have "keeps h h'" using e(3) l(4) by (rule keeps_trans)
    moreover have "fh_size h * i' + rest' = fh_size h * i + rest" using l(7) True by (simp add: algebra_simps)
    ultimately show ?thesis using l by blast
  next
    case False
    then show ?thesis using 1 by (subst alloc_loop.simps) auto
  qed
qed

lemma Allocate_spec:
  assumes inv: "heap_inv h" and n: "0 < n" and f: "fh_cross h \<or> n \<le> fh_size h"
  shows "\<exists>k off h'. Allocate n h = Inr ((k, off), h') \<and> heap_inv h' \<and> keeps h h' \<and> off \<le> fh_size h
    \<and> total_size h' = fh_size h * k + off + n \<and> total_size h \<le> fh_size h * k + off
    \<and> (fh_cross h \<longrightarrow> fh_size h * k + off = total_size h) \<and> (\<not> fh_cross h \<longrightarrow> off + n \<le> fh_size h)"
proof -
  define h1 where "h1 = (case fh_idx h of None \<Rightarrow> emplace_chunk 0 h | Some _ \<Rightarrow> h)"
  obtain i where h1: "heap_inv h1" "fh_idx h1 = Some i" "keeps h h1" "total_size h1 = total_size h"
  proof (cases "fh_idx h")
    case None
    note e = emplace_first [OF None inv]
    have "total_size h1 = total_size h" using None e by (simp add: h1_def total_size_def)
    with e None that [of 0] show ?thesis by (simp add: h1_def)
  next
    case (Some i)
    with inv that [of i] show ?thesis by (simp add: h1_def)
  qed
  have sz: "fh_size h1 = fh_size h" "fh_cross h1 = fh_cross h" using h1(3) by (simp_all add: keeps_def)
  have off: "fh_off h1 \<le> fh_size h" using h1(1,2) sz by (simp add: heap_inv_def)
  have t: "total_size h = fh_size h * i + fh_off h1" using h1(2,4) sz by (simp add: total_size_def)
  have A: "Allocate n h =
     (if \<not> fh_cross h then
        (if fh_off h1 + n \<le> fh_size h then Inr ((i, fh_off h1), h1\<lparr>fh_off := fh_off h1 + n\<rparr>)
         else Inr ((i + 1, 0), (emplace_chunk (i + 1) h1)\<lparr>fh_off := n\<rparr>))
      else if fh_off h1 + n > fh_size h then
        (let (rest, i', h') = alloc_loop (n - (fh_size h - fh_off h1)) i h1
         in Inr ((i, fh_off h1), (emplace_chunk (i' + 1) h')\<lparr>fh_off := rest\<rparr>))
      else Inr ((i, fh_off h1), h1\<lparr>fh_off := fh_off h1 + n\<rparr>))"
    using n f h1(2) sz by (auto simp: Allocate_def h1_def [symmetric] Let_def)
  have set_off: "heap_inv (g\<lparr>fh_off := x\<rparr>)" "keeps g (g\<lparr>fh_off := x\<rparr>)"
    if "heap_inv g" "fh_idx g = Some j" "x \<le> fh_size g" for g j x
    using that by (auto simp: heap_inv_def keeps_def)
  consider "fh_off h1 + n \<le> fh_size h" | "\<not> fh_cross h" "\<not> fh_off h1 + n \<le> fh_size h"
    | "fh_cross h" "\<not> fh_off h1 + n \<le> fh_size h" by blast
  then show ?thesis
  proof cases
    case 1
    have "total_size (h1\<lparr>fh_off := fh_off h1 + n\<rparr>) = fh_size h * i + fh_off h1 + n"
      using h1(2) sz by (simp add: total_size_def)
    with 1 show ?thesis
      using A h1 off t sz set_off [OF h1(1,2), of "fh_off h1 + n"] by (auto intro: keeps_trans)
  next
    case 2
    note e = emplace_next [OF h1(2,1) refl]
    have s: "fh_size (emplace_chunk (i + 1) h1) = fh_size h" using e(3) sz by (simp add: keeps_def)
    have "n \<le> fh_size h" using f 2 by simp
    moreover from this have "heap_inv ((emplace_chunk (i + 1) h1)\<lparr>fh_off := n\<rparr>)"
      "keeps h ((emplace_chunk (i + 1) h1)\<lparr>fh_off := n\<rparr>)"
      using set_off [OF e(1,2), of n] s e(3) h1(3) by (auto intro: keeps_trans)
    moreover have "total_size ((emplace_chunk (i + 1) h1)\<lparr>fh_off := n\<rparr>) = fh_size h * (i + 1) + 0 + n"
      using e(2) s by (simp add: total_size_def)
    ultimately show ?thesis using A 2 t off by simp
  next
    case 3
    let ?rest = "n - (fh_size h - fh_off h1)"
    have "0 < ?rest" using 3 off by simp
    from alloc_loop_spec [OF h1(1,2) this] sz obtain rest i' h' where
      l: "alloc_loop ?rest i h1 = (rest, i', h')" "heap_inv h'" "fh_idx h' = Some i'" "keeps h1 h'"
        "rest \<le> fh_size h" "fh_size h * i' + rest = fh_size h * i + ?rest" by auto
    note e = emplace_next [OF l(3,2) refl]
    have s: "fh_size (emplace_chunk (i' + 1) h') = fh_size h" using e(3) l(4) sz by (simp add: keeps_def)
    have "heap_inv ((emplace_chunk (i' + 1) h')\<lparr>fh_off := rest\<rparr>)"
      "keeps h ((emplace_chunk (i' + 1) h')\<lparr>fh_off := rest\<rparr>)"
      using set_off [OF e(1,2), of rest] l s e(3) h1(3) by (auto intro: keeps_trans)
    moreover have "total_size ((emplace_chunk (i' + 1) h')\<lparr>fh_off := rest\<rparr>) = fh_size h * i + fh_off h1 + n"
      using e(2) s l(6) 3 off by (simp add: total_size_def)
    ultimately show ?thesis using A 3 t off l(1) by auto
  qed
qed

section \<open>Appending and reading\<close>

lemma keeps_byte_at:
  assumes "keeps h h'" and "mem_ok h m" and "a < m"
  shows "byte_at h' a = byte_at h a"
proof -
  have "fh_size h * (a div fh_size h) < m" using assms(3) by (meson le_less_trans times_div_less_eq_dividend)
  then obtain c where c: "fh_chunks h (a div fh_size h) = Some c" using mem_ok_chunk [OF assms(2)] by blast
  then have "a div fh_size h \<in> dom (fh_chunks h)" by auto
  then have "fh_chunks h' (a div fh_size h) = Some c" using assms(1) c by (auto simp: keeps_def map_le_def)
  then show ?thesis using c assms(1) by (simp add: byte_at_def keeps_def)
qed

lemma same_shape_inv:
  assumes "same_shape h h'" and "heap_inv h"
  shows "heap_inv h'"
proof -
  have e: "map_option length (fh_chunks h' k) = map_option length (fh_chunks h k)" for k
    using assms(1) by (simp add: same_shape_def)
  have none: "fh_chunks h' k = None \<longleftrightarrow> fh_chunks h k = None" for k
    using e [of k] by (cases "fh_chunks h k"; cases "fh_chunks h' k") auto
  then have "dom (fh_chunks h') = dom (fh_chunks h)" by (simp add: dom_def)
  moreover have "fh_chunks h' k = Some c \<Longrightarrow> length c = fh_size h" for k c
    using e [of k] assms(2) by (cases "fh_chunks h k") (auto simp: heap_inv_def)
  moreover have "fh_chunks h = Map.empty \<Longrightarrow> fh_chunks h' = Map.empty" using none by auto
  ultimately show ?thesis using assms
    by (auto simp: heap_inv_def same_shape_def split: option.splits)
qed

lemma AppendToHeap_spec:
  assumes inv: "heap_inv h" and n: "data \<noteq> []" and f: "fh_cross h \<or> length data \<le> fh_size h"
  shows "\<exists>k off h'. AppendToHeap data h = Inr ((k, off), h') \<and> heap_inv h'
    \<and> fh_size h' = fh_size h \<and> fh_cross h' = fh_cross h \<and> off \<le> fh_size h
    \<and> total_size h' = fh_size h * k + off + length data \<and> total_size h \<le> fh_size h * k + off
    \<and> (fh_cross h \<longrightarrow> fh_size h * k + off = total_size h)
    \<and> (\<forall>j < length data. byte_at h' (fh_size h * k + off + j) = data ! j)
    \<and> (\<forall>a < total_size h. byte_at h' a = byte_at h a)"
proof -
  obtain k off h1 where a: "Allocate (length data) h = Inr ((k, off), h1)" "heap_inv h1" "keeps h h1"
    "off \<le> fh_size h" "total_size h1 = fh_size h * k + off + length data"
    "total_size h \<le> fh_size h * k + off" "fh_cross h \<longrightarrow> fh_size h * k + off = total_size h"
    using Allocate_spec [OF inv _ f] n by auto
  have sz: "fh_size h1 = fh_size h" "fh_cross h1 = fh_cross h" using a(3) by (simp_all add: keeps_def)
  have "mem_ok h1 (fh_size h1 * k + off + length data)" using heap_inv_mem_ok [OF a(2)] a(5) sz by simp
  from write_loop_bytes [OF this] a(4) sz obtain k' off' h2 where
    w: "write_loop data k off h1 = Inr ((k', off'), h2)" "same_shape h1 h2"
    and b: "\<And>x. byte_at h2 x = (if fh_size h * k + off \<le> x \<and> x < fh_size h * k + off + length data
            then data ! (x - (fh_size h * k + off)) else byte_at h1 x)"
    by auto
  have "AppendToHeap data h = Inr ((k, off), h2)" by (simp add: AppendToHeap_def a(1) w(1))
  moreover have "heap_inv h2" using same_shape_inv [OF w(2) a(2)] .
  moreover have "fh_size h2 = fh_size h" "fh_cross h2 = fh_cross h"
    using w(2) sz by (simp_all add: same_shape_def)
  moreover have "total_size h2 = fh_size h * k + off + length data" using w(2) a(5) by simp
  moreover have "byte_at h2 x = byte_at h x" if "x < total_size h" for x
    using b [of x] a(6) that keeps_byte_at [OF a(3) heap_inv_mem_ok [OF inv] that] by simp
  ultimately show ?thesis using a b by auto
qed

text \<open>
  What the owners of a heap rely on: an appended item is read back at the position that was
  returned, and no later append changes what an earlier position reads.
\<close>

fun store_all :: "(byte list \<Rightarrow> 'h \<Rightarrow> ('p \<times> 'h) res) \<Rightarrow> byte list list \<Rightarrow> 'h \<Rightarrow> ('p list \<times> 'h) res" where
  "store_all app [] h = Inr ([], h)"
| "store_all app (d # ds) h =
     res_bind (app d h) (\<lambda>(p, h). res_bind (store_all app ds h) (\<lambda>(ps, h). Inr (p # ps, h)))"

locale byte_store =
  fixes inv :: "'h \<Rightarrow> bool"
    and fits :: "'h \<Rightarrow> byte list \<Rightarrow> bool"
    and app :: "byte list \<Rightarrow> 'h \<Rightarrow> ('p \<times> 'h) res"
    and get :: "'p \<Rightarrow> nat \<Rightarrow> 'h \<Rightarrow> byte list res"
    and stored :: "'p \<Rightarrow> nat \<Rightarrow> 'h \<Rightarrow> bool"
  assumes app_law: "inv h \<Longrightarrow> fits h d \<Longrightarrow>
      \<exists>p h'. app d h = Inr (p, h') \<and> inv h' \<and> stored p (length d) h' \<and> get p (length d) h' = Inr d"
    and app_fits: "inv h \<Longrightarrow> fits h d \<Longrightarrow> app d h = Inr (p, h') \<Longrightarrow> fits h' = fits h"
    and app_frame: "inv h \<Longrightarrow> fits h d \<Longrightarrow> app d h = Inr (p, h') \<Longrightarrow> stored q n h
      \<Longrightarrow> stored q n h' \<and> get q n h' = get q n h"
begin

lemma store_all_get:
  "inv h \<Longrightarrow> \<forall>d \<in> set ds. fits h d \<Longrightarrow>
     \<exists>ps h'. store_all app ds h = Inr (ps, h') \<and> inv h' \<and> length ps = length ds
       \<and> (\<forall>i < length ds. get (ps ! i) (length (ds ! i)) h' = Inr (ds ! i))
       \<and> (\<forall>q n. stored q n h \<longrightarrow> stored q n h' \<and> get q n h' = get q n h)"
proof (induction ds arbitrary: h)
  case (Cons d ds)
  obtain p h1 where h1: "app d h = Inr (p, h1)" "inv h1" "stored p (length d) h1" "get p (length d) h1 = Inr d"
    using app_law [of h d] Cons.prems by auto
  have f: "\<forall>d' \<in> set ds. fits h1 d'" using app_fits [OF _ _ h1(1)] Cons.prems by auto
  obtain ps h2 where h2: "store_all app ds h1 = Inr (ps, h2)" "inv h2" "length ps = length ds"
    "\<And>i. i < length ds \<Longrightarrow> get (ps ! i) (length (ds ! i)) h2 = Inr (ds ! i)"
    "\<And>q n. stored q n h1 \<Longrightarrow> stored q n h2 \<and> get q n h2 = get q n h1"
    using Cons.IH [OF h1(2) f] by auto
  have "get ((p # ps) ! i) (length ((d # ds) ! i)) h2 = Inr ((d # ds) ! i)" if "i < length (d # ds)" for i
    using that h1 h2 by (cases i) auto
  moreover have "stored q n h2 \<and> get q n h2 = get q n h" if "stored q n h" for q n
    using app_frame [OF _ _ h1(1) that] Cons.prems h2(5) by auto
  ultimately show ?case using h1 h2 by auto
qed simp

end

definition heap_fits :: "fix_heap \<Rightarrow> byte list \<Rightarrow> bool" where
  "heap_fits h d \<longleftrightarrow> d \<noteq> [] \<and> (fh_cross h \<or> length d \<le> fh_size h)"

definition heap_get :: "nat \<times> nat \<Rightarrow> nat \<Rightarrow> fix_heap \<Rightarrow> byte list res" where
  "heap_get pos nbytes h = ReadFromHeap (fst pos) (snd pos) nbytes h"

definition heap_stored :: "nat \<times> nat \<Rightarrow> nat \<Rightarrow> fix_heap \<Rightarrow> bool" where
  "heap_stored pos n h \<longleftrightarrow> snd pos \<le> fh_size h \<and> fh_size h * fst pos + snd pos + n \<le> total_size h"

lemma mem_ok_mono: "mem_ok h m \<Longrightarrow> n \<le> m \<Longrightarrow> mem_ok h n"
  by (auto simp: mem_ok_def)

lemma heap_get_bytes:
  "heap_inv h \<Longrightarrow> heap_stored pos n h \<Longrightarrow>
     heap_get pos n h = Inr (map (byte_at h) [fh_size h * fst pos + snd pos..<fh_size h * fst pos + snd pos + n])"
  unfolding heap_get_def
  by (rule ReadFromHeap_bytes) (auto simp: heap_stored_def intro: mem_ok_mono [OF heap_inv_mem_ok])

lemma heap_append:
  assumes "heap_inv h" and "heap_fits h d"
  shows "\<exists>p h'. AppendToHeap d h = Inr (p, h') \<and> heap_inv h' \<and> heap_stored p (length d) h'
    \<and> heap_get p (length d) h' = Inr d \<and> heap_fits h' = heap_fits h
    \<and> (\<forall>q n. heap_stored q n h \<longrightarrow> heap_stored q n h' \<and> heap_get q n h' = heap_get q n h)"
proof -
  obtain k off h' where a: "AppendToHeap d h = Inr ((k, off), h')" "heap_inv h'"
    "fh_size h' = fh_size h" "fh_cross h' = fh_cross h" "off \<le> fh_size h"
    "total_size h' = fh_size h * k + off + length d" "total_size h \<le> fh_size h * k + off"
    and b: "\<And>j. j < length d \<Longrightarrow> byte_at h' (fh_size h * k + off + j) = d ! j"
      "\<And>x. x < total_size h \<Longrightarrow> byte_at h' x = byte_at h x"
    using AppendToHeap_spec [OF assms(1), of d] assms(2) by (auto simp: heap_fits_def)
  have s: "heap_stored (k, off) (length d) h'" using a by (simp add: heap_stored_def)
  have "map (byte_at h') [fh_size h * k + off..<fh_size h * k + off + length d] = d"
    by (rule nth_equalityI) (simp_all add: b(1))
  then have "heap_get (k, off) (length d) h' = Inr d"
    using heap_get_bytes [OF a(2) s] a(3) by simp
  moreover have "heap_stored q n h'" "heap_get q n h' = heap_get q n h" if q: "heap_stored q n h" for q n
  proof -
    show q': "heap_stored q n h'" using q a by (simp add: heap_stored_def)
    show "heap_get q n h' = heap_get q n h"
      unfolding heap_get_bytes [OF a(2) q'] heap_get_bytes [OF assms(1) q] a(3)
      using q b(2) by (auto simp: heap_stored_def)
  qed
  moreover have "heap_fits h' = heap_fits h" using a by (simp add: heap_fits_def fun_eq_iff)
  ultimately show ?thesis using a s by blast
qed

interpretation heap: byte_store heap_inv heap_fits AppendToHeap heap_get heap_stored
proof (unfold_locales, goal_cases)
  case (1 h d)
  then show ?case using heap_append by blast
next
  case (2 h d p h')
  then show ?case using heap_append [OF 2(1,2)] by auto
next
  case (3 h d p h' q n)
  then show ?case using heap_append [OF 3(1,2)] by (cases q) auto
qed

lemma heap_inv_new [simp]: "0 < n \<Longrightarrow> heap_inv (FixHeapManager_new n cross uninit)"
  by (simp add: heap_inv_def FixHeapManager_new_def)

text \<open>
  C39: Every item appended to a heap, of any length where items may cross chunks and of at most one
  chunk otherwise, is read back from the position its append returned, also after all the later
  appends; what was stored before is not changed.
\<close>

theorem heap_items_read_back:
  assumes "heap_inv h" and "\<forall>d \<in> set ds. heap_fits h d"
  shows "\<exists>ps h'. store_all AppendToHeap ds h = Inr (ps, h') \<and> heap_inv h' \<and> length ps = length ds
    \<and> (\<forall>i < length ds. heap_get (ps ! i) (length (ds ! i)) h' = Inr (ds ! i))
    \<and> (\<forall>q n. heap_stored q n h \<longrightarrow> heap_stored q n h' \<and> heap_get q n h' = heap_get q n h)"
  by (rule heap.store_all_get [OF assms])

theorem heap_items_read_back_witness:
  "\<exists>ps h'. store_all AppendToHeap [[1, 2, 3, 4, 5], [6], [7, 8]] (FixHeapManager_new 2 True (\<lambda>_ _. 0)) = Inr (ps, h')
    \<and> heap_get (ps ! 0) 5 h' = Inr [1, 2, 3, 4, 5] \<and> heap_get (ps ! 2) 2 h' = Inr [7, 8]"
proof -
  let ?ds = "[[1, 2, 3, 4, 5], [6], [7, 8]] :: byte list list"
  have "heap_inv (FixHeapManager_new 2 True (\<lambda>_ _. 0))" by simp
  moreover have "\<forall>d \<in> set ?ds. heap_fits (FixHeapManager_new 2 True (\<lambda>_ _. 0)) d"
    by (simp add: heap_fits_def FixHeapManager_new_def)
  ultimately obtain ps h' where r: "store_all AppendToHeap ?ds (FixHeapManager_new 2 True (\<lambda>_ _. 0)) = Inr (ps, h')"
    "\<forall>i < length ?ds. heap_get (ps ! i) (length (?ds ! i)) h' = Inr (?ds ! i)"
    using heap_items_read_back by blast
  from r(2) [rule_format, of 0] r(2) [rule_format, of 2] r(1) show ?thesis
    by (intro exI [of _ ps] exI [of _ h']) (simp add: numeral_eq_Suc del: store_all.simps)
qed

lemma heap_linear_aux:
  "heap_inv h \<Longrightarrow> fh_cross h \<Longrightarrow> \<forall>d \<in> set ds. d \<noteq> [] \<Longrightarrow>
     \<exists>ps h'. store_all AppendToHeap ds h = Inr (ps, h') \<and> heap_inv h' \<and> fh_size h' = fh_size h
       \<and> fh_cross h' \<and> total_size h' = total_size h + length (concat ds)
       \<and> map (byte_at h') [0..<total_size h'] = map (byte_at h) [0..<total_size h] @ concat ds"
proof (induction ds arbitrary: h)
  case (Cons d ds)
  obtain k off h1 where a: "AppendToHeap d h = Inr ((k, off), h1)" "heap_inv h1" "fh_size h1 = fh_size h"
    "fh_cross h1" "total_size h1 = total_size h + length d"
    and b: "\<And>j. j < length d \<Longrightarrow> byte_at h1 (total_size h + j) = d ! j"
      "\<And>x. x < total_size h \<Longrightarrow> byte_at h1 x = byte_at h x"
    using AppendToHeap_spec [OF Cons.prems(1), of d] Cons.prems(2,3) by auto
  have "map (byte_at h1) [total_size h..<total_size h + length d] = d"
    by (rule nth_equalityI) (simp_all add: b(1))
  moreover have "map (byte_at h1) [0..<total_size h] = map (byte_at h) [0..<total_size h]" using b(2) by simp
  ultimately have m: "map (byte_at h1) [0..<total_size h1] = map (byte_at h) [0..<total_size h] @ d"
    unfolding a(5) upt_add_eq_append [OF le0] map_append by (simp only:)
  obtain ps h2 where "store_all AppendToHeap ds h1 = Inr (ps, h2)" "heap_inv h2" "fh_size h2 = fh_size h1"
    "fh_cross h2" "total_size h2 = total_size h1 + length (concat ds)"
    "map (byte_at h2) [0..<total_size h2] = map (byte_at h1) [0..<total_size h1] @ concat ds"
    using Cons.IH [OF a(2,4)] Cons.prems(3) by auto
  then show ?case using a m by simp
qed simp

text \<open>
  A heap whose items may cross chunks lays them out without gaps: the first \<^verbatim>\<open>total_size()\<close> bytes,
  which \<^verbatim>\<open>ColumnVector::WriteAdv\<close> copies into the log, are the concatenation of all items.
\<close>

theorem heap_linear_layout:
  assumes "0 < n" and "\<forall>d \<in> set ds. d \<noteq> []"
  shows "\<exists>ps h. store_all AppendToHeap ds (FixHeapManager_new n True uninit) = Inr (ps, h)
    \<and> total_size h = length (concat ds) \<and> ReadFromHeap 0 0 (total_size h) h = Inr (concat ds)"
proof -
  let ?h = "FixHeapManager_new n True uninit"
  have e: "fh_cross ?h" "total_size ?h = 0" by (simp_all add: FixHeapManager_new_def total_size_def)
  obtain ps h where h: "store_all AppendToHeap ds ?h = Inr (ps, h)" "heap_inv h"
    "total_size h = length (concat ds)" "map (byte_at h) [0..<total_size h] = concat ds"
    using heap_linear_aux [of ?h ds] assms e by auto
  have "heap_stored (0, 0) (total_size h) h" by (simp add: heap_stored_def)
  from heap_get_bytes [OF h(2) this] h(4) have "ReadFromHeap 0 0 (total_size h) h = Inr (concat ds)"
    by (simp add: heap_get_def)
  with h show ?thesis by blast
qed

theorem heap_linear_layout_witness:
  "\<exists>ps h. store_all AppendToHeap [[1, 2, 3], [4]] (FixHeapManager_new 2 True (\<lambda>_ _. 0)) = Inr (ps, h)
    \<and> total_size h = 4 \<and> ReadFromHeap 0 0 (total_size h) h = Inr [1, 2, 3, 4]"
  using heap_linear_layout [of 2 "[[1, 2, 3], [4]]" "\<lambda>_ _. 0"]
  by (simp add: numeral_eq_Suc del: store_all.simps)

section \<open>Appending in pieces and from another heap\<close>

lemma write_pieces_bytes:
  "mem_ok h (fh_size h * k + off + length (concat ps)) \<Longrightarrow> off \<le> fh_size h \<Longrightarrow>
     \<exists>h'. write_pieces ps (k, off) h = Inr h' \<and> same_shape h h'
       \<and> (\<forall>a. byte_at h' a = (if fh_size h * k + off \<le> a \<and> a < fh_size h * k + off + length (concat ps)
            then concat ps ! (a - (fh_size h * k + off)) else byte_at h a))"
proof (induction ps arbitrary: k off h)
  case (Cons p ps)
  have m: "mem_ok h (fh_size h * k + off + length p)"
    using Cons.prems(1) by (rule mem_ok_mono) simp
  obtain k' off' h1 where w: "write_loop p k off h = Inr ((k', off'), h1)" "same_shape h h1"
    "fh_size h * k' + off' = fh_size h * k + off + length p" "off' \<le> fh_size h"
    "\<And>a. byte_at h1 a = (if fh_size h * k + off \<le> a \<and> a < fh_size h * k + off + length p
            then p ! (a - (fh_size h * k + off)) else byte_at h a)"
    using write_loop_bytes [OF m Cons.prems(2)] by auto
  have sz: "fh_size h1 = fh_size h" using w(2) by (simp add: same_shape_def)
  have "mem_ok h1 (fh_size h1 * k' + off' + length (concat ps))"
    using Cons.prems(1) w(3) unfolding sz same_shape_mem_ok [OF w(2)] by (simp add: add.assoc)
  from Cons.IH [OF this] w(4) sz obtain h2 where h2: "write_pieces ps (k', off') h1 = Inr h2" "same_shape h1 h2"
    "\<And>a. byte_at h2 a = (if fh_size h * k + off + length p \<le> a \<and> a < fh_size h * k + off + length p + length (concat ps)
            then concat ps ! (a - (fh_size h * k + off + length p)) else byte_at h1 a)"
    using w(3) by auto
  have "byte_at h2 a = (if fh_size h * k + off \<le> a \<and> a < fh_size h * k + off + length (concat (p # ps))
            then concat (p # ps) ! (a - (fh_size h * k + off)) else byte_at h a)" for a
    using h2(3) [of a] w(5) [of a] by (auto simp: nth_append)
  moreover have "write_pieces (p # ps) (k, off) h = Inr h2" using w(1) h2(1) by simp
  moreover have "same_shape h h2" using w(2) h2(2) by (rule same_shape_trans)
  ultimately show ?case by blast
qed auto

lemma copy_loop_bytes:
  "mem_ok h (fh_size h * k + off + n) \<Longrightarrow> off \<le> fh_size h \<Longrightarrow>
   mem_ok src (fh_size src * k' + off' + n) \<Longrightarrow> off' \<le> fh_size src \<Longrightarrow>
     \<exists>h'. copy_loop n k off k' off' src h = Inr h' \<and> same_shape h h'
       \<and> (\<forall>a. byte_at h' a = (if fh_size h * k + off \<le> a \<and> a < fh_size h * k + off + n
            then byte_at src (fh_size src * k' + off' + (a - (fh_size h * k + off))) else byte_at h a))"
proof (induction n k off k' off' src h rule: copy_loop.induct)
  case (1 n k off k' off' src h)
  show ?case
  proof (cases "n = 0")
    case False
    have pos: "0 < fh_size h" "0 < fh_size src" using 1(2,4) by (simp_all add: mem_ok_def)
    obtain c where c: "fh_chunks h k = Some c" "length c = fh_size h"
      using mem_ok_chunk [OF 1(2), of k] False by auto
    obtain c' where c': "fh_chunks src k' = Some c'" "length c' = fh_size src"
      using mem_ok_chunk [OF 1(4), of k'] False by auto
    let ?cr = "fh_size h - off" and ?sr = "fh_size src - off'"
    define m where "m = copy_size n ?cr ?sr"
    have m: "m \<le> n" "off + m \<le> fh_size h" "off' + m \<le> fh_size src"
      using 1(3,5) by (auto simp: m_def copy_size_def)
    let ?bs = "take m (drop off' c')"
    let ?h = "put_chunk k off c ?bs h"
    have bs: "?bs = map (byte_at src) [fh_size src * k' + off'..<fh_size src * k' + off' + m]"
      by (rule chunk_slice [OF c' m(3)])
    have l: "off + length ?bs \<le> fh_size h" using bs m by simp
    note p = put_chunk_spec [OF c l pos(1)]
    have sz: "fh_size ?h = fh_size h" by (simp add: put_chunk_def)
    define k1 off1 k1' off1' where d: "k1 = (if ?cr - m = 0 then k + 1 else k)"
      "off1 = (if ?cr - m = 0 then 0 else off + m)" "k1' = (if ?sr - m = 0 then k' + 1 else k')"
      "off1' = (if ?sr - m = 0 then 0 else off' + m)"
    have pos1: "fh_size h * k1 + off1 = fh_size h * k + off + m" "off1 \<le> fh_size h"
      "fh_size src * k1' + off1' = fh_size src * k' + off' + m" "off1' \<le> fh_size src"
      using m 1(3,5) by (auto simp: d algebra_simps)
    have g: "\<not> (n = 0 \<or> fh_size h = 0 \<or> fh_size src = 0)" using False pos by simp
    have ok: "mem_ok ?h (fh_size ?h * k1 + off1 + (n - m))" "mem_ok src (fh_size src * k1' + off1' + (n - m))"
      using 1(2,4) m(1) pos1 unfolding sz same_shape_mem_ok [OF p(1)] by (simp_all add: add.assoc)
    note ih = 1(1) [OF g refl refl m_def, of c c', folded d, OF ok(1) _ ok(2) pos1(4)]
    obtain h' where r: "copy_loop (n - m) k1 off1 k1' off1' src ?h = Inr h'" "same_shape ?h h'"
      "\<And>a. byte_at h' a = (if fh_size h * k + off + m \<le> a \<and> a < fh_size h * k + off + n
          then byte_at src (fh_size src * k' + off' + m + (a - (fh_size h * k + off + m))) else byte_at ?h a)"
      using ih pos1(2) m(1) unfolding sz pos1 by auto
    have "copy_loop n k off k' off' src h = Inr h'"
    proof -
      have rc: "ReadChunk k h = Inr c" "ReadChunk k' src = Inr c'" using c c' by (simp_all add: ReadChunk_def)
      show ?thesis
        by (subst copy_loop.simps)
          (simp only: g if_False rc res_bind_def sum.case Let_def m_def [symmetric] d [symmetric] r(1))
    qed
    moreover have "same_shape h h'" using p(1) r(2) by (rule same_shape_trans)
    moreover have "byte_at h' a = (if fh_size h * k + off \<le> a \<and> a < fh_size h * k + off + n
            then byte_at src (fh_size src * k' + off' + (a - (fh_size h * k + off))) else byte_at h a)" for a
    proof -
      have lb: "length ?bs = m" using bs by simp
      have nb: "?bs ! j = byte_at src (fh_size src * k' + off' + j)" if "j < m" for j
        unfolding bs using that by simp
      consider "a < fh_size h * k + off" | "fh_size h * k + off \<le> a" "a < fh_size h * k + off + m"
        | "fh_size h * k + off + m \<le> a" by linarith
      then show ?thesis
      proof cases
        case 2
        then obtain j where j: "a = fh_size h * k + off + j" "j < m"
          by (metis le_Suc_ex nat_add_left_cancel_less)
        then show ?thesis using r(3) [of a] p(2) [of a] m(1,3) c'(2) lb nb [OF j(2)] by simp
      next
        case 3
        then have "fh_size src * k' + off' + m + (a - (fh_size h * k + off + m))
            = fh_size src * k' + off' + (a - (fh_size h * k + off))" by linarith
        with 3 show ?thesis using r(3) [of a] p(2) [of a] lb by auto
      qed (use r(3) [of a] p(2) [of a] in auto)
    qed
    ultimately show ?thesis by blast
  qed (use 1 in \<open>auto simp: copy_loop.simps\<close>)
qed

text \<open>
  Appending the pieces of an item one behind the other, and copying an item from another heap
  (whatever the chunk sizes of the two heaps), both store exactly the bytes of the item at the
  position they return.
\<close>

theorem heap_append_variants:
  assumes "heap_inv h" and "heap_fits h (concat ps)" and "heap_inv src" and "heap_stored pos n src"
    and "0 < n" and "fh_cross h \<or> n \<le> fh_size h"
  shows "(\<exists>q h'. AppendToHeap_pieces ps h = Inr (q, h') \<and> heap_inv h'
      \<and> heap_get q (length (concat ps)) h' = Inr (concat ps))
    \<and> (\<exists>q h'. AppendToHeap_copy src (fst pos) (snd pos) n h = Inr (q, h') \<and> heap_inv h'
      \<and> heap_get q n h' = heap_get pos n src)"
proof
  let ?n = "length (concat ps)"
  have sum: "sum_list (map length ps) = ?n" by (simp add: length_concat)
  obtain k off h1 where a: "Allocate ?n h = Inr ((k, off), h1)" "heap_inv h1" "keeps h h1" "off \<le> fh_size h"
    "total_size h1 = fh_size h * k + off + ?n"
    using Allocate_spec [OF assms(1), of ?n] assms(2) by (auto simp: heap_fits_def simp del: length_concat)
  have sz: "fh_size h1 = fh_size h" using a(3) by (simp add: keeps_def)
  have "mem_ok h1 (fh_size h1 * k + off + ?n)" using heap_inv_mem_ok [OF a(2)] a(5) sz by simp
  from write_pieces_bytes [OF this] a(4) sz obtain h2 where w: "write_pieces ps (k, off) h1 = Inr h2" "same_shape h1 h2"
    "\<And>x. fh_size h * k + off \<le> x \<Longrightarrow> x < fh_size h * k + off + ?n \<Longrightarrow> byte_at h2 x = concat ps ! (x - (fh_size h * k + off))"
    by auto
  have inv: "heap_inv h2" by (rule same_shape_inv [OF w(2) a(2)])
  have sz2: "fh_size h2 = fh_size h" using w(2) sz by (simp add: same_shape_def)
  have st: "heap_stored (k, off) ?n h2" using a(4,5) w(2) sz2 by (simp add: heap_stored_def)
  have "map (byte_at h2) [fh_size h * k + off..<fh_size h * k + off + ?n] = concat ps"
    by (rule nth_equalityI) (simp_all add: w(3))
  then have "heap_get (k, off) ?n h2 = Inr (concat ps)" using heap_get_bytes [OF inv st] sz2 by simp
  then show "\<exists>q h'. AppendToHeap_pieces ps h = Inr (q, h') \<and> heap_inv h' \<and> heap_get q ?n h' = Inr (concat ps)"
    using a(1) w(1) inv sum by (simp add: AppendToHeap_pieces_def del: length_concat)
next
  obtain k off h1 where a: "Allocate n h = Inr ((k, off), h1)" "heap_inv h1" "keeps h h1" "off \<le> fh_size h"
    "total_size h1 = fh_size h * k + off + n"
    using Allocate_spec [OF assms(1,5,6)] by auto
  have sz: "fh_size h1 = fh_size h" using a(3) by (simp add: keeps_def)
  have m1: "mem_ok h1 (fh_size h1 * k + off + n)" using heap_inv_mem_ok [OF a(2)] a(5) sz by simp
  have o1: "off \<le> fh_size h1" using a(4) sz by simp
  have m2: "mem_ok src (fh_size src * fst pos + snd pos + n)" and o2: "snd pos \<le> fh_size src"
    using mem_ok_mono [OF heap_inv_mem_ok [OF assms(3)]] assms(4) by (simp_all add: heap_stored_def)
  obtain h2 where w: "copy_loop n k off (fst pos) (snd pos) src h1 = Inr h2" "same_shape h1 h2"
    "\<And>x. fh_size h * k + off \<le> x \<Longrightarrow> x < fh_size h * k + off + n \<Longrightarrow>
       byte_at h2 x = byte_at src (fh_size src * fst pos + snd pos + (x - (fh_size h * k + off)))"
    using copy_loop_bytes [OF m1 o1 m2 o2] sz by auto
  have inv: "heap_inv h2" by (rule same_shape_inv [OF w(2) a(2)])
  have sz2: "fh_size h2 = fh_size h" using w(2) sz by (simp add: same_shape_def)
  have st: "heap_stored (k, off) n h2" using a(4,5) w(2) sz2 by (simp add: heap_stored_def)
  have "map (byte_at h2) [fh_size h * k + off..<fh_size h * k + off + n]
      = map (byte_at src) [fh_size src * fst pos + snd pos..<fh_size src * fst pos + snd pos + n]"
    by (rule nth_equalityI) (simp_all add: w(3))
  then have "heap_get (k, off) n h2 = heap_get pos n src"
    using heap_get_bytes [OF inv st] heap_get_bytes [OF assms(3,4)] sz2 by simp
  then show "\<exists>q h'. AppendToHeap_copy src (fst pos) (snd pos) n h = Inr (q, h') \<and> heap_inv h'
      \<and> heap_get q n h' = heap_get pos n src"
    using a(1) w(1) inv by (simp add: AppendToHeap_copy_def)
qed

theorem heap_append_variants_witness:
  "(\<exists>q h'. AppendToHeap_pieces [[1], [2, 3, 4]] (FixHeapManager_new 3 True (\<lambda>_ _. 0)) = Inr (q, h') \<and> heap_inv h'
      \<and> heap_get q 4 h' = Inr [1, 2, 3, 4])
    \<and> (\<exists>q h'. AppendToHeap_copy \<lparr>fh_size = 2, fh_cross = False, fh_chunks = [0 \<mapsto> [8, 9]], fh_idx = Some 0, fh_off = 2,
          fh_uninit = \<lambda>_ _. 0\<rparr> 0 0 2 (FixHeapManager_new 3 True (\<lambda>_ _. 0)) = Inr (q, h') \<and> heap_inv h')"
proof -
  let ?h = "FixHeapManager_new 3 True (\<lambda>_ _. 0)"
    and ?s = "\<lparr>fh_size = 2, fh_cross = False, fh_chunks = [0 \<mapsto> [8, 9]], fh_idx = Some 0, fh_off = 2, fh_uninit = \<lambda>_ _. 0\<rparr>"
  have "heap_fits ?h (concat [[1], [2, 3, 4]])" "fh_cross ?h" by (simp_all add: heap_fits_def FixHeapManager_new_def)
  moreover have "heap_inv ?s" "heap_stored (0, 0) 2 ?s" by (auto simp: heap_inv_def heap_stored_def total_size_def)
  ultimately show ?thesis
    using heap_append_variants [of ?h "[[1], [2, 3, 4]]" ?s "(0, 0)" 2] by (auto simp: numeral_eq_Suc)
qed

end
