(* ===== verification/Column_Data.thy ===== *)
theory Column_Data
  imports Data_Type Bitmask Fix_Heap
begin

text \<open>
  The serialised form of data blocks in \<^verbatim>\<open>src/storage/data_block.cpp\<close> and of their columns in
  \<^verbatim>\<open>src/storage/column_vector/column_vector.cpp\<close>, with the set-up of a column in
  \<^verbatim>\<open>vector_buffer.cpp\<close>.  Of the fixed-size buffer of a column only the bytes of its rows are part of
  the model, and of its heap the bytes in use; the rest is indeterminate and never read.
\<close>

section \<open>Column vectors\<close>

datatype column_vector_type = CV_kInvalid | CV_kFlat | CV_kConstant | CV_kCompactBit | CV_kHeterogeneous

definition ColumnVectorType_enumerators :: "column_vector_type list" where
  "ColumnVectorType_enumerators = [CV_kInvalid, CV_kFlat, CV_kConstant, CV_kCompactBit, CV_kHeterogeneous]"

fun ColumnVectorType_num :: "column_vector_type \<Rightarrow> nat" where
  "ColumnVectorType_num CV_kInvalid = 0"
| "ColumnVectorType_num CV_kFlat = 1"
| "ColumnVectorType_num CV_kConstant = 2"
| "ColumnVectorType_num CV_kCompactBit = 3"
| "ColumnVectorType_num CV_kHeterogeneous = 4"

definition ColumnVectorType_of_num :: "nat \<Rightarrow> column_vector_type option" where
  "ColumnVectorType_of_num n =
     (if n < length ColumnVectorType_enumerators then Some (ColumnVectorType_enumerators ! n) else None)"

lemma ColumnVectorType_of_num_num [simp]: "ColumnVectorType_of_num (ColumnVectorType_num t) = Some t"
  by (cases t) (simp_all add: ColumnVectorType_of_num_def ColumnVectorType_enumerators_def)

lemma ColumnVectorType_num_bound [simp]: "ColumnVectorType_num t < 256"
  by (cases t) simp_all

record vec_heap =
  vh_chunk_size :: nat
  vh_cross :: bool
  vh_bytes :: "byte list"

record column_vector =
  cv_data_type :: data_type
  cv_vector_type :: column_vector_type
  cv_type_size :: nat
  cv_capacity :: nat
  cv_tail :: nat
  cv_data :: "byte list"
  cv_heap :: "vec_heap option"
  cv_heap1 :: "vec_heap option"
  cv_nulls :: bitmask

definition DEFAULT_VECTOR_SIZE :: nat where
  "DEFAULT_VECTOR_SIZE = 8192"

definition DEFAULT_FIXLEN_CHUNK_SIZE :: nat where
  "DEFAULT_FIXLEN_CHUNK_SIZE = 65536"

definition DEFAULT_FIXLEN_TENSOR_CHUNK_SIZE :: nat where
  "DEFAULT_FIXLEN_TENSOR_CHUNK_SIZE = 512 * 1024 * 4"

datatype vector_buffer_type = VB_kInvalid | VB_kStandard | VB_kHeap | VB_kCompactBit | VB_kTensorHeap | VB_kSparseHeap

definition vector_buffer_types :: "logical_type \<Rightarrow> (vector_buffer_type \<times> vector_buffer_type) res" where
  "vector_buffer_types type =
     (if type = kBoolean then Inr (VB_kCompactBit, VB_kInvalid)
      else if type = kSparse then Inr (VB_kSparseHeap, VB_kInvalid)
      else if type = kVarchar then Inr (VB_kHeap, VB_kInvalid)
      else if type = kTensor then Inr (VB_kTensorHeap, VB_kInvalid)
      else if type = kTensorArray then Inr (VB_kHeap, VB_kTensorHeap)
      else if type \<in> set [kInvalid, kNull, kMissing]
      then Inl (UnrecoverableError ''Unexpected data type for column vector.'')
      else Inr (VB_kStandard, VB_kInvalid))"

definition new_heap :: "nat \<Rightarrow> bool \<Rightarrow> vec_heap" where
  "new_heap chunk_size allow_cross_chunk =
     \<lparr>vh_chunk_size = chunk_size, vh_cross = allow_cross_chunk, vh_bytes = []\<rparr>"

definition VectorBuffer_heap :: "vector_buffer_type \<Rightarrow> vec_heap option" where
  "VectorBuffer_heap buffer_type =
     (case buffer_type of
        VB_kHeap \<Rightarrow> Some (new_heap DEFAULT_FIXLEN_CHUNK_SIZE True)
      | VB_kTensorHeap \<Rightarrow> Some (new_heap DEFAULT_FIXLEN_TENSOR_CHUNK_SIZE False)
      | VB_kSparseHeap \<Rightarrow> Some (new_heap DEFAULT_FIXLEN_CHUNK_SIZE False)
      | _ \<Rightarrow> None)"

definition VectorBuffer_heap1 :: "vector_buffer_type \<Rightarrow> vec_heap option res" where
  "VectorBuffer_heap1 buffer_type_1 =
     (case buffer_type_1 of
        VB_kTensorHeap \<Rightarrow> Inr (Some (new_heap DEFAULT_FIXLEN_TENSOR_CHUNK_SIZE False))
      | VB_kInvalid \<Rightarrow> Inr None
      | _ \<Rightarrow> Inl (UnrecoverableError ''Unexpected buffer type for fix_heap_mgr_1_.''))"

function bit_ceil_from :: "nat \<Rightarrow> nat \<Rightarrow> nat" where
  "bit_ceil_from p n = (if p < n \<and> 0 < p then bit_ceil_from (2 * p) n else p)"
  by pat_completeness auto
termination
  by (relation "measure (\<lambda>(p, n). n - p)") auto

declare bit_ceil_from.simps [simp del]

definition bit_ceil :: "nat \<Rightarrow> nat" where
  "bit_ceil n = bit_ceil_from 1 n"

definition ColumnVector_Initialize :: "data_type \<Rightarrow> column_vector_type \<Rightarrow> nat \<Rightarrow> column_vector res" where
  "ColumnVector_Initialize data_type vector_type0 capacity =
     (if dt_type data_type = kInvalid
      then Inl (UnrecoverableError ''Attempt to initialize column vector to invalid type.'')
      else if vector_type0 = CV_kInvalid
      then Inl (UnrecoverableError ''Attempt to initialize column vector to invalid type.'')
      else
        let vector_type = (if dt_type data_type = kBoolean \<and> vector_type0 = CV_kFlat
                           then CV_kCompactBit else vector_type0)
        in res_bind (DataType_Size data_type) (\<lambda>size.
           res_bind (vector_buffer_types (dt_type data_type)) (\<lambda>(bt, bt1).
           res_bind (if bt = VB_kCompactBit then Inr None else VectorBuffer_heap1 bt1) (\<lambda>heap1.
           res_bind (Bitmask_Make (if vector_type = CV_kConstant then 8 else bit_ceil capacity)) (\<lambda>nulls.
             Inr \<lparr>cv_data_type = data_type, cv_vector_type = vector_type, cv_type_size = unat size,
                  cv_capacity = capacity, cv_tail = 0, cv_data = [],
                  cv_heap = (if bt = VB_kCompactBit then None else VectorBuffer_heap bt),
                  cv_heap1 = heap1, cv_nulls = nulls\<rparr>)))))"

text \<open>The size of the buffer for the fixed part of the rows.\<close>

definition buffer_size :: "column_vector \<Rightarrow> nat" where
  "buffer_size cv =
     (let rows = (if cv_vector_type cv = CV_kConstant then 1 else cv_capacity cv)
      in if dt_type (cv_data_type cv) = kBoolean then (rows + 7) div 8 else cv_type_size cv * rows)"

definition fixed_size :: "column_vector \<Rightarrow> nat" where
  "fixed_size cv =
     (if cv_vector_type cv = CV_kCompactBit then (cv_tail cv + 7) div 8 else cv_tail cv * cv_type_size cv)"

definition has_heap :: "logical_type \<Rightarrow> bool" where
  "has_heap type \<longleftrightarrow> type \<in> set [kVarchar, kTensor, kTensorArray, kSparse]"

definition heap_size :: "vec_heap option \<Rightarrow> i32 res" where
  "heap_size heap =
     (case heap of None \<Rightarrow> Inl UndefinedBehaviour | Some h \<Rightarrow> Inr (4 + word_of_nat (length (vh_bytes h))))"

definition supported_vector_type :: "column_vector_type \<Rightarrow> bool" where
  "supported_vector_type t \<longleftrightarrow> t = CV_kFlat \<or> t = CV_kConstant \<or> t = CV_kCompactBit"

definition ColumnVector_GetSizeInBytes :: "column_vector \<Rightarrow> i32 res" where
  "ColumnVector_GetSizeInBytes cv =
     (if \<not> supported_vector_type (cv_vector_type cv)
      then Inl (UnrecoverableError (''Not supported vector_type '' @ nat_digits (ColumnVectorType_num (cv_vector_type cv))))
      else sz_sum
        [DataType_GetSizeInBytes (cv_data_type cv), Inr 1, Inr 4, Inr (word_of_nat (fixed_size cv)),
         (if has_heap (dt_type (cv_data_type cv)) then heap_size (cv_heap cv) else Inr 0),
         (if dt_type (cv_data_type cv) = kTensorArray then heap_size (cv_heap1 cv) else Inr 0),
         Bitmask_GetSizeInBytes (cv_nulls cv)])"

definition heap_write :: "vec_heap option \<Rightarrow> byte list res" where
  "heap_write heap =
     (case heap of
        None \<Rightarrow> Inl UndefinedBehaviour
      | Some h \<Rightarrow> Inr (WriteBufAdv (word_of_nat (length (vh_bytes h)) :: i32) @ vh_bytes h))"

definition ColumnVector_WriteAdv :: "column_vector \<Rightarrow> byte list res" where
  "ColumnVector_WriteAdv cv =
     (if \<not> supported_vector_type (cv_vector_type cv)
      then Inl (UnrecoverableError (''Not supported vector_type '' @ nat_digits (ColumnVectorType_num (cv_vector_type cv))))
      else if dt_type (cv_data_type cv) = kHugeInt
      then Inl (UnrecoverableError ''Attempt to serialize huge integer type'')
      else if length (cv_data cv) < fixed_size cv then Inl UndefinedBehaviour
      else wr_concat
        [DataType_WriteAdv (cv_data_type cv),
         Inr (WriteBufAdv (word_of_nat (ColumnVectorType_num (cv_vector_type cv)) :: i8)),
         Inr (WriteBufAdv (word_of_nat (cv_tail cv) :: i32)),
         Inr (take (fixed_size cv) (cv_data cv)),
         (if has_heap (dt_type (cv_data_type cv)) then heap_write (cv_heap cv) else Inr []),
         (if dt_type (cv_data_type cv) = kTensorArray then heap_write (cv_heap1 cv) else Inr []),
         Bitmask_WriteAdv (cv_nulls cv)])"

text \<open>\<^verbatim>\<open>memcpy\<close> of \<open>n\<close> bytes from the buffer into \<open>room\<close> bytes.\<close>

definition rd_bytes :: "nat \<Rightarrow> int \<Rightarrow> byte list reader" where
  "rd_bytes room n buf =
     (if n < 0 \<or> room < nat n \<or> length buf < nat n then Inl UndefinedBehaviour
      else Inr (take (nat n) buf, drop (nat n) buf))"

text \<open>
  \<^verbatim>\<open>AppendToHeap\<close> on the heap of a column that was just initialised.
\<close>

definition vec_heap_append :: "byte list \<Rightarrow> vec_heap \<Rightarrow> vec_heap res" where
  "vec_heap_append bs h =
     (if bs = [] then Inl (UnrecoverableError (''Attempt to allocate memory with size: '' @ nat_digits (length bs) @ '' as the string heap''))
      else if \<not> vh_cross h \<and> length bs > vh_chunk_size h
      then Inl (UnrecoverableError (''Attempt to allocate memory with size: '' @ nat_digits (length bs) @ '' as the tensor heap''))
      else Inr (h\<lparr>vh_bytes := bs\<rparr>))"

definition heap_read :: "vec_heap option \<Rightarrow> vec_heap option reader" where
  "heap_read heap =
     rd_bind ReadBufAdv (\<lambda>heap_len :: i32.
       if sint heap_len > 0 then
         (case heap of
            None \<Rightarrow> rd_fail UndefinedBehaviour
          | Some h \<Rightarrow>
              rd_bind (rd_bytes (nat (sint heap_len)) (sint heap_len)) (\<lambda>bs.
              rd_bind (rd_lift (vec_heap_append bs h)) (\<lambda>h. rd_return (Some h))))
       else rd_return heap)"

definition i32_mult :: "int \<Rightarrow> int \<Rightarrow> int res" where
  "i32_mult a b = (if - (2 ^ 31) \<le> a * b \<and> a * b < 2 ^ 31 then Inr (a * b) else Inl UndefinedBehaviour)"

definition compact_bytes :: "i32 \<Rightarrow> int res" where
  "compact_bytes tail_index =
     (let n = sint tail_index + 7
      in if n \<ge> 2 ^ 31 then Inl UndefinedBehaviour
         else Inr (if n < 0 then - (- n div 8) else n div 8))"

definition ColumnVector_ReadAdv :: "int \<Rightarrow> column_vector reader" where
  "ColumnVector_ReadAdv maxbytes =
     rd_bind rd_left (\<lambda>start.
     rd_bind (DataType_ReadAdv maxbytes) (\<lambda>data_type.
     rd_bind (rd_enum TYPE(8 word) ColumnVectorType_of_num) (\<lambda>vector_type.
     rd_bind (rd_lift (ColumnVector_Initialize data_type vector_type DEFAULT_VECTOR_SIZE)) (\<lambda>cv.
     rd_bind ReadBufAdv (\<lambda>tail_index :: i32.
     rd_bind (rd_lift (if vector_type = CV_kCompactBit then compact_bytes tail_index
                       else i32_mult (sint tail_index) (sint (word_of_nat (cv_type_size cv) :: i32)))) (\<lambda>n.
     rd_bind (rd_bytes (buffer_size cv) n) (\<lambda>data.
     rd_bind (if has_heap (dt_type data_type) then heap_read (cv_heap cv) else rd_return (cv_heap cv)) (\<lambda>heap.
     rd_bind (if dt_type data_type = kTensorArray then heap_read (cv_heap1 cv)
              else rd_return (cv_heap1 cv)) (\<lambda>heap1.
     rd_bind rd_left (\<lambda>now.
     if ptr_room maxbytes start now < 0
     then rd_fail (UnrecoverableError ''ptr goes out of range when reading ColumnVector'')
     else rd_bind (Bitmask_ReadAdv (ptr_room maxbytes start now)) (\<lambda>nulls.
     rd_bind rd_left (\<lambda>now.
     if ptr_room maxbytes start now < 0
     then rd_fail (UnrecoverableError ''ptr goes out of range when reading ColumnVector'')
     else rd_return (cv\<lparr>cv_tail := unat (scast tail_index :: u64), cv_data := data, cv_heap := heap,
                         cv_heap1 := heap1, cv_nulls := nulls\<rparr>)))))))))))))"

section \<open>Data blocks\<close>

record data_block =
  db_columns :: "column_vector list"
  db_capacity :: nat
  db_row_count :: u16

text \<open>The loop of \<^verbatim>\<open>Finalize\<close>; the flag says that a column that is not constant was seen.\<close>

fun Finalize_loop :: "column_vector list \<Rightarrow> bool \<Rightarrow> nat \<Rightarrow> nat res" where
  "Finalize_loop [] first_flat row_count = Inr row_count"
| "Finalize_loop (cv # cvs) first_flat row_count =
     (if cv_vector_type cv = CV_kConstant then Finalize_loop cvs first_flat row_count
      else if first_flat \<and> row_count \<noteq> cv_tail cv
      then Inl (UnrecoverableError ''Column vectors in same data block have different size.'')
      else Finalize_loop cvs True (cv_tail cv))"

definition DataBlock_Init :: "column_vector list \<Rightarrow> data_block res" where
  "DataBlock_Init input_vectors =
     (if input_vectors = [] then Inl (UnrecoverableError ''Empty column vectors.'')
      else res_bind (Finalize_loop input_vectors False 0) (\<lambda>row_count.
             Inr \<lparr>db_columns = input_vectors, db_capacity = cv_capacity (hd input_vectors),
                  db_row_count = word_of_nat row_count\<rparr>))"

definition DataBlock_GetSizeInBytes :: "data_block \<Rightarrow> i32 res" where
  "DataBlock_GetSizeInBytes db = sz_sum (Inr 4 # map ColumnVector_GetSizeInBytes (db_columns db))"

definition DataBlock_WriteAdv :: "data_block \<Rightarrow> byte list res" where
  "DataBlock_WriteAdv db =
     wr_concat (Inr (WriteBufAdv (word_of_nat (length (db_columns db)) :: i32))
                # map ColumnVector_WriteAdv (db_columns db))"

definition DataBlock_ReadAdv_column :: "int \<Rightarrow> nat \<Rightarrow> column_vector reader" where
  "DataBlock_ReadAdv_column maxbytes start =
     rd_bind rd_left (\<lambda>now.
       if ptr_room maxbytes start now \<le> 0
       then rd_fail (UnrecoverableError ''ptr goes out of range when reading DataBlock'')
       else ColumnVector_ReadAdv (ptr_room maxbytes start now))"

definition DataBlock_ReadAdv :: "int \<Rightarrow> data_block reader" where
  "DataBlock_ReadAdv maxbytes =
     rd_bind rd_left (\<lambda>start.
     rd_bind ReadBufAdv (\<lambda>column_count :: i32.
     rd_bind (rd_times (nat (sint column_count)) (DataBlock_ReadAdv_column maxbytes start)) (\<lambda>columns.
     rd_bind (rd_lift (DataBlock_Init columns)) (\<lambda>block.
     rd_bind rd_left (\<lambda>now.
       if ptr_room maxbytes start now < 0
       then rd_fail (UnrecoverableError ''ptr goes out of range when reading DataBlock'')
       else rd_return block)))))"

section \<open>Well-formed blocks and their round trip\<close>

definition valid_heap :: "vec_heap option \<Rightarrow> vec_heap option \<Rightarrow> bool" where
  "valid_heap fresh heap \<longleftrightarrow>
     (case (fresh, heap) of
        (None, None) \<Rightarrow> True
      | (Some a, Some h) \<Rightarrow>
          h = a\<lparr>vh_bytes := vh_bytes h\<rparr> \<and> length (vh_bytes h) < 2 ^ 31
          \<and> (vh_cross a \<or> length (vh_bytes h) \<le> vh_chunk_size a)
      | _ \<Rightarrow> False)"

definition valid_column_vector :: "column_vector \<Rightarrow> bool" where
  "valid_column_vector cv \<longleftrightarrow>
     valid_data_type (cv_data_type cv) \<and> dt_type (cv_data_type cv) \<noteq> kHugeInt
     \<and> supported_vector_type (cv_vector_type cv)
     \<and> (case ColumnVector_Initialize (cv_data_type cv) (cv_vector_type cv) DEFAULT_VECTOR_SIZE of
          Inl _ \<Rightarrow> False
        | Inr fresh \<Rightarrow>
            cv = fresh\<lparr>cv_tail := cv_tail cv, cv_data := cv_data cv, cv_heap := cv_heap cv,
                       cv_heap1 := cv_heap1 cv, cv_nulls := cv_nulls cv\<rparr>
            \<and> valid_heap (cv_heap fresh) (cv_heap cv) \<and> valid_heap (cv_heap1 fresh) (cv_heap1 cv))
     \<and> cv_tail cv + 7 < 2 ^ 31 \<and> cv_type_size cv < 2 ^ 31 \<and> fixed_size cv < 2 ^ 31
     \<and> length (cv_data cv) = fixed_size cv \<and> fixed_size cv \<le> buffer_size cv
     \<and> valid_bitmask (cv_nulls cv)"

definition valid_data_block :: "data_block \<Rightarrow> bool" where
  "valid_data_block db \<longleftrightarrow>
     DataBlock_Init (db_columns db) = Inr db \<and> length (db_columns db) < 2 ^ 31
     \<and> list_all valid_column_vector (db_columns db)"

lemma Initialize_fresh:
  assumes "ColumnVector_Initialize dt vt n = Inr cv"
  shows "\<And>a. cv_heap cv = Some a \<Longrightarrow> vh_bytes a = []" and "\<And>a. cv_heap1 cv = Some a \<Longrightarrow> vh_bytes a = []"
    and "has_heap (dt_type dt) \<Longrightarrow> cv_heap cv \<noteq> None" and "dt_type dt = kTensorArray \<Longrightarrow> cv_heap1 cv \<noteq> None"
    and "\<not> has_heap (dt_type dt) \<Longrightarrow> cv_heap cv = None" and "dt_type dt \<noteq> kTensorArray \<Longrightarrow> cv_heap1 cv = None"
  using assms
  by (auto simp: ColumnVector_Initialize_def vector_buffer_types_def VectorBuffer_heap_def VectorBuffer_heap1_def
      has_heap_def new_heap_def Let_def res_bind_eq_Inr split: if_splits vector_buffer_type.splits)

lemma heap_codec:
  assumes "valid_heap (Some a) h" and "vh_bytes a = []"
  obtains bs where "heap_write h = Inr bs" and "heap_size h = Inr (word_of_nat (length bs))"
    and "\<And>rest. heap_read (Some a) (bs @ rest) = Inr (h, rest)"
proof -
  obtain b where h: "h = Some b" and b: "b = a\<lparr>vh_bytes := vh_bytes b\<rparr>" "length (vh_bytes b) < 2 ^ 31"
    "vh_cross a \<or> length (vh_bytes b) \<le> vh_chunk_size a"
    using assms(1) by (cases h) (auto simp: valid_heap_def)
  let ?bs = "WriteBufAdv (word_of_nat (length (vh_bytes b)) :: i32) @ vh_bytes b"
  have w: "heap_write h = Inr ?bs" by (simp add: heap_write_def h)
  have s: "heap_size h = Inr (word_of_nat (length ?bs))"
    by (simp add: heap_size_def h)
  have r: "heap_read (Some a) (?bs @ rest) = Inr (h, rest)" for rest
  proof (cases "vh_bytes b = []")
    case True
    then have "b = a" using b(1) assms(2) by (cases a, cases b) simp
    then show ?thesis using True by (simp add: heap_read_def h rd_bind_def rd_return_def)
  next
    case False
    have "vec_heap_append (vh_bytes b) a = Inr b"
      using False b(3) b(1) [symmetric] by (auto simp: vec_heap_append_def)
    moreover have "rd_bytes (length (vh_bytes b)) (int (length (vh_bytes b))) (vh_bytes b @ rest) = Inr (vh_bytes b, rest)"
      by (simp add: rd_bytes_def)
    ultimately show ?thesis
      using False b(2) by (simp add: heap_read_def h rd_bind_def rd_return_def rd_lift_def sint_word_of_nat32)
  qed
  show ?thesis by (rule that [OF w s r])
qed

lemma opt_heap_codec:
  assumes "valid_heap fresh h" and "\<And>a. fresh = Some a \<Longrightarrow> vh_bytes a = []"
    and "p \<Longrightarrow> fresh \<noteq> None" and "\<not> p \<Longrightarrow> fresh = None"
  obtains bs where "(if p then heap_write h else Inr []) = Inr bs"
    and "(if p then heap_size h else Inr 0) = Inr (word_of_nat (length bs))"
    and "\<And>rest. (if p then heap_read fresh else rd_return fresh) (bs @ rest) = Inr (h, rest)"
proof (cases fresh)
  case None
  then have "h = None" "\<not> p" using assms by (auto simp: valid_heap_def split: option.splits)
  then show ?thesis using that [of "[]"] None by (simp add: rd_return_def)
next
  case (Some a)
  then have p using assms(4) by auto
  obtain bs where "heap_write h = Inr bs" and "heap_size h = Inr (word_of_nat (length bs))"
    and "\<And>rest. heap_read (Some a) (bs @ rest) = Inr (h, rest)"
    using heap_codec [of a h] assms(1,2) Some by auto
  then show ?thesis using that [of bs] \<open>p\<close> Some by simp
qed

lemma fixed_part_length:
  assumes "cv_tail cv + 7 < 2 ^ 31" and "cv_type_size cv < 2 ^ 31" and "fixed_size cv < 2 ^ 31"
  shows "(if cv_vector_type cv = CV_kCompactBit then compact_bytes (word_of_nat (cv_tail cv))
          else i32_mult (sint (word_of_nat (cv_tail cv) :: i32)) (sint (word_of_nat (cv_type_size cv) :: i32)))
        = Inr (int (fixed_size cv))"
proof -
  have t: "sint (word_of_nat (cv_tail cv) :: i32) = int (cv_tail cv)"
    and s: "sint (word_of_nat (cv_type_size cv) :: i32) = int (cv_type_size cv)"
    using assms by (simp_all add: sint_word_of_nat32)
  show ?thesis
  proof (cases "cv_vector_type cv = CV_kCompactBit")
    case True
    then show ?thesis using assms(1) t by (simp add: compact_bytes_def fixed_size_def Let_def zdiv_int)
  next
    case False
    then have "int (cv_tail cv) * int (cv_type_size cv) < 2 ^ 31"
      using assms(3) by (simp add: fixed_size_def flip: of_nat_mult)
    moreover have "- (2 ^ 31) \<le> int (cv_tail cv) * int (cv_type_size cv)"
      by (rule order_trans [of _ 0]) simp_all
    ultimately show ?thesis using False t s by (simp add: i32_mult_def fixed_size_def)
  qed
qed

lemma unat_scast_tail: "n < 2 ^ 31 \<Longrightarrow> unat (scast (word_of_nat n :: i32) :: u64) = n"
  by (simp add: scast_eq sint_word_of_nat32 unsigned_of_nat take_bit_nat_eq_self_iff)

lemma ColumnVector_codec:
  assumes "valid_column_vector cv"
  shows "\<exists>bs. ColumnVector_WriteAdv cv = Inr bs
    \<and> (\<forall>m rest. int (length bs) \<le> m \<longrightarrow> ColumnVector_ReadAdv m (bs @ rest) = Inr (cv, rest))
    \<and> ColumnVector_GetSizeInBytes cv = Inr (word_of_nat (length bs)) \<and> bs \<noteq> []"
proof -
  let ?dt = "cv_data_type cv" and ?vt = "cv_vector_type cv"
  have v: "valid_data_type ?dt" "dt_type ?dt \<noteq> kHugeInt" "supported_vector_type ?vt"
    "cv_tail cv + 7 < 2 ^ 31" "cv_type_size cv < 2 ^ 31" "fixed_size cv < 2 ^ 31"
    "length (cv_data cv) = fixed_size cv" "fixed_size cv \<le> buffer_size cv" "valid_bitmask (cv_nulls cv)"
    using assms by (simp_all add: valid_column_vector_def)
  obtain fresh where i: "ColumnVector_Initialize ?dt ?vt DEFAULT_VECTOR_SIZE = Inr fresh"
    and cv: "cv = fresh\<lparr>cv_tail := cv_tail cv, cv_data := cv_data cv, cv_heap := cv_heap cv,
                       cv_heap1 := cv_heap1 cv, cv_nulls := cv_nulls cv\<rparr>"
    and h: "valid_heap (cv_heap fresh) (cv_heap cv)" "valid_heap (cv_heap1 fresh) (cv_heap1 cv)"
    using assms by (auto simp: valid_column_vector_def split: sum.splits)
  obtain hb where hb: "(if has_heap (dt_type ?dt) then heap_write (cv_heap cv) else Inr []) = Inr hb"
    "(if has_heap (dt_type ?dt) then heap_size (cv_heap cv) else Inr 0) = Inr (word_of_nat (length hb))"
    "\<And>rest. (if has_heap (dt_type ?dt) then heap_read (cv_heap fresh) else rd_return (cv_heap fresh)) (hb @ rest)
       = Inr (cv_heap cv, rest)"
    using opt_heap_codec [OF h(1) Initialize_fresh(1,3,5) [OF i]] by blast
  obtain hb1 where hb1: "(if dt_type ?dt = kTensorArray then heap_write (cv_heap1 cv) else Inr []) = Inr hb1"
    "(if dt_type ?dt = kTensorArray then heap_size (cv_heap1 cv) else Inr 0) = Inr (word_of_nat (length hb1))"
    "\<And>rest. (if dt_type ?dt = kTensorArray then heap_read (cv_heap1 fresh) else rd_return (cv_heap1 fresh)) (hb1 @ rest)
       = Inr (cv_heap1 cv, rest)"
    using opt_heap_codec [OF h(2) Initialize_fresh(2,4,6) [OF i]] by blast
  obtain tb where tb: "DataType_WriteAdv ?dt = Inr tb" using data_type_codec.enc_ok [OF v(1)] by blast
  obtain nb where nb: "Bitmask_WriteAdv (cv_nulls cv) = Inr nb" using bitmask_codec.enc_ok [OF v(9)] by blast
  define bs where "bs = tb @ WriteBufAdv (word_of_nat (ColumnVectorType_num ?vt) :: i8)
      @ WriteBufAdv (word_of_nat (cv_tail cv) :: i32) @ cv_data cv @ hb @ hb1 @ nb"
  have "ColumnVector_WriteAdv cv = Inr bs"
    using v by (simp add: ColumnVector_WriteAdv_def hb hb1 tb nb bs_def)
  moreover have "ColumnVector_GetSizeInBytes cv = Inr (word_of_nat (length bs))"
    using v by (simp add: ColumnVector_GetSizeInBytes_def hb hb1 data_type_codec.size_law [OF v(1) tb]
        bitmask_codec.size_law [OF v(9) nb] bs_def)
  moreover have "bs \<noteq> []" by (simp add: bs_def flip: length_greater_0_conv)
  moreover have "ColumnVector_ReadAdv m (bs @ rest) = Inr (cv, rest)" if m: "int (length bs) \<le> m" for m rest
  proof -
    define start where "start = length (bs @ rest)"
    have size: "cv_type_size fresh = cv_type_size cv" "buffer_size fresh = buffer_size cv"
      by (subst cv, simp add: buffer_size_def)+
    have data: "rd_bytes (buffer_size cv) (int (fixed_size cv)) (cv_data cv @ more) = Inr (cv_data cv, more)" for more
      using v(7,8) by (simp add: rd_bytes_def)
    have room: "\<not> ptr_room m start (length (nb @ rest)) < 0" "\<not> ptr_room m start (length rest) < 0"
      "int (length nb) \<le> ptr_room m start (length (nb @ rest))" "int (length tb) \<le> m"
      using m by (simp_all add: ptr_room_def start_def bs_def)
    have "rd_left (bs @ rest) = Inr (start, bs @ rest)" by (simp add: rd_left_def start_def)
    moreover have "fresh\<lparr>cv_tail := unat (scast (word_of_nat (cv_tail cv) :: i32) :: u64), cv_data := cv_data cv,
        cv_heap := cv_heap cv, cv_heap1 := cv_heap1 cv, cv_nulls := cv_nulls cv\<rparr> = cv"
      using cv v(4) by (simp add: unat_scast_tail)
    moreover have "rd_enum TYPE(8 word) ColumnVectorType_of_num
        (WriteBufAdv (word_of_nat (ColumnVectorType_num ?vt) :: i8) @ more) = Inr (?vt, more)" for more
      by (rule rd_enum_WriteBufAdv(1)) simp_all
    ultimately show ?thesis
      unfolding ColumnVector_ReadAdv_def bs_def append_assoc
      by (simp only: rd_bind_Inr data_type_codec.dec_enc [OF v(1) tb room(4)]
          i rd_lift_simps
          ReadBufAdv_WriteBufAdv size fixed_part_length [OF v(4-6)] data hb(3) hb1(3) rd_left_apply room if_False
          bitmask_codec.dec_enc [OF v(9) nb room(3)] rd_return_def)
  qed
  ultimately show ?thesis by blast
qed

interpretation column_vector_codec:
  sized_codec valid_column_vector ColumnVector_WriteAdv ColumnVector_ReadAdv ColumnVector_GetSizeInBytes
  by unfold_locales (use ColumnVector_codec in fastforce)+

lemma read_columns:
  assumes "list_all valid_column_vector cs" and "map ColumnVector_WriteAdv cs = map Inr bss"
    and "int start - int (length rest) \<le> m" and "length (concat bss @ rest) \<le> start"
  shows "rd_times (length cs) (DataBlock_ReadAdv_column m start) (concat bss @ rest) = Inr (cs, rest)"
  using assms
proof (induction cs arbitrary: bss)
  case (Cons c cs)
  then obtain b bss' where bss: "bss = b # bss'" and b: "ColumnVector_WriteAdv c = Inr b" by auto
  have vc: "valid_column_vector c" using Cons.prems by simp
  have ne: "0 < length b" using ColumnVector_codec [OF vc] b by auto
  have room: "int (length b) \<le> ptr_room m start (length (b @ concat bss' @ rest))"
    using Cons.prems by (simp add: ptr_room_def bss)
  then have "\<not> ptr_room m start (length (b @ concat bss' @ rest)) \<le> 0" using ne by linarith
  then have "DataBlock_ReadAdv_column m start (b @ concat bss' @ rest) = Inr (c, concat bss' @ rest)"
    unfolding DataBlock_ReadAdv_column_def
    by (simp only: rd_bind_Inr rd_left_apply if_False column_vector_codec.dec_enc [OF vc b room])
  moreover have "rd_times (length cs) (DataBlock_ReadAdv_column m start) (concat bss' @ rest) = Inr (cs, rest)"
    using Cons bss by simp
  ultimately show ?case by (simp add: bss rd_bind_def rd_return_def)
qed (simp add: rd_return_def)

lemma DataBlock_codec:
  assumes "valid_data_block db"
  shows "\<exists>bs. DataBlock_WriteAdv db = Inr bs
    \<and> (\<forall>m rest. int (length bs) \<le> m \<longrightarrow> DataBlock_ReadAdv m (bs @ rest) = Inr (db, rest))
    \<and> DataBlock_GetSizeInBytes db = Inr (word_of_nat (length bs))"
proof -
  let ?cs = "db_columns db"
  have v: "DataBlock_Init ?cs = Inr db" "length ?cs < 2 ^ 31" "list_all valid_column_vector ?cs"
    using assms by (simp_all add: valid_data_block_def)
  define b where "b c = projr (ColumnVector_WriteAdv c)" for c
  have b: "ColumnVector_WriteAdv c = Inr (b c)" "ColumnVector_GetSizeInBytes c = Inr (word_of_nat (length (b c)))"
    if "c \<in> set ?cs" for c
    using ColumnVector_codec [of c] v(3) that by (auto simp: b_def list_all_iff)
  define bs where "bs = WriteBufAdv (word_of_nat (length ?cs) :: i32) @ concat (map b ?cs)"
  have "DataBlock_WriteAdv db = Inr bs"
    using wr_concat_map [of ?cs ColumnVector_WriteAdv b] b(1) by (simp add: DataBlock_WriteAdv_def bs_def)
  moreover have "DataBlock_GetSizeInBytes db = Inr (word_of_nat (length bs))"
    using sz_sum_map [of ?cs ColumnVector_GetSizeInBytes b] b(2) by (simp add: DataBlock_GetSizeInBytes_def bs_def)
  moreover have "DataBlock_ReadAdv m (bs @ rest) = Inr (db, rest)" if m: "int (length bs) \<le> m" for m rest
  proof -
    define start where "start = length (bs @ rest)"
    have n: "nat (sint (word_of_nat (length ?cs) :: i32)) = length ?cs"
      using v(2) by (simp add: sint_word_of_nat32)
    have cols: "rd_times (length ?cs) (DataBlock_ReadAdv_column m start) (concat (map b ?cs) @ rest) = Inr (?cs, rest)"
      using b(1) m by (intro read_columns [OF v(3)]) (simp_all add: start_def bs_def)
    have room: "\<not> ptr_room m start (length rest) < 0"
      using m by (simp add: ptr_room_def start_def bs_def)
    have "rd_left (bs @ rest) = Inr (start, bs @ rest)" by (simp add: rd_left_def start_def)
    then show ?thesis
      unfolding DataBlock_ReadAdv_def bs_def append_assoc
      by (simp only: rd_bind_Inr ReadBufAdv_WriteBufAdv n cols v(1) rd_lift_simps rd_return_def rd_left_apply
          room if_False)
  qed
  ultimately show ?thesis by blast
qed

interpretation data_block_codec:
  sized_codec valid_data_block DataBlock_WriteAdv DataBlock_ReadAdv DataBlock_GetSizeInBytes
  by unfold_locales (use DataBlock_codec in fastforce)+

text \<open>
  C34: A data block written to the log is read back as the same block, whatever follows it, from the
  number of bytes \<^verbatim>\<open>GetSizeInBytes\<close> announces.
\<close>

theorem DataBlock_round_trip:
  assumes "valid_data_block db"
  shows "\<exists>bs. DataBlock_WriteAdv db = Inr bs
    \<and> (\<forall>m rest. int (length bs) \<le> m \<longrightarrow> DataBlock_ReadAdv m (bs @ rest) = Inr (db, rest))
    \<and> DataBlock_GetSizeInBytes db = Inr (word_of_nat (length bs))"
  using data_block_codec.enc_ok [OF assms] data_block_codec.dec_enc [OF assms]
    data_block_codec.size_law [OF assms] by blast

definition two_names :: column_vector where
  "two_names =
     \<lparr>cv_data_type = DataType_new kVarchar None, cv_vector_type = CV_kFlat, cv_type_size = 16,
      cv_capacity = 8192, cv_tail = 2, cv_data = replicate 32 7,
      cv_heap = Some \<lparr>vh_chunk_size = 65536, vh_cross = True, vh_bytes = [1, 2, 3]\<rparr>, cv_heap1 = None,
      cv_nulls = \<lparr>bm_count = 8192, bm_data = None\<rparr>\<rparr>"

lemma bit_ceil_8192: "bit_ceil 8192 = 8192"
  by (simp add: bit_ceil_def bit_ceil_from.simps)

lemma power_of_2_8192: "power_of_2 8192"
  by (simp add: power_of_2_def)

lemma Bitmask_Make_8192: "Bitmask_Make 8192 = Inr \<lparr>bm_count = 8192, bm_data = None\<rparr>"
  by (simp add: Bitmask_Make_def Bitmask_Initialize_def Bitmask_empty_def power_of_2_8192)

lemma valid_bitmask_8192: "valid_bitmask \<lparr>bm_count = 8192, bm_data = None\<rparr>"
  by (simp add: valid_bitmask_def bm_inv_def Bitmask_norm_def power_of_2_8192)

lemma Initialize_two_names:
  "ColumnVector_Initialize (cv_data_type two_names) (cv_vector_type two_names) DEFAULT_VECTOR_SIZE
     = Inr (two_names\<lparr>cv_tail := 0, cv_data := [], cv_heap := Some (new_heap 65536 True)\<rparr>)"
proof -
  have "LogicalTypeWidth kVarchar = 16" by code_simp
  then show ?thesis
    by (simp add: ColumnVector_Initialize_def DataType_Size_def DataType_new_def vector_buffer_types_def
        VectorBuffer_heap_def VectorBuffer_heap1_def DEFAULT_VECTOR_SIZE_def DEFAULT_FIXLEN_CHUNK_SIZE_def
        bit_ceil_8192 two_names_def Bitmask_Make_8192)
qed

lemma valid_two_names: "valid_column_vector two_names"
  unfolding valid_column_vector_def Initialize_two_names
  using valid_bitmask_8192
  by (simp add: two_names_def valid_data_type_def valid_type_info_def DataType_new_def fixed_size_def buffer_size_def
       supported_vector_type_def valid_heap_def new_heap_def)

theorem DataBlock_round_trip_witness:
  "valid_data_block \<lparr>db_columns = [two_names, two_names], db_capacity = 8192, db_row_count = 2\<rparr>
   \<and> (\<exists>bs. DataBlock_WriteAdv \<lparr>db_columns = [two_names, two_names], db_capacity = 8192, db_row_count = 2\<rparr> = Inr bs
      \<and> DataBlock_ReadAdv (int (length bs)) (bs @ [9])
          = Inr (\<lparr>db_columns = [two_names, two_names], db_capacity = 8192, db_row_count = 2\<rparr>, [9]))"
proof -
  have "valid_data_block \<lparr>db_columns = [two_names, two_names], db_capacity = 8192, db_row_count = 2\<rparr>"
    using valid_two_names by (simp add: valid_data_block_def DataBlock_Init_def two_names_def)
  with DataBlock_round_trip [OF this] show ?thesis by blast
qed

section \<open>The linear view of a heap\<close>

definition heap_view :: "fix_heap \<Rightarrow> vec_heap" where
  "heap_view h =
     \<lparr>vh_chunk_size = fh_size h, vh_cross = fh_cross h, vh_bytes = map (byte_at h) [0..<total_size h]\<rparr>"

lemma heap_view_new [simp]: "heap_view (FixHeapManager_new n cross uninit) = new_heap n cross"
  by (simp add: heap_view_def new_heap_def FixHeapManager_new_def total_size_def)

lemma AppendToHeap_too_long:
  assumes "fh_idx h = None" and "\<not> heap_fits h bs"
  shows "\<exists>e. AppendToHeap bs h = Inl e \<and> vec_heap_append bs (heap_view h) = Inl e"
  using assms
  by (cases "bs = []") (auto simp: heap_fits_def AppendToHeap_def Allocate_def vec_heap_append_def heap_view_def
      emplace_chunk_def Let_def)

lemma AppendToHeap_first:
  assumes "heap_inv h" and "fh_idx h = None" and "AppendToHeap bs h = Inr (pos, h')"
  shows "pos = (0, 0)"
  using assms
  by (auto simp: AppendToHeap_def Allocate_def Let_def res_bind_eq_Inr heap_inv_def emplace_chunk_def
      split: if_splits prod.splits)

lemma AppendToHeap_fresh:
  assumes inv: "heap_inv h" and fresh: "fh_idx h = None" and fits: "heap_fits h bs"
  shows "\<exists>h'. AppendToHeap bs h = Inr ((0, 0), h') \<and> heap_inv h' \<and> heap_view h' = heap_view h\<lparr>vh_bytes := bs\<rparr>"
proof -
  obtain k off h' where a: "AppendToHeap bs h = Inr ((k, off), h')" "heap_inv h'"
    "fh_size h' = fh_size h" "fh_cross h' = fh_cross h" "total_size h' = fh_size h * k + off + length bs"
    and b: "\<And>j. j < length bs \<Longrightarrow> byte_at h' (fh_size h * k + off + j) = bs ! j"
    using AppendToHeap_spec [OF inv, of bs] fits by (auto simp: heap_fits_def)
  have p: "k = 0" "off = 0" using AppendToHeap_first [OF inv fresh a(1)] by simp_all
  have "map (byte_at h') [0..<length bs] = bs"
    by (rule nth_equalityI) (use b p in simp_all)
  then show ?thesis using a p by (simp add: heap_view_def)
qed

text \<open>
  C36: The linear heaps of the column model are what the chunked heap manager does: the bytes that
  \<^verbatim>\<open>WriteAdv\<close> copies out of a heap are its linear view, and \<^verbatim>\<open>AppendToHeap\<close> of the bytes of a log
  record on a new heap gives exactly the view or the error of the column model.
\<close>

theorem heap_view_refines:
  assumes "heap_inv h"
  shows "ReadFromHeap 0 0 (total_size h) h = Inr (vh_bytes (heap_view h))
    \<and> (fh_idx h = None \<longrightarrow>
         (case AppendToHeap bs h of
            Inl e \<Rightarrow> vec_heap_append bs (heap_view h) = Inl e
          | Inr (pos, h') \<Rightarrow> pos = (0, 0) \<and> heap_inv h' \<and> vec_heap_append bs (heap_view h) = Inr (heap_view h')))"
proof -
  have "heap_stored (0, 0) (total_size h) h" by (simp add: heap_stored_def)
  from heap_get_bytes [OF assms this] have "ReadFromHeap 0 0 (total_size h) h = Inr (vh_bytes (heap_view h))"
    by (simp add: heap_get_def heap_view_def)
  moreover have "case AppendToHeap bs h of
            Inl e \<Rightarrow> vec_heap_append bs (heap_view h) = Inl e
          | Inr (pos, h') \<Rightarrow> pos = (0, 0) \<and> heap_inv h' \<and> vec_heap_append bs (heap_view h) = Inr (heap_view h')"
    if fresh: "fh_idx h = None"
  proof (cases "heap_fits h bs")
    case True
    then have "vec_heap_append bs (heap_view h) = Inr (heap_view h\<lparr>vh_bytes := bs\<rparr>)"
      by (auto simp: vec_heap_append_def heap_fits_def heap_view_def)
    then show ?thesis using AppendToHeap_fresh [OF assms fresh True] by auto
  next
    case False
    then show ?thesis using AppendToHeap_too_long [OF fresh] by fastforce
  qed
  ultimately show ?thesis by blast
qed

theorem heap_view_refines_witness:
  "case AppendToHeap [1, 2, 3] (FixHeapManager_new 2 True (\<lambda>_ _. 0)) of
     Inl e \<Rightarrow> False
   | Inr (pos, h') \<Rightarrow> pos = (0, 0) \<and> vh_bytes (heap_view h') = [1, 2, 3]"
proof -
  let ?h = "FixHeapManager_new 2 True (\<lambda>_ _. 0)"
  have i: "heap_inv ?h" "fh_idx ?h = None" by (simp_all add: FixHeapManager_new_def heap_inv_def)
  have "vec_heap_append [1, 2, 3] (heap_view ?h) = Inr (new_heap 2 True\<lparr>vh_bytes := [1, 2, 3]\<rparr>)"
    by (simp add: vec_heap_append_def new_heap_def)
  then show ?thesis
    using heap_view_refines [OF i(1), of "[1, 2, 3]"] i(2)
    by (auto simp: new_heap_def split: sum.splits) (metis vec_heap.select_convs(3))
qed

section \<open>Heaps that do not fit into one chunk\<close>

lemma heap_read_too_long:
  assumes "\<not> vh_cross a" and "vh_chunk_size a < length bs" and "length bs < 2 ^ 31"
  shows "heap_read (Some a) (WriteBufAdv (word_of_nat (length bs) :: i32) @ bs @ rest)
    = Inl (UnrecoverableError (''Attempt to allocate memory with size: '' @ nat_digits (length bs) @ '' as the tensor heap''))"
proof -
  have "rd_bytes (length bs) (int (length bs)) (bs @ rest) = Inr (bs, rest)" by (simp add: rd_bytes_def)
  moreover have "0 < length bs" "bs \<noteq> []" using assms(2) by auto
  ultimately show ?thesis
    using assms by (simp add: heap_read_def rd_bind_def sint_word_of_nat32 vec_heap_append_def rd_fail_def)
qed

text \<open>
  C35: A sparse or tensor column whose heap has grown beyond its first chunk is written to the log
  without an error, but no such record can be read back: the heap of the new column refuses
  an item longer than a chunk.
\<close>

theorem long_heap_not_replayed:
  assumes "valid_column_vector cv" and "dt_type (cv_data_type cv) = kSparse \<or> dt_type (cv_data_type cv) = kTensor"
    and "cv_heap cv = Some h" and "vh_chunk_size h < length bs" and "length bs < 2 ^ 31"
  shows "\<exists>out. ColumnVector_WriteAdv (cv\<lparr>cv_heap := Some (h\<lparr>vh_bytes := bs\<rparr>)\<rparr>) = Inr out
    \<and> (\<forall>m rest. int (length out) \<le> m \<longrightarrow> ColumnVector_ReadAdv m (out @ rest)
         = Inl (UnrecoverableError (''Attempt to allocate memory with size: '' @ nat_digits (length bs) @ '' as the tensor heap'')))"
proof -
  let ?dt = "cv_data_type cv" and ?vt = "cv_vector_type cv" and ?cv = "cv\<lparr>cv_heap := Some (h\<lparr>vh_bytes := bs\<rparr>)\<rparr>"
  have v: "valid_data_type ?dt" "dt_type ?dt \<noteq> kHugeInt" "supported_vector_type ?vt"
    "cv_tail cv + 7 < 2 ^ 31" "cv_type_size cv < 2 ^ 31" "fixed_size cv < 2 ^ 31"
    "length (cv_data cv) = fixed_size cv" "fixed_size cv \<le> buffer_size cv" "valid_bitmask (cv_nulls cv)"
    using assms(1) by (simp_all add: valid_column_vector_def)
  obtain fresh where i: "ColumnVector_Initialize ?dt ?vt DEFAULT_VECTOR_SIZE = Inr fresh"
    and cv: "cv = fresh\<lparr>cv_tail := cv_tail cv, cv_data := cv_data cv, cv_heap := cv_heap cv,
                       cv_heap1 := cv_heap1 cv, cv_nulls := cv_nulls cv\<rparr>"
    and vh: "valid_heap (cv_heap fresh) (cv_heap cv)"
    using assms(1) by (auto simp: valid_column_vector_def split: sum.splits)
  have t: "has_heap (dt_type ?dt)" "dt_type ?dt \<noteq> kTensorArray" using assms(2) by (auto simp: has_heap_def)
  obtain a where a: "cv_heap fresh = Some a" using Initialize_fresh(3) [OF i t(1)] by auto
  have "\<not> vh_cross a"
    using i a assms(2) by (auto simp: ColumnVector_Initialize_def vector_buffer_types_def VectorBuffer_heap_def
        new_heap_def Let_def res_bind_eq_Inr split: if_splits)
  moreover have "vh_chunk_size a = vh_chunk_size h"
    using vh a assms(3) by (cases a; cases h) (simp add: valid_heap_def)
  ultimately have hr: "heap_read (cv_heap fresh) (WriteBufAdv (word_of_nat (length bs) :: i32) @ bs @ rest)
      = Inl (UnrecoverableError (''Attempt to allocate memory with size: '' @ nat_digits (length bs) @ '' as the tensor heap''))"
    for rest
    using heap_read_too_long [of a bs] a assms(4,5) by simp
  obtain tb where tb: "DataType_WriteAdv ?dt = Inr tb" using data_type_codec.enc_ok [OF v(1)] by blast
  obtain nb where nb: "Bitmask_WriteAdv (cv_nulls cv) = Inr nb" using bitmask_codec.enc_ok [OF v(9)] by blast
  define out where "out = tb @ WriteBufAdv (word_of_nat (ColumnVectorType_num ?vt) :: i8)
      @ WriteBufAdv (word_of_nat (cv_tail cv) :: i32) @ cv_data cv
      @ WriteBufAdv (word_of_nat (length bs) :: i32) @ bs @ nb"
  have "fixed_size ?cv = fixed_size cv" by (simp add: fixed_size_def)
  then have "ColumnVector_WriteAdv ?cv = Inr out"
    using v t by (simp add: ColumnVector_WriteAdv_def heap_write_def tb nb out_def)
  moreover have "ColumnVector_ReadAdv m (out @ rest)
      = Inl (UnrecoverableError (''Attempt to allocate memory with size: '' @ nat_digits (length bs) @ '' as the tensor heap''))"
    if m: "int (length out) \<le> m" for m rest
  proof -
    have size: "cv_type_size fresh = cv_type_size cv" "buffer_size fresh = buffer_size cv"
      by (subst cv, simp add: buffer_size_def)+
    have data: "rd_bytes (buffer_size cv) (int (fixed_size cv)) (cv_data cv @ more) = Inr (cv_data cv, more)" for more
      using v(7,8) by (simp add: rd_bytes_def)
    have room: "int (length tb) \<le> m" using m by (simp add: out_def)
    have "rd_enum TYPE(8 word) ColumnVectorType_of_num
        (WriteBufAdv (word_of_nat (ColumnVectorType_num ?vt) :: i8) @ more) = Inr (?vt, more)" for more
      by (rule rd_enum_WriteBufAdv(1)) simp_all
    then show ?thesis
      unfolding ColumnVector_ReadAdv_def out_def append_assoc
      by (simp only: rd_bind_Inr data_type_codec.dec_enc [OF v(1) tb room]
          i rd_lift_simps ReadBufAdv_WriteBufAdv size fixed_part_length [OF v(4-6)] data hr t if_True
          rd_left_apply rd_return_def) (simp add: rd_bind_def hr)
  qed
  ultimately show ?thesis by blast
qed

definition sparse_row :: column_vector where
  "sparse_row =
     \<lparr>cv_data_type = DataType_new kSparse (Some (SparseInfo kElemFloat kElemInt8 100 SparseStore_kSort)),
      cv_vector_type = CV_kFlat, cv_type_size = 16, cv_capacity = 8192, cv_tail = 1, cv_data = replicate 16 7,
      cv_heap = Some (new_heap 65536 False), cv_heap1 = None,
      cv_nulls = \<lparr>bm_count = 8192, bm_data = None\<rparr>\<rparr>"

lemma valid_sparse_row: "valid_column_vector sparse_row"
proof -
  have "ColumnVector_Initialize (cv_data_type sparse_row) (cv_vector_type sparse_row) DEFAULT_VECTOR_SIZE
      = Inr (sparse_row\<lparr>cv_tail := 0, cv_data := []\<rparr>)"
    by (simp add: ColumnVector_Initialize_def DataType_Size_def DataType_new_def vector_buffer_types_def TypeInfo_Size_def
        VectorBuffer_heap_def VectorBuffer_heap1_def DEFAULT_VECTOR_SIZE_def DEFAULT_FIXLEN_CHUNK_SIZE_def
        bit_ceil_8192 sparse_row_def Bitmask_Make_8192)
  moreover have "SparseInfo_Make kElemFloat 100 SparseStore_kSort
      = Inr (Some (SparseInfo kElemFloat kElemInt8 100 SparseStore_kSort))"
    by (simp add: SparseInfo_Make_def SparseInfo_index_type_def)
  ultimately show ?thesis
    unfolding valid_column_vector_def using valid_bitmask_8192
    by (simp add: sparse_row_def valid_data_type_def valid_type_info_def DataType_new_def fixed_size_def
       buffer_size_def supported_vector_type_def valid_heap_def new_heap_def)
qed

theorem long_heap_not_replayed_witness:
  "\<exists>out. ColumnVector_WriteAdv (sparse_row\<lparr>cv_heap := Some (new_heap 65536 False\<lparr>vh_bytes := replicate 65537 0\<rparr>)\<rparr>) = Inr out
    \<and> ColumnVector_ReadAdv (int (length out)) out
        = Inl (UnrecoverableError ''Attempt to allocate memory with size: 65537 as the tensor heap'')"
proof -
  have n: "nat_digits 65537 = ''65537''" by (simp add: nat_digits.simps digit_char_def char_of_def bit_Suc_0_iff)
  have "dt_type (cv_data_type sparse_row) = kSparse" "cv_heap sparse_row = Some (new_heap 65536 False)"
    by (simp_all add: sparse_row_def DataType_new_def)
  then obtain out where "ColumnVector_WriteAdv (sparse_row\<lparr>cv_heap := Some (new_heap 65536 False\<lparr>vh_bytes := replicate 65537 0\<rparr>)\<rparr>) = Inr out"
    "\<And>m rest. int (length out) \<le> m \<Longrightarrow> ColumnVector_ReadAdv m (out @ rest)
       = Inl (UnrecoverableError (''Attempt to allocate memory with size: '' @ nat_digits 65537 @ '' as the tensor heap''))"
    using long_heap_not_replayed [OF valid_sparse_row, of "new_heap 65536 False" "replicate 65537 0"]
    unfolding length_replicate by (auto simp: new_heap_def)
  from this(1) this(2) [of _ "[]", OF order_refl] show ?thesis by (simp only: n append_Nil2) simp
qed

end
