(* ===== verification/Wal_Entry.thy ===== *)
theory Wal_Entry
  imports Table_Def Index_Def Column_Data Crc
begin

text \<open>
  \<^verbatim>\<open>src/storage/wal/wal_entry.cpp\<close>: the commands of the write-ahead log with their binary forms, and log
  entries, which carry the commands of a transaction between a header with a checksum and a copy
  of the size.
\<close>

section \<open>Commands\<close>

type_synonym outline_info = "(u32 \<times> u64) list"

record wal_block_info =
  wb_block_id :: u16
  wb_row_count :: u16
  wb_row_capacity :: u16
  wb_outline_infos :: "outline_info list"

record wal_segment_info =
  ws_segment_id :: u32
  ws_column_count :: u64
  ws_row_count :: u64
  ws_actual_row_count :: u64
  ws_row_capacity :: u64
  ws_block_infos :: "wal_block_info list"

type_synonym block_filters = "(u16 \<times> string) list"

datatype wal_cmd =
    WalCmdCreateDatabase string string
  | WalCmdDropDatabase string
  | WalCmdCreateTable string string table_def
  | WalCmdDropTable string string
  | WalCmdCreateIndex string string string index_base
  | WalCmdDropIndex string string string
  | WalCmdImport string string wal_segment_info
  | WalCmdAppend string string data_block
  | WalCmdDelete string string "u64 list"
  | WalCmdSetSegmentStatusSealed string string u32 string block_filters
  | WalCmdUpdateSegmentBloomFilterData string string u32 string block_filters
  | WalCmdCheckpoint i64 bool string
  | WalCmdCompact string string "wal_segment_info list" "u32 list"

datatype wal_command_type =
    INVALID | CREATE_DATABASE | DROP_DATABASE | CREATE_TABLE | DROP_TABLE | ALTER_INFO | CREATE_INDEX | DROP_INDEX
  | IMPORT | APPEND | DELETE | SET_SEGMENT_STATUS_SEALED | UPDATE_SEGMENT_BLOOM_FILTER_DATA | CHECKPOINT | COMPACT

fun WalCommandType_num :: "wal_command_type \<Rightarrow> i8" where
  "WalCommandType_num INVALID = 0"
| "WalCommandType_num CREATE_DATABASE = 1"
| "WalCommandType_num DROP_DATABASE = 2"
| "WalCommandType_num CREATE_TABLE = 3"
| "WalCommandType_num DROP_TABLE = 4"
| "WalCommandType_num ALTER_INFO = 5"
| "WalCommandType_num CREATE_INDEX = 6"
| "WalCommandType_num DROP_INDEX = 7"
| "WalCommandType_num IMPORT = 20"
| "WalCommandType_num APPEND = 21"
| "WalCommandType_num DELETE = 22"
| "WalCommandType_num SET_SEGMENT_STATUS_SEALED = 31"
| "WalCommandType_num UPDATE_SEGMENT_BLOOM_FILTER_DATA = 32"
| "WalCommandType_num CHECKPOINT = 99"
| "WalCommandType_num COMPACT = 100"

fun WalCmd_GetType :: "wal_cmd \<Rightarrow> wal_command_type" where
  "WalCmd_GetType (WalCmdCreateDatabase _ _) = CREATE_DATABASE"
| "WalCmd_GetType (WalCmdDropDatabase _) = DROP_DATABASE"
| "WalCmd_GetType (WalCmdCreateTable _ _ _) = CREATE_TABLE"
| "WalCmd_GetType (WalCmdDropTable _ _) = DROP_TABLE"
| "WalCmd_GetType (WalCmdCreateIndex _ _ _ _) = CREATE_INDEX"
| "WalCmd_GetType (WalCmdDropIndex _ _ _) = DROP_INDEX"
| "WalCmd_GetType (WalCmdImport _ _ _) = IMPORT"
| "WalCmd_GetType (WalCmdAppend _ _ _) = APPEND"
| "WalCmd_GetType (WalCmdDelete _ _ _) = DELETE"
| "WalCmd_GetType (WalCmdSetSegmentStatusSealed _ _ _ _ _) = SET_SEGMENT_STATUS_SEALED"
| "WalCmd_GetType (WalCmdUpdateSegmentBloomFilterData _ _ _ _ _) = UPDATE_SEGMENT_BLOOM_FILTER_DATA"
| "WalCmd_GetType (WalCmdCheckpoint _ _ _) = CHECKPOINT"
| "WalCmd_GetType (WalCmdCompact _ _ _ _) = COMPACT"

fun WalCommandTypeToString :: "wal_command_type \<Rightarrow> string" where
  "WalCommandTypeToString INVALID = ''INVALID''"
| "WalCommandTypeToString CREATE_DATABASE = ''CREATE_DATABASE''"
| "WalCommandTypeToString DROP_DATABASE = ''DROP_DATABASE''"
| "WalCommandTypeToString CREATE_TABLE = ''CREATE_TABLE''"
| "WalCommandTypeToString DROP_TABLE = ''DROP_TABLE''"
| "WalCommandTypeToString ALTER_INFO = ''ALTER_INFO''"
| "WalCommandTypeToString IMPORT = ''IMPORT''"
| "WalCommandTypeToString APPEND = ''APPEND''"
| "WalCommandTypeToString DELETE = ''DELETE''"
| "WalCommandTypeToString SET_SEGMENT_STATUS_SEALED = ''SET_SEGMENT_STATUS_SEALED''"
| "WalCommandTypeToString UPDATE_SEGMENT_BLOOM_FILTER_DATA = ''UPDATE_SEGMENT_BLOOM_FILTER_DATA''"
| "WalCommandTypeToString CHECKPOINT = ''CHECKPOINT''"
| "WalCommandTypeToString CREATE_INDEX = ''CREATE_INDEX''"
| "WalCommandTypeToString DROP_INDEX = ''DROP_INDEX''"
| "WalCommandTypeToString COMPACT = ''COMPACT''"

section \<open>Sizes\<close>

definition WalBlockInfo_GetSizeInBytes :: "wal_block_info \<Rightarrow> i32" where
  "WalBlockInfo_GetSizeInBytes b =
     6 + 4 + sum_list (map (\<lambda>v. 4 + word_of_nat (length v) * 12) (wb_outline_infos b))"

definition WalSegmentInfo_GetSizeInBytes :: "wal_segment_info \<Rightarrow> i32" where
  "WalSegmentInfo_GetSizeInBytes s =
     36 + 4 + sum_list (map WalBlockInfo_GetSizeInBytes (ws_block_infos s))"

definition block_filters_size :: "block_filters \<Rightarrow> i32" where
  "block_filters_size fs = 4 + sum_list (map (\<lambda>(block_id, data). 2 + GetSizeInBytes_string data) fs)"

fun WalCmd_GetSizeInBytes :: "wal_cmd \<Rightarrow> i32 res" where
  "WalCmd_GetSizeInBytes (WalCmdCreateDatabase db_name db_dir_tail) =
     Inr (1 + GetSizeInBytes_string db_name + GetSizeInBytes_string db_dir_tail)"
| "WalCmd_GetSizeInBytes (WalCmdDropDatabase db_name) = Inr (1 + GetSizeInBytes_string db_name)"
| "WalCmd_GetSizeInBytes (WalCmdCreateTable db_name table_dir_tail table_def) =
     sz_sum [Inr 1, Inr (GetSizeInBytes_string db_name), Inr (GetSizeInBytes_string table_dir_tail),
       TableDef_GetSizeInBytes table_def]"
| "WalCmd_GetSizeInBytes (WalCmdDropTable db_name table_name) =
     Inr (1 + GetSizeInBytes_string db_name + GetSizeInBytes_string table_name)"
| "WalCmd_GetSizeInBytes (WalCmdCreateIndex db_name table_name index_dir_tail index_base) =
     sz_sum [Inr 1, Inr (GetSizeInBytes_string db_name), Inr (GetSizeInBytes_string table_name),
       Inr (GetSizeInBytes_string index_dir_tail), Index_GetSizeInBytes index_base]"
| "WalCmd_GetSizeInBytes (WalCmdDropIndex db_name table_name index_name) =
     Inr (1 + GetSizeInBytes_string db_name + GetSizeInBytes_string table_name + GetSizeInBytes_string index_name)"
| "WalCmd_GetSizeInBytes (WalCmdImport db_name table_name segment_info) =
     Inr (1 + GetSizeInBytes_string db_name + GetSizeInBytes_string table_name
          + WalSegmentInfo_GetSizeInBytes segment_info)"
| "WalCmd_GetSizeInBytes (WalCmdAppend db_name table_name block) =
     sz_sum [Inr 1, Inr (GetSizeInBytes_string db_name), Inr (GetSizeInBytes_string table_name),
       DataBlock_GetSizeInBytes block]"
| "WalCmd_GetSizeInBytes (WalCmdDelete db_name table_name row_ids) =
     Inr (1 + GetSizeInBytes_string db_name + GetSizeInBytes_string table_name + 4
          + word_of_nat (length row_ids) * 8)"
| "WalCmd_GetSizeInBytes (WalCmdSetSegmentStatusSealed db_name table_name segment_id segment_filter block_filters) =
     Inr (1 + GetSizeInBytes_string db_name + GetSizeInBytes_string table_name + 4
          + GetSizeInBytes_string segment_filter + block_filters_size block_filters)"
| "WalCmd_GetSizeInBytes (WalCmdUpdateSegmentBloomFilterData db_name table_name segment_id segment_filter block_filters) =
     Inr (1 + GetSizeInBytes_string db_name + GetSizeInBytes_string table_name + 4
          + GetSizeInBytes_string segment_filter + block_filters_size block_filters)"
| "WalCmd_GetSizeInBytes (WalCmdCheckpoint max_commit_ts is_full_checkpoint catalog_path) =
     Inr (1 + 8 + 1 + GetSizeInBytes_string catalog_path)"
| "WalCmd_GetSizeInBytes (WalCmdCompact db_name table_name new_segment_infos deprecated_segment_ids) =
     Inr (1 + GetSizeInBytes_string db_name + GetSizeInBytes_string table_name + 4
          + sum_list (map WalSegmentInfo_GetSizeInBytes new_segment_infos) + 4
          + word_of_nat (length deprecated_segment_ids) * 4)"

section \<open>Writing\<close>

definition WalBlockInfo_WriteBufferAdv :: "wal_block_info \<Rightarrow> byte list" where
  "WalBlockInfo_WriteBufferAdv b =
     WriteBufAdv (wb_block_id b) @ WriteBufAdv (wb_row_count b) @ WriteBufAdv (wb_row_capacity b)
     @ WriteBufAdv (word_of_nat (length (wb_outline_infos b)) :: i32)
     @ concat (map (\<lambda>outline_info.
         WriteBufAdv (word_of_nat (length outline_info) :: i32)
         @ concat (map (\<lambda>(idx, off). WriteBufAdv idx @ WriteBufAdv off) outline_info)) (wb_outline_infos b))"

definition WalSegmentInfo_WriteBufferAdv :: "wal_segment_info \<Rightarrow> byte list" where
  "WalSegmentInfo_WriteBufferAdv s =
     WriteBufAdv (ws_segment_id s) @ WriteBufAdv (ws_column_count s) @ WriteBufAdv (ws_row_count s)
     @ WriteBufAdv (ws_actual_row_count s) @ WriteBufAdv (ws_row_capacity s)
     @ WriteBufAdv (word_of_nat (length (ws_block_infos s)) :: i32)
     @ concat (map WalBlockInfo_WriteBufferAdv (ws_block_infos s))"

definition block_filters_write :: "block_filters \<Rightarrow> byte list" where
  "block_filters_write fs =
     WriteBufAdv (word_of_nat (length fs) :: i32)
     @ concat (map (\<lambda>(block_id, data). WriteBufAdv block_id @ WriteBufAdv_string data) fs)"

text \<open>A loop \<^verbatim>\<open>for (i32 i = 0; i < (i32)v.size(); ++i)\<close> over a vector.\<close>

definition i32_prefix :: "'a list \<Rightarrow> 'a list" where
  "i32_prefix xs = take (nat (sint (word_of_nat (length xs) :: i32))) xs"

definition WriteBufAdv_type :: "wal_command_type \<Rightarrow> byte list" where
  "WriteBufAdv_type t = WriteBufAdv (WalCommandType_num t)"

fun WalCmd_WriteAdv :: "wal_cmd \<Rightarrow> byte list res" where
  "WalCmd_WriteAdv (WalCmdCreateDatabase db_name db_dir_tail) =
     Inr (WriteBufAdv_type CREATE_DATABASE @ WriteBufAdv_string db_name @ WriteBufAdv_string db_dir_tail)"
| "WalCmd_WriteAdv (WalCmdDropDatabase db_name) =
     Inr (WriteBufAdv_type DROP_DATABASE @ WriteBufAdv_string db_name)"
| "WalCmd_WriteAdv (WalCmdCreateTable db_name table_dir_tail table_def) =
     wr_cat (Inr (WriteBufAdv_type CREATE_TABLE @ WriteBufAdv_string db_name @ WriteBufAdv_string table_dir_tail))
       (TableDef_WriteAdv table_def)"
| "WalCmd_WriteAdv (WalCmdDropTable db_name table_name) =
     Inr (WriteBufAdv_type DROP_TABLE @ WriteBufAdv_string db_name @ WriteBufAdv_string table_name)"
| "WalCmd_WriteAdv (WalCmdCreateIndex db_name table_name index_dir_tail index_base) =
     wr_cat (Inr (WriteBufAdv_type CREATE_INDEX @ WriteBufAdv_string db_name @ WriteBufAdv_string table_name
                  @ WriteBufAdv_string index_dir_tail))
       (Index_WriteAdv index_base)"
| "WalCmd_WriteAdv (WalCmdDropIndex db_name table_name index_name) =
     Inr (WriteBufAdv_type DROP_INDEX @ WriteBufAdv_string db_name @ WriteBufAdv_string table_name
          @ WriteBufAdv_string index_name)"
| "WalCmd_WriteAdv (WalCmdImport db_name table_name segment_info) =
     Inr (WriteBufAdv_type IMPORT @ WriteBufAdv_string db_name @ WriteBufAdv_string table_name
          @ WalSegmentInfo_WriteBufferAdv segment_info)"
| "WalCmd_WriteAdv (WalCmdAppend db_name table_name block) =
     wr_cat (Inr (WriteBufAdv_type APPEND @ WriteBufAdv_string db_name @ WriteBufAdv_string table_name))
       (DataBlock_WriteAdv block)"
| "WalCmd_WriteAdv (WalCmdDelete db_name table_name row_ids) =
     Inr (WriteBufAdv_type DELETE @ WriteBufAdv_string db_name @ WriteBufAdv_string table_name
          @ WriteBufAdv (word_of_nat (length row_ids) :: i32) @ concat (map WriteBufAdv row_ids))"
| "WalCmd_WriteAdv (WalCmdSetSegmentStatusSealed db_name table_name segment_id segment_filter block_filters) =
     Inr (WriteBufAdv_type SET_SEGMENT_STATUS_SEALED @ WriteBufAdv_string db_name @ WriteBufAdv_string table_name
          @ WriteBufAdv segment_id @ WriteBufAdv_string segment_filter @ block_filters_write block_filters)"
| "WalCmd_WriteAdv (WalCmdUpdateSegmentBloomFilterData db_name table_name segment_id segment_filter block_filters) =
     Inr (WriteBufAdv_type UPDATE_SEGMENT_BLOOM_FILTER_DATA @ WriteBufAdv_string db_name @ WriteBufAdv_string table_name
          @ WriteBufAdv segment_id @ WriteBufAdv_string segment_filter @ block_filters_write block_filters)"
| "WalCmd_WriteAdv (WalCmdCheckpoint max_commit_ts is_full_checkpoint catalog_path) =
     Inr (WriteBufAdv_type CHECKPOINT @ WriteBufAdv max_commit_ts
          @ WriteBufAdv (if is_full_checkpoint then 1 else 0 :: i8) @ WriteBufAdv_string catalog_path)"
| "WalCmd_WriteAdv (WalCmdCompact db_name table_name new_segment_infos deprecated_segment_ids) =
     Inr (WriteBufAdv_type COMPACT @ WriteBufAdv_string db_name @ WriteBufAdv_string table_name
          @ WriteBufAdv (word_of_nat (length new_segment_infos) :: i32)
          @ concat (map WalSegmentInfo_WriteBufferAdv (i32_prefix new_segment_infos))
          @ WriteBufAdv (word_of_nat (length deprecated_segment_ids) :: i32)
          @ concat (map WriteBufAdv (i32_prefix deprecated_segment_ids)))"

section \<open>Reading\<close>

text \<open>
  A vector that is given its size before its elements are read; a negative \<^verbatim>\<open>i32\<close> becomes a size
  beyond \<^verbatim>\<open>max_size()\<close>.
\<close>

definition rd_resized :: "i32 \<Rightarrow> 'a reader \<Rightarrow> 'a list reader" where
  "rd_resized count p = (if sint count < 0 then rd_fail LengthError else rd_times (nat (sint count)) p)"

definition WalBlockInfo_ReadBufferAdv :: "wal_block_info reader" where
  "WalBlockInfo_ReadBufferAdv =
     rd_bind ReadBufAdv (\<lambda>block_id :: u16.
     rd_bind ReadBufAdv (\<lambda>row_count :: u16.
     rd_bind ReadBufAdv (\<lambda>row_capacity :: u16.
     rd_bind ReadBufAdv (\<lambda>count :: i32.
     rd_bind (rd_resized count
       (rd_bind ReadBufAdv (\<lambda>info_count :: i32.
          rd_resized info_count
            (rd_bind ReadBufAdv (\<lambda>buffer_cnt :: u32.
             rd_bind ReadBufAdv (\<lambda>last_chunk_offset :: u64.
               rd_return (buffer_cnt, last_chunk_offset))))))) (\<lambda>outline_infos.
       rd_return \<lparr>wb_block_id = block_id, wb_row_count = row_count, wb_row_capacity = row_capacity,
                  wb_outline_infos = outline_infos\<rparr>)))))"

definition WalSegmentInfo_ReadBufferAdv :: "wal_segment_info reader" where
  "WalSegmentInfo_ReadBufferAdv =
     rd_bind ReadBufAdv (\<lambda>segment_id :: u32.
     rd_bind ReadBufAdv (\<lambda>column_count :: u64.
     rd_bind ReadBufAdv (\<lambda>row_count :: u64.
     rd_bind ReadBufAdv (\<lambda>actual_row_count :: u64.
     rd_bind ReadBufAdv (\<lambda>row_capacity :: u64.
     rd_bind ReadBufAdv (\<lambda>count :: i32.
     rd_bind (rd_times (nat (sint count)) WalBlockInfo_ReadBufferAdv) (\<lambda>block_infos.
       rd_return \<lparr>ws_segment_id = segment_id, ws_column_count = column_count, ws_row_count = row_count,
                  ws_actual_row_count = actual_row_count, ws_row_capacity = row_capacity,
                  ws_block_infos = block_infos\<rparr>)))))))"

definition block_filters_read :: "block_filters reader" where
  "block_filters_read =
     rd_bind ReadBufAdv (\<lambda>count :: i32.
       rd_resized count
         (rd_bind ReadBufAdv (\<lambda>block_id :: u16.
          rd_bind ReadBufAdv_string (\<lambda>data. rd_return (block_id, data)))))"

text \<open>The switch of \<^verbatim>\<open>WalCmd::ReadAdv\<close>; \<open>start\<close> is the position that \<^verbatim>\<open>ptr_end\<close> is relative to.\<close>

definition WalCmd_read_body :: "int \<Rightarrow> nat \<Rightarrow> i8 \<Rightarrow> wal_cmd reader" where
  "WalCmd_read_body max_bytes start cmd_type =
     (if cmd_type = WalCommandType_num CREATE_DATABASE then
        rd_bind ReadBufAdv_string (\<lambda>db_name.
        rd_bind ReadBufAdv_string (\<lambda>db_dir_tail.
          rd_return (WalCmdCreateDatabase db_name db_dir_tail)))
      else if cmd_type = WalCommandType_num DROP_DATABASE then
        rd_bind ReadBufAdv_string (\<lambda>db_name. rd_return (WalCmdDropDatabase db_name))
      else if cmd_type = WalCommandType_num CREATE_TABLE then
        rd_bind ReadBufAdv_string (\<lambda>db_name.
        rd_bind ReadBufAdv_string (\<lambda>table_dir_tail.
        rd_bind rd_left (\<lambda>now.
        rd_bind (TableDef_ReadAdv (ptr_room max_bytes start now)) (\<lambda>table_def.
          rd_return (WalCmdCreateTable db_name table_dir_tail table_def)))))
      else if cmd_type = WalCommandType_num DROP_TABLE then
        rd_bind ReadBufAdv_string (\<lambda>db_name.
        rd_bind ReadBufAdv_string (\<lambda>table_name.
          rd_return (WalCmdDropTable db_name table_name)))
      else if cmd_type = WalCommandType_num IMPORT then
        rd_bind ReadBufAdv_string (\<lambda>db_name.
        rd_bind ReadBufAdv_string (\<lambda>table_name.
        rd_bind WalSegmentInfo_ReadBufferAdv (\<lambda>segment_info.
          rd_return (WalCmdImport db_name table_name segment_info))))
      else if cmd_type = WalCommandType_num APPEND then
        rd_bind ReadBufAdv_string (\<lambda>db_name.
        rd_bind ReadBufAdv_string (\<lambda>table_name.
        rd_bind rd_left (\<lambda>now.
        rd_bind (DataBlock_ReadAdv (ptr_room max_bytes start now)) (\<lambda>block.
          rd_return (WalCmdAppend db_name table_name block)))))
      else if cmd_type = WalCommandType_num DELETE then
        rd_bind ReadBufAdv_string (\<lambda>db_name.
        rd_bind ReadBufAdv_string (\<lambda>table_name.
        rd_bind ReadBufAdv (\<lambda>cnt :: i32.
        rd_bind (rd_times (nat (sint cnt)) ReadBufAdv) (\<lambda>row_ids.
          rd_return (WalCmdDelete db_name table_name row_ids)))))
      else if cmd_type = WalCommandType_num SET_SEGMENT_STATUS_SEALED then
        rd_bind ReadBufAdv_string (\<lambda>db_name.
        rd_bind ReadBufAdv_string (\<lambda>table_name.
        rd_bind ReadBufAdv (\<lambda>segment_id.
        rd_bind ReadBufAdv_string (\<lambda>segment_filter.
        rd_bind block_filters_read (\<lambda>block_filters.
          rd_return (WalCmdSetSegmentStatusSealed db_name table_name segment_id segment_filter block_filters))))))
      else if cmd_type = WalCommandType_num UPDATE_SEGMENT_BLOOM_FILTER_DATA then
        rd_bind ReadBufAdv_string (\<lambda>db_name.
        rd_bind ReadBufAdv_string (\<lambda>table_name.
        rd_bind ReadBufAdv (\<lambda>segment_id.
        rd_bind ReadBufAdv_string (\<lambda>segment_filter.
        rd_bind block_filters_read (\<lambda>block_filters.
          rd_return (WalCmdUpdateSegmentBloomFilterData db_name table_name segment_id segment_filter block_filters))))))
      else if cmd_type = WalCommandType_num CHECKPOINT then
        rd_bind ReadBufAdv (\<lambda>max_commit_ts.
        rd_bind ReadBufAdv (\<lambda>is_full_checkpoint :: i8.
        rd_bind ReadBufAdv_string (\<lambda>catalog_path.
          rd_return (WalCmdCheckpoint max_commit_ts (is_full_checkpoint \<noteq> 0) catalog_path))))
      else if cmd_type = WalCommandType_num CREATE_INDEX then
        rd_bind ReadBufAdv_string (\<lambda>db_name.
        rd_bind ReadBufAdv_string (\<lambda>table_name.
        rd_bind ReadBufAdv_string (\<lambda>index_dir_tail.
        rd_bind rd_left (\<lambda>now.
        rd_bind (IndexBase_ReadAdv (ptr_room max_bytes start now)) (\<lambda>index_base.
          rd_return (WalCmdCreateIndex db_name table_name index_dir_tail index_base))))))
      else if cmd_type = WalCommandType_num DROP_INDEX then
        rd_bind ReadBufAdv_string (\<lambda>db_name.
        rd_bind ReadBufAdv_string (\<lambda>table_name.
        rd_bind ReadBufAdv_string (\<lambda>index_name.
          rd_return (WalCmdDropIndex db_name table_name index_name))))
      else if cmd_type = WalCommandType_num COMPACT then
        rd_bind ReadBufAdv_string (\<lambda>db_name.
        rd_bind ReadBufAdv_string (\<lambda>table_name.
        rd_bind ReadBufAdv (\<lambda>new_segment_n :: i32.
        rd_bind (rd_times (nat (sint new_segment_n)) WalSegmentInfo_ReadBufferAdv) (\<lambda>new_segment_infos.
        rd_bind ReadBufAdv (\<lambda>deprecated_n :: i32.
        rd_bind (rd_times (nat (sint deprecated_n)) ReadBufAdv) (\<lambda>deprecated_segment_ids.
          rd_return (WalCmdCompact db_name table_name new_segment_infos deprecated_segment_ids)))))))
      else rd_fail (UnrecoverableError (''UNIMPLEMENTED ReadAdv for WAL command '' @ std_to_string (sint cmd_type))))"

definition WalCmd_ReadAdv :: "int \<Rightarrow> wal_cmd reader" where
  "WalCmd_ReadAdv max_bytes =
     rd_bind rd_left (\<lambda>start.
     rd_bind ReadBufAdv (\<lambda>cmd_type.
     rd_bind (WalCmd_read_body max_bytes start cmd_type) (\<lambda>cmd.
     rd_bind rd_left (\<lambda>now.
       if ptr_room max_bytes start now < 0
       then rd_fail (UnrecoverableError ''ptr goes out of range when reading WalCmd'')
       else rd_return cmd))))"

section \<open>Comparison and printing\<close>

fun WalCmd_eq :: "wal_cmd \<Rightarrow> wal_cmd \<Rightarrow> bool" where
  "WalCmd_eq (WalCmdCreateDatabase db tail) other \<longleftrightarrow>
     (case other of WalCmdCreateDatabase db' tail' \<Rightarrow> db = db' \<and> tail = tail' | _ \<Rightarrow> False)"
| "WalCmd_eq (WalCmdDropDatabase db) other \<longleftrightarrow>
     (case other of WalCmdDropDatabase db' \<Rightarrow> db = db' | _ \<Rightarrow> False)"
| "WalCmd_eq (WalCmdCreateTable db tail def) other \<longleftrightarrow>
     (case other of WalCmdCreateTable db' tail' def' \<Rightarrow> db = db' \<and> tail = tail' \<and> TableDef_eq def def' | _ \<Rightarrow> False)"
| "WalCmd_eq (WalCmdDropTable db t) other \<longleftrightarrow>
     (case other of WalCmdDropTable db' t' \<Rightarrow> db = db' \<and> t = t' | _ \<Rightarrow> False)"
| "WalCmd_eq (WalCmdCreateIndex db t tail ib) other \<longleftrightarrow>
     (case other of WalCmdCreateIndex db' t' tail' ib' \<Rightarrow> db = db' \<and> t = t' \<and> tail = tail' \<and> IndexBase_eq ib ib' | _ \<Rightarrow> False)"
| "WalCmd_eq (WalCmdDropIndex db t i) other \<longleftrightarrow>
     (case other of WalCmdDropIndex db' t' i' \<Rightarrow> db = db' \<and> t = t' \<and> i = i' | _ \<Rightarrow> False)"
| "WalCmd_eq (WalCmdImport db t s) other \<longleftrightarrow>
     (case other of WalCmdImport db' t' s' \<Rightarrow> db = db' \<and> t = t' \<and> s = s' | _ \<Rightarrow> False)"
| "WalCmd_eq (WalCmdAppend db t b) other \<longleftrightarrow>
     (case other of WalCmdAppend db' t' b' \<Rightarrow> db = db' \<and> t = t' | _ \<Rightarrow> False)"
| "WalCmd_eq (WalCmdDelete db t rows) other \<longleftrightarrow>
     (case other of WalCmdDelete db' t' rows' \<Rightarrow> db = db' \<and> t = t' \<and> rows = rows' | _ \<Rightarrow> False)"
| "WalCmd_eq (WalCmdSetSegmentStatusSealed db t s f bs) other \<longleftrightarrow>
     (case other of WalCmdSetSegmentStatusSealed db' t' s' f' bs' \<Rightarrow> db = db' \<and> t = t' \<and> s = s' \<and> f = f' \<and> bs = bs' | _ \<Rightarrow> False)"
| "WalCmd_eq (WalCmdUpdateSegmentBloomFilterData db t s f bs) other \<longleftrightarrow>
     (case other of WalCmdUpdateSegmentBloomFilterData db' t' s' f' bs' \<Rightarrow> db = db' \<and> t = t' \<and> s = s' \<and> f = f' \<and> bs = bs' | _ \<Rightarrow> False)"
| "WalCmd_eq (WalCmdCheckpoint ts full path) other \<longleftrightarrow>
     (case other of WalCmdCheckpoint ts' full' path' \<Rightarrow> ts = ts' \<and> full = full' | _ \<Rightarrow> False)"
| "WalCmd_eq (WalCmdCompact db t new old) other \<longleftrightarrow>
     (case other of WalCmdCompact db' t' new' old' \<Rightarrow> db = db' \<and> t = t' \<and> old = old' | _ \<Rightarrow> False)"

definition outline_to_string :: "nat \<Rightarrow> outline_info \<Rightarrow> string" where
  "outline_to_string i outline_info =
     ''outline_buffer_group_'' @ nat_digits i @ '': [''
     @ join_names (map (\<lambda>(idx, off). ''('' @ nat_digits (unat idx) @ '', '' @ nat_digits (unat off) @ '')'') outline_info)
     @ '']''"

definition WalBlockInfo_ToString :: "wal_block_info \<Rightarrow> string" where
  "WalBlockInfo_ToString b =
     ''block_id: '' @ nat_digits (unat (wb_block_id b)) @ '', row_count: '' @ nat_digits (unat (wb_row_count b))
     @ '', row_capacity: '' @ nat_digits (unat (wb_row_capacity b)) @ '', next_outline_idxes: [''
     @ join_names (map (\<lambda>(i, info). outline_to_string i info) (enumerate 0 (wb_outline_infos b))) @ '']''"

definition WalSegmentInfo_ToString :: "wal_segment_info \<Rightarrow> string" where
  "WalSegmentInfo_ToString s =
     ''segment_id: '' @ nat_digits (unat (ws_segment_id s)) @ '', column_count: '' @ nat_digits (unat (ws_column_count s))
     @ '', row_count: '' @ nat_digits (unat (ws_row_count s))
     @ '', actual_row_count: '' @ nat_digits (unat (ws_actual_row_count s))
     @ '', row_capacity: '' @ nat_digits (unat (ws_row_capacity s)) @ '', block_infos: [''
     @ join_names (map WalBlockInfo_ToString (ws_block_infos s)) @ '']''"

section \<open>Log entries\<close>

record wal_entry =
  we_size :: i32
  we_checksum :: u32
  we_txn_id :: i64
  we_commit_ts :: u64
  we_cmds :: "wal_cmd list"

definition WalEntry_eq :: "wal_entry \<Rightarrow> wal_entry \<Rightarrow> bool" where
  "WalEntry_eq a b \<longleftrightarrow>
     we_txn_id a = we_txn_id b \<and> we_commit_ts a = we_commit_ts b \<and> list_all2 WalCmd_eq (we_cmds a) (we_cmds b)"

definition WalEntry_GetSizeInBytes :: "wal_entry \<Rightarrow> i32 res" where
  "WalEntry_GetSizeInBytes e = sz_sum (Inr (24 + 4) # map WalCmd_GetSizeInBytes (we_cmds e) @ [Inr 4])"

definition header_bytes :: "i32 \<Rightarrow> u32 \<Rightarrow> i64 \<Rightarrow> u64 \<Rightarrow> byte list" where
  "header_bytes entry_size checksum txn_id commit_ts =
     WriteBufAdv entry_size @ WriteBufAdv checksum @ WriteBufAdv txn_id @ WriteBufAdv commit_ts"

text \<open>\<^verbatim>\<open>CRC32IEEE::makeCRC(ptr, size)\<close>, where the \<^verbatim>\<open>i32\<close> becomes a \<^verbatim>\<open>SizeT\<close>.\<close>

definition crc_of :: "byte list \<Rightarrow> i32 \<Rightarrow> u32 res" where
  "crc_of bs n =
     (if unat (scast n :: u64) \<le> length bs then Inr (makeCRC (take (unat (scast n :: u64)) bs))
      else Inl UndefinedBehaviour)"

text \<open>
  The header is first copied from the entry; size and checksum are then replaced by those of the
  bytes that were written.
\<close>

definition WalEntry_WriteAdv :: "wal_entry \<Rightarrow> byte list res" where
  "WalEntry_WriteAdv e =
     res_bind (wr_concat (map WalCmd_WriteAdv (we_cmds e))) (\<lambda>cmds.
       let body = WriteBufAdv (word_of_nat (length (we_cmds e)) :: i32) @ cmds;
           n = word_of_nat (24 + length body + 4) :: i32;
           bytes = (\<lambda>checksum. header_bytes n checksum (we_txn_id e) (we_commit_ts e) @ body @ WriteBufAdv n)
       in res_bind (crc_of (bytes 0) n) (\<lambda>checksum. Inr (bytes checksum)))"

fun WalEntry_read_cmds :: "nat \<Rightarrow> int \<Rightarrow> nat \<Rightarrow> wal_cmd list option reader" where
  "WalEntry_read_cmds 0 max_bytes start = rd_return (Some [])"
| "WalEntry_read_cmds (Suc cnt) max_bytes start =
     rd_bind rd_left (\<lambda>now.
       if ptr_room max_bytes start now \<le> 0 then rd_return None
       else rd_bind (WalCmd_ReadAdv (ptr_room max_bytes start now)) (\<lambda>cmd.
            rd_bind (WalEntry_read_cmds cnt max_bytes start) (\<lambda>cmds.
              rd_return (map_option (Cons cmd) cmds))))"

text \<open>
  \<^verbatim>\<open>*(i32 *)(buf + off)\<close>.
\<close>

definition i32_at :: "byte list \<Rightarrow> int \<Rightarrow> i32 res" where
  "i32_at bs off =
     (if off < 0 \<or> int (length bs) < off + 4 then Inl UndefinedBehaviour
      else res_bind (ReadBufAdv (drop (nat off) bs)) (\<lambda>(w, _). Inr w))"

text \<open>
  \<open>None\<close> is the null pointer returned for an entry that is not intact.  The reader clears the
  checksum in the buffer before it computes the checksum of the bytes; nothing reads the cleared
  field again, so only the checksum is computed on the changed bytes here.
\<close>

definition WalEntry_read_payload :: "int \<Rightarrow> nat \<Rightarrow> i32 \<Rightarrow> u32 \<Rightarrow> i64 \<Rightarrow> u64 \<Rightarrow> wal_entry option reader" where
  "WalEntry_read_payload max_bytes start entry_size checksum txn_id commit_ts =
     rd_bind ReadBufAdv (\<lambda>cnt :: i32.
     rd_bind (WalEntry_read_cmds (nat (sint cnt)) max_bytes start) (\<lambda>cmds.
       case cmds of
         None \<Rightarrow> rd_return None
       | Some cmds \<Rightarrow>
           rd_bind (\<lambda>bs. Inr (length bs, drop 4 bs)) (\<lambda>left.
             if ptr_room max_bytes start left - 4 < 0 then rd_return None
             else rd_return (Some \<lparr>we_size = entry_size, we_checksum = checksum, we_txn_id = txn_id,
                                   we_commit_ts = commit_ts, we_cmds = cmds\<rparr>))))"

definition WalEntry_ReadAdv :: "int \<Rightarrow> wal_entry option reader" where
  "WalEntry_ReadAdv max_bytes =
     (if max_bytes \<le> 0 then rd_return None
      else
        rd_bind (\<lambda>buf. Inr (buf, buf)) (\<lambda>buf.
        rd_bind ReadBufAdv (\<lambda>entry_size :: i32.
        rd_bind ReadBufAdv (\<lambda>checksum :: u32.
        rd_bind ReadBufAdv (\<lambda>txn_id :: i64.
        rd_bind ReadBufAdv (\<lambda>commit_ts :: u64.
        rd_bind (rd_lift (i32_at buf (sint entry_size - 4))) (\<lambda>size2.
        if entry_size \<noteq> size2 then rd_return None
        else rd_bind (rd_lift (crc_of (take 4 buf @ WriteBufAdv (0 :: u32) @ drop 8 buf) entry_size)) (\<lambda>checksum2.
        if checksum \<noteq> checksum2 then rd_return None
        else WalEntry_read_payload max_bytes (length buf) entry_size checksum txn_id commit_ts))))))))"

definition IsCheckPoint :: "wal_entry \<Rightarrow> bool" where
  "IsCheckPoint e \<longleftrightarrow> list_ex (\<lambda>cmd. WalCmd_GetType cmd = CHECKPOINT) (we_cmds e)"

text \<open>
  The second form gives the first checkpoint command; the entry with the commands behind it is
  pushed to a copy of the caller's list, which is then dropped.
\<close>

definition IsCheckPoint_cmd :: "wal_entry \<Rightarrow> wal_entry list \<Rightarrow> (wal_cmd \<times> wal_entry list) option" where
  "IsCheckPoint_cmd e replay_entries =
     map_option (\<lambda>cmd. (cmd, replay_entries)) (List.find (\<lambda>cmd. WalCmd_GetType cmd = CHECKPOINT) (we_cmds e))"

section \<open>Commands are read back\<close>

definition valid_block_info :: "wal_block_info \<Rightarrow> bool" where
  "valid_block_info b \<longleftrightarrow>
     length (wb_outline_infos b) < 2 ^ 31 \<and> list_all (\<lambda>v. length v < 2 ^ 31) (wb_outline_infos b)"

definition valid_segment_info :: "wal_segment_info \<Rightarrow> bool" where
  "valid_segment_info s \<longleftrightarrow> length (ws_block_infos s) < 2 ^ 31 \<and> list_all valid_block_info (ws_block_infos s)"

definition valid_block_filters :: "block_filters \<Rightarrow> bool" where
  "valid_block_filters fs \<longleftrightarrow> length fs < 2 ^ 31 \<and> list_all (\<lambda>(_, data). valid_string data) fs"

fun valid_wal_cmd :: "wal_cmd \<Rightarrow> bool" where
  "valid_wal_cmd (WalCmdCreateDatabase db tail) \<longleftrightarrow> valid_string db \<and> valid_string tail"
| "valid_wal_cmd (WalCmdDropDatabase db) \<longleftrightarrow> valid_string db"
| "valid_wal_cmd (WalCmdCreateTable db tail def) \<longleftrightarrow> valid_string db \<and> valid_string tail \<and> valid_table_def def"
| "valid_wal_cmd (WalCmdDropTable db t) \<longleftrightarrow> valid_string db \<and> valid_string t"
| "valid_wal_cmd (WalCmdCreateIndex db t tail ib) \<longleftrightarrow>
     valid_string db \<and> valid_string t \<and> valid_string tail \<and> valid_index ib"
| "valid_wal_cmd (WalCmdDropIndex db t i) \<longleftrightarrow> valid_string db \<and> valid_string t \<and> valid_string i"
| "valid_wal_cmd (WalCmdImport db t s) \<longleftrightarrow> valid_string db \<and> valid_string t \<and> valid_segment_info s"
| "valid_wal_cmd (WalCmdAppend db t b) \<longleftrightarrow> valid_string db \<and> valid_string t \<and> valid_data_block b"
| "valid_wal_cmd (WalCmdDelete db t rows) \<longleftrightarrow> valid_string db \<and> valid_string t \<and> length rows < 2 ^ 31"
| "valid_wal_cmd (WalCmdSetSegmentStatusSealed db t s f bs) \<longleftrightarrow>
     valid_string db \<and> valid_string t \<and> valid_string f \<and> valid_block_filters bs"
| "valid_wal_cmd (WalCmdUpdateSegmentBloomFilterData db t s f bs) \<longleftrightarrow>
     valid_string db \<and> valid_string t \<and> valid_string f \<and> valid_block_filters bs"
| "valid_wal_cmd (WalCmdCheckpoint ts full path) \<longleftrightarrow> valid_string path"
| "valid_wal_cmd (WalCmdCompact db t new old) \<longleftrightarrow>
     valid_string db \<and> valid_string t \<and> length new < 2 ^ 31 \<and> list_all valid_segment_info new \<and> length old < 2 ^ 31"

lemma rd_resized_concat:
  assumes "length xs < 2 ^ 31" and "\<And>x more. x \<in> set xs \<Longrightarrow> p (f x @ more) = Inr (x, more)"
  shows "rd_resized (word_of_nat (length xs)) p (concat (map f xs) @ rest) = Inr (xs, rest)"
  using assms rd_times_concat [of xs rest p f] by (simp add: rd_resized_def sint_word_of_nat32)

lemma read_pairs:
  assumes "length v < 2 ^ 31"
  shows "rd_resized (word_of_nat (length v))
      (rd_bind ReadBufAdv (\<lambda>buffer_cnt :: u32. rd_bind ReadBufAdv (\<lambda>last_chunk_offset :: u64.
         rd_return (buffer_cnt, last_chunk_offset))))
      (concat (map (\<lambda>(idx, off). WriteBufAdv idx @ WriteBufAdv off) v) @ rest) = Inr (v, rest)"
  by (rule rd_resized_concat [OF assms])
    (auto simp: rd_bind_def rd_return_def split: prod.splits)

lemma read_block_info:
  assumes "valid_block_info b"
  shows "WalBlockInfo_ReadBufferAdv (WalBlockInfo_WriteBufferAdv b @ rest) = Inr (b, rest)"
proof -
  let ?f = "\<lambda>outline_info. WriteBufAdv (word_of_nat (length outline_info) :: i32)
         @ concat (map (\<lambda>(idx, off). WriteBufAdv idx @ WriteBufAdv off) outline_info)"
  have v: "length (wb_outline_infos b) < 2 ^ 31" "\<And>v. v \<in> set (wb_outline_infos b) \<Longrightarrow> length v < 2 ^ 31"
    using assms by (auto simp: valid_block_info_def list_all_iff)
  have "rd_resized (word_of_nat (length (wb_outline_infos b)))
      (rd_bind ReadBufAdv (\<lambda>info_count :: i32.
          rd_resized info_count
            (rd_bind ReadBufAdv (\<lambda>buffer_cnt :: u32.
             rd_bind ReadBufAdv (\<lambda>last_chunk_offset :: u64.
               rd_return (buffer_cnt, last_chunk_offset))))))
      (concat (map ?f (wb_outline_infos b)) @ rest) = Inr (wb_outline_infos b, rest)" for rest
    by (rule rd_resized_concat [OF v(1)]) (simp only: append_assoc rd_bind_Inr ReadBufAdv_WriteBufAdv read_pairs [OF v(2)])
  then show ?thesis
    unfolding WalBlockInfo_ReadBufferAdv_def WalBlockInfo_WriteBufferAdv_def append_assoc
    by (simp only: rd_bind_Inr ReadBufAdv_WriteBufAdv) (simp add: rd_return_def)
qed

lemma read_segment_info:
  assumes "valid_segment_info s"
  shows "WalSegmentInfo_ReadBufferAdv (WalSegmentInfo_WriteBufferAdv s @ rest) = Inr (s, rest)"
proof -
  have v: "length (ws_block_infos s) < 2 ^ 31" "\<And>b. b \<in> set (ws_block_infos s) \<Longrightarrow> valid_block_info b"
    using assms by (auto simp: valid_segment_info_def list_all_iff)
  have "rd_times (nat (sint (word_of_nat (length (ws_block_infos s)) :: i32))) WalBlockInfo_ReadBufferAdv
      (concat (map WalBlockInfo_WriteBufferAdv (ws_block_infos s)) @ rest) = Inr (ws_block_infos s, rest)" for rest
    using rd_times_concat [of "ws_block_infos s" rest WalBlockInfo_ReadBufferAdv WalBlockInfo_WriteBufferAdv]
      read_block_info [OF v(2)] v(1) by (simp add: sint_word_of_nat32)
  then show ?thesis
    unfolding WalSegmentInfo_ReadBufferAdv_def WalSegmentInfo_WriteBufferAdv_def append_assoc
    by (simp only: rd_bind_Inr ReadBufAdv_WriteBufAdv) (simp add: rd_return_def)
qed

lemma read_block_filters:
  assumes "valid_block_filters fs"
  shows "block_filters_read (block_filters_write fs @ rest) = Inr (fs, rest)"
proof -
  have v: "length fs < 2 ^ 31" "\<And>i d. (i, d) \<in> set fs \<Longrightarrow> valid_string d"
    using assms by (auto simp: valid_block_filters_def list_all_iff)
  have "rd_resized (word_of_nat (length fs)) (rd_bind ReadBufAdv (\<lambda>block_id :: u16.
          rd_bind ReadBufAdv_string (\<lambda>data. rd_return (block_id, data))))
      (concat (map (\<lambda>(block_id, data). WriteBufAdv block_id @ WriteBufAdv_string data) fs) @ rest) = Inr (fs, rest)"
    for rest
    by (rule rd_resized_concat [OF v(1)]) (auto simp: rd_bind_def rd_return_def v(2) split: prod.splits)
  then show ?thesis
    unfolding block_filters_read_def block_filters_write_def append_assoc
    by (simp only: rd_bind_Inr ReadBufAdv_WriteBufAdv)
qed

lemma size_block_info: "WalBlockInfo_GetSizeInBytes b = word_of_nat (length (WalBlockInfo_WriteBufferAdv b))"
proof -
  have p: "length (concat (map (\<lambda>(idx :: u32, off :: u64). WriteBufAdv idx @ WriteBufAdv off) v)) = length v * 12" for v
    by (induction v) (auto split: prod.splits)
  have "sum_list (map (\<lambda>v. 4 + word_of_nat (length v) * 12) vs)
      = (word_of_nat (length (concat (map (\<lambda>outline_info. WriteBufAdv (word_of_nat (length outline_info) :: i32)
         @ concat (map (\<lambda>(idx, off). WriteBufAdv idx @ WriteBufAdv off) outline_info)) vs))) :: i32)" for vs :: "outline_info list"
    by (induction vs) (simp_all add: p del: length_concat)
  then show ?thesis by (simp add: WalBlockInfo_GetSizeInBytes_def WalBlockInfo_WriteBufferAdv_def del: length_concat)
qed

lemma sum_sizes:
  "(\<And>x. x \<in> set xs \<Longrightarrow> g x = word_of_nat (length (f x))) \<Longrightarrow>
     sum_list (map g xs) = (word_of_nat (length (concat (map f xs))) :: ('a::len) word)"
  by (induction xs) simp_all

lemma size_segment_info: "WalSegmentInfo_GetSizeInBytes s = word_of_nat (length (WalSegmentInfo_WriteBufferAdv s))"
  using sum_sizes [of "ws_block_infos s" WalBlockInfo_GetSizeInBytes WalBlockInfo_WriteBufferAdv] size_block_info
  by (simp add: WalSegmentInfo_GetSizeInBytes_def WalSegmentInfo_WriteBufferAdv_def del: length_concat)

lemma size_block_filters: "block_filters_size fs = word_of_nat (length (block_filters_write fs))"
  using sum_sizes [of fs "\<lambda>(block_id, data). 2 + GetSizeInBytes_string data"
      "\<lambda>(block_id, data). WriteBufAdv block_id @ WriteBufAdv_string data"]
  by (simp add: block_filters_size_def block_filters_write_def size_string_law split_def del: length_concat)

lemma i32_prefix_id: "length xs < 2 ^ 31 \<Longrightarrow> i32_prefix xs = xs"
  by (simp add: i32_prefix_def sint_word_of_nat32)

lemma WalCommandType_num_inj: "WalCommandType_num a = WalCommandType_num b \<longleftrightarrow> a = b"
  by (cases a; cases b) simp_all

lemmas read_body_simps = WalCmd_read_body_def WalCommandType_num_inj wal_command_type.distinct simp_thms
  if_False if_True append_assoc rd_bind_Inr ReadBufAdv_WriteBufAdv ReadBufAdv_string_WriteBufAdv
  rd_left_apply rd_return_def read_segment_info read_block_filters

text \<open>What the codec of a single command needs: a payload that its branch of the switch reads back.\<close>

definition cmd_payload :: "wal_cmd \<Rightarrow> byte list \<Rightarrow> bool" where
  "cmd_payload cmd pl \<longleftrightarrow>
     WalCmd_WriteAdv cmd = Inr (WriteBufAdv_type (WalCmd_GetType cmd) @ pl)
     \<and> WalCmd_GetSizeInBytes cmd = Inr (word_of_nat (1 + length pl))
     \<and> (\<forall>m start rest. 0 \<le> ptr_room m start (length rest) \<longrightarrow>
          WalCmd_read_body m start (WalCommandType_num (WalCmd_GetType cmd)) (pl @ rest) = Inr (cmd, rest))"

lemma cmd_payloadI:
  assumes "WalCmd_WriteAdv cmd = Inr (WriteBufAdv_type (WalCmd_GetType cmd) @ pl)"
    and "WalCmd_GetSizeInBytes cmd = Inr (word_of_nat (1 + length pl))"
    and "\<And>m start rest. 0 \<le> ptr_room m start (length rest) \<Longrightarrow>
          WalCmd_read_body m start (WalCommandType_num (WalCmd_GetType cmd)) (pl @ rest) = Inr (cmd, rest)"
  shows "cmd_payload cmd pl"
  using assms by (simp add: cmd_payload_def)

lemma payload_names:
  "valid_string a \<Longrightarrow> valid_string b \<Longrightarrow>
     cmd_payload (WalCmdCreateDatabase a b) (WriteBufAdv_string a @ WriteBufAdv_string b)"
  "valid_string a \<Longrightarrow> cmd_payload (WalCmdDropDatabase a) (WriteBufAdv_string a)"
  "valid_string a \<Longrightarrow> valid_string b \<Longrightarrow>
     cmd_payload (WalCmdDropTable a b) (WriteBufAdv_string a @ WriteBufAdv_string b)"
  "valid_string a \<Longrightarrow> valid_string b \<Longrightarrow> valid_string c \<Longrightarrow>
     cmd_payload (WalCmdDropIndex a b c) (WriteBufAdv_string a @ WriteBufAdv_string b @ WriteBufAdv_string c)"
  "valid_string c \<Longrightarrow> cmd_payload (WalCmdCheckpoint ts full c)
     (WriteBufAdv ts @ WriteBufAdv (if full then 1 else 0 :: i8) @ WriteBufAdv_string c)"
  unfolding cmd_payload_def WalCmd_GetType.simps
  by (simp_all only: read_body_simps) (simp_all add: size_string_law)

lemma sub_codec_room:
  assumes "0 \<le> ptr_room m start (length rest)"
  shows "int (length bs) \<le> ptr_room m start (length (bs @ rest))"
  using assms by (simp add: ptr_room_def)

lemma payload_table:
  assumes "valid_string a" and "valid_string b" and "valid_table_def td" and "TableDef_WriteAdv td = Inr bs"
  shows "cmd_payload (WalCmdCreateTable a b td) (WriteBufAdv_string a @ WriteBufAdv_string b @ bs)"
proof (rule cmd_payloadI, goal_cases)
  case (3 m start rest)
  show ?case
    unfolding WalCmd_GetType.simps using assms
    by (simp only: read_body_simps table_def_codec.dec_enc [OF assms(3,4) sub_codec_room [OF 3]])
qed (use assms in \<open>simp_all add: size_string_law table_def_codec.size_law [OF assms(3,4)]\<close>)

lemma payload_index:
  assumes "valid_string a" and "valid_string b" and "valid_string c" and "valid_index ib" and "Index_WriteAdv ib = Inr bs"
  shows "cmd_payload (WalCmdCreateIndex a b c ib)
    (WriteBufAdv_string a @ WriteBufAdv_string b @ WriteBufAdv_string c @ bs)"
proof (rule cmd_payloadI, goal_cases)
  case (3 m start rest)
  show ?case
    unfolding WalCmd_GetType.simps using assms
    by (simp only: read_body_simps index_codec.dec_enc [OF assms(4,5) sub_codec_room [OF 3]])
qed (use assms in \<open>simp_all add: size_string_law index_codec.size_law [OF assms(4,5)]\<close>)

lemma payload_append:
  assumes "valid_string a" and "valid_string b" and "valid_data_block db" and "DataBlock_WriteAdv db = Inr bs"
  shows "cmd_payload (WalCmdAppend a b db) (WriteBufAdv_string a @ WriteBufAdv_string b @ bs)"
proof (rule cmd_payloadI, goal_cases)
  case (3 m start rest)
  show ?case
    unfolding WalCmd_GetType.simps using assms
    by (simp only: read_body_simps data_block_codec.dec_enc [OF assms(3,4) sub_codec_room [OF 3]])
qed (use assms in \<open>simp_all add: size_string_law data_block_codec.size_law [OF assms(3,4)]\<close>)

lemma payload_import:
  assumes "valid_string a" and "valid_string b" and "valid_segment_info s"
  shows "cmd_payload (WalCmdImport a b s) (WriteBufAdv_string a @ WriteBufAdv_string b @ WalSegmentInfo_WriteBufferAdv s)"
  using assms unfolding cmd_payload_def WalCmd_GetType.simps
  by (simp only: read_body_simps) (simp add: size_string_law size_segment_info)

lemma read_words:
  fixes xs :: "('a::len) word list"
  assumes "length xs < 2 ^ 31" and "8 dvd LENGTH('a)"
  shows "rd_times (nat (sint (word_of_nat (length xs) :: i32))) ReadBufAdv (concat (map WriteBufAdv xs) @ rest) = Inr (xs, rest)"
  using rd_times_concat [of xs rest ReadBufAdv WriteBufAdv] ReadBufAdv_WriteBufAdv_gen [OF assms(2)] assms(1)
  by (simp add: sint_word_of_nat32)

lemma length_words:
  "length (concat (map WriteBufAdv (xs :: ('a::len) word list))) = length xs * sizeof TYPE('a word)"
  by (induction xs) simp_all

lemma payload_delete:
  assumes "valid_string a" and "valid_string b" and "length rows < 2 ^ 31"
  shows "cmd_payload (WalCmdDelete a b rows) (WriteBufAdv_string a @ WriteBufAdv_string b
    @ WriteBufAdv (word_of_nat (length rows) :: i32) @ concat (map WriteBufAdv rows))"
proof (rule cmd_payloadI, goal_cases)
  case (3 m start rest)
  have r: "rd_times (nat (sint (word_of_nat (length rows) :: i32))) ReadBufAdv (concat (map WriteBufAdv rows) @ rest)
      = Inr (rows, rest)" for rest
    by (rule read_words [OF assms(3)]) simp
  show ?case
    unfolding WalCmd_GetType.simps using assms
    by (simp only: read_body_simps r)
qed (simp_all add: size_string_law length_words del: length_concat)

lemma payload_filters:
  assumes "valid_string a" and "valid_string b" and "valid_string f" and "valid_block_filters fs"
  shows "cmd_payload (WalCmdSetSegmentStatusSealed a b s f fs) (WriteBufAdv_string a @ WriteBufAdv_string b
      @ WriteBufAdv s @ WriteBufAdv_string f @ block_filters_write fs)"
    and "cmd_payload (WalCmdUpdateSegmentBloomFilterData a b s f fs) (WriteBufAdv_string a @ WriteBufAdv_string b
      @ WriteBufAdv s @ WriteBufAdv_string f @ block_filters_write fs)"
  using assms unfolding cmd_payload_def WalCmd_GetType.simps
  by (simp_all only: read_body_simps) (simp_all add: size_string_law size_block_filters)

lemma payload_compact:
  assumes "valid_string a" and "valid_string b" and "length new < 2 ^ 31" and "list_all valid_segment_info new"
    and "length old < 2 ^ 31"
  shows "cmd_payload (WalCmdCompact a b new old) (WriteBufAdv_string a @ WriteBufAdv_string b
    @ WriteBufAdv (word_of_nat (length new) :: i32) @ concat (map WalSegmentInfo_WriteBufferAdv new)
    @ WriteBufAdv (word_of_nat (length old) :: i32) @ concat (map WriteBufAdv old))"
proof -
  have s: "rd_times (nat (sint (word_of_nat (length new) :: i32))) WalSegmentInfo_ReadBufferAdv
      (concat (map WalSegmentInfo_WriteBufferAdv new) @ rest) = Inr (new, rest)" for rest
    using rd_times_concat [of new rest WalSegmentInfo_ReadBufferAdv WalSegmentInfo_WriteBufferAdv] read_segment_info
      assms(3,4) by (simp add: sint_word_of_nat32 list_all_iff)
  show ?thesis
  proof (rule cmd_payloadI, goal_cases)
    case (3 m start rest)
    have r: "rd_times (nat (sint (word_of_nat (length old) :: i32))) ReadBufAdv (concat (map WriteBufAdv old) @ rest)
        = Inr (old, rest)" for rest
      by (rule read_words [OF assms(5)]) simp
    show ?case
      unfolding WalCmd_GetType.simps using assms
      by (simp only: read_body_simps s r)
  next
    case 2
    show ?case
      using sum_sizes [of new WalSegmentInfo_GetSizeInBytes WalSegmentInfo_WriteBufferAdv] size_segment_info
      by (simp add: size_string_law length_words del: length_concat)
  qed (simp add: i32_prefix_id [OF assms(3)] i32_prefix_id [OF assms(5)])
qed

lemma WalCmd_payload:
  assumes "valid_wal_cmd cmd"
  shows "\<exists>pl. cmd_payload cmd pl"
  using assms
proof (cases cmd)
  case (WalCmdCreateTable a b td)
  then show ?thesis using assms table_def_codec.enc_ok [of td] payload_table [of a b td] by auto
next
  case (WalCmdCreateIndex a b c ib)
  then show ?thesis using assms index_codec.enc_ok [of ib] payload_index [of a b c ib] by auto
next
  case (WalCmdAppend a b db)
  then show ?thesis using assms data_block_codec.enc_ok [of db] payload_append [of a b db] by auto
qed (auto intro!: exI payload_names payload_import payload_delete payload_filters payload_compact)

lemma WalCmd_codec:
  assumes "valid_wal_cmd cmd"
  shows "\<exists>bs. WalCmd_WriteAdv cmd = Inr bs
    \<and> (\<forall>m rest. int (length bs) \<le> m \<longrightarrow> WalCmd_ReadAdv m (bs @ rest) = Inr (cmd, rest))
    \<and> WalCmd_GetSizeInBytes cmd = Inr (word_of_nat (length bs)) \<and> bs \<noteq> []"
proof -
  obtain pl where "cmd_payload cmd pl" using WalCmd_payload [OF assms] by blast
  then have pl: "WalCmd_WriteAdv cmd = Inr (WriteBufAdv_type (WalCmd_GetType cmd) @ pl)"
    "WalCmd_GetSizeInBytes cmd = Inr (word_of_nat (1 + length pl))"
    "\<And>m start rest. 0 \<le> ptr_room m start (length rest) \<Longrightarrow>
          WalCmd_read_body m start (WalCommandType_num (WalCmd_GetType cmd)) (pl @ rest) = Inr (cmd, rest)"
    by (auto simp: cmd_payload_def)
  let ?bs = "WriteBufAdv_type (WalCmd_GetType cmd) @ pl"
  have l: "length ?bs = 1 + length pl" by (simp add: WriteBufAdv_type_def)
  have "WalCmd_ReadAdv m (?bs @ rest) = Inr (cmd, rest)" if m: "int (length ?bs) \<le> m" for m rest
  proof -
    have room: "0 \<le> ptr_room m (length (?bs @ rest)) (length rest)"
      using m by (simp add: ptr_room_def)
    then have "\<not> ptr_room m (length (?bs @ rest)) (length rest) < 0" by simp
    with room show ?thesis
      unfolding WalCmd_ReadAdv_def append_assoc WriteBufAdv_type_def
      by (simp only: rd_bind_Inr rd_left_apply ReadBufAdv_WriteBufAdv pl(3) if_False rd_return_def)
  qed
  moreover have "?bs \<noteq> []" using l by (metis Suc_eq_plus1_left list.size(3) nat.distinct(1))
  ultimately show ?thesis using pl(1,2) l by auto
qed

interpretation wal_cmd_codec: sized_codec valid_wal_cmd WalCmd_WriteAdv WalCmd_ReadAdv WalCmd_GetSizeInBytes
  by unfold_locales (use WalCmd_codec in fastforce)+

section \<open>Entries are read back\<close>

definition valid_wal_entry :: "wal_entry \<Rightarrow> bool" where
  "valid_wal_entry e \<longleftrightarrow>
     list_all valid_wal_cmd (we_cmds e) \<and> length (we_cmds e) < 2 ^ 31
     \<and> (case wr_concat (map WalCmd_WriteAdv (we_cmds e)) of Inl _ \<Rightarrow> False | Inr cmds \<Rightarrow> 32 + length cmds < 2 ^ 31)"

text \<open>The entry as it is in the log: with the size and the checksum of its bytes.\<close>

definition clear_checksum :: "byte list \<Rightarrow> byte list" where
  "clear_checksum bs = take 4 bs @ WriteBufAdv (0 :: u32) @ drop 8 bs"

definition logged :: "wal_entry \<Rightarrow> byte list \<Rightarrow> wal_entry" where
  "logged e bs = e\<lparr>we_size := word_of_nat (length bs), we_checksum := makeCRC (clear_checksum bs)\<rparr>"

lemma length_header_bytes [simp]: "length (header_bytes n c t s) = 24"
  by (simp add: header_bytes_def)

lemma take_drop_header:
  "take 4 (header_bytes n c t s @ rs) = WriteBufAdv n"
  "take 4 (drop 4 (header_bytes n c t s @ rs)) = WriteBufAdv c"
  "clear_checksum (header_bytes n c t s @ rs) = header_bytes n 0 t s @ rs"
  by (simp_all add: header_bytes_def clear_checksum_def take_append drop_append)

lemma unat_scast_nat: "n < 2 ^ 31 \<Longrightarrow> unat (scast (word_of_nat n :: i32) :: u64) = n"
  by (rule unat_scast_tail)

lemma WalEntry_bytes:
  assumes "valid_wal_entry e"
  obtains cmds n c where "wr_concat (map WalCmd_WriteAdv (we_cmds e)) = Inr cmds"
    and "WalEntry_WriteAdv e = Inr (header_bytes n c (we_txn_id e) (we_commit_ts e)
           @ (WriteBufAdv (word_of_nat (length (we_cmds e)) :: i32) @ cmds) @ WriteBufAdv n)"
    and "n = word_of_nat (32 + length cmds)" and "32 + length cmds < 2 ^ 31"
    and "c = makeCRC (header_bytes n 0 (we_txn_id e) (we_commit_ts e)
           @ (WriteBufAdv (word_of_nat (length (we_cmds e)) :: i32) @ cmds) @ WriteBufAdv n)"
proof -
  obtain cmds where c: "wr_concat (map WalCmd_WriteAdv (we_cmds e)) = Inr cmds" "32 + length cmds < 2 ^ 31"
    using assms by (auto simp: valid_wal_entry_def split: sum.splits)
  define n where "n = (word_of_nat (32 + length cmds) :: i32)"
  let ?bs = "\<lambda>c. header_bytes n c (we_txn_id e) (we_commit_ts e)
           @ (WriteBufAdv (word_of_nat (length (we_cmds e)) :: i32) @ cmds) @ WriteBufAdv n"
  have l: "length (?bs c) = 32 + length cmds" for c by simp
  have u: "unat (scast n :: u64) = 32 + length cmds" using unat_scast_nat [OF c(2)] by (simp add: n_def)
  have "crc_of (?bs 0) n = Inr (makeCRC (?bs 0))"
    unfolding crc_of_def u l by (simp add: l [symmetric])
  moreover have "(word_of_nat (24 + length (WriteBufAdv (word_of_nat (length (we_cmds e)) :: i32) @ cmds) + 4) :: i32) = n"
    by (simp add: n_def)
  ultimately have "WalEntry_WriteAdv e = Inr (?bs (makeCRC (?bs 0)))"
    unfolding WalEntry_WriteAdv_def c(1) res_bind_simps Let_def by (simp only: res_bind_simps)
  then show ?thesis using that c n_def by blast
qed

text \<open>What the reader does with a buffer that starts with the header of an entry.\<close>

lemma WalEntry_ReadAdv_header:
  assumes m: "0 < m" and buf: "buf = WriteBufAdv n @ WriteBufAdv c @ bs"
    and n: "n = word_of_nat k" "k < 2 ^ 31" "k \<le> length buf" and l: "8 \<le> length buf"
    and t: "(ReadBufAdv :: i64 reader) bs = Inr (t, bs1)" and s: "(ReadBufAdv :: u64 reader) bs1 = Inr (s, bs2)"
    and p: "i32_at buf (int k - 4) = Inr p"
  shows "WalEntry_ReadAdv m buf =
    (if n \<noteq> p \<or> c \<noteq> makeCRC (take k (clear_checksum buf)) then Inr (None, bs2)
     else WalEntry_read_payload m (length buf) n c t s bs2)"
proof -
  have "sint n = int k" using n by (simp add: sint_word_of_nat32)
  moreover have "unat (scast n :: u64) = k" using unat_scast_nat [OF n(2)] n(1) by simp
  then have crc: "crc_of (clear_checksum buf) n = Inr (makeCRC (take k (clear_checksum buf)))"
    using n l by (simp add: crc_of_def clear_checksum_def)
  moreover have "(ReadBufAdv :: i32 reader) buf = Inr (n, WriteBufAdv c @ bs)" using buf by simp
  moreover have "\<not> m \<le> 0" using m by simp
  ultimately show ?thesis
    unfolding WalEntry_ReadAdv_def clear_checksum_def [symmetric]
    by (simp only: if_False rd_bind_Inr ReadBufAdv_WriteBufAdv t s p rd_lift_simps rd_return_def
        split: if_split) (simp add: crc [unfolded clear_checksum_def] rd_bind_def rd_return_def flip: clear_checksum_def)
qed

lemma ReadBufAdv_enough:
  assumes "sizeof TYPE('a word) \<le> length bs"
  obtains w :: "('a::len) word" where "ReadBufAdv bs = Inr (w, drop (sizeof TYPE('a word)) bs)"
  using assms by (simp add: ReadBufAdv_def)

lemma WalEntry_ReadAdv_reject:
  assumes m: "0 < m" and buf: "buf = WriteBufAdv n @ WriteBufAdv c @ bs"
    and n: "n = (word_of_nat k :: i32)" "k < 2 ^ 31" "24 \<le> k" "k \<le> length buf"
    and crc: "c \<noteq> makeCRC (take k (clear_checksum buf))"
  shows "\<exists>r. WalEntry_ReadAdv m buf = Inr (None, r)"
proof -
  obtain t where t: "(ReadBufAdv :: i64 reader) bs = Inr (t, drop 8 bs)"
    using ReadBufAdv_enough [where 'a = 64 and bs = bs] n buf by auto
  have "8 \<le> length (drop 8 bs)" using n buf by simp
  then obtain s where s: "(ReadBufAdv :: u64 reader) (drop 8 bs) = Inr (s, drop 16 bs)"
    using ReadBufAdv_enough [where 'a = 64 and bs = "drop 8 bs"] by auto
  have q: "4 \<le> length (drop (nat (int k - 4)) buf)" "\<not> (int k - 4 < 0 \<or> int (length buf) < int k - 4 + 4)"
    using n(3,4) unfolding length_drop by arith+
  obtain p where r: "(ReadBufAdv :: i32 reader) (drop (nat (int k - 4)) buf) = Inr (p, drop 4 (drop (nat (int k - 4)) buf))"
    using ReadBufAdv_enough [where 'a = 32 and bs = "drop (nat (int k - 4)) buf"] q(1) unfolding sizeof_word by blast
  then have p: "i32_at buf (int k - 4) = Inr p"
    unfolding i32_at_def r by (simp only: q(2) if_False res_bind_simps prod.case)
  have "8 \<le> length buf" using buf by simp
  from WalEntry_ReadAdv_header [OF m buf n(1,2,4) this t s p] show ?thesis
    by (simp only: crc simp_thms if_True) blast
qed

lemma read_cmds:
  assumes "list_all valid_wal_cmd cs" and "wr_concat (map WalCmd_WriteAdv cs) = Inr bs"
    and "int start - int (length rest) \<le> m" and "length (bs @ rest) \<le> start"
  shows "WalEntry_read_cmds (length cs) m start (bs @ rest) = Inr (Some cs, rest)"
  using assms
proof (induction cs arbitrary: bs)
  case (Cons c cs)
  then obtain b bs' where b: "WalCmd_WriteAdv c = Inr b" and bs': "wr_concat (map WalCmd_WriteAdv cs) = Inr bs'"
    and bs: "bs = b @ bs'" by (auto simp: wr_cat_eq_Inr)
  have vc: "valid_wal_cmd c" using Cons.prems by simp
  have ne: "0 < length b" using WalCmd_codec [OF vc] b by auto
  have room: "int (length b) \<le> ptr_room m start (length (b @ bs' @ rest))"
    using Cons.prems by (simp add: ptr_room_def bs)
  then have "\<not> ptr_room m start (length (b @ bs' @ rest)) \<le> 0" using ne by linarith
  moreover have "WalEntry_read_cmds (length cs) m start (bs' @ rest) = Inr (Some cs, rest)"
    using Cons bs' by (simp add: bs)
  ultimately show ?case
    unfolding bs append_assoc length_Cons WalEntry_read_cmds.simps
    by (simp only: rd_bind_Inr rd_left_apply if_False wal_cmd_codec.dec_enc [OF vc b room])
      (simp add: rd_return_def)
qed (simp add: rd_return_def)

lemma i32_at_end: "i32_at ((xs @ WriteBufAdv n) @ rest) (int (length (xs @ WriteBufAdv n)) - 4) = Inr n"
  by (simp add: i32_at_def nat_int_add)

lemma WalEntry_read_back:
  assumes v: "valid_wal_entry e" and w: "WalEntry_WriteAdv e = Inr bs" and m: "int (length bs) \<le> m"
  shows "WalEntry_ReadAdv m (bs @ rest) = Inr (Some (logged e bs), rest)"
proof -
  let ?cnt = "word_of_nat (length (we_cmds e)) :: i32" and ?t = "we_txn_id e" and ?s = "we_commit_ts e"
  obtain cmds n c where a: "wr_concat (map WalCmd_WriteAdv (we_cmds e)) = Inr cmds"
    and b: "WalEntry_WriteAdv e = Inr (header_bytes n c ?t ?s @ (WriteBufAdv ?cnt @ cmds) @ WriteBufAdv n)"
    and n: "n = word_of_nat (32 + length cmds)" "32 + length cmds < 2 ^ 31"
    and c: "c = makeCRC (header_bytes n 0 ?t ?s @ (WriteBufAdv ?cnt @ cmds) @ WriteBufAdv n)"
    by (rule WalEntry_bytes [OF v])
  have bs: "bs = header_bytes n c ?t ?s @ (WriteBufAdv ?cnt @ cmds) @ WriteBufAdv n" using w b by (simp only: sum.inject)
  have l: "length bs = 32 + length cmds" by (simp add: bs)
  have cc: "clear_checksum bs = header_bytes n 0 ?t ?s @ (WriteBufAdv ?cnt @ cmds) @ WriteBufAdv n"
    unfolding bs take_drop_header ..
  have "take (32 + length cmds) (clear_checksum (bs @ rest)) = clear_checksum bs"
    unfolding bs append_assoc take_drop_header by simp
  then have crc: "c = makeCRC (take (32 + length cmds) (clear_checksum (bs @ rest)))" by (simp only: cc c)
  have pad: "i32_at (bs @ rest) (int (32 + length cmds) - 4) = Inr n"
    using i32_at_end [of "header_bytes n c ?t ?s @ WriteBufAdv ?cnt @ cmds" n rest] by (simp add: bs)
  let ?p = "(WriteBufAdv ?cnt @ cmds) @ WriteBufAdv n @ rest"
  have "WalEntry_ReadAdv m (bs @ rest) = WalEntry_read_payload m (length (bs @ rest)) n c ?t ?s ?p"
  proof -
    have h: "bs @ rest = WriteBufAdv n @ WriteBufAdv c @ WriteBufAdv ?t @ WriteBufAdv ?s @ ?p"
      by (simp add: bs header_bytes_def)
    have k: "0 < m" "32 + length cmds \<le> length (bs @ rest)" "8 \<le> length (bs @ rest)" using m by (simp_all add: l)
    have "\<not> (n \<noteq> n \<or> c \<noteq> makeCRC (take (32 + length cmds) (clear_checksum (bs @ rest))))" using crc by blast
    with WalEntry_ReadAdv_header [OF k(1) h n k(2,3) ReadBufAdv_WriteBufAdv(4) ReadBufAdv_WriteBufAdv(4) pad]
    show ?thesis by (simp only: if_False)
  qed
  also have "\<dots> = Inr (Some (logged e bs), rest)"
  proof -
    have cnt: "nat (sint ?cnt) = length (we_cmds e)"
      using v by (simp add: valid_wal_entry_def sint_word_of_nat32)
    have cs: "WalEntry_read_cmds (length (we_cmds e)) m (length (bs @ rest)) (cmds @ WriteBufAdv n @ rest)
        = Inr (Some (we_cmds e), WriteBufAdv n @ rest)"
      using v m by (intro read_cmds a) (simp_all add: valid_wal_entry_def bs)
    have room: "\<not> ptr_room m (length (bs @ rest)) (length (WriteBufAdv n @ rest)) - 4 < 0"
      using m by (simp add: ptr_room_def bs)
    have skip: "drop 4 (WriteBufAdv n @ rest) = rest" by simp
    have e: "\<lparr>we_size = n, we_checksum = c, we_txn_id = ?t, we_commit_ts = ?s, we_cmds = we_cmds e\<rparr> = logged e bs"
      unfolding logged_def cc c [symmetric] using n(1) l by simp
    show ?thesis
      unfolding WalEntry_read_payload_def append_assoc
      by (simp only: rd_bind_Inr ReadBufAdv_WriteBufAdv cnt cs option.case skip room if_False rd_return_def e)
  qed
  finally show ?thesis .
qed

lemma sz_sum_append:
  "sz_sum xs = Inr a \<Longrightarrow> sz_sum (xs @ ys) = res_bind (sz_sum ys) (\<lambda>y. Inr (a + y))"
proof (induction xs arbitrary: a)
  case (Cons x xs)
  then show ?case by (cases x; cases "sz_sum ys") (auto simp: res_bind_eq_Inr add.assoc)
qed simp

lemma WalEntry_size:
  assumes "valid_wal_entry e"
  obtains bs where "WalEntry_WriteAdv e = Inr bs" "WalEntry_GetSizeInBytes e = Inr (word_of_nat (length bs))"
proof -
  obtain cmds n c where a: "wr_concat (map WalCmd_WriteAdv (we_cmds e)) = Inr cmds"
    and bs: "WalEntry_WriteAdv e = Inr (header_bytes n c (we_txn_id e) (we_commit_ts e)
           @ (WriteBufAdv (word_of_nat (length (we_cmds e)) :: i32) @ cmds) @ WriteBufAdv n)" (is "_ = Inr ?bs")
    by (rule WalEntry_bytes [OF assms])
  have "list_all valid_wal_cmd (we_cmds e)" using assms by (simp add: valid_wal_entry_def)
  from wal_cmd_codec.size_list [OF this a]
  have "WalEntry_GetSizeInBytes e = Inr (word_of_nat (length ?bs))"
    by (simp add: WalEntry_GetSizeInBytes_def sz_sum_append)
  with bs show ?thesis by (rule that)
qed

text \<open>
  C4: Every valid log entry, whatever commands it carries, is written without error in exactly
  \<^verbatim>\<open>GetSizeInBytes\<close> bytes and read back with all its commands, with the size and checksum of its bytes
  in the header.
\<close>

theorem WalEntry_round_trip:
  assumes "valid_wal_entry e"
  shows "\<exists>bs. WalEntry_WriteAdv e = Inr bs
    \<and> (\<forall>m rest. int (length bs) \<le> m \<longrightarrow> WalEntry_ReadAdv m (bs @ rest) = Inr (Some (logged e bs), rest))
    \<and> WalEntry_GetSizeInBytes e = Inr (word_of_nat (length bs))"
proof -
  obtain bs where "WalEntry_WriteAdv e = Inr bs" "WalEntry_GetSizeInBytes e = Inr (word_of_nat (length bs))"
    by (rule WalEntry_size [OF assms])
  then show ?thesis using WalEntry_read_back [OF assms] by blast
qed

definition example_entry :: wal_entry where
  "example_entry =
     \<lparr>we_size = 0, we_checksum = 0, we_txn_id = 7, we_commit_ts = 42,
      we_cmds = [WalCmdCreateDatabase ''db'' ''dir'', WalCmdDelete ''db'' ''t'' [1, 2], WalCmdCheckpoint 41 True ''cat'']\<rparr>"

lemma valid_example_entry: "valid_wal_entry example_entry"
  by (simp add: valid_wal_entry_def example_entry_def valid_string_def WriteBufAdv_type_def)

theorem WalEntry_round_trip_witness:
  "valid_wal_entry example_entry
   \<and> (\<exists>bs. WalEntry_WriteAdv example_entry = Inr bs
        \<and> WalEntry_ReadAdv (int (length bs)) (bs @ [3]) = Inr (Some (logged example_entry bs), [3]))"
  using WalEntry_round_trip [OF valid_example_entry] valid_example_entry by blast

lemma WriteBufAdv_le_val32:
  assumes "length bs = 4"
  shows "WriteBufAdv (word_of_nat (le_val bs) :: u32) = bs"
proof -
  have "le_val bs < 2 ^ 32" using le_val_bound [of bs] assms by simp
  then have "unat (word_of_nat (le_val bs) :: u32) = le_val bs"
    by (simp add: unsigned_of_nat take_bit_nat_eq_self_iff)
  then show ?thesis using le_bytes_le_val [of bs] assms by (simp add: WriteBufAdv_def)
qed

lemma WriteBufAdv_inject32: "WriteBufAdv (a :: u32) = WriteBufAdv b \<longleftrightarrow> a = b"
  by (metis ReadBufAdv_WriteBufAdv(3) Inr_inject prod.inject)

lemma length_checksum_field: "8 \<le> length bs \<Longrightarrow> length (take 4 (drop 4 bs)) = 4"
  by simp

lemma split_header: "take 4 bs @ take 4 (drop 4 bs) @ drop 8 bs = bs"
proof -
  have "drop 8 bs = drop 4 (drop 4 bs)" by simp
  then show ?thesis by (simp only: append_take_drop_id)
qed

lemma header_eqI:
  assumes "take 4 as = take 4 bs" and "take 4 (drop 4 as) = take 4 (drop 4 bs)" and "drop 8 as = drop 8 bs"
  shows "as = bs"
proof -
  have "as = take 4 as @ take 4 (drop 4 as) @ drop 8 as" by (rule split_header [symmetric])
  also have "\<dots> = take 4 bs @ take 4 (drop 4 bs) @ drop 8 bs" by (simp only: assms)
  also have "\<dots> = bs" by (rule split_header)
  finally show ?thesis .
qed

lemma clear_checksum_append: "8 \<le> length bs \<Longrightarrow> clear_checksum (bs @ rest) = clear_checksum bs @ rest"
  by (simp add: clear_checksum_def)

lemma length_clear_checksum: "8 \<le> length bs \<Longrightarrow> length (clear_checksum bs) = length bs"
  by (simp add: clear_checksum_def)

text \<open>
  C5: A damaged entry is not replayed: when up to four consecutive bytes behind the checksum of a
  written entry have changed, or bytes of the checksum itself, \<^verbatim>\<open>ReadAdv\<close> gives a null pointer.
\<close>

theorem WalEntry_corruption_detected:
  assumes "valid_wal_entry e" and "WalEntry_WriteAdv e = Inr (xs @ ys @ ws)" and "length zs = length ys"
    and "zs \<noteq> ys" and "length ys \<le> 4"
    and "8 \<le> length xs \<or> 4 \<le> length xs \<and> length xs + length ys \<le> 8" and "0 < m"
  shows "\<exists>r. WalEntry_ReadAdv m (xs @ zs @ ws @ rest) = Inr (None, r)"
proof -
  let ?t = "we_txn_id e" and ?s = "we_commit_ts e"
  obtain cmds n c where b: "WalEntry_WriteAdv e = Inr (header_bytes n c ?t ?s
      @ (WriteBufAdv (word_of_nat (length (we_cmds e)) :: i32) @ cmds) @ WriteBufAdv n)"
    and n: "n = word_of_nat (32 + length cmds)" "32 + length cmds < 2 ^ 31"
    and c: "c = makeCRC (header_bytes n 0 ?t ?s @ (WriteBufAdv (word_of_nat (length (we_cmds e)) :: i32) @ cmds) @ WriteBufAdv n)"
    by (rule WalEntry_bytes [OF assms(1)])
  let ?bs = "xs @ ys @ ws" and ?bs' = "xs @ zs @ ws"
  have bs: "?bs = header_bytes n c ?t ?s @ (WriteBufAdv (word_of_nat (length (we_cmds e)) :: i32) @ cmds) @ WriteBufAdv n"
    using assms(2) b by (simp only: sum.inject)
  then have l: "length ?bs = 32 + length cmds" by simp
  then have l': "length ?bs' = 32 + length cmds" using assms(3) by simp
  have crc: "makeCRC (clear_checksum ?bs) = c" unfolding bs take_drop_header c ..
  have h: "take 4 ?bs = WriteBufAdv n" "take 4 (drop 4 ?bs) = WriteBufAdv c" unfolding bs take_drop_header by simp_all
  have x4: "4 \<le> length xs" using assms(6) by auto
  have t4: "take 4 ?bs' = take 4 ?bs" using x4 by simp
  define c' where "c' = (word_of_nat (le_val (take 4 (drop 4 ?bs'))) :: u32)"
  have c': "take 4 (drop 4 ?bs') = WriteBufAdv c'"
    unfolding c'_def by (rule WriteBufAdv_le_val32 [symmetric], rule length_checksum_field) (use l' in simp)
  have q2: "c' \<noteq> makeCRC (clear_checksum ?bs')"
  proof (cases "8 \<le> length xs")
    case True
    then have "take 4 (drop 4 ?bs') = take 4 (drop 4 ?bs)" by simp
    then have "c' = c" using c' h(2) by (simp only: WriteBufAdv_inject32)
    have "clear_checksum ?bs = (take 4 xs @ WriteBufAdv (0 :: u32) @ drop 8 xs) @ ys @ ws"
      "clear_checksum ?bs' = (take 4 xs @ WriteBufAdv (0 :: u32) @ drop 8 xs) @ zs @ ws"
      using True by (simp_all add: clear_checksum_def)
    moreover have "makeCRC ((take 4 xs @ WriteBufAdv (0 :: u32) @ drop 8 xs) @ zs @ ws)
        \<noteq> makeCRC ((take 4 xs @ WriteBufAdv (0 :: u32) @ drop 8 xs) @ ys @ ws)"
      by (rule makeCRC_burst) (use assms(3-5) in simp_all)
    ultimately have "makeCRC (clear_checksum ?bs') \<noteq> makeCRC (clear_checksum ?bs)" by (simp only: simp_thms)
    then show ?thesis using \<open>c' = c\<close> crc by simp
  next
    case False
    then have r: "4 \<le> length xs" "length xs + length ys \<le> 8" using assms(6) by auto
    then have "drop 8 ?bs' = drop 8 ?bs" using assms(3) by simp
    then have "clear_checksum ?bs' = clear_checksum ?bs" using t4 by (simp add: clear_checksum_def)
    moreover have "c' \<noteq> c"
    proof
      assume "c' = c"
      then have "take 4 (drop 4 ?bs') = take 4 (drop 4 ?bs)" using c' h by simp
      then have "?bs' = ?bs" by (rule header_eqI [OF t4 _ \<open>drop 8 ?bs' = drop 8 ?bs\<close>])
      then show False using assms(4) by simp
    qed
    ultimately show ?thesis using crc by simp
  qed
  have l8: "8 \<le> length ?bs'" unfolding l' by simp
  have q3: "take (32 + length cmds) (clear_checksum (?bs' @ rest)) = clear_checksum ?bs'"
    unfolding clear_checksum_append [OF l8] l' [symmetric] length_clear_checksum [OF l8, symmetric] by simp
  have q1: "?bs' @ rest = WriteBufAdv n @ WriteBufAdv c' @ drop 8 ?bs' @ rest"
  proof -
    have "?bs' = WriteBufAdv n @ WriteBufAdv c' @ drop 8 ?bs'"
      using split_header [of ?bs', symmetric] unfolding t4 h(1) c' .
    from arg_cong [OF this, of "\<lambda>x. x @ rest"] show ?thesis by (simp only: append_assoc)
  qed
  have "24 \<le> 32 + length cmds" "32 + length cmds \<le> length (?bs' @ rest)" using l' by simp_all
  from WalEntry_ReadAdv_reject [OF assms(7) q1 n this] q2 q3
  have "\<exists>r. WalEntry_ReadAdv m (?bs' @ rest) = Inr (None, r)" by (simp only: simp_thms)
  then show ?thesis by (simp only: append_assoc)
qed

theorem WalEntry_corruption_detected_witness:
  "\<exists>bs. WalEntry_WriteAdv example_entry = Inr bs \<and> 32 \<le> length bs
     \<and> (\<exists>r. WalEntry_ReadAdv 100 (take 24 bs @ [bs ! 24 + 1] @ drop 25 bs) = Inr (None, r))"
proof -
  obtain cmds n c where "WalEntry_WriteAdv example_entry = Inr (header_bytes n c (we_txn_id example_entry)
      (we_commit_ts example_entry) @ (WriteBufAdv (word_of_nat (length (we_cmds example_entry)) :: i32) @ cmds)
      @ WriteBufAdv n)" (is "_ = Inr ?bs")
    by (rule WalEntry_bytes [OF valid_example_entry])
  moreover define bs where "bs = ?bs"
  ultimately have bs: "WalEntry_WriteAdv example_entry = Inr bs" "32 \<le> length bs" by simp_all
  then have "take 24 bs @ [bs ! 24] @ drop 25 bs = bs"
    using id_take_nth_drop [of 24 bs] by simp
  with bs(1) have w: "WalEntry_WriteAdv example_entry = Inr (take 24 bs @ [bs ! 24] @ drop 25 bs)" by (simp only:)
  have "\<exists>r. WalEntry_ReadAdv 100 (take 24 bs @ [bs ! 24 + 1] @ drop 25 bs @ []) = Inr (None, r)"
    by (rule WalEntry_corruption_detected [OF valid_example_entry w]) (use bs(2) in simp_all)
  then show ?thesis using bs by (simp only: append_Nil2) blast
qed

end
