(* ===== verification/Wal_Replay.thy ===== *)
theory Wal_Replay
  imports Wal_Entry
begin

text \<open>
  Reading the log when the server starts: the iterators over log files and the purging of damaged
  entries in \<^verbatim>\<open>src/storage/wal/wal_entry.cpp\<close>, and the selection of the entries to replay in
  \<^verbatim>\<open>WalManager::ReplayWalFile\<close> of \<^verbatim>\<open>wal_manager.cpp\<close>.  Files are a map from paths to contents.
\<close>

section \<open>Iterating over one file\<close>

type_synonym files = "string \<rightharpoonup> byte list"

record wal_iter =
  it_backward :: bool
  it_off :: nat
  it_buf :: "byte list"

definition WalEntryIterator_new :: "byte list \<Rightarrow> bool \<Rightarrow> wal_iter" where
  "WalEntryIterator_new buf is_backward =
     \<lparr>it_backward = is_backward, it_off = (if is_backward then length buf else 0), it_buf = buf\<rparr>"

definition WalEntryIterator_Make :: "files \<Rightarrow> string \<Rightarrow> bool \<Rightarrow> wal_iter res" where
  "WalEntryIterator_Make fs wal_path is_backward =
     (case fs wal_path of
        None \<Rightarrow> Inl (UnrecoverableError ''WAL open failed'')
      | Some buf \<Rightarrow> Inr (WalEntryIterator_new buf is_backward))"

definition WalEntryIterator_HasNext :: "wal_iter \<Rightarrow> bool" where
  "WalEntryIterator_HasNext it \<longleftrightarrow>
     it_backward it \<and> it_off it > 0 \<or> \<not> it_backward it \<and> it_off it < length (it_buf it)"

text \<open>An \<^verbatim>\<open>i32\<close> converted to \<^verbatim>\<open>SizeT\<close>.\<close>

definition sizet_of :: "i32 \<Rightarrow> nat" where
  "sizet_of n = unat (scast n :: u64)"

definition read_entry :: "int \<Rightarrow> byte list \<Rightarrow> wal_entry option res" where
  "read_entry max_bytes bs = res_bind (WalEntry_ReadAdv max_bytes bs) (\<lambda>(entry, _). Inr entry)"

text \<open>
  The bounds check of the forward iterator wraps around for a negative size; an entry is only read
  for a positive one, and then the new offset is within the file.
\<close>

definition WalEntryIterator_Next :: "wal_iter \<Rightarrow> (wal_entry option \<times> wal_iter) res" where
  "WalEntryIterator_Next it =
     (if it_backward it then
        res_bind (i32_at (it_buf it) (int (it_off it) - 4)) (\<lambda>entry_size.
          if sizet_of entry_size > it_off it then Inr (None, it)
          else
            let pos = it_off it - sizet_of entry_size
            in res_bind (read_entry (sint entry_size) (drop pos (it_buf it))) (\<lambda>entry.
                 Inr (entry, if entry \<noteq> None then it\<lparr>it_off := pos\<rparr> else it)))
      else
        res_bind (i32_at (it_buf it) (int (it_off it))) (\<lambda>entry_size.
          if (it_off it + sizet_of entry_size) mod 2 ^ 64 > length (it_buf it) then Inr (None, it)
          else
            res_bind (read_entry (sint entry_size) (drop (it_off it) (it_buf it))) (\<lambda>entry.
              Inr (entry, if entry \<noteq> None then it\<lparr>it_off := it_off it + sizet_of entry_size\<rparr> else it))))"

section \<open>Progress\<close>

lemma read_entry_empty: "m \<le> 0 \<Longrightarrow> read_entry m bs = Inr None"
  by (simp add: read_entry_def WalEntry_ReadAdv_def rd_return_def)

lemma read_entry_Some: "read_entry m bs = Inr (Some e) \<Longrightarrow> 0 < m"
  using read_entry_empty [of m bs] by (cases "m \<le> 0") simp_all

lemma sizet_of_pos:
  assumes "0 < sint n"
  shows "int (sizet_of n) = sint n"
proof -
  have "sint n < 2 ^ 31" using sint_lt [of n] by simp
  then have "take_bit 64 (sint n) = sint n"
    using assms by (intro take_bit_int_eq_self) simp_all
  then have "uint (scast n :: u64) = sint n"
    by (simp only: scast_eq uint_word_of_int_eq) simp
  then show ?thesis by (simp add: sizet_of_def)
qed

lemma Next_backward:
  assumes "WalEntryIterator_Next it = Inr (Some e, it')" and "it_backward it"
  shows "it_off it' < it_off it" and "it_buf it' = it_buf it" and "it_backward it'"
  using assms read_entry_Some sizet_of_pos
  by (auto simp: WalEntryIterator_Next_def res_bind_eq_Inr Let_def split: if_splits) fastforce

lemma Next_forward:
  assumes "WalEntryIterator_Next it = Inr (Some e, it')" and "\<not> it_backward it"
  shows "it_off it < it_off it'" and "it_buf it' = it_buf it" and "\<not> it_backward it'"
  using assms read_entry_Some sizet_of_pos
  by (auto simp: WalEntryIterator_Next_def res_bind_eq_Inr Let_def split: if_splits) fastforce

lemma Next_None: "WalEntryIterator_Next it = Inr (None, it') \<Longrightarrow> it' = it"
  by (auto simp: WalEntryIterator_Next_def res_bind_eq_Inr Let_def split: if_splits)

text \<open>The number of bytes an iterator has left.\<close>

definition it_left :: "wal_iter \<Rightarrow> nat" where
  "it_left it = (if it_backward it then it_off it else length (it_buf it) - it_off it)"

lemma Next_left:
  assumes "WalEntryIterator_Next it = Inr (Some e, it')" and "WalEntryIterator_HasNext it"
  shows "it_left it' < it_left it"
proof (cases "it_backward it")
  case True
  then show ?thesis using Next_backward [OF assms(1)] by (simp add: it_left_def)
next
  case False
  then show ?thesis
    using Next_forward [OF assms(1)] assms(2) by (simp add: it_left_def WalEntryIterator_HasNext_def)
qed

section \<open>Purging damaged entries\<close>

text \<open>
  The inner loop of \<^verbatim>\<open>PurgeBadEntriesAfterLatestCheckpoint\<close>: whether a checkpoint was seen, and the
  offset of the first bad entry if there is one.
\<close>

function scan_entries :: "wal_iter \<Rightarrow> bool \<Rightarrow> (bool \<times> nat option) res" where
  "scan_entries it found_checkpoint =
     (if \<not> WalEntryIterator_HasNext it then Inr (found_checkpoint, None)
      else
        case WalEntryIterator_Next it of
          Inl err \<Rightarrow> Inl err
        | Inr (None, it') \<Rightarrow> Inr (found_checkpoint, Some (it_off it'))
        | Inr (Some entry, it') \<Rightarrow> scan_entries it' (found_checkpoint \<or> IsCheckPoint entry))"
  by pat_completeness auto
termination
  by (relation "measure (\<lambda>(it, _). it_left it)") (auto intro: Next_left)

declare scan_entries.simps [simp del]

text \<open>
  The outer loop; \<open>rest\<close> are the files from the iterator of the loop on.  A file with a bad entry is
  truncated there or deleted, and the newer files are dropped from the list.
\<close>

fun purge_loop :: "string list \<Rightarrow> bool \<Rightarrow> nat \<Rightarrow> string list \<Rightarrow> files \<Rightarrow> (string list \<times> files) res" where
  "purge_loop [] found_checkpoint file_num wal_list fs = Inr (wal_list, fs)"
| "purge_loop (path # rest) found_checkpoint file_num wal_list fs =
     (if found_checkpoint then Inr (wal_list, fs)
      else
        res_bind (WalEntryIterator_Make fs path False) (\<lambda>it.
        res_bind (scan_entries it found_checkpoint) (\<lambda>(found, bad_offset).
          case bad_offset of
            None \<Rightarrow> purge_loop rest found (file_num + 1) wal_list fs
          | Some off \<Rightarrow>
              if off = 0 then purge_loop rest found 0 (drop (file_num + 1) wal_list) (fs(path := None))
              else purge_loop rest found 1 (drop file_num wal_list)
                     (fs(path \<mapsto> take off (the (fs path)))))))"

definition PurgeBadEntriesAfterLatestCheckpoint :: "string list \<Rightarrow> files \<Rightarrow> (string list \<times> files) res" where
  "PurgeBadEntriesAfterLatestCheckpoint wal_list fs = purge_loop wal_list False 0 wal_list fs"

section \<open>Iterating over all files, newest entries first\<close>

record wal_list_iter =
  li_wal_list :: "string list"
  li_iter :: "wal_iter option"

definition WalListIterator_new :: "string list \<Rightarrow> files \<Rightarrow> (wal_list_iter \<times> files) res" where
  "WalListIterator_new wal_list fs =
     res_bind (PurgeBadEntriesAfterLatestCheckpoint wal_list fs) (\<lambda>(wal_list, fs).
       case wal_list of
         [] \<Rightarrow> Inr (\<lparr>li_wal_list = [], li_iter = None\<rparr>, fs)
       | path # _ \<Rightarrow>
           res_bind (WalEntryIterator_Make fs path True) (\<lambda>it.
             Inr (\<lparr>li_wal_list = wal_list, li_iter = Some it\<rparr>, fs)))"

fun HasNext_loop :: "files \<Rightarrow> string list \<Rightarrow> wal_iter \<Rightarrow> (bool \<times> wal_list_iter) res" where
  "HasNext_loop fs (_ # path # paths) it =
     res_bind (WalEntryIterator_Make fs path True) (\<lambda>it'.
       if WalEntryIterator_HasNext it' then Inr (True, \<lparr>li_wal_list = path # paths, li_iter = Some it'\<rparr>)
       else HasNext_loop fs (path # paths) it')"
| "HasNext_loop fs wal_list it = Inr (False, \<lparr>li_wal_list = wal_list, li_iter = Some it\<rparr>)"

definition WalListIterator_HasNext :: "files \<Rightarrow> wal_list_iter \<Rightarrow> (bool \<times> wal_list_iter) res" where
  "WalListIterator_HasNext fs li =
     (case li_iter li of
        None \<Rightarrow> Inr (False, li)
      | Some it \<Rightarrow>
          if WalEntryIterator_HasNext it then Inr (True, li)
          else HasNext_loop fs (li_wal_list li) it)"

definition WalListIterator_Next :: "wal_list_iter \<Rightarrow> (wal_entry option \<times> wal_list_iter) res" where
  "WalListIterator_Next li =
     (case li_iter li of
        None \<Rightarrow> Inl UndefinedBehaviour
      | Some it \<Rightarrow>
          res_bind (WalEntryIterator_Next it) (\<lambda>(entry, it'). Inr (entry, li\<lparr>li_iter := Some it'\<rparr>)))"

text \<open>One round of a loop \<^verbatim>\<open>while (iterator.HasNext()) { entry = iterator.Next(); ... }\<close>.\<close>

definition next_entry :: "files \<Rightarrow> wal_list_iter \<Rightarrow> (wal_entry option \<times> wal_list_iter) option res" where
  "next_entry fs li =
     res_bind (WalListIterator_HasNext fs li) (\<lambda>(more, li).
       if more then res_bind (WalListIterator_Next li) (\<lambda>r. Inr (Some r)) else Inr None)"

definition li_left :: "files \<Rightarrow> wal_list_iter \<Rightarrow> nat" where
  "li_left fs li =
     (case li_iter li of None \<Rightarrow> 0 | Some it \<Rightarrow> it_left it)
     + sum_list (map (\<lambda>p. case fs p of None \<Rightarrow> 0 | Some bs \<Rightarrow> length bs) (tl (li_wal_list li)))"

abbreviation files_size :: "files \<Rightarrow> string list \<Rightarrow> nat" where
  "files_size fs paths \<equiv> sum_list (map (\<lambda>p. case fs p of None \<Rightarrow> 0 | Some bs \<Rightarrow> length bs) paths)"

lemma Make_left: "WalEntryIterator_Make fs path True = Inr it \<Longrightarrow> it_left it = files_size fs [path]"
  by (auto simp: WalEntryIterator_Make_def WalEntryIterator_new_def it_left_def split: option.splits)

lemma HasNext_loop_left:
  "HasNext_loop fs paths it = Inr (True, li) \<Longrightarrow>
     (\<exists>it'. li_iter li = Some it' \<and> WalEntryIterator_HasNext it') \<and> li_left fs li \<le> files_size fs (tl paths)"
proof (induction fs paths it rule: HasNext_loop.induct)
  case (1 fs p0 path paths it)
  then obtain it' where it': "WalEntryIterator_Make fs path True = Inr it'" by (auto simp: res_bind_eq_Inr)
  show ?case
  proof (cases "WalEntryIterator_HasNext it'")
    case True
    then have "li = \<lparr>li_wal_list = path # paths, li_iter = Some it'\<rparr>" using "1.prems" it' by simp
    then show ?thesis using True Make_left [OF it'] by (simp add: li_left_def)
  next
    case False
    then have "HasNext_loop fs (path # paths) it' = Inr (True, li)" using "1.prems" it' by simp
    from "1.IH" [OF False this] show ?thesis by simp
  qed
qed simp_all

lemma next_entry_left:
  assumes "next_entry fs li = Inr (Some (Some e, li'))"
  shows "li_left fs li' < li_left fs li"
proof -
  obtain li1 where h: "WalListIterator_HasNext fs li = Inr (True, li1)"
    and n: "WalListIterator_Next li1 = Inr (Some e, li')"
    using assms by (auto simp: next_entry_def res_bind_eq_Inr split: if_splits)
  obtain it where it: "li_iter li1 = Some it" "WalEntryIterator_HasNext it" and le: "li_left fs li1 \<le> li_left fs li"
    using h HasNext_loop_left [of fs "li_wal_list li" _ li1]
    by (fastforce simp: WalListIterator_HasNext_def li_left_def split: option.splits if_splits)
  obtain it' where "WalEntryIterator_Next it = Inr (Some e, it')" "li' = li1\<lparr>li_iter := Some it'\<rparr>"
    using n it(1) by (auto simp: WalListIterator_Next_def res_bind_eq_Inr)
  then have "li_left fs li' < li_left fs li1" using Next_left it by (simp add: li_left_def)
  with le show ?thesis by simp
qed

section \<open>Selecting the entries to replay\<close>

text \<open>Phase 1: back to the latest checkpoint; the entries in front of it are to be replayed.\<close>

function replay_phase1 ::
  "files \<Rightarrow> wal_list_iter \<Rightarrow> wal_entry list \<Rightarrow> (wal_entry list \<times> (wal_cmd \<times> wal_entry) option \<times> wal_list_iter) res" where
  "replay_phase1 fs li replay_entries =
     (case next_entry fs li of
        Inl err \<Rightarrow> Inl err
      | Inr None \<Rightarrow> Inr (replay_entries, None, li)
      | Inr (Some (None, _)) \<Rightarrow> Inl (UnrecoverableError ''Found unexpected bad wal entry'')
      | Inr (Some (Some entry, li')) \<Rightarrow>
          (case IsCheckPoint_cmd entry replay_entries of
             Some (checkpoint_cmd, replay_entries) \<Rightarrow> Inr (replay_entries, Some (checkpoint_cmd, entry), li')
           | None \<Rightarrow> replay_phase1 fs li' (replay_entries @ [entry])))"
  by pat_completeness auto
termination
  by (relation "measure (\<lambda>(fs, li, _). li_left fs li)") (auto intro: next_entry_left)

declare replay_phase1.simps [simp del]

text \<open>
  Phase 2: further back, as long as the entries are newer than the checkpoint covers.  A bad entry
  there clears the list.
\<close>

function replay_phase2 :: "files \<Rightarrow> wal_list_iter \<Rightarrow> u64 \<Rightarrow> wal_entry list \<Rightarrow> wal_entry list res" where
  "replay_phase2 fs li max_commit_ts replay_entries =
     (case next_entry fs li of
        Inl err \<Rightarrow> Inl err
      | Inr None \<Rightarrow> Inr replay_entries
      | Inr (Some (None, _)) \<Rightarrow> Inr []
      | Inr (Some (Some entry, li')) \<Rightarrow>
          if we_commit_ts entry > max_commit_ts
          then replay_phase2 fs li' max_commit_ts (replay_entries @ [entry])
          else Inr replay_entries)"
  by pat_completeness auto
termination
  by (relation "measure (\<lambda>(fs, li, _, _). li_left fs li)") (auto intro: next_entry_left)

declare replay_phase2.simps [simp del]

fun checkpoint_ts :: "wal_cmd \<Rightarrow> u64" where
  "checkpoint_ts (WalCmdCheckpoint max_commit_ts _ _) = scast max_commit_ts"
| "checkpoint_ts _ = 0"

fun checkpoint_path :: "wal_cmd \<Rightarrow> string" where
  "checkpoint_path (WalCmdCheckpoint _ _ catalog_path) = catalog_path"
| "checkpoint_path _ = []"

record replay_plan =
  rp_max_commit_ts :: u64
  rp_catalog_path :: string
  rp_checkpoint_commit_ts :: u64
  rp_entries :: "wal_entry list"

text \<open>
  \<^verbatim>\<open>ReplayWalFile\<close> up to the replay of the selected entries, in commit order; the log files it leaves
  are part of the result.  \<open>None\<close> is the start with a new catalog.
\<close>

definition ReplayWalFile_select :: "string list \<Rightarrow> files \<Rightarrow> (replay_plan option \<times> files) res" where
  "ReplayWalFile_select wal_list fs =
     (if wal_list = [] then Inr (None, fs)
      else
        res_bind (WalListIterator_new wal_list fs) (\<lambda>(li, fs).
        res_bind (replay_phase1 fs li []) (\<lambda>(replay_entries, ckp, li).
          let max_commit_ts = (case ckp of None \<Rightarrow> 0 | Some (cmd, _) \<Rightarrow> checkpoint_ts cmd);
              system_start_ts = (case ckp of None \<Rightarrow> 0 | Some (_, entry) \<Rightarrow> we_commit_ts entry)
          in res_bind (replay_phase2 fs li max_commit_ts replay_entries) (\<lambda>replay_entries.
               if system_start_ts = 0 then Inl (UnrecoverableError ''No checkpoint found in wal'')
               else Inr (Some \<lparr>rp_max_commit_ts = max_commit_ts,
                               rp_catalog_path = (case ckp of None \<Rightarrow> [] | Some (cmd, _) \<Rightarrow> checkpoint_path cmd),
                               rp_checkpoint_commit_ts = system_start_ts,
                               rp_entries = rev replay_entries\<rparr>, fs)))))"

text \<open>Phase 3 checks each entry before it is replayed and ends with the time stamp and id of the last one.\<close>

fun replay_phase3 :: "u64 \<Rightarrow> u64 \<Rightarrow> i64 \<Rightarrow> wal_entry list \<Rightarrow> (u64 \<times> i64) res" where
  "replay_phase3 max_commit_ts system_start_ts last_txn_id [] = Inr (system_start_ts, last_txn_id)"
| "replay_phase3 max_commit_ts system_start_ts last_txn_id (entry # entries) =
     (if we_commit_ts entry < max_commit_ts
      then Inl (UnrecoverableError (''Wal Replay: Commit ts should be greater than max commit ts, commit_ts: ''
             @ nat_digits (unat (we_commit_ts entry)) @ '', max_commit: '' @ nat_digits (unat max_commit_ts)))
      else replay_phase3 max_commit_ts (we_commit_ts entry) (we_txn_id entry) entries)"

section \<open>Files of intact entries\<close>

definition wbytes :: "wal_entry \<Rightarrow> byte list" where
  "wbytes e = projr (WalEntry_WriteAdv e)"

definition lentry :: "wal_entry \<Rightarrow> wal_entry" where
  "lentry e = logged e (wbytes e)"

definition file_of :: "wal_entry list \<Rightarrow> byte list" where
  "file_of es = concat (map wbytes es)"

lemma lentry_simps [simp]:
  "we_cmds (lentry e) = we_cmds e" "we_commit_ts (lentry e) = we_commit_ts e" "we_txn_id (lentry e) = we_txn_id e"
  by (simp_all add: lentry_def logged_def)

lemma IsCheckPoint_lentry [simp]: "IsCheckPoint (lentry e) = IsCheckPoint e"
  by (simp add: IsCheckPoint_def)

lemma wbytes_frame:
  assumes "valid_wal_entry e"
  obtains xs n where "WalEntry_WriteAdv e = Inr (wbytes e)" and "wbytes e = WriteBufAdv n @ xs @ WriteBufAdv n"
    and "n = (word_of_nat (length (wbytes e)) :: i32)" and "length (wbytes e) < 2 ^ 31" and "32 \<le> length (wbytes e)"
proof -
  obtain cmds n c where b: "WalEntry_WriteAdv e = Inr (header_bytes n c (we_txn_id e) (we_commit_ts e)
           @ (WriteBufAdv (word_of_nat (length (we_cmds e)) :: i32) @ cmds) @ WriteBufAdv n)"
    and n: "n = word_of_nat (32 + length cmds)" "32 + length cmds < 2 ^ 31"
    by (rule WalEntry_bytes [OF assms])
  then have w: "WalEntry_WriteAdv e = Inr (wbytes e)"
    "wbytes e = header_bytes n c (we_txn_id e) (we_commit_ts e)
           @ (WriteBufAdv (word_of_nat (length (we_cmds e)) :: i32) @ cmds) @ WriteBufAdv n" by (simp_all add: wbytes_def)
  then have "length (wbytes e) = 32 + length cmds" by simp
  moreover have "wbytes e = WriteBufAdv n @ (WriteBufAdv c @ WriteBufAdv (we_txn_id e) @ WriteBufAdv (we_commit_ts e)
      @ WriteBufAdv (word_of_nat (length (we_cmds e)) :: i32) @ cmds) @ WriteBufAdv n"
    using w(2) by (simp add: header_bytes_def)
  ultimately show ?thesis using that w(1) n by simp
qed

lemma wbytes_nonempty:
  assumes "valid_wal_entry e"
  shows "wbytes e \<noteq> []"
proof -
  have "32 \<le> length (wbytes e)" by (rule wbytes_frame [OF assms])
  then show ?thesis by auto
qed

lemma i32_at_front: "i32_at (pre @ WriteBufAdv n @ rest) (int (length pre)) = Inr n"
  by (simp add: i32_at_def)

lemma i32_at_back: "i32_at (pre @ WriteBufAdv n @ rest) (int (length (pre @ WriteBufAdv n)) - 4) = Inr n"
  using i32_at_front [of pre n rest] by simp

lemma sizet_of_nat: "k < 2 ^ 31 \<Longrightarrow> sizet_of (word_of_nat k) = k"
  by (simp add: sizet_of_def unat_scast_nat)

lemma Next_forward_intact:
  assumes v: "valid_wal_entry e" and it: "\<not> it_backward it" "it_buf it = pre @ wbytes e @ post" "it_off it = length pre"
    and len: "length (it_buf it) < 2 ^ 63"
  shows "WalEntryIterator_Next it = Inr (Some (lentry e), it\<lparr>it_off := length (pre @ wbytes e)\<rparr>)"
proof -
  obtain xs n where w: "WalEntry_WriteAdv e = Inr (wbytes e)" "wbytes e = WriteBufAdv n @ xs @ WriteBufAdv n"
    and n: "n = (word_of_nat (length (wbytes e)) :: i32)" "length (wbytes e) < 2 ^ 31" "32 \<le> length (wbytes e)"
    by (rule wbytes_frame [OF v])
  have a: "i32_at (it_buf it) (int (it_off it)) = Inr n"
    using i32_at_front [of pre n "(xs @ WriteBufAdv n) @ post"] it w(2) by simp
  have s: "sizet_of n = length (wbytes e)" "sint n = int (length (wbytes e))"
    using n by (simp_all add: sizet_of_nat sint_word_of_nat32)
  have r: "read_entry (sint n) (drop (it_off it) (it_buf it)) = Inr (Some (lentry e))"
    using WalEntry_read_back [OF v w(1), of "sint n" post] it s by (simp add: read_entry_def lentry_def)
  have m: "(it_off it + sizet_of n) mod 2 ^ 64 = length (pre @ wbytes e)"
    using len it s by simp
  then have "\<not> length (it_buf it) < (it_off it + sizet_of n) mod 2 ^ 64" using it by simp
  then show ?thesis
    unfolding WalEntryIterator_Next_def a res_bind_simps r using it s by simp
qed

lemma Next_backward_intact:
  assumes v: "valid_wal_entry e" and it: "it_backward it" "it_buf it = pre @ wbytes e @ post"
    "it_off it = length (pre @ wbytes e)"
  shows "WalEntryIterator_Next it = Inr (Some (lentry e), it\<lparr>it_off := length pre\<rparr>)"
proof -
  obtain xs n where w: "WalEntry_WriteAdv e = Inr (wbytes e)" "wbytes e = WriteBufAdv n @ xs @ WriteBufAdv n"
    and n: "n = (word_of_nat (length (wbytes e)) :: i32)" "length (wbytes e) < 2 ^ 31" "32 \<le> length (wbytes e)"
    by (rule wbytes_frame [OF v])
  have a: "i32_at (it_buf it) (int (it_off it) - 4) = Inr n"
    using i32_at_back [of "pre @ WriteBufAdv n @ xs" n post] it(2,3) w(2) by simp
  have s: "sizet_of n = length (wbytes e)" "sint n = int (length (wbytes e))"
    using n by (simp_all add: sizet_of_nat sint_word_of_nat32)
  have r: "read_entry (sint n) (drop (it_off it - sizet_of n) (it_buf it)) = Inr (Some (lentry e))"
    using WalEntry_read_back [OF v w(1), of "sint n" post] it s by (simp add: read_entry_def lentry_def)
  show ?thesis
    unfolding WalEntryIterator_Next_def a res_bind_simps using it s r by simp
qed

text \<open>The end of a file after a crash while an entry was written: at least its size is there.\<close>

definition torn_entry :: "byte list \<Rightarrow> bool" where
  "torn_entry bs \<longleftrightarrow> (\<exists>e k. valid_wal_entry e \<and> 4 \<le> k \<and> k < length (wbytes e) \<and> bs = take k (wbytes e))"

lemma Next_torn:
  assumes t: "torn_entry bs" and it: "\<not> it_backward it" "it_buf it = pre @ bs" "it_off it = length pre"
    and len: "length (it_buf it) < 2 ^ 63"
  shows "WalEntryIterator_Next it = Inr (None, it)"
proof -
  obtain e k where e: "valid_wal_entry e" "4 \<le> k" "k < length (wbytes e)" "bs = take k (wbytes e)"
    using t by (auto simp: torn_entry_def)
  obtain xs n where w: "wbytes e = WriteBufAdv n @ xs @ WriteBufAdv n"
    and n: "n = (word_of_nat (length (wbytes e)) :: i32)" "length (wbytes e) < 2 ^ 31"
    by (rule wbytes_frame [OF e(1)])
  have "bs = WriteBufAdv n @ take (k - 4) (xs @ WriteBufAdv n)" using e(2,4) w by simp
  then have a: "i32_at (it_buf it) (int (it_off it)) = Inr n"
    using i32_at_front [of pre n] it by simp
  have s: "sizet_of n = length (wbytes e)" using n by (simp add: sizet_of_nat)
  have "length bs = k" using e by simp
  then have "(it_off it + sizet_of n) mod 2 ^ 64 = it_off it + length (wbytes e)"
    using len it s n(2) by simp
  then have "length (it_buf it) < (it_off it + sizet_of n) mod 2 ^ 64"
    using e(3) it \<open>length bs = k\<close> by simp
  then show ?thesis unfolding WalEntryIterator_Next_def a res_bind_simps using it by simp
qed

lemma scan_entries_file:
  "list_all valid_wal_entry es \<Longrightarrow> length (pre @ file_of es @ bs) < 2 ^ 63 \<Longrightarrow> bs = [] \<or> torn_entry bs \<Longrightarrow>
     scan_entries \<lparr>it_backward = False, it_off = length pre, it_buf = pre @ file_of es @ bs\<rparr> found
     = Inr (found \<or> list_ex IsCheckPoint es, if bs = [] then None else Some (length (pre @ file_of es)))"
proof (induction es arbitrary: pre found)
  case Nil
  let ?it = "\<lparr>it_backward = False, it_off = length pre, it_buf = pre @ bs\<rparr>"
  show ?case
  proof (cases "bs = []")
    case True
    then show ?thesis by (simp add: file_of_def scan_entries.simps WalEntryIterator_HasNext_def)
  next
    case False
    then have "WalEntryIterator_Next ?it = Inr (None, ?it)"
      using Nil.prems by (intro Next_torn [where bs = bs and pre = pre]) (simp_all add: file_of_def)
    then show ?thesis
      using False by (simp add: file_of_def scan_entries.simps [of ?it] WalEntryIterator_HasNext_def)
  qed
next
  case (Cons e es)
  let ?it = "\<lparr>it_backward = False, it_off = length pre, it_buf = pre @ file_of (e # es) @ bs\<rparr>"
  have v: "valid_wal_entry e" using Cons.prems by simp
  have n: "WalEntryIterator_Next ?it = Inr (Some (lentry e), ?it\<lparr>it_off := length (pre @ wbytes e)\<rparr>)"
    using Cons.prems by (intro Next_forward_intact [OF v, where post = "file_of es @ bs"]) (simp_all add: file_of_def)
  have "wbytes e \<noteq> []" by (rule wbytes_nonempty [OF v])
  then have h: "WalEntryIterator_HasNext ?it" by (simp add: WalEntryIterator_HasNext_def file_of_def)
  have "scan_entries ?it found
      = scan_entries (?it\<lparr>it_off := length (pre @ wbytes e)\<rparr>) (found \<or> IsCheckPoint e)"
    by (subst scan_entries.simps) (simp only: n h simp_thms if_False sum.case prod.case option.case IsCheckPoint_lentry)
  also have "?it\<lparr>it_off := length (pre @ wbytes e)\<rparr>
      = \<lparr>it_backward = False, it_off = length (pre @ wbytes e), it_buf = (pre @ wbytes e) @ file_of es @ bs\<rparr>"
    by (simp add: file_of_def)
  also have "scan_entries \<dots> (found \<or> IsCheckPoint e) = Inr ((found \<or> IsCheckPoint e) \<or> list_ex IsCheckPoint es,
      if bs = [] then None else Some (length ((pre @ wbytes e) @ file_of es)))"
    using Cons.prems by (intro Cons.IH) (simp_all add: file_of_def)
  finally show ?case by (simp add: file_of_def)
qed

lemma scan_file:
  assumes "fs p = Some (file_of es @ bs)" and "list_all valid_wal_entry es" and "length (file_of es @ bs) < 2 ^ 63"
    and "bs = [] \<or> torn_entry bs"
  shows "res_bind (WalEntryIterator_Make fs p False) (\<lambda>it. scan_entries it False)
    = Inr (list_ex IsCheckPoint es, if bs = [] then None else Some (length (file_of es)))"
  using scan_entries_file [OF assms(2) _ assms(4), of "[]" False] assms(1,3)
  by (simp add: WalEntryIterator_Make_def WalEntryIterator_new_def)

text \<open>The intact log files of a directory, each with its entries.\<close>

definition intact_file :: "files \<Rightarrow> string \<Rightarrow> wal_entry list \<Rightarrow> bool" where
  "intact_file fs p es \<longleftrightarrow> fs p = Some (file_of es) \<and> list_all valid_wal_entry es \<and> length (file_of es) < 2 ^ 63"

lemma purge_intact:
  "list_all2 (intact_file fs) paths ess \<Longrightarrow> purge_loop paths found file_num wal_list fs = Inr (wal_list, fs)"
proof (induction paths ess arbitrary: found file_num rule: list_all2_induct)
  case (Cons p paths es ess)
  then have "res_bind (WalEntryIterator_Make fs p False) (\<lambda>it. scan_entries it False) = Inr (list_ex IsCheckPoint es, None)"
    using scan_file [of fs p es "[]"] by (simp add: intact_file_def)
  then show ?case using Cons.IH by (cases "WalEntryIterator_Make fs p False") simp_all
qed simp

text \<open>What is left of the files when the newest one ends with a torn entry.\<close>

definition purged :: "string \<Rightarrow> string list \<Rightarrow> wal_entry list \<Rightarrow> byte list \<Rightarrow> files \<Rightarrow> string list \<times> files" where
  "purged p ps es bs fs =
     (if bs = [] then (p # ps, fs)
      else if es = [] then (ps, fs(p := None))
      else (p # ps, fs(p \<mapsto> file_of es)))"

lemma list_all2_intact_upd:
  "list_all2 (intact_file fs) ps ess \<Longrightarrow> p \<notin> set ps \<Longrightarrow> list_all2 (intact_file (fs(p := v))) ps ess"
  by (induction ps ess rule: list_all2_induct) (auto simp: intact_file_def)

lemma purge_torn:
  assumes "fs p = Some (file_of es @ bs)" and "list_all valid_wal_entry es" and "length (file_of es @ bs) < 2 ^ 63"
    and "bs = [] \<or> torn_entry bs" and "list_all2 (intact_file fs) ps ess" and "p \<notin> set ps"
  shows "PurgeBadEntriesAfterLatestCheckpoint (p # ps) fs = Inr (purged p ps es bs fs)"
proof -
  obtain it where it: "WalEntryIterator_Make fs p False = Inr it"
    "scan_entries it False = Inr (list_ex IsCheckPoint es, if bs = [] then None else Some (length (file_of es)))"
    using scan_file [of fs p es bs, OF assms(1-4)] by (cases "WalEntryIterator_Make fs p False") auto
  have "file_of es = [] \<longleftrightarrow> es = []"
  proof (cases es)
    case (Cons e es')
    have "wbytes e \<noteq> []" using assms(2) Cons by (simp add: wbytes_nonempty)
    then show ?thesis using Cons by (simp add: file_of_def)
  qed (simp add: file_of_def)
  moreover have "purge_loop ps c n wl (fs(p := v)) = Inr (wl, fs(p := v))" for c n wl v
    by (rule purge_intact [OF list_all2_intact_upd [OF assms(5,6)]])
  moreover have "purge_loop ps c n wl fs = Inr (wl, fs)" for c n wl by (rule purge_intact [OF assms(5)])
  ultimately show ?thesis
    using it assms(1) by (auto simp: PurgeBadEntriesAfterLatestCheckpoint_def purged_def)
qed

section \<open>Iterating backwards over intact files\<close>

text \<open>The iterator has the entries \<open>es\<close> of its file and all those of the older files in front of it.\<close>

definition li_at :: "files \<Rightarrow> wal_list_iter \<Rightarrow> wal_entry list \<Rightarrow> wal_entry list list \<Rightarrow> bool" where
  "li_at fs li es ess \<longleftrightarrow>
     (\<exists>p ps it post. li_wal_list li = p # ps \<and> li_iter li = Some it \<and> it_backward it
        \<and> it_buf it = file_of es @ post \<and> it_off it = length (file_of es) \<and> list_all valid_wal_entry es
        \<and> list_all2 (intact_file fs) ps ess)"

definition newest_first :: "wal_entry list \<Rightarrow> wal_entry list list \<Rightarrow> wal_entry list" where
  "newest_first es ess = rev es @ concat (map rev ess)"

lemma file_of_snoc: "file_of (es @ [e]) = file_of es @ wbytes e"
  by (simp add: file_of_def)

lemma list_Next_entry:
  assumes "li_at fs li (es @ [e]) ess"
  shows "\<exists>li'. WalListIterator_HasNext fs li = Inr (True, li) \<and> WalListIterator_Next li = Inr (Some (lentry e), li')
    \<and> li_at fs li' es ess"
proof -
  obtain p ps it post where li: "li_wal_list li = p # ps" "li_iter li = Some it" "it_backward it"
    "it_buf it = file_of es @ wbytes e @ post" "it_off it = length (file_of es @ wbytes e)"
    "list_all valid_wal_entry es" "valid_wal_entry e" "list_all2 (intact_file fs) ps ess"
    using assms by (auto simp: li_at_def file_of_snoc)
  have "0 < it_off it" using li(5) wbytes_nonempty [OF li(7)] by simp
  then have "WalListIterator_HasNext fs li = Inr (True, li)"
    using li by (simp add: WalListIterator_HasNext_def WalEntryIterator_HasNext_def)
  moreover have "WalListIterator_Next li = Inr (Some (lentry e), li\<lparr>li_iter := Some (it\<lparr>it_off := length (file_of es)\<rparr>)\<rparr>)"
    using Next_backward_intact [OF li(7,3,4,5)] li(2) by (simp add: WalListIterator_Next_def)
  moreover have "li_at fs (li\<lparr>li_iter := Some (it\<lparr>it_off := length (file_of es)\<rparr>)\<rparr>) es ess"
    using li by (auto simp: li_at_def)
  ultimately show ?thesis by blast
qed

lemma HasNext_loop_intact:
  "list_all2 (intact_file fs) ps ess \<Longrightarrow>
     (if concat ess = [] then \<exists>li. HasNext_loop fs (p # ps) it = Inr (False, li)
      else \<exists>li es' e ess'. HasNext_loop fs (p # ps) it = Inr (True, li) \<and> li_at fs li (es' @ [e]) ess'
             \<and> newest_first (es' @ [e]) ess' = concat (map rev ess))"
proof (induction ps ess arbitrary: p it rule: list_all2_induct)
  case (Cons p' ps es ess)
  have f: "fs p' = Some (file_of es)" "list_all valid_wal_entry es" using Cons(1) by (simp_all add: intact_file_def)
  let ?it = "WalEntryIterator_new (file_of es) True"
  have mk: "WalEntryIterator_Make fs p' True = Inr ?it" by (simp add: WalEntryIterator_Make_def f)
  show ?case
  proof (cases es rule: rev_cases)
    case Nil
    then have "\<not> WalEntryIterator_HasNext ?it"
      by (simp add: WalEntryIterator_HasNext_def WalEntryIterator_new_def file_of_def)
    then have l: "HasNext_loop fs (p # p' # ps) it = HasNext_loop fs (p' # ps) ?it" by (simp add: mk)
    have "concat (es # ess) = concat ess" "concat (map rev (es # ess)) = concat (map rev ess)" using Nil by simp_all
    with Cons.IH [of p' ?it] show ?thesis unfolding l by (simp only:)
  next
    case (snoc es' e)
    have "wbytes e \<noteq> []" using f(2) snoc by (simp add: wbytes_nonempty)
    then have "WalEntryIterator_HasNext ?it"
      by (simp add: WalEntryIterator_HasNext_def WalEntryIterator_new_def file_of_def snoc)
    then have "HasNext_loop fs (p # p' # ps) it = Inr (True, \<lparr>li_wal_list = p' # ps, li_iter = Some ?it\<rparr>)"
      by (simp add: mk)
    moreover have "li_at fs \<lparr>li_wal_list = p' # ps, li_iter = Some ?it\<rparr> es ess"
      using Cons(2) f(2) by (simp add: li_at_def WalEntryIterator_new_def)
    ultimately show ?thesis unfolding snoc by (auto simp: newest_first_def)
  qed
qed simp

lemma next_entry_intact:
  assumes "li_at fs li es ess"
  shows "case newest_first es ess of
      [] \<Rightarrow> next_entry fs li = Inr None
    | e # rest \<Rightarrow> \<exists>li' es' ess'. next_entry fs li = Inr (Some (Some (lentry e), li')) \<and> li_at fs li' es' ess'
        \<and> newest_first es' ess' = rest"
proof (cases es rule: rev_cases)
  case (snoc es' e)
  then obtain li' where "WalListIterator_HasNext fs li = Inr (True, li)"
    "WalListIterator_Next li = Inr (Some (lentry e), li')" "li_at fs li' es' ess"
    using list_Next_entry [of fs li es' e ess] assms by blast
  moreover have "newest_first es ess = e # newest_first es' ess" using snoc by (simp add: newest_first_def)
  ultimately show ?thesis by (auto simp: next_entry_def)
next
  case Nil
  obtain p ps it where li: "li_wal_list li = p # ps" "li_iter li = Some it" "it_backward it" "it_off it = 0"
    "list_all2 (intact_file fs) ps ess"
    using assms Nil by (auto simp: li_at_def file_of_def)
  then have h: "WalListIterator_HasNext fs li = HasNext_loop fs (p # ps) it"
    by (simp add: WalListIterator_HasNext_def WalEntryIterator_HasNext_def)
  show ?thesis
  proof (cases "concat ess = []")
    case True
    then have "newest_first es ess = []" using Nil by (simp add: newest_first_def)
    moreover obtain li' where "HasNext_loop fs (p # ps) it = Inr (False, li')"
      using HasNext_loop_intact [OF li(5), of p it] True by auto
    ultimately show ?thesis using h by (simp add: next_entry_def)
  next
    case False
    obtain li1 es' e ess' where l1: "HasNext_loop fs (p # ps) it = Inr (True, li1)" "li_at fs li1 (es' @ [e]) ess'"
      "newest_first (es' @ [e]) ess' = concat (map rev ess)"
      using HasNext_loop_intact [OF li(5), of p it] unfolding if_not_P [OF False] by blast
    then have "newest_first es ess = e # newest_first es' ess'" using Nil by (simp add: newest_first_def)
    moreover obtain li' where "WalListIterator_Next li1 = Inr (Some (lentry e), li')" "li_at fs li' es' ess'"
      using list_Next_entry [OF l1(2)] by auto
    ultimately show ?thesis using h l1(1) by (auto simp: next_entry_def)
  qed
qed

section \<open>The entries that are replayed\<close>

abbreviation no_checkpoint :: "wal_entry \<Rightarrow> bool" where
  "no_checkpoint e \<equiv> \<not> IsCheckPoint e"

definition checkpoint_of :: "wal_entry \<Rightarrow> wal_cmd option" where
  "checkpoint_of e = List.find (\<lambda>cmd. WalCmd_GetType cmd = CHECKPOINT) (we_cmds e)"

lemma checkpoint_of_None: "checkpoint_of e = None \<longleftrightarrow> no_checkpoint e"
  by (auto simp: checkpoint_of_def IsCheckPoint_def find_None_iff list_ex_iff)

lemma IsCheckPoint_cmd_lentry:
  "IsCheckPoint_cmd (lentry e) acc = map_option (\<lambda>cmd. (cmd, acc)) (checkpoint_of e)"
  by (simp add: IsCheckPoint_cmd_def checkpoint_of_def)

lemma replay_phase1_intact:
  assumes "li_at fs li es ess" and "newest_first es ess = bs @ c # as" and "\<forall>b \<in> set bs. no_checkpoint b"
    and "checkpoint_of c = Some cmd"
  shows "\<exists>li' es' ess'. replay_phase1 fs li acc = Inr (acc @ map lentry bs, Some (cmd, lentry c), li')
    \<and> li_at fs li' es' ess' \<and> newest_first es' ess' = as"
  using assms
proof (induction bs arbitrary: li es ess acc)
  case Nil
  then obtain li' es' ess' where n: "next_entry fs li = Inr (Some (Some (lentry c), li'))"
    "li_at fs li' es' ess'" "newest_first es' ess' = as"
    using next_entry_intact [OF Nil(1)] by auto
  then show ?case
    using Nil.prems(4) by (subst replay_phase1.simps) (auto simp: IsCheckPoint_cmd_lentry)
next
  case (Cons b bs)
  then obtain li1 es1 ess1 where n: "next_entry fs li = Inr (Some (Some (lentry b), li1))"
    "li_at fs li1 es1 ess1" "newest_first es1 ess1 = bs @ c # as"
    using next_entry_intact [OF Cons.prems(1)] by auto
  have "checkpoint_of b = None" using Cons.prems(3) by (simp add: checkpoint_of_None)
  then have "replay_phase1 fs li acc = replay_phase1 fs li1 (acc @ [lentry b])"
    by (subst replay_phase1.simps) (simp add: n(1) IsCheckPoint_cmd_lentry)
  then show ?case
    using Cons.IH [OF n(2,3) _ Cons.prems(4), of "acc @ [lentry b]"] Cons.prems(3) by auto
qed

lemma replay_phase2_intact:
  assumes "li_at fs li es ess"
  shows "replay_phase2 fs li ts acc
    = Inr (acc @ map lentry (takeWhile (\<lambda>e. we_commit_ts e > ts) (newest_first es ess)))"
  using assms
proof (induction "newest_first es ess" arbitrary: li es ess acc)
  case Nil
  then have "next_entry fs li = Inr None" using next_entry_intact [OF Nil.prems] by simp
  then show ?case using Nil by (subst replay_phase2.simps) simp
next
  case (Cons e rest)
  obtain li1 es1 ess1 where n: "next_entry fs li = Inr (Some (Some (lentry e), li1))"
    "li_at fs li1 es1 ess1" "newest_first es1 ess1 = rest"
    using next_entry_intact [OF Cons.prems, folded Cons.hyps(2)] by auto
  show ?case
  proof (cases "we_commit_ts e > ts")
    case True
    then have "replay_phase2 fs li ts acc = replay_phase2 fs li1 ts (acc @ [lentry e])"
      by (subst replay_phase2.simps) (simp add: n(1))
    then show ?thesis
      using Cons.hyps(1) [OF n(3) [symmetric] n(2), of "acc @ [lentry e]"] True n(3)
      by (simp flip: Cons.hyps(2))
  next
    case False
    then show ?thesis by (subst replay_phase2.simps) (simp add: n(1) flip: Cons.hyps(2))
  qed
qed

lemma takeWhile_rev_sorted:
  "sorted (map f xs) \<Longrightarrow> rev (takeWhile (\<lambda>x. f x > t) (rev xs)) = filter (\<lambda>x. f x > (t :: 'a :: linorder)) xs"
proof (induction xs rule: rev_induct)
  case (snoc x xs)
  show ?case
  proof (cases "f x > t")
    case True
    then show ?thesis using snoc by (simp add: sorted_append)
  next
    case False
    then have "filter (\<lambda>x. f x > t) xs = []"
      using snoc.prems by (auto simp: sorted_append filter_empty_conv intro: le_less_trans)
    then show ?thesis using False by simp
  qed
qed simp

text \<open>
  The log files of a directory when the server starts, newest first: all files are intact, except
  that the newest one may end with an entry that was not written completely.
\<close>

definition log_state :: "files \<Rightarrow> string \<Rightarrow> string list \<Rightarrow> wal_entry list \<Rightarrow> wal_entry list list \<Rightarrow> byte list \<Rightarrow> bool" where
  "log_state fs p ps es ess bs \<longleftrightarrow>
     fs p = Some (file_of es @ bs) \<and> list_all valid_wal_entry es \<and> length (file_of es @ bs) < 2 ^ 63
     \<and> (bs = [] \<or> torn_entry bs) \<and> list_all2 (intact_file fs) ps ess \<and> p \<notin> set ps"

lemma WalListIterator_new_intact:
  assumes "log_state fs p ps es ess bs" and "newest_first es ess \<noteq> []"
  shows "\<exists>li es' ess'. WalListIterator_new (p # ps) fs = Inr (li, snd (purged p ps es bs fs))
    \<and> li_at (snd (purged p ps es bs fs)) li es' ess' \<and> newest_first es' ess' = newest_first es ess"
proof -
  have a: "fs p = Some (file_of es @ bs)" "list_all valid_wal_entry es" "length (file_of es @ bs) < 2 ^ 63"
    "bs = [] \<or> torn_entry bs" "list_all2 (intact_file fs) ps ess" "p \<notin> set ps"
    using assms(1) by (simp_all add: log_state_def)
  note purge = purge_torn [of fs p es bs, OF a]
  show ?thesis
  proof (cases "bs \<noteq> [] \<and> es = []")
    case True
    let ?fs = "fs(p := None)"
    obtain p' ps' es' ess' where l: "ps = p' # ps'" "ess = es' # ess'" "intact_file fs p' es'"
      "list_all2 (intact_file fs) ps' ess'"
      using a(5) assms(2) True by (cases ps; cases ess) (auto simp: newest_first_def)
    let ?li = "\<lparr>li_wal_list = p' # ps', li_iter = Some (WalEntryIterator_new (file_of es') True)\<rparr>"
    have "p' \<noteq> p" using a(6) l(1) by auto
    then have "WalListIterator_new (p # ps) fs = Inr (?li, ?fs)"
      using purge True l a(6)
      by (simp add: WalListIterator_new_def purged_def WalEntryIterator_Make_def intact_file_def)
    moreover have "li_at ?fs ?li es' ess'"
      using list_all2_intact_upd [OF l(4), of p None] l(1,3) a(6)
      by (simp add: li_at_def WalEntryIterator_new_def intact_file_def)
    moreover have "newest_first es' ess' = newest_first es ess" using True l(2) by (simp add: newest_first_def)
    ultimately show ?thesis using True by (auto simp: purged_def)
  next
    case False
    obtain fs' where f: "purged p ps es bs fs = (p # ps, fs')" "fs' p = Some (file_of es)"
      and intact: "list_all2 (intact_file fs') ps ess"
      using a(1,5) list_all2_intact_upd [OF a(5,6)] False by (cases "bs = []") (auto simp: purged_def)
    let ?li = "\<lparr>li_wal_list = p # ps, li_iter = Some (WalEntryIterator_new (file_of es) True)\<rparr>"
    have "WalListIterator_new (p # ps) fs = Inr (?li, fs')"
      using purge f by (simp add: WalListIterator_new_def WalEntryIterator_Make_def)
    moreover have "li_at fs' ?li es ess" using a(2) intact by (simp add: li_at_def WalEntryIterator_new_def)
    ultimately show ?thesis using f(1) by auto
  qed
qed

lemma select_uncheckpointed:
  assumes "log_state fs p ps es ess tail" and "concat (rev (es # ess)) = as @ c # bs"
    and "checkpoint_of c = Some (WalCmdCheckpoint ts full path)" and "we_commit_ts c \<noteq> 0"
    and "\<forall>b \<in> set bs. no_checkpoint b" and "sorted (map we_commit_ts as)"
  shows "ReplayWalFile_select (p # ps) fs
    = Inr (Some \<lparr>rp_max_commit_ts = scast ts, rp_catalog_path = path, rp_checkpoint_commit_ts = we_commit_ts c,
                 rp_entries = map lentry (filter (\<lambda>e. we_commit_ts e > scast ts) as @ bs)\<rparr>,
           snd (purged p ps es tail fs))"
proof -
  let ?fs = "snd (purged p ps es tail fs)"
  have "newest_first es ess = rev (concat (rev (es # ess)))"
    by (simp add: newest_first_def rev_concat rev_map)
  then have n: "newest_first es ess = rev bs @ c # rev as" unfolding assms(2) by simp
  then obtain li es' ess' where l: "WalListIterator_new (p # ps) fs = Inr (li, ?fs)" "li_at ?fs li es' ess'"
    "newest_first es' ess' = rev bs @ c # rev as"
    using WalListIterator_new_intact [OF assms(1)] by auto
  obtain li1 es1 ess1 where p1: "replay_phase1 ?fs li [] = Inr ([] @ map lentry (rev bs),
      Some (WalCmdCheckpoint ts full path, lentry c), li1)" "li_at ?fs li1 es1 ess1" "newest_first es1 ess1 = rev as"
    using replay_phase1_intact [OF l(2,3) _ assms(3), of "[]"] assms(5) by auto
  have p2: "replay_phase2 ?fs li1 (scast ts) (map lentry (rev bs))
      = Inr (map lentry (rev bs) @ map lentry (takeWhile (\<lambda>e. we_commit_ts e > scast ts) (rev as)))"
    using replay_phase2_intact [OF p1(2)] p1(3) by simp
  have "rev (map lentry (rev bs) @ map lentry (takeWhile (\<lambda>e. we_commit_ts e > scast ts) (rev as)))
      = map lentry (filter (\<lambda>e. we_commit_ts e > scast ts) as @ bs)"
    using takeWhile_rev_sorted [OF assms(6), of "scast ts"] by (simp add: rev_map)
  then show ?thesis
    using l(1) p1(1) p2 assms(4) by (simp add: ReplayWalFile_select_def)
qed

lemma replay_phase1_none:
  assumes "li_at fs li es ess" and "\<forall>b \<in> set (newest_first es ess). no_checkpoint b"
  shows "\<exists>li'. replay_phase1 fs li acc = Inr (acc @ map lentry (newest_first es ess), None, li')
    \<and> next_entry fs li' = Inr None"
  using assms
proof (induction "newest_first es ess" arbitrary: li es ess acc)
  case Nil
  then have "next_entry fs li = Inr None" using next_entry_intact [OF Nil.prems(1)] by simp
  then show ?case using Nil.hyps by (subst replay_phase1.simps) simp
next
  case (Cons b bs)
  obtain li1 es1 ess1 where n: "next_entry fs li = Inr (Some (Some (lentry b), li1))"
    "li_at fs li1 es1 ess1" "newest_first es1 ess1 = bs"
    using next_entry_intact [OF Cons.prems(1), folded Cons.hyps(2)] by auto
  have "checkpoint_of b = None" using Cons.prems(2) by (simp add: checkpoint_of_None flip: Cons.hyps(2))
  then have "replay_phase1 fs li acc = replay_phase1 fs li1 (acc @ [lentry b])"
    by (subst replay_phase1.simps) (simp add: n(1) IsCheckPoint_cmd_lentry)
  then show ?case
    using Cons.hyps(1) [OF n(3) [symmetric] n(2), of "acc @ [lentry b]"] Cons.prems(2) n(3)
    by (simp flip: Cons.hyps(2))
qed

text \<open>A log without a checkpoint can not be replayed.\<close>

lemma select_no_checkpoint:
  assumes "log_state fs p ps es ess tail" and "concat (es # ess) \<noteq> []" and "\<forall>e \<in> set (concat (es # ess)). no_checkpoint e"
  shows "ReplayWalFile_select (p # ps) fs = Inl (UnrecoverableError ''No checkpoint found in wal'')"
proof -
  let ?fs = "snd (purged p ps es tail fs)"
  have "newest_first es ess \<noteq> []" using assms(2) by (auto simp: newest_first_def)
  then obtain li es' ess' where l: "WalListIterator_new (p # ps) fs = Inr (li, ?fs)" "li_at ?fs li es' ess'"
    "newest_first es' ess' = newest_first es ess"
    using WalListIterator_new_intact [OF assms(1)] by blast
  have "\<forall>b \<in> set (newest_first es' ess'). no_checkpoint b"
    unfolding l(3) using assms(3) by (simp add: newest_first_def)
  from replay_phase1_none [OF l(2) this, of "[]"] obtain li1 xs
    where p1: "replay_phase1 ?fs li [] = Inr (xs, None, li1)" "next_entry ?fs li1 = Inr None"
    by blast
  from p1(2) have "replay_phase2 ?fs li1 0 xs = Inr xs" by (subst replay_phase2.simps) simp
  then show ?thesis using l(1) p1(1) by (simp add: ReplayWalFile_select_def)
qed


definition log_entry :: "u64 \<Rightarrow> wal_cmd \<Rightarrow> wal_entry" where
  "log_entry commit_ts cmd = \<lparr>we_size = 0, we_checksum = 0, we_txn_id = 1, we_commit_ts = commit_ts, we_cmds = [cmd]\<rparr>"

lemma length_wbytes: "valid_wal_entry e \<Longrightarrow> length (wbytes e) < 2 ^ 31"
  by (rule wbytes_frame)

lemma valid_log_entry:
  "valid_string path \<Longrightarrow> length path < 2 ^ 30 \<Longrightarrow> valid_wal_entry (log_entry t (WalCmdCheckpoint ts full path))"
  "valid_string path \<Longrightarrow> length path < 2 ^ 30 \<Longrightarrow> valid_wal_entry (log_entry t (WalCmdDropDatabase path))"
  by (simp_all add: valid_wal_entry_def log_entry_def WriteBufAdv_type_def)


end
