(* ===== verification/Log_File.thy ===== *)
theory Log_File
  imports Text_Format
begin

text \<open>
  The files of the log and of the catalog, \<^verbatim>\<open>src/storage/wal/log_file.cpp\<close>: their names, what a
  directory listing is parsed to, which catalog files recovery loads and which files a checkpoint
  recycles.  A directory is the sequence of entries \<^verbatim>\<open>LocalFileSystem::ListDirectory\<close> yields, in no
  particular order; \<open>None\<close> is a path that is no directory.  An operation that deletes files gives the
  paths it deletes, in order.
\<close>

section \<open>Directory entries\<close>

record dir_entry =
  de_path :: string
  de_regular :: bool

type_synonym directory = "dir_entry list option"

text \<open>\<^verbatim>\<open>path::filename\<close> and \<^verbatim>\<open>string::rfind\<close> of a character.\<close>

definition path_filename :: "string \<Rightarrow> string" where
  "path_filename p = rev (takeWhile (\<lambda>c. c \<noteq> CHR ''/'') (rev p))"

definition rfind :: "char \<Rightarrow> string \<Rightarrow> nat option" where
  "rfind c s = (if c \<in> set s then Some (length s - 1 - length (takeWhile (\<lambda>x. x \<noteq> c) (rev s))) else None)"

definition ListDirectory :: "string \<Rightarrow> directory \<Rightarrow> dir_entry list res" where
  "ListDirectory path dir =
     (case dir of None \<Rightarrow> Inl (UnrecoverableError (path @ '' isn't a directory'')) | Some entries \<Rightarrow> Inr entries)"

section \<open>File names\<close>

type_synonym timestamp = "64 word"

definition FullCheckpoingFilename :: "timestamp \<Rightarrow> string" where
  "FullCheckpoingFilename max_commit_ts = ''FULL.'' @ nat_digits (unat max_commit_ts) @ ''.json''"

definition TempFullCheckpointFilename :: "timestamp \<Rightarrow> string" where
  "TempFullCheckpointFilename max_commit_ts = ''_FULL.'' @ nat_digits (unat max_commit_ts) @ ''.json''"

definition DeltaCheckpointFilename :: "timestamp \<Rightarrow> string" where
  "DeltaCheckpointFilename max_commit_ts = ''DELTA.'' @ nat_digits (unat max_commit_ts)"

definition WAL_FILE_PREFIX :: string where
  "WAL_FILE_PREFIX = ''wal.log''"

definition WAL_FILE_TEMP_FILE :: string where
  "WAL_FILE_TEMP_FILE = ''wal.log''"

definition WalFilename :: "timestamp \<Rightarrow> string" where
  "WalFilename max_commit_ts = WAL_FILE_PREFIX @ ''.'' @ nat_digits (unat max_commit_ts)"

definition TempWalFilename :: string where
  "TempWalFilename = WAL_FILE_TEMP_FILE"

section \<open>Parsing a directory\<close>

record file_info =
  fi_path :: string
  fi_max_commit_ts :: timestamp

text \<open>
  One round of the loop of \<^verbatim>\<open>ParseCheckpointFilenames\<close>: what is appended to the list of full and
  to the list of delta catalog files.  When there is no second dot, \<^verbatim>\<open>dot2_pos\<close> is \<^verbatim>\<open>npos\<close>: the text
  in front of the suffix is parsed as a number and the prefix is the whole name.
\<close>

definition parse_checkpoint_entry :: "dir_entry \<Rightarrow> file_info list \<times> file_info list" where
  "parse_checkpoint_entry entry =
     (let filename = path_filename (de_path entry)
      in if \<not> de_regular entry then ([], [])
         else case rfind CHR ''.'' filename of
           None \<Rightarrow> ([], [])
         | Some dot_pos \<Rightarrow>
             let suffix = drop (dot_pos + 1) filename
             in if suffix = ''json'' then
                  if dot_pos = 0 then ([], [])
                  else
                    let dot2 = rfind CHR ''.'' (take dot_pos filename);
                        number = (case dot2 of None \<Rightarrow> take dot_pos filename
                                  | Some dot2_pos \<Rightarrow> drop (dot2_pos + 1) (take dot_pos filename));
                        file_prefix = (case dot2 of None \<Rightarrow> filename | Some dot2_pos \<Rightarrow> take dot2_pos filename)
                    in case std_stoll number of
                         Inl _ \<Rightarrow> ([], [])
                       | Inr checkpoint_ts \<Rightarrow>
                           if file_prefix \<noteq> ''FULL'' then ([], [])
                           else ([\<lparr>fi_path = de_path entry, fi_max_commit_ts = word_of_int checkpoint_ts\<rparr>], [])
                else case std_stoll suffix of
                  Inl _ \<Rightarrow> ([], [])
                | Inr checkpoint_ts \<Rightarrow>
                    if take dot_pos filename \<noteq> ''DELTA'' then ([], [])
                    else ([], [\<lparr>fi_path = de_path entry, fi_max_commit_ts = word_of_int checkpoint_ts\<rparr>]))"

definition ParseCheckpointFilenames :: "string \<Rightarrow> directory \<Rightarrow> (file_info list \<times> file_info list) res" where
  "ParseCheckpointFilenames catalog_dir dir =
     res_bind (ListDirectory catalog_dir dir) (\<lambda>entries.
       Inr (concat (map (\<lambda>e. fst (parse_checkpoint_entry e)) entries),
            concat (map (\<lambda>e. snd (parse_checkpoint_entry e)) entries)))"

text \<open>The loop of \<^verbatim>\<open>ParseWalFilenames\<close>.\<close>

definition parse_wal_entry :: "dir_entry \<Rightarrow> file_info list" where
  "parse_wal_entry entry =
     (let filename = path_filename (de_path entry)
      in case rfind CHR ''.'' filename of
           None \<Rightarrow> []
         | Some dot_pos \<Rightarrow>
             (case std_stoll (drop (dot_pos + 1) filename) of
                Inl _ \<Rightarrow> []
              | Inr checkpoint_ts \<Rightarrow>
                  if take dot_pos filename \<noteq> WAL_FILE_PREFIX then []
                  else [\<lparr>fi_path = de_path entry, fi_max_commit_ts = word_of_int checkpoint_ts\<rparr>]))"

fun parse_wal_entries ::
  "string \<Rightarrow> dir_entry list \<Rightarrow> string option \<Rightarrow> file_info list \<Rightarrow> (string option \<times> file_info list) res" where
  "parse_wal_entries wal_dir [] cur_wal_info wal_infos = Inr (cur_wal_info, wal_infos)"
| "parse_wal_entries wal_dir (entry # entries) cur_wal_info wal_infos =
     (if \<not> de_regular entry then parse_wal_entries wal_dir entries cur_wal_info wal_infos
      else if path_filename (de_path entry) = TempWalFilename then
        if cur_wal_info \<noteq> None
        then Inl (UnrecoverableError (''Multiple current wal files found in the wal directory: '' @ wal_dir))
        else parse_wal_entries wal_dir entries (Some (de_path entry)) wal_infos
      else parse_wal_entries wal_dir entries cur_wal_info (wal_infos @ parse_wal_entry entry))"

definition ParseWalFilenames :: "string \<Rightarrow> directory \<Rightarrow> (string option \<times> file_info list) res" where
  "ParseWalFilenames wal_dir dir =
     (case dir of None \<Rightarrow> Inr (None, []) | Some entries \<Rightarrow> parse_wal_entries wal_dir entries None [])"

section \<open>The catalog files recovery loads\<close>

definition ParseValidCheckpointFilenames ::
  "string \<Rightarrow> timestamp \<Rightarrow> directory \<Rightarrow> (file_info \<times> file_info list) option res" where
  "ParseValidCheckpointFilenames catalog_dir max_checkpoint_ts dir =
     res_bind (ParseCheckpointFilenames catalog_dir dir) (\<lambda>(full_infos, delta_infos).
       let full_infos = sort_key fi_max_commit_ts full_infos;
           delta_infos = sort_key fi_max_commit_ts delta_infos;
           full_infos = rev (dropWhile (\<lambda>i. fi_max_commit_ts i > max_checkpoint_ts) (rev full_infos))
       in if full_infos = [] then Inr None
          else
            let last_full_info = last full_infos;
                delta_infos = rev (dropWhile (\<lambda>i. fi_max_commit_ts i > max_checkpoint_ts) (rev delta_infos));
                delta_infos = dropWhile (\<lambda>i. fi_max_commit_ts i \<le> fi_max_commit_ts last_full_info) delta_infos
            in Inr (Some (last_full_info, delta_infos)))"

section \<open>Recycling\<close>

text \<open>The deleted paths come with the outcome: an exception leaves the files deleted before it.\<close>

definition RecycleCatalogFile :: "timestamp \<Rightarrow> string \<Rightarrow> directory \<Rightarrow> string list \<times> unit res" where
  "RecycleCatalogFile max_commit_ts catalog_dir dir =
     (case ParseCheckpointFilenames catalog_dir dir of
        Inl err \<Rightarrow> ([], Inl err)
      | Inr (full_infos, delta_infos) \<Rightarrow>
          let old_full = [fi_path i. i \<leftarrow> full_infos, fi_max_commit_ts i < max_commit_ts];
              found = list_ex (\<lambda>i. fi_max_commit_ts i = max_commit_ts) full_infos
          in if \<not> found
             then (old_full, Inl (UnrecoverableError (''Full catalog file '' @ nat_digits (unat max_commit_ts)
                               @ '' not found in the catalog directory: '' @ catalog_dir)))
             else (old_full @ [fi_path i. i \<leftarrow> delta_infos, fi_max_commit_ts i \<le> max_commit_ts], Inr ()))"

definition RecycleWalFile :: "timestamp \<Rightarrow> string \<Rightarrow> directory \<Rightarrow> string list res" where
  "RecycleWalFile max_commit_ts wal_dir dir =
     res_bind (ParseWalFilenames wal_dir dir) (\<lambda>(_, wal_infos).
       Inr [fi_path i. i \<leftarrow> wal_infos, fi_max_commit_ts i \<le> max_commit_ts])"

section \<open>Names are parsed back\<close>

lemma rfind_last: "c \<notin> set ys \<Longrightarrow> rfind c (xs @ c # ys) = Some (length xs)"
  by (simp add: rfind_def takeWhile_append)

lemma rfind_None: "c \<notin> set s \<Longrightarrow> rfind c s = None"
  by (simp add: rfind_def)

lemma digits_no_punct: "CHR ''.'' \<notin> set (nat_digits n)" "CHR ''/'' \<notin> set (nat_digits n)"
proof -
  have "\<not> isdigit CHR ''.''" "\<not> isdigit CHR ''/''" by (simp_all add: isdigit_def char_code_def)
  then show "CHR ''.'' \<notin> set (nat_digits n)" "CHR ''/'' \<notin> set (nat_digits n)"
    using nat_digits_isdigit [of n] by (auto simp: list_all_iff)
qed

lemma nat_digits_not_json: "nat_digits n \<noteq> ''json''"
proof
  assume "nat_digits n = ''json''"
  then have "isdigit CHR ''j''" using hd_nat_digits_neq [of n] by simp
  then show False by (simp add: isdigit_def char_code_def)
qed

lemma path_filename_join:
  "CHR ''/'' \<notin> set name \<Longrightarrow> path_filename (d @ ''/'' @ name) = name"
  by (simp add: path_filename_def takeWhile_append)

lemma stoll_digits:
  "std_stoll (nat_digits n) = (if n < 2 ^ 63 then Inr (int n) else Inl (StdException ''out_of_range''))"
  using std_sto_nat_digits [of "[]" "- (2 ^ 63)" "2 ^ 63 - 1" n] by (simp add: std_stoll_def)

text \<open>The branches of the loops on a name with its last dots made explicit.\<close>

lemma parse_json_name:
  assumes "de_regular e" and n: "path_filename (de_path e) = p @ CHR ''.'' # ds @ ''.json''" and d: "CHR ''.'' \<notin> set ds"
  shows "parse_checkpoint_entry e =
    (case std_stoll ds of Inl _ \<Rightarrow> ([], [])
     | Inr v \<Rightarrow> if p \<noteq> ''FULL'' then ([], []) else ([\<lparr>fi_path = de_path e, fi_max_commit_ts = word_of_int v\<rparr>], []))"
proof -
  have "rfind CHR ''.'' (p @ CHR ''.'' # ds @ ''.json'') = Some (length (p @ CHR ''.'' # ds))"
    using rfind_last [of "CHR ''.''" "''json''" "p @ CHR ''.'' # ds"] by simp
  moreover have "take (length (p @ CHR ''.'' # ds)) (p @ CHR ''.'' # ds @ ''.json'') = p @ CHR ''.'' # ds"
    "drop (length (p @ CHR ''.'' # ds) + 1) (p @ CHR ''.'' # ds @ ''.json'') = ''json''" by simp_all
  ultimately show ?thesis
    unfolding parse_checkpoint_entry_def Let_def n using rfind_last [OF d, of p] assms(1)
    by (simp del: length_append split: sum.split)
qed

lemma parse_numbered_name:
  assumes n: "path_filename (de_path e) = p @ CHR ''.'' # ds" and d: "CHR ''.'' \<notin> set ds" and j: "ds \<noteq> ''json''"
  shows "de_regular e \<Longrightarrow> parse_checkpoint_entry e =
    (case std_stoll ds of Inl _ \<Rightarrow> ([], [])
     | Inr v \<Rightarrow> if p \<noteq> ''DELTA'' then ([], []) else ([], [\<lparr>fi_path = de_path e, fi_max_commit_ts = word_of_int v\<rparr>]))"
    and "parse_wal_entry e =
    (case std_stoll ds of Inl _ \<Rightarrow> []
     | Inr v \<Rightarrow> if p \<noteq> WAL_FILE_PREFIX then [] else [\<lparr>fi_path = de_path e, fi_max_commit_ts = word_of_int v\<rparr>])"
  unfolding parse_checkpoint_entry_def parse_wal_entry_def Let_def n rfind_last [OF d, of p] using j
  by (simp_all split: sum.split)

text \<open>What the loops make of a regular file with a name the program gives.\<close>

lemma parse_named:
  fixes ts :: timestamp
  assumes e: "de_regular e"
  shows "path_filename (de_path e) = FullCheckpoingFilename ts \<Longrightarrow>
           parse_checkpoint_entry e = (if unat ts < 2 ^ 63 then [\<lparr>fi_path = de_path e, fi_max_commit_ts = ts\<rparr>] else [], [])"
    and "path_filename (de_path e) = TempFullCheckpointFilename ts \<Longrightarrow> parse_checkpoint_entry e = ([], [])"
    and "path_filename (de_path e) = DeltaCheckpointFilename ts \<Longrightarrow>
           parse_checkpoint_entry e = ([], if unat ts < 2 ^ 63 then [\<lparr>fi_path = de_path e, fi_max_commit_ts = ts\<rparr>] else [])"
    and "path_filename (de_path e) = WalFilename ts \<Longrightarrow>
           parse_wal_entry e = (if unat ts < 2 ^ 63 then [\<lparr>fi_path = de_path e, fi_max_commit_ts = ts\<rparr>] else [])"
proof -
  note digits = digits_no_punct(1) [of "unat ts"] and no_json = nat_digits_not_json [of "unat ts"]
  show "parse_checkpoint_entry e = (if unat ts < 2 ^ 63 then [\<lparr>fi_path = de_path e, fi_max_commit_ts = ts\<rparr>] else [], [])"
    if "path_filename (de_path e) = FullCheckpoingFilename ts"
    by (subst parse_json_name [OF e _ digits, of "''FULL''"])
      (simp_all add: that FullCheckpoingFilename_def stoll_digits)
  show "parse_checkpoint_entry e = ([], [])" if "path_filename (de_path e) = TempFullCheckpointFilename ts"
    by (subst parse_json_name [OF e _ digits, of "''_FULL''"])
      (simp_all add: that TempFullCheckpointFilename_def stoll_digits)
  show "parse_checkpoint_entry e = ([], if unat ts < 2 ^ 63 then [\<lparr>fi_path = de_path e, fi_max_commit_ts = ts\<rparr>] else [])"
    if "path_filename (de_path e) = DeltaCheckpointFilename ts"
    by (subst parse_numbered_name(1) [OF _ digits no_json e, of "''DELTA''"])
      (simp_all add: that DeltaCheckpointFilename_def stoll_digits)
  show "parse_wal_entry e = (if unat ts < 2 ^ 63 then [\<lparr>fi_path = de_path e, fi_max_commit_ts = ts\<rparr>] else [])"
    if "path_filename (de_path e) = WalFilename ts"
    by (subst parse_numbered_name(2) [OF _ digits no_json, of _ WAL_FILE_PREFIX])
      (simp_all add: that WalFilename_def stoll_digits)
qed

lemma names_no_slash:
  "CHR ''/'' \<notin> set (FullCheckpoingFilename ts)" "CHR ''/'' \<notin> set (TempFullCheckpointFilename ts)"
  "CHR ''/'' \<notin> set (DeltaCheckpointFilename ts)" "CHR ''/'' \<notin> set (WalFilename ts)" "CHR ''/'' \<notin> set TempWalFilename"
  using digits_no_punct(2) [of "unat ts"]
  by (simp_all add: FullCheckpoingFilename_def TempFullCheckpointFilename_def DeltaCheckpointFilename_def
      WalFilename_def TempWalFilename_def WAL_FILE_PREFIX_def WAL_FILE_TEMP_FILE_def)

lemma nat_digits_inject: "nat_digits m = nat_digits n \<longleftrightarrow> m = n"
proof
  assume "nat_digits m = nat_digits n"
  from arg_cong [OF this, of "digits_val 0"] show "m = n" by (simp add: digits_val_nat_digits)
qed simp

lemma wal_names_distinct: "WalFilename ts \<noteq> TempWalFilename" "WalFilename ts = WalFilename ts' \<longleftrightarrow> ts = ts'"
  by (simp_all add: WalFilename_def TempWalFilename_def WAL_FILE_PREFIX_def WAL_FILE_TEMP_FILE_def nat_digits_inject
      word_unat_eq_iff)

definition regular_file :: "string \<Rightarrow> string \<Rightarrow> dir_entry" where
  "regular_file d name = \<lparr>de_path = d @ ''/'' @ name, de_regular = True\<rparr>"

lemma parse_regular:
  "parse_checkpoint_entry (regular_file d (FullCheckpoingFilename ts))
     = (if unat ts < 2 ^ 63 then [\<lparr>fi_path = d @ ''/'' @ FullCheckpoingFilename ts, fi_max_commit_ts = ts\<rparr>] else [], [])"
  "parse_checkpoint_entry (regular_file d (TempFullCheckpointFilename ts)) = ([], [])"
  "parse_checkpoint_entry (regular_file d (DeltaCheckpointFilename ts))
     = ([], if unat ts < 2 ^ 63 then [\<lparr>fi_path = d @ ''/'' @ DeltaCheckpointFilename ts, fi_max_commit_ts = ts\<rparr>] else [])"
  "parse_wal_entry (regular_file d (WalFilename ts))
     = (if unat ts < 2 ^ 63 then [\<lparr>fi_path = d @ ''/'' @ WalFilename ts, fi_max_commit_ts = ts\<rparr>] else [])"
  using parse_named [of "regular_file d (FullCheckpoingFilename ts)" ts]
    parse_named [of "regular_file d (TempFullCheckpointFilename ts)" ts]
    parse_named [of "regular_file d (DeltaCheckpointFilename ts)" ts]
    parse_named [of "regular_file d (WalFilename ts)" ts]
    path_filename_join [OF names_no_slash(1)] path_filename_join [OF names_no_slash(2)]
    path_filename_join [OF names_no_slash(3)] path_filename_join [OF names_no_slash(4)]
  by (simp_all add: regular_file_def)

lemma regular_file_simps [simp]:
  "de_path (regular_file d name) = d @ ''/'' @ name" "de_regular (regular_file d name)"
  by (simp_all add: regular_file_def)

text \<open>
  C24: File names are parsed back.  A regular file with the name of a full or delta catalog file or
  of a closed log file is listed with its time stamp, and is skipped exactly when that does not fit
  a signed 64 bit number; a full catalog file still under its temporary name is never listed.
\<close>

theorem file_names_parsed:
  "ParseCheckpointFilenames d (Some [regular_file d (FullCheckpoingFilename ts)])
     = Inr (if unat ts < 2 ^ 63 then [\<lparr>fi_path = d @ ''/'' @ FullCheckpoingFilename ts, fi_max_commit_ts = ts\<rparr>] else [], [])
   \<and> ParseCheckpointFilenames d (Some [regular_file d (DeltaCheckpointFilename ts)])
     = Inr ([], if unat ts < 2 ^ 63 then [\<lparr>fi_path = d @ ''/'' @ DeltaCheckpointFilename ts, fi_max_commit_ts = ts\<rparr>] else [])
   \<and> ParseCheckpointFilenames d (Some [regular_file d (TempFullCheckpointFilename ts)]) = Inr ([], [])
   \<and> ParseWalFilenames d (Some [regular_file d (WalFilename ts)])
     = Inr (None, if unat ts < 2 ^ 63 then [\<lparr>fi_path = d @ ''/'' @ WalFilename ts, fi_max_commit_ts = ts\<rparr>] else [])
   \<and> ParseWalFilenames d (Some [regular_file d TempWalFilename]) = Inr (Some (d @ ''/'' @ TempWalFilename), [])"
  using path_filename_join [OF names_no_slash(4)] path_filename_join [OF names_no_slash(5)] wal_names_distinct(1) [of ts]
  by (simp add: ParseCheckpointFilenames_def ParseWalFilenames_def ListDirectory_def parse_regular)

section \<open>Which catalog files are loaded\<close>

lemma drop_newer:
  "sorted (map f xs) \<Longrightarrow> rev (dropWhile (\<lambda>x. f x > T) (rev xs)) = filter (\<lambda>x. f x \<le> T) xs"
  for f :: "'a \<Rightarrow> 'b::linorder"
proof (induction xs rule: rev_induct)
  case (snoc x xs)
  show ?case
  proof (cases "T < f x")
    case True
    with snoc show ?thesis by (simp add: sorted_append)
  next
    case False
    then have "\<forall>y\<in>set xs. f y \<le> T" using snoc.prems by (fastforce simp: sorted_append)
    with False show ?thesis by (simp add: dropWhile_append)
  qed
qed simp

lemma drop_older:
  "sorted (map f xs) \<Longrightarrow> dropWhile (\<lambda>x. f x \<le> m) xs = filter (\<lambda>x. m < f x) xs"
  for f :: "'a \<Rightarrow> 'b::linorder"
proof (induction xs)
  case (Cons x xs)
  show ?case
  proof (cases "f x \<le> m")
    case False
    then have "\<forall>y\<in>set xs. m < f y" using Cons.prems by fastforce
    with False show ?thesis by simp
  qed (use Cons in auto)
qed simp

text \<open>The loops as filters: the last full file up to the time stamp, and the delta files behind it.\<close>

lemma ParseValid_filters:
  assumes "ParseCheckpointFilenames d dir = Inr (fulls, deltas)"
  shows "ParseValidCheckpointFilenames d T dir =
    (let zs = filter (\<lambda>i. fi_max_commit_ts i \<le> T) (sort_key fi_max_commit_ts fulls)
     in Inr (if zs = [] then None
             else Some (last zs, filter (\<lambda>i. fi_max_commit_ts (last zs) < fi_max_commit_ts i)
                    (filter (\<lambda>i. fi_max_commit_ts i \<le> T) (sort_key fi_max_commit_ts deltas)))))"
  unfolding ParseValidCheckpointFilenames_def assms res_bind_simps case_prod_conv Let_def
    drop_newer [OF sorted_sort_key] if_distrib [of Inr]
    drop_older [OF sorted_filter [OF sorted_sort_key], of fi_max_commit_ts]
  by (rule refl)

lemma sorted_last_max: "sorted (map f zs) \<Longrightarrow> z \<in> set zs \<Longrightarrow> f z \<le> f (last zs)"
  for f :: "'a \<Rightarrow> 'b::linorder"
  by (induction zs) auto

text \<open>
  C23: Recovery at a checkpoint loads the right catalog files: none when there is no full catalog
  file up to the time stamp of the checkpoint, and otherwise the latest such file together with
  exactly the delta files behind it and up to the time stamp, oldest first.
\<close>

theorem ParseValid_latest:
  assumes "ParseCheckpointFilenames d dir = Inr (fulls, deltas)"
  shows "case ParseValidCheckpointFilenames d T dir of
      Inl _ \<Rightarrow> False
    | Inr None \<Rightarrow> \<forall>i \<in> set fulls. T < fi_max_commit_ts i
    | Inr (Some (full, ds)) \<Rightarrow>
        full \<in> set fulls \<and> fi_max_commit_ts full \<le> T
        \<and> (\<forall>i \<in> set fulls. fi_max_commit_ts i \<le> T \<longrightarrow> fi_max_commit_ts i \<le> fi_max_commit_ts full)
        \<and> sorted (map fi_max_commit_ts ds)
        \<and> set ds = {i \<in> set deltas. fi_max_commit_ts full < fi_max_commit_ts i \<and> fi_max_commit_ts i \<le> T}
        \<and> length ds = length [i \<leftarrow> deltas. fi_max_commit_ts full < fi_max_commit_ts i \<and> fi_max_commit_ts i \<le> T]"
proof -
  let ?zs = "filter (\<lambda>i. fi_max_commit_ts i \<le> T) (sort_key fi_max_commit_ts fulls)"
  have s: "set ?zs = {i \<in> set fulls. fi_max_commit_ts i \<le> T}" by auto
  show ?thesis
  proof (cases "?zs = []")
    case True
    then have "\<forall>i \<in> set fulls. T < fi_max_commit_ts i" by (auto simp: filter_empty_conv)
    with True show ?thesis by (simp add: ParseValid_filters [OF assms])
  next
    case False
    have "sorted (map fi_max_commit_ts ?zs)" by (rule sorted_filter [OF sorted_sort_key])
    then have "fi_max_commit_ts i \<le> fi_max_commit_ts (last ?zs)" if "i \<in> set fulls" "fi_max_commit_ts i \<le> T" for i
      using sorted_last_max [of fi_max_commit_ts ?zs i] that by simp
    moreover have "last ?zs \<in> set ?zs" using False by (rule last_in_set)
    moreover have "filter (\<lambda>i. fi_max_commit_ts (last ?zs) < fi_max_commit_ts i)
        (filter (\<lambda>i. fi_max_commit_ts i \<le> T) (sort_key fi_max_commit_ts deltas))
        = sort_key fi_max_commit_ts [i \<leftarrow> deltas. fi_max_commit_ts (last ?zs) < fi_max_commit_ts i \<and> fi_max_commit_ts i \<le> T]"
      by (simp add: filter_sort conj_commute)
    ultimately show ?thesis
      using False by (simp add: ParseValid_filters [OF assms] Let_def)
  qed
qed

theorem ParseValid_latest_witness:
  "case ParseValidCheckpointFilenames ''c'' 9 (Some [regular_file ''c'' (DeltaCheckpointFilename 8),
      regular_file ''c'' (FullCheckpoingFilename 5), regular_file ''c'' (FullCheckpoingFilename 12),
      regular_file ''c'' (DeltaCheckpointFilename 7)]) of
     Inr (Some (full, ds)) \<Rightarrow> fi_max_commit_ts full = 5 \<and> sorted (map fi_max_commit_ts ds) \<and> length ds = 2
   | _ \<Rightarrow> False"
  (is "case ParseValidCheckpointFilenames _ _ ?dir of Inr (Some (full, ds)) \<Rightarrow> ?P full ds | _ \<Rightarrow> False")
proof -
  have "ParseCheckpointFilenames ''c'' ?dir
      = Inr ([\<lparr>fi_path = ''c/'' @ FullCheckpoingFilename 5, fi_max_commit_ts = 5\<rparr>,
              \<lparr>fi_path = ''c/'' @ FullCheckpoingFilename 12, fi_max_commit_ts = 12\<rparr>],
             [\<lparr>fi_path = ''c/'' @ DeltaCheckpointFilename 8, fi_max_commit_ts = 8\<rparr>,
              \<lparr>fi_path = ''c/'' @ DeltaCheckpointFilename 7, fi_max_commit_ts = 7\<rparr>])"
    by (simp add: ParseCheckpointFilenames_def ListDirectory_def parse_regular)
  from ParseValid_latest [OF this, of 9] show ?thesis
    by (cases "ParseValidCheckpointFilenames ''c'' 9 ?dir") (force split: option.splits)+
qed

section \<open>Recycling keeps what recovery loads\<close>

definition dir_without :: "string list \<Rightarrow> dir_entry list \<Rightarrow> dir_entry list" where
  "dir_without paths entries = filter (\<lambda>e. de_path e \<notin> set paths) entries"

text \<open>An entry is listed at most once, and under its own path.\<close>

lemma parse_checkpoint_cases:
  obtains "parse_checkpoint_entry e = ([], [])"
  | ts where "parse_checkpoint_entry e = ([\<lparr>fi_path = de_path e, fi_max_commit_ts = ts\<rparr>], [])"
  | ts where "parse_checkpoint_entry e = ([], [\<lparr>fi_path = de_path e, fi_max_commit_ts = ts\<rparr>])"
proof -
  let ?S = "{([], [])} \<union> range (\<lambda>ts. ([\<lparr>fi_path = de_path e, fi_max_commit_ts = ts\<rparr>], []))
    \<union> range (\<lambda>ts. ([], [\<lparr>fi_path = de_path e, fi_max_commit_ts = ts\<rparr>]))"
  have br: "x \<in> ?S \<Longrightarrow> y \<in> ?S \<Longrightarrow> (if b then x else y) \<in> ?S"
    "x \<in> ?S \<Longrightarrow> (\<And>k. g k \<in> ?S) \<Longrightarrow> (case p of None \<Rightarrow> x | Some k \<Rightarrow> g k) \<in> ?S"
    "x \<in> ?S \<Longrightarrow> (\<And>v. h v \<in> ?S) \<Longrightarrow> (case r of Inl (_ :: infinity_error) \<Rightarrow> x | Inr v \<Rightarrow> h v) \<in> ?S"
    for b x y and p :: "nat option" and g and r :: "int res" and h
    by (simp_all split: option.split sum.split)
  have "parse_checkpoint_entry e \<in> ?S"
    unfolding parse_checkpoint_entry_def Let_def by (intro br) simp_all
  then show ?thesis using that by blast
qed

lemma parse_dir_without:
  "concat (map (\<lambda>e. fst (parse_checkpoint_entry e)) (dir_without ps es))
     = filter (\<lambda>i. fi_path i \<notin> set ps) (concat (map (\<lambda>e. fst (parse_checkpoint_entry e)) es))"
  "concat (map (\<lambda>e. snd (parse_checkpoint_entry e)) (dir_without ps es))
     = filter (\<lambda>i. fi_path i \<notin> set ps) (concat (map (\<lambda>e. snd (parse_checkpoint_entry e)) es))"
proof (induction es)
  case (Cons e es)
  { case 1 show ?case by (cases e rule: parse_checkpoint_cases) (use Cons in \<open>simp_all add: dir_without_def\<close>)
  next
    case 2 show ?case by (cases e rule: parse_checkpoint_cases) (use Cons in \<open>simp_all add: dir_without_def\<close>) }
qed (simp_all add: dir_without_def)

lemma listed_entry:
  assumes "i \<in> set (concat (map (\<lambda>e. fst (parse_checkpoint_entry e)) es))
         \<or> i \<in> set (concat (map (\<lambda>e. snd (parse_checkpoint_entry e)) es))"
  obtains e where "e \<in> set es" "fi_path i = de_path e"
    "parse_checkpoint_entry e = ([i], []) \<or> parse_checkpoint_entry e = ([], [i])"
proof -
  obtain e where e: "e \<in> set es" "i \<in> set (fst (parse_checkpoint_entry e)) \<or> i \<in> set (snd (parse_checkpoint_entry e))"
    using assms by auto
  show ?thesis by (rule parse_checkpoint_cases [of e]; rule that [OF e(1)]) (use e(2) in auto)
qed

lemma listed_path_unique:
  assumes d: "distinct (map de_path es)"
    and i: "i \<in> set (concat (map (\<lambda>e. fst (parse_checkpoint_entry e)) es)) \<union> set (concat (map (\<lambda>e. snd (parse_checkpoint_entry e)) es))"
    and j: "j \<in> set (concat (map (\<lambda>e. fst (parse_checkpoint_entry e)) es)) \<union> set (concat (map (\<lambda>e. snd (parse_checkpoint_entry e)) es))"
    and p: "fi_path i = fi_path j"
  shows "i = j"
proof -
  obtain e where e: "e \<in> set es" "fi_path i = de_path e" "parse_checkpoint_entry e = ([i], []) \<or> parse_checkpoint_entry e = ([], [i])"
    using listed_entry [of i es] i by blast
  obtain f where f: "f \<in> set es" "fi_path j = de_path f" "parse_checkpoint_entry f = ([j], []) \<or> parse_checkpoint_entry f = ([], [j])"
    using listed_entry [of j es] j by blast
  have "e = f" using d e(1,2) f(1,2) p by (auto simp: distinct_map inj_on_def)
  then show ?thesis using e(3) f(3) by auto
qed

lemma last_filter_kept: "zs \<noteq> [] \<Longrightarrow> P (last zs) \<Longrightarrow> last (filter P zs) = last zs"
  by (induction zs rule: rev_induct) simp_all

text \<open>The deleted files of a successful recycling, among the listed ones.\<close>

lemma RecycleCatalogFile_deleted:
  assumes d: "distinct (map de_path es)" and r: "RecycleCatalogFile T d (Some es) = (del, Inr ())"
    and P: "ParseCheckpointFilenames d (Some es) = Inr (fulls, deltas)"
  shows "\<And>i. i \<in> set fulls \<Longrightarrow> fi_path i \<in> set del \<longleftrightarrow> fi_max_commit_ts i < T"
    and "\<And>i. i \<in> set deltas \<Longrightarrow> fi_path i \<in> set del \<longleftrightarrow> fi_max_commit_ts i \<le> T"
    and "\<exists>i \<in> set fulls. fi_max_commit_ts i = T"
proof -
  have fd: "fulls = concat (map (\<lambda>e. fst (parse_checkpoint_entry e)) es)"
    "deltas = concat (map (\<lambda>e. snd (parse_checkpoint_entry e)) es)"
    using P by (simp_all add: ParseCheckpointFilenames_def ListDirectory_def)
  have del: "set del = fi_path ` {i \<in> set fulls. fi_max_commit_ts i < T} \<union> fi_path ` {i \<in> set deltas. fi_max_commit_ts i \<le> T}"
    and "\<exists>i \<in> set fulls. fi_max_commit_ts i = T"
    using r P by (auto simp: RecycleCatalogFile_def Let_def list_ex_iff split: if_splits)
  have u: "i = j" if "i \<in> set fulls \<union> set deltas" "j \<in> set fulls \<union> set deltas" "fi_path i = fi_path j" for i j
    using listed_path_unique [OF d] that fd by blast
  have disj: "i \<notin> set deltas" if "i \<in> set fulls" for i
  proof
    assume "i \<in> set deltas"
    with that fd obtain e f where e: "e \<in> set es" "i \<in> set (fst (parse_checkpoint_entry e))"
      and f: "f \<in> set es" "i \<in> set (snd (parse_checkpoint_entry f))" by auto
    have "fi_path i = de_path e" "fi_path i = de_path f"
      by (rule parse_checkpoint_cases [of e]; use e in auto) (rule parse_checkpoint_cases [of f]; use f in auto)
    with d e(1) f(1) have "e = f" by (auto simp: distinct_map inj_on_def)
    with e f show False by (auto intro: parse_checkpoint_cases [of e])
  qed
  show "fi_path i \<in> set del \<longleftrightarrow> fi_max_commit_ts i < T" if "i \<in> set fulls" for i
    unfolding del using u [of i] disj that by blast
  show "fi_path i \<in> set del \<longleftrightarrow> fi_max_commit_ts i \<le> T" if "i \<in> set deltas" for i
    unfolding del using u [of i] disj that by blast
  show "\<exists>i \<in> set fulls. fi_max_commit_ts i = T" by fact
qed

text \<open>
  C20: Recycling catalog files after a full checkpoint at \<open>T\<close> does not change recovery: at every
  later checkpoint the same full file and the same delta files are loaded as without it.
\<close>

theorem RecycleCatalogFile_keeps_recovery:
  assumes "distinct (map de_path es)" and "RecycleCatalogFile T d (Some es) = (del, Inr ())" and "T \<le> T'"
  shows "ParseValidCheckpointFilenames d T' (Some (dir_without del es)) = ParseValidCheckpointFilenames d T' (Some es)"
proof -
  let ?f = "\<lambda>es. concat (map (\<lambda>e. fst (parse_checkpoint_entry e)) es)"
    and ?d = "\<lambda>es. concat (map (\<lambda>e. snd (parse_checkpoint_entry e)) es)"
  let ?zs = "filter (\<lambda>i. fi_max_commit_ts i \<le> T') (sort_key fi_max_commit_ts (?f es))"
  have P: "ParseCheckpointFilenames d (Some xs) = Inr (?f xs, ?d xs)" for xs
    by (simp add: ParseCheckpointFilenames_def ListDirectory_def)
  note del = RecycleCatalogFile_deleted [OF assms(1,2) P]
  have f: "?f (dir_without del es) = filter (\<lambda>i. T \<le> fi_max_commit_ts i) (?f es)"
    unfolding parse_dir_without by (rule filter_cong) (use del(1) in auto)
  have dl: "?d (dir_without del es) = filter (\<lambda>i. T < fi_max_commit_ts i) (?d es)"
    unfolding parse_dir_without by (rule filter_cong) (use del(2) in auto)
  obtain i where i: "i \<in> set (?f es)" "fi_max_commit_ts i = T" using del(3) by blast
  then have iz: "i \<in> set ?zs" using assms(3) by simp
  have ne: "?zs \<noteq> []" by (rule length_pos_if_in_set [OF iz, THEN length_greater_0_conv [THEN iffD1]])
  have "sorted (map fi_max_commit_ts ?zs)" by (rule sorted_filter [OF sorted_sort_key])
  from sorted_last_max [OF this iz] have lt: "T \<le> fi_max_commit_ts (last ?zs)" using i by simp
  have z: "filter (\<lambda>i. fi_max_commit_ts i \<le> T') (sort_key fi_max_commit_ts (?f (dir_without del es)))
      = filter (\<lambda>i. T \<le> fi_max_commit_ts i) ?zs"
    unfolding f filter_sort [symmetric] by (simp only: filter_filter conj_commute)
  have l: "last (filter (\<lambda>i. T \<le> fi_max_commit_ts i) ?zs) = last ?zs"
    by (rule last_filter_kept [OF ne]) (rule lt)
  have e: "filter (\<lambda>i. T \<le> fi_max_commit_ts i) ?zs \<noteq> []"
    using iz i(2) by (auto simp: filter_empty_conv)
  have ds: "filter (\<lambda>i. fi_max_commit_ts (last ?zs) < fi_max_commit_ts i)
        (filter (\<lambda>i. fi_max_commit_ts i \<le> T') (sort_key fi_max_commit_ts (?d (dir_without del es))))
      = filter (\<lambda>i. fi_max_commit_ts (last ?zs) < fi_max_commit_ts i)
        (filter (\<lambda>i. fi_max_commit_ts i \<le> T') (sort_key fi_max_commit_ts (?d es)))"
    unfolding dl filter_sort [symmetric] filter_filter by (rule filter_cong) (use lt in auto)
  show ?thesis
    unfolding ParseValid_filters [OF P] Let_def z l ds using ne e by (simp only: if_False)
qed

theorem RecycleCatalogFile_keeps_recovery_witness:
  "ParseValidCheckpointFilenames ''c'' 9 (Some [regular_file ''c'' (FullCheckpoingFilename 5), regular_file ''c'' (DeltaCheckpointFilename 7)])
   = ParseValidCheckpointFilenames ''c'' 9 (Some [regular_file ''c'' (FullCheckpoingFilename 3),
       regular_file ''c'' (FullCheckpoingFilename 5), regular_file ''c'' (DeltaCheckpointFilename 4),
       regular_file ''c'' (DeltaCheckpointFilename 7)])"
proof -
  let ?es = "[regular_file ''c'' (FullCheckpoingFilename 3),
       regular_file ''c'' (FullCheckpoingFilename 5), regular_file ''c'' (DeltaCheckpointFilename 4),
       regular_file ''c'' (DeltaCheckpointFilename 7)]"
  have names: "nat_digits 3 = ''3''" "nat_digits 4 = ''4''" "nat_digits 5 = ''5''" "nat_digits 7 = ''7''"
    by (simp_all add: nat_digits.simps digit_char_def char_of_def bit_Suc_0_iff)
  have d: "distinct (map de_path ?es)"
    by (simp add: FullCheckpoingFilename_def DeltaCheckpointFilename_def names)
  have r: "RecycleCatalogFile 5 ''c'' (Some ?es)
      = ([''c/'' @ FullCheckpoingFilename 3, ''c/'' @ DeltaCheckpointFilename 4], Inr ())" (is "_ = (?del, _)")
    by (simp add: RecycleCatalogFile_def ParseCheckpointFilenames_def ListDirectory_def parse_regular)
  have w: "dir_without ?del ?es = [regular_file ''c'' (FullCheckpoingFilename 5), regular_file ''c'' (DeltaCheckpointFilename 7)]"
    by (simp add: dir_without_def FullCheckpoingFilename_def DeltaCheckpointFilename_def names)
  have "(5 :: timestamp) \<le> 9" by simp
  from RecycleCatalogFile_keeps_recovery [OF d r this] show ?thesis unfolding w .
qed

end
