(* ===== verification/Wal_Manager.thy ===== *)
theory Wal_Manager
  imports Wal_Replay Log_File "HOL-Library.Char_ord" "HOL-Library.List_Lexorder" "HOL-Library.Multiset"
begin

text \<open>
  The manager of the log, \<^verbatim>\<open>src/storage/wal/wal_manager.cpp\<close>: the thread that writes the entries handed over by
  the transaction manager, the change to a new log file, checkpoints, and the files recovery starts from.  The file
  system is a map from paths to contents.  How \<^verbatim>\<open>directory_iterator\<close> lists a directory is a parameter \<open>ls\<close>; only that
  every file of the directory is listed once is used of it.  What a checkpoint writes to the catalog is the parameter
  \<open>txn_checkpoint\<close>.
\<close>

section \<open>State\<close>

definition UNCOMMIT_TS :: u64 where
  "UNCOMMIT_TS = - 1"

type_synonym lister = "string \<Rightarrow> files \<Rightarrow> dir_entry list"

record wal_manager =
  wm_wal_dir :: string
  wm_catalog_dir :: string
  wm_files :: files
  wm_running :: bool
  wm_wait_flush :: "wal_entry option list"
  wm_max_commit_ts :: u64
  wm_wal_size :: i64
  wm_last_ckp_wal_size :: i64
  wm_checkpoint_in_progress :: bool
  wm_last_ckp_ts :: u64
  wm_last_full_ckp_ts :: u64
  wm_cfg_wal_size_threshold :: u64
  wm_cfg_delta_checkpoint_interval_wal_bytes :: u64

definition wal_path :: "string \<Rightarrow> string" where
  "wal_path wal_dir = wal_dir @ ''/'' @ TempWalFilename"

definition old_wal_path :: "string \<Rightarrow> u64 \<Rightarrow> string" where
  "old_wal_path wal_dir max_commit_ts = wal_dir @ ''/'' @ WalFilename max_commit_ts"

definition WalManager_new :: "string \<Rightarrow> string \<Rightarrow> u64 \<Rightarrow> u64 \<Rightarrow> files \<Rightarrow> wal_manager" where
  "WalManager_new wal_dir catalog_dir wal_size_threshold delta_checkpoint_interval_wal_bytes fs =
     \<lparr>wm_wal_dir = wal_dir, wm_catalog_dir = catalog_dir, wm_files = fs, wm_running = False, wm_wait_flush = [],
      wm_max_commit_ts = 0, wm_wal_size = 0, wm_last_ckp_wal_size = 0, wm_checkpoint_in_progress = False,
      wm_last_ckp_ts = UNCOMMIT_TS, wm_last_full_ckp_ts = UNCOMMIT_TS, wm_cfg_wal_size_threshold = wal_size_threshold,
      wm_cfg_delta_checkpoint_interval_wal_bytes = delta_checkpoint_interval_wal_bytes\<rparr>"

text \<open>Opening a file to append to it, and appending.\<close>

definition open_app :: "string \<Rightarrow> files \<Rightarrow> files" where
  "open_app p fs = (case fs p of None \<Rightarrow> fs(p \<mapsto> []) | Some _ \<Rightarrow> fs)"

definition append_file :: "string \<Rightarrow> byte list \<Rightarrow> files \<Rightarrow> files" where
  "append_file p bs fs = fs(p \<mapsto> (case fs p of None \<Rightarrow> [] | Some old \<Rightarrow> old) @ bs)"

definition WalManager_Start :: "wal_manager \<Rightarrow> wal_manager" where
  "WalManager_Start wm =
     (if wm_running wm then wm
      else wm\<lparr>wm_running := True, wm_files := open_app (wal_path (wm_wal_dir wm)) (wm_files wm), wm_wal_size := 0\<rparr>)"

definition WalManager_Stop :: "wal_manager \<Rightarrow> wal_manager" where
  "WalManager_Stop wm =
     (if \<not> wm_running wm then wm else wm\<lparr>wm_running := False, wm_wait_flush := wm_wait_flush wm @ [None]\<rparr>)"

definition PutEntries :: "wal_entry list \<Rightarrow> wal_manager \<Rightarrow> wal_manager" where
  "PutEntries wal_entries wm =
     (if \<not> wm_running wm then wm else wm\<lparr>wm_wait_flush := wm_wait_flush wm @ map Some wal_entries\<rparr>)"

definition SetLastCkpWalSize :: "i64 \<Rightarrow> wal_manager \<Rightarrow> wal_manager" where
  "SetLastCkpWalSize wal_size wm = wm\<lparr>wm_last_ckp_wal_size := wal_size\<rparr>"

definition GetCheckpointedTS :: "wal_manager \<Rightarrow> u64" where
  "GetCheckpointedTS wm = (if wm_last_ckp_ts wm = UNCOMMIT_TS then 0 else wm_last_ckp_ts wm + 1)"

section \<open>Writing the log\<close>

text \<open>\<^verbatim>\<open>LocalFileSystem::Rename\<close>: an existing file of the new name is replaced.\<close>

definition Rename :: "string \<Rightarrow> string \<Rightarrow> files \<Rightarrow> files res" where
  "Rename old_path new_path fs =
     (case fs old_path of
        None \<Rightarrow> Inl (UnrecoverableError (''Can't rename file: '' @ old_path))
      | Some bs \<Rightarrow> Inr (fs(old_path := None, new_path := Some bs)))"

definition SwapWalFile :: "u64 \<Rightarrow> wal_manager \<Rightarrow> wal_manager res" where
  "SwapWalFile max_commit_ts wm =
     res_bind (Rename (wal_path (wm_wal_dir wm)) (old_wal_path (wm_wal_dir wm) max_commit_ts) (wm_files wm)) (\<lambda>fs.
       Inr (wm\<lparr>wm_files := open_app (wal_path (wm_wal_dir wm)) fs\<rparr>))"

definition TrySubmitCheckpointTask :: "wal_manager \<Rightarrow> bool \<times> wal_manager" where
  "TrySubmitCheckpointTask wm =
     (if wm_checkpoint_in_progress wm then (False, wm) else (True, wm\<lparr>wm_checkpoint_in_progress := True\<rparr>))"

text \<open>The first loop of a round of \<^verbatim>\<open>Flush\<close>: the entries of the batch are written, \<open>None\<close> ends the thread.\<close>

fun Flush_write :: "wal_entry option list \<Rightarrow> wal_manager \<Rightarrow> wal_manager res" where
  "Flush_write [] wm = Inr wm"
| "Flush_write (None # log_batch) wm = Inr (wm\<lparr>wm_running := False\<rparr>)"
| "Flush_write (Some entry # log_batch) wm =
     (if we_cmds entry = [] then Flush_write log_batch wm
      else
        res_bind (WalEntry_GetSizeInBytes entry) (\<lambda>exp_size.
        if sint exp_size < 0 then Inl LengthError
        else
          res_bind (WalEntry_WriteAdv entry) (\<lambda>buf.
            let act_size = word_of_nat (length buf) :: i32
            in if exp_size \<noteq> act_size
               then Inl (UnrecoverableError (''WalManager::Flush WalEntry estimated size '' @ std_to_string (sint exp_size)
                      @ '' differ with the actual one '' @ std_to_string (sint act_size)))
               else Flush_write log_batch
                      (wm\<lparr>wm_files := append_file (wal_path (wm_wal_dir wm)) buf (wm_files wm),
                          wm_max_commit_ts := we_commit_ts entry,
                          wm_wal_size := wm_wal_size wm + scast act_size\<rparr>))))"

text \<open>After a batch has been written: a log file that has grown too large is closed, and a delta checkpoint is due.\<close>

definition Flush_swap :: "wal_manager \<Rightarrow> wal_manager res" where
  "Flush_swap wm =
     (case wm_files wm (wal_path (wm_wal_dir wm)) of
        None \<Rightarrow> Inl (StdException ''filesystem_error'')
      | Some bs \<Rightarrow>
          if word_of_nat (length bs) > wm_cfg_wal_size_threshold wm then SwapWalFile (wm_max_commit_ts wm) wm else Inr wm)"

definition Flush_checkpoint :: "wal_manager \<Rightarrow> bool \<times> wal_manager" where
  "Flush_checkpoint wm =
     (if sint (wm_wal_size wm - wm_last_ckp_wal_size wm) > sint (ucast (wm_cfg_delta_checkpoint_interval_wal_bytes wm) :: i64)
      then TrySubmitCheckpointTask wm else (False, wm))"

text \<open>
  A round of \<^verbatim>\<open>Flush\<close>: the entries whose transactions run their \<^verbatim>\<open>CommitBottom\<close>, whether a delta checkpoint has been
  submitted, and the new state.
\<close>

definition Flush_round :: "wal_manager \<Rightarrow> (wal_entry list \<times> bool \<times> wal_manager) res" where
  "Flush_round wm =
     (let log_batch = wm_wait_flush wm
      in res_bind (Flush_write log_batch (wm\<lparr>wm_wait_flush := []\<rparr>)) (\<lambda>wm.
         if log_batch = [] \<or> \<not> wm_running wm then Inr ([], False, wm)
         else
           res_bind (Flush_swap wm) (\<lambda>wm.
             let (submitted, wm) = Flush_checkpoint wm
             in Inr (map the log_batch, submitted, wm))))"

section \<open>Checkpoints\<close>

definition delete_files :: "string list \<Rightarrow> wal_manager \<Rightarrow> wal_manager" where
  "delete_files paths wm = wm\<lparr>wm_files := (\<lambda>p. if p \<in> set paths then None else wm_files wm p)\<rparr>"

text \<open>Whether a checkpoint has to be made: \<open>False\<close> when nothing has been committed since the last one.\<close>

definition checkpoint_due :: "bool \<Rightarrow> u64 \<Rightarrow> wal_manager \<Rightarrow> bool res" where
  "checkpoint_due is_full_checkpoint max_commit_ts wm =
     (let last_ckp_ts = wm_last_ckp_ts wm; last_full_ckp_ts = wm_last_full_ckp_ts wm
      in if is_full_checkpoint then
           if max_commit_ts = last_full_ckp_ts then Inr False
           else if last_full_ckp_ts \<noteq> UNCOMMIT_TS \<and> last_full_ckp_ts \<ge> max_commit_ts
           then Inl (UnrecoverableError (''WalManager::UpdateLastFullMaxCommitTS last_full_ckp_ts '' @ nat_digits (unat last_full_ckp_ts)
                  @ '' >= max_commit_ts '' @ nat_digits (unat max_commit_ts)))
           else if last_ckp_ts \<noteq> UNCOMMIT_TS \<and> last_ckp_ts > max_commit_ts
           then Inl (UnrecoverableError (''WalManager::UpdateLastFullMaxCommitTS last_ckp_ts '' @ nat_digits (unat last_ckp_ts)
                  @ '' >= max_commit_ts '' @ nat_digits (unat max_commit_ts)))
           else Inr True
         else
           if max_commit_ts = last_ckp_ts then Inr False
           else if last_ckp_ts \<ge> max_commit_ts
           then Inl (UnrecoverableError (''WalManager::UpdateLastMaxCommitTS last_ckp_ts '' @ nat_digits (unat last_ckp_ts)
                  @ '' >= max_commit_ts '' @ nat_digits (unat max_commit_ts)))
           else Inr True)"

text \<open>The end of \<^verbatim>\<open>CheckpointInner\<close>: old log files, and after a full checkpoint old catalog files, are deleted.\<close>

definition checkpoint_recycle :: "lister \<Rightarrow> bool \<Rightarrow> u64 \<Rightarrow> wal_manager \<Rightarrow> wal_manager res" where
  "checkpoint_recycle ls is_full_checkpoint max_commit_ts wm =
     res_bind (RecycleWalFile max_commit_ts (wm_wal_dir wm) (Some (ls (wm_wal_dir wm) (wm_files wm)))) (\<lambda>paths.
       let wm = delete_files paths (wm\<lparr>wm_last_ckp_ts := max_commit_ts\<rparr>)
       in if is_full_checkpoint then
            let (paths, r) = RecycleCatalogFile max_commit_ts (wm_catalog_dir wm) (Some (ls (wm_catalog_dir wm) (wm_files wm)))
            in res_bind r (\<lambda>_. Inr (delete_files paths (wm\<lparr>wm_last_full_ckp_ts := max_commit_ts\<rparr>)))
          else Inr wm)"

text \<open>
  \<open>txn_checkpoint\<close> is \<^verbatim>\<open>txn->Checkpoint(max_commit_ts, is_full_checkpoint)\<close>: its result and the files it leaves.  A
  recoverable exception is logged, and the checkpoint goes on.
\<close>

definition CheckpointInner ::
  "lister \<Rightarrow> (files \<Rightarrow> bool res \<times> files) \<Rightarrow> bool \<Rightarrow> u64 \<Rightarrow> i64 \<Rightarrow> wal_manager \<Rightarrow> wal_manager res" where
  "CheckpointInner ls txn_checkpoint is_full_checkpoint max_commit_ts wal_size wm =
     res_bind (checkpoint_due is_full_checkpoint max_commit_ts wm) (\<lambda>due.
     res_bind (if \<not> due then Inr wm
               else case txn_checkpoint (wm_files wm) of
                 (Inr False, fs) \<Rightarrow> Inr (wm\<lparr>wm_files := fs\<rparr>)
               | (Inr True, fs) \<Rightarrow>
                   checkpoint_recycle ls is_full_checkpoint max_commit_ts (SetLastCkpWalSize wal_size (wm\<lparr>wm_files := fs\<rparr>))
               | (Inl (RecoverableError _), fs) \<Rightarrow>
                   checkpoint_recycle ls is_full_checkpoint max_commit_ts (wm\<lparr>wm_files := fs\<rparr>)
               | (Inl err, _) \<Rightarrow> Inl err) (\<lambda>wm.
       Inr (wm\<lparr>wm_checkpoint_in_progress := False\<rparr>)))"

section \<open>Recovery\<close>

text \<open>The log files of a directory, the current one first, then by decreasing time stamp.\<close>

definition wal_list :: "lister \<Rightarrow> string \<Rightarrow> files \<Rightarrow> string list res" where
  "wal_list ls wal_dir fs =
     res_bind (ParseWalFilenames wal_dir (Some (ls wal_dir fs))) (\<lambda>(temp_wal_info, wal_infos).
       Inr ((case temp_wal_info of None \<Rightarrow> [] | Some path \<Rightarrow> [path])
            @ map fi_path (rev (sort_key fi_max_commit_ts wal_infos))))"

definition ReplayWalFile_plan :: "lister \<Rightarrow> string \<Rightarrow> files \<Rightarrow> (replay_plan option \<times> files) res" where
  "ReplayWalFile_plan ls wal_dir fs = res_bind (wal_list ls wal_dir fs) (\<lambda>paths. ReplayWalFile_select paths fs)"

text \<open>\<^verbatim>\<open>path::parent_path\<close>.\<close>

definition parent_path :: "string \<Rightarrow> string" where
  "parent_path p =
     (case rfind CHR ''/'' p of
        None \<Rightarrow> []
      | Some k \<Rightarrow> let d = rev (dropWhile (\<lambda>c. c = CHR ''/'') (rev (take k p))) in if d = [] then ''/'' else d)"

text \<open>
  \<^verbatim>\<open>ReplayWalFile\<close> up to its effect on the catalog: the catalog files to load, the entries to replay, the time stamp and
  the transaction id to start with; \<open>None\<close> is the start with a new catalog.
\<close>

record recovery =
  rc_full :: file_info
  rc_deltas :: "file_info list"
  rc_entries :: "wal_entry list"
  rc_start_ts :: u64
  rc_txn_id :: i64

definition ReplayWalFile :: "lister \<Rightarrow> string \<Rightarrow> files \<Rightarrow> (recovery option \<times> files) res" where
  "ReplayWalFile ls wal_dir fs =
     res_bind (ReplayWalFile_plan ls wal_dir fs) (\<lambda>(plan, fs).
       case plan of
         None \<Rightarrow> Inr (None, fs)
       | Some plan \<Rightarrow>
           let catalog_dir = parent_path (rp_catalog_path plan)
           in res_bind (ParseValidCheckpointFilenames catalog_dir (rp_max_commit_ts plan) (Some (ls catalog_dir fs))) (\<lambda>infos.
                case infos of
                  None \<Rightarrow> Inl (UnrecoverableError (''Wal Replay: Parse catalog file failed, catalog_dir: '' @ catalog_dir))
                | Some (full, deltas) \<Rightarrow>
                    res_bind (replay_phase3 (rp_max_commit_ts plan) (rp_checkpoint_commit_ts plan) 0 (rp_entries plan))
                      (\<lambda>(start_ts, txn_id).
                        Inr (Some \<lparr>rc_full = full, rc_deltas = deltas, rc_entries = rp_entries plan,
                                   rc_start_ts = start_ts, rc_txn_id = txn_id\<rparr>, fs))))"

section \<open>Listing the log files\<close>

text \<open>What is used of \<open>ls\<close>: every file directly in the directory is listed once, everything else is no regular file.\<close>

definition in_directory :: "string \<Rightarrow> string \<Rightarrow> bool" where
  "in_directory d p \<longleftrightarrow> (\<exists>name. CHR ''/'' \<notin> set name \<and> p = d @ ''/'' @ name)"

definition lists_files :: "lister \<Rightarrow> bool" where
  "lists_files ls \<longleftrightarrow> (\<forall>d fs. finite (dom fs) \<longrightarrow>
     distinct (map de_path (ls d fs)) \<and> de_path ` set (filter de_regular (ls d fs)) = {p \<in> dom fs. in_directory d p})"

lemma parse_entries_none:
  assumes "\<forall>e \<in> set es. de_regular e \<longrightarrow> path_filename (de_path e) \<noteq> TempWalFilename"
  shows "parse_wal_entries d es cur infos = Inr (cur, infos @ concat (map parse_wal_entry (filter de_regular es)))"
  using assms by (induction es arbitrary: infos) auto

lemma parse_entries_one:
  assumes "filter (\<lambda>e. de_regular e \<and> path_filename (de_path e) = TempWalFilename) es = [t]"
  shows "parse_wal_entries d es None infos
    = Inr (Some (de_path t), infos @ concat (map parse_wal_entry (filter (\<lambda>e. de_regular e \<and> path_filename (de_path e) \<noteq> TempWalFilename) es)))"
  using assms
proof (induction es arbitrary: infos)
  case (Cons e es)
  show ?case
  proof (cases "de_regular e \<and> path_filename (de_path e) = TempWalFilename")
    case True
    with Cons.prems have "\<forall>x \<in> set es. de_regular x \<longrightarrow> path_filename (de_path x) \<noteq> TempWalFilename" and "e = t"
      by (auto simp: filter_empty_conv)
    moreover from this(1) have "filter (\<lambda>e. de_regular e \<and> path_filename (de_path e) \<noteq> TempWalFilename) es = filter de_regular es"
      by (auto intro: filter_cong)
    ultimately show ?thesis using True by (simp add: parse_entries_none)
  next
    case False
    then show ?thesis using Cons by (cases "de_regular e") auto
  qed
qed simp

definition wal_info :: "string \<Rightarrow> u64 \<Rightarrow> file_info" where
  "wal_info d t = \<lparr>fi_path = old_wal_path d t, fi_max_commit_ts = t\<rparr>"

lemma wal_info_simps [simp]: "fi_path (wal_info d t) = old_wal_path d t" "fi_max_commit_ts (wal_info d t) = t"
  by (simp_all add: wal_info_def)

lemma wal_paths:
  "path_filename (wal_path d) = TempWalFilename" "path_filename (old_wal_path d t) = WalFilename t"
  "in_directory d (wal_path d)" "in_directory d (old_wal_path d t)"
  "wal_path d \<noteq> old_wal_path d t" "old_wal_path d t = old_wal_path d t' \<longleftrightarrow> t = t'"
  unfolding wal_path_def old_wal_path_def in_directory_def
  using path_filename_join [OF names_no_slash(5), of d] path_filename_join [OF names_no_slash(4), of d t]
    names_no_slash(4) [of t] names_no_slash(5) wal_names_distinct(1) [of t, symmetric] wal_names_distinct(2) [of t t']
  by simp_all

lemma parse_wal_file:
  "unat t < 2 ^ 63 \<Longrightarrow> de_regular e \<Longrightarrow> de_path e = old_wal_path d t \<Longrightarrow> parse_wal_entry e = [wal_info d t]"
  using wal_paths(2) [of d t] parse_named(4) [of e t] by (simp add: wal_info_def)

text \<open>
  The log files of a directory: the current file with its entries \<open>es\<close>, and the closed files, newest first, each with
  the time stamp of its name.  Entries are in commit order, and the time stamp of a closed file lies between its
  entries and those of the later files.
\<close>

definition wal_log :: "string \<Rightarrow> files \<Rightarrow> wal_entry list \<Rightarrow> (u64 \<times> wal_entry list) list \<Rightarrow> bool" where
  "wal_log d fs es olds \<longleftrightarrow>
     finite (dom fs) \<and> fs (wal_path d) = Some (file_of es) \<and> list_all valid_wal_entry es
     \<and> sorted_wrt (<) (map we_commit_ts es)
     \<and> (\<forall>(t, xs) \<in> set olds. fs (old_wal_path d t) = Some (file_of xs) \<and> list_all valid_wal_entry xs \<and> unat t < 2 ^ 63
          \<and> sorted_wrt (<) (map we_commit_ts xs) \<and> (\<forall>x \<in> set xs. we_commit_ts x \<le> t) \<and> (\<forall>x \<in> set es. t < we_commit_ts x))
     \<and> sorted_wrt (\<lambda>(t, xs) (t', xs'). t' < t \<and> (\<forall>x \<in> set xs. t' < we_commit_ts x)) olds
     \<and> (\<forall>p. in_directory d p \<longrightarrow> fs p \<noteq> None \<longrightarrow> p = wal_path d \<or> (\<exists>(t, xs) \<in> set olds. p = old_wal_path d t))"

lemma wal_logD:
  assumes "wal_log d fs es olds"
  shows "finite (dom fs)" and "fs (wal_path d) = Some (file_of es)" and "list_all valid_wal_entry es"
    and "sorted_wrt (<) (map we_commit_ts es)"
    and "\<And>t xs. (t, xs) \<in> set olds \<Longrightarrow> fs (old_wal_path d t) = Some (file_of xs)"
    and "\<And>t xs. (t, xs) \<in> set olds \<Longrightarrow> list_all valid_wal_entry xs"
    and "\<And>t xs. (t, xs) \<in> set olds \<Longrightarrow> unat t < 2 ^ 63"
    and "\<And>t xs. (t, xs) \<in> set olds \<Longrightarrow> sorted_wrt (<) (map we_commit_ts xs)"
    and "\<And>t xs x. (t, xs) \<in> set olds \<Longrightarrow> x \<in> set xs \<Longrightarrow> we_commit_ts x \<le> t"
    and "\<And>t xs x. (t, xs) \<in> set olds \<Longrightarrow> x \<in> set es \<Longrightarrow> t < we_commit_ts x"
    and "sorted_wrt (\<lambda>(t, xs) (t', xs'). t' < t \<and> (\<forall>x \<in> set xs. t' < we_commit_ts x)) olds"
    and "\<And>p. in_directory d p \<Longrightarrow> fs p \<noteq> None \<Longrightarrow> p = wal_path d \<or> (\<exists>(t, xs) \<in> set olds. p = old_wal_path d t)"
  using assms unfolding wal_log_def by (blast | fast)+

lemma wal_logI:
  assumes "finite (dom fs)" and "fs (wal_path d) = Some (file_of es)" and "list_all valid_wal_entry es"
    and "sorted_wrt (<) (map we_commit_ts es)"
    and "\<And>t xs. (t, xs) \<in> set olds \<Longrightarrow> fs (old_wal_path d t) = Some (file_of xs)"
    and "\<And>t xs. (t, xs) \<in> set olds \<Longrightarrow> list_all valid_wal_entry xs"
    and "\<And>t xs. (t, xs) \<in> set olds \<Longrightarrow> unat t < 2 ^ 63"
    and "\<And>t xs. (t, xs) \<in> set olds \<Longrightarrow> sorted_wrt (<) (map we_commit_ts xs)"
    and "\<And>t xs x. (t, xs) \<in> set olds \<Longrightarrow> x \<in> set xs \<Longrightarrow> we_commit_ts x \<le> t"
    and "\<And>t xs x. (t, xs) \<in> set olds \<Longrightarrow> x \<in> set es \<Longrightarrow> t < we_commit_ts x"
    and "sorted_wrt (\<lambda>(t, xs) (t', xs'). t' < t \<and> (\<forall>x \<in> set xs. t' < we_commit_ts x)) olds"
    and "\<And>p. in_directory d p \<Longrightarrow> fs p \<noteq> None \<Longrightarrow> p = wal_path d \<or> (\<exists>(t, xs) \<in> set olds. p = old_wal_path d t)"
  shows "wal_log d fs es olds"
  using assms unfolding wal_log_def by blast

lemma distinct_filter_unique:
  assumes "distinct (map f xs)" and "\<exists>x \<in> set xs. P x" and "\<And>x. x \<in> set xs \<Longrightarrow> P x \<Longrightarrow> f x = y"
  shows "\<exists>x. filter P xs = [x] \<and> f x = y"
proof -
  obtain x where x: "x \<in> set xs" "P x" using assms(2) by blast
  have "filter P xs = [x]"
    using assms(1,3) x
  proof (induction xs)
    case (Cons a xs)
    then have "\<not> P z" if "z \<in> set xs" "P a" for z using that by (metis image_eqI list.set_intros list.set_map distinct.simps(2) list.simps(9))
    then have "P a \<Longrightarrow> filter P xs = []" by (simp add: filter_empty_conv)
    with Cons show ?case by auto
  qed simp
  then show ?thesis using assms(3) x by blast
qed

lemma is_temp:
  "p = wal_path d \<or> (\<exists>t. p = old_wal_path d t) \<Longrightarrow> path_filename p = TempWalFilename \<longleftrightarrow> p = wal_path d"
  using wal_paths(1,2,5) wal_names_distinct(1) by metis

lemma concat_singletons:
  "(\<And>x. x \<in> set xs \<Longrightarrow> \<exists>i. g x = [i] \<and> f i = h x) \<Longrightarrow> map f (concat (map g xs)) = map h xs"
  by (induction xs) fastforce+

text \<open>What the listing depends on: the names of the files.\<close>

definition wal_names :: "string \<Rightarrow> files \<Rightarrow> u64 set \<Rightarrow> bool" where
  "wal_names d fs ts \<longleftrightarrow> finite (dom fs) \<and> fs (wal_path d) \<noteq> None
     \<and> (\<forall>t \<in> ts. fs (old_wal_path d t) \<noteq> None \<and> unat t < 2 ^ 63)
     \<and> (\<forall>p. in_directory d p \<longrightarrow> fs p \<noteq> None \<longrightarrow> p = wal_path d \<or> (\<exists>t \<in> ts. p = old_wal_path d t))"

lemma wal_log_names: "wal_log d fs es olds \<Longrightarrow> wal_names d fs (fst ` set olds)"
  unfolding wal_log_def wal_names_def by fastforce

lemma ParseWalFilenames_names:
  assumes ls: "lists_files ls" and names: "wal_names d fs ts"
  obtains infos where "ParseWalFilenames d (Some (ls d fs)) = Inr (Some (wal_path d), infos)"
    "distinct infos" "set infos = wal_info d ` ts"
proof -
  have w: "finite (dom fs)" "fs (wal_path d) \<noteq> None" "\<And>t. t \<in> ts \<Longrightarrow> fs (old_wal_path d t) \<noteq> None" "\<And>t. t \<in> ts \<Longrightarrow> unat t < 2 ^ 63"
    "\<And>p. in_directory d p \<Longrightarrow> fs p \<noteq> None \<Longrightarrow> p = wal_path d \<or> (\<exists>t \<in> ts. p = old_wal_path d t)"
    using names unfolding wal_names_def by blast+
  let ?es = "ls d fs" and ?temp = "\<lambda>e. de_regular e \<and> path_filename (de_path e) = TempWalFilename"
    and ?old = "\<lambda>e. de_regular e \<and> path_filename (de_path e) \<noteq> TempWalFilename"
  have di: "distinct (map de_path ?es)" and se: "de_path ` set (filter de_regular ?es) = {p \<in> dom fs. in_directory d p}"
    using ls w(1) by (auto simp: lists_files_def)
  have reg: "de_path e = wal_path d \<or> (\<exists>t \<in> ts. de_path e = old_wal_path d t)" if "e \<in> set ?es" "de_regular e" for e
  proof -
    have "de_path e \<in> {p \<in> dom fs. in_directory d p}" unfolding se [symmetric] using that by simp
    then show ?thesis using w(5) by blast
  qed
  have listed: "\<exists>e \<in> set ?es. de_regular e \<and> de_path e = p" if "in_directory d p" "fs p \<noteq> None" for p
  proof -
    have "p \<in> de_path ` set (filter de_regular ?es)" unfolding se using that by blast
    then show ?thesis by auto
  qed
  have names: "path_filename (de_path e) = TempWalFilename \<longleftrightarrow> de_path e = wal_path d" if "e \<in> set ?es" "de_regular e" for e
    using reg [OF that] by (intro is_temp) blast
  obtain e' where e': "e' \<in> set ?es" "de_regular e'" "de_path e' = wal_path d" using listed [OF wal_paths(3) w(2)] by auto
  have "\<exists>e. filter ?temp ?es = [e] \<and> de_path e = wal_path d"
    by (rule distinct_filter_unique [OF di]) (use e' names in blast)+
  then obtain e where e: "filter ?temp ?es = [e]" "de_path e = wal_path d" by blast
  let ?infos = "concat (map parse_wal_entry (filter ?old ?es))"
  have p: "\<exists>t. t \<in> ts \<and> de_path x = old_wal_path d t \<and> parse_wal_entry x = [wal_info d t]" if "x \<in> set (filter ?old ?es)" for x
  proof -
    from that have x: "x \<in> set ?es" "de_regular x" "de_path x \<noteq> wal_path d" using names by auto
    then obtain t where t: "t \<in> ts" "de_path x = old_wal_path d t" using reg by blast
    then show ?thesis using parse_wal_file [OF w(4) [OF t(1)] x(2) t(2)] by blast
  qed
  have "ParseWalFilenames d (Some ?es) = Inr (Some (wal_path d), ?infos)"
    using parse_entries_one [OF e(1), of d "[]"] e(2) by (simp add: ParseWalFilenames_def)
  moreover have "set ?infos = wal_info d ` ts"
  proof (intro set_eqI iffI)
    fix i assume "i \<in> set ?infos"
    then obtain x where "x \<in> set (filter ?old ?es)" "i \<in> set (parse_wal_entry x)" by auto
    moreover from this(1) obtain t where "t \<in> ts" "parse_wal_entry x = [wal_info d t]" using p by blast
    ultimately show "i \<in> wal_info d ` ts" by simp
  next
    fix i assume "i \<in> wal_info d ` ts"
    then obtain t where t: "t \<in> ts" "i = wal_info d t" by blast
    obtain x where x: "x \<in> set ?es" "de_regular x" "de_path x = old_wal_path d t"
      using listed [OF wal_paths(4) w(3) [OF t(1)]] by auto
    then have "x \<in> set (filter ?old ?es)" using names [OF x(1,2)] wal_paths(5) [of d t] by simp
    moreover have "i \<in> set (parse_wal_entry x)" using parse_wal_file [OF w(4) [OF t(1)] x(2,3)] t(2) by simp
    ultimately show "i \<in> set ?infos" by auto
  qed
  moreover have "distinct ?infos"
  proof -
    have "map fi_path ?infos = map de_path (filter ?old ?es)" by (rule concat_singletons) (use p in force)
    moreover have "distinct (map de_path (filter ?old ?es))" using di by (rule distinct_map_filter)
    ultimately have "distinct (map fi_path ?infos)" by simp
    then show ?thesis by (simp only: distinct_map)
  qed
  ultimately show ?thesis using that by blast
qed

lemma olds_distinct: "sorted_wrt (\<lambda>(t, xs) (t', xs'). t' < t \<and> Q t xs t' xs') olds \<Longrightarrow> sorted_wrt (\<lambda>a b. b < a) (map fst olds)"
  for olds :: "(u64 \<times> 'a) list"
  unfolding sorted_wrt_map by (erule sorted_wrt_mono_rel [rotated]) auto

lemma sort_descending:
  assumes "distinct infos" and "set infos = wal_info d ` set ts" and ts: "sorted_wrt (\<lambda>a b. b < a) ts"
  shows "rev (sort_key fi_max_commit_ts infos) = map (wal_info d) ts"
proof -
  have asc: "sorted_wrt (<) (rev ts)" using ts by (simp add: sorted_wrt_rev)
  then have "distinct (rev ts)" "sorted (rev ts)" by (simp_all add: strict_sorted_iff)
  then have dt: "distinct (map (wal_info d) (rev ts))" by (auto simp: distinct_map inj_on_def wal_info_def)
  have "mset infos = mset (map (wal_info d) (rev ts))"
    using assms(1,2) dt by (intro iffD1 [OF set_eq_iff_mset_eq_distinct]) auto
  moreover have "inj_on fi_max_commit_ts (set infos)" unfolding assms(2) by (auto simp: inj_on_def)
  moreover have "sorted (map fi_max_commit_ts (map (wal_info d) (rev ts)))" using \<open>sorted (rev ts)\<close> by (simp add: comp_def)
  ultimately have "sort_key fi_max_commit_ts infos = map (wal_info d) (rev ts)" by (rule sort_key_inj_key_eq)
  then show ?thesis by (simp add: rev_map)
qed

lemma wal_list_names:
  assumes "lists_files ls" and "wal_names d fs (set ts)" and ts: "sorted_wrt (\<lambda>a b. b < a) ts"
  shows "wal_list ls d fs = Inr (wal_path d # map (old_wal_path d) ts)"
proof -
  obtain infos where p: "ParseWalFilenames d (Some (ls d fs)) = Inr (Some (wal_path d), infos)"
    "distinct infos" "set infos = wal_info d ` set ts"
    by (rule ParseWalFilenames_names [OF assms(1,2)])
  have "rev (sort_key fi_max_commit_ts infos) = map (wal_info d) ts" by (rule sort_descending [OF p(2,3) ts])
  then have "map fi_path (rev (sort_key fi_max_commit_ts infos)) = map (old_wal_path d) ts" by (simp add: comp_def)
  then show ?thesis using p(1) by (simp add: wal_list_def)
qed

lemma comprehension_filter: "concat (map (\<lambda>x. if P x then [f x] else []) xs) = map f (filter P xs)"
  by (induction xs) simp_all

lemma recycled_paths: "fi_path ` {i \<in> wal_info d ` S. fi_max_commit_ts i \<le> T} = old_wal_path d ` {t \<in> S. t \<le> T}"
  by force

lemma RecycleWalFile_log:
  assumes "lists_files ls" and "wal_log d fs es olds"
  obtains paths where "RecycleWalFile T d (Some (ls d fs)) = Inr paths"
    "set paths = old_wal_path d ` {t \<in> fst ` set olds. t \<le> T}"
proof -
  obtain infos where p: "ParseWalFilenames d (Some (ls d fs)) = Inr (Some (wal_path d), infos)"
    "set infos = wal_info d ` fst ` set olds"
    by (rule ParseWalFilenames_names [OF assms(1) wal_log_names [OF assms(2)]])
  show ?thesis
  proof
    show "RecycleWalFile T d (Some (ls d fs)) = Inr (map fi_path (filter (\<lambda>i. fi_max_commit_ts i \<le> T) infos))"
      using p(1) by (simp add: RecycleWalFile_def comprehension_filter)
    show "set (map fi_path (filter (\<lambda>i. fi_max_commit_ts i \<le> T) infos)) = old_wal_path d ` {t \<in> fst ` set olds. t \<le> T}"
      using recycled_paths [of d "fst ` set olds" T] p(2) by simp
  qed
qed

text \<open>Deleting the closed files up to a time stamp.\<close>

lemma wal_log_recycle:
  assumes log: "wal_log d fs es olds" and paths: "set paths = old_wal_path d ` {t \<in> fst ` set olds. t \<le> T}"
  shows "wal_log d (\<lambda>p. if p \<in> set paths then None else fs p) es (filter (\<lambda>(t, xs). T < t) olds)" (is "wal_log d ?fs _ ?olds")
proof -
  note w = wal_logD [OF log]
  have sub: "(t, xs) \<in> set ?olds \<Longrightarrow> (t, xs) \<in> set olds \<and> T < t" for t xs by simp
  have keep: "old_wal_path d t \<notin> set paths" if "T < t" for t using that wal_paths(6) unfolding paths by auto
  show ?thesis
  proof (rule wal_logI)
    show "finite (dom ?fs)" by (rule finite_subset [OF _ w(1)]) (auto split: if_splits)
    show "?fs (wal_path d) = Some (file_of es)" using w(2) wal_paths(5) unfolding paths by auto
    show "?fs (old_wal_path d t) = Some (file_of xs)" if "(t, xs) \<in> set ?olds" for t xs
      using w(5) [of t xs] keep [of t] sub [OF that] by simp
    show "sorted_wrt (\<lambda>(t, xs) (t', xs'). t' < t \<and> (\<forall>x \<in> set xs. t' < we_commit_ts x)) ?olds" using w(11) by (rule sorted_wrt_filter)
    show "p = wal_path d \<or> (\<exists>(t, xs) \<in> set ?olds. p = old_wal_path d t)" if p: "in_directory d p" "?fs p \<noteq> None" for p
    proof -
      have q: "fs p \<noteq> None" "p \<notin> set paths" using p(2) by (auto split: if_splits)
      from w(12) [OF p(1) q(1)] consider "p = wal_path d" | t xs where "(t, xs) \<in> set olds" "p = old_wal_path d t" by blast
      then show ?thesis
      proof cases
        case 2
        then have "T < t" using q(2) unfolding paths by (force simp: not_le)
        with 2 have "(t, xs) \<in> set ?olds" by simp
        with 2(2) show ?thesis by blast
      qed simp
    qed
  qed (use w(3,4,6-10) sub in blast)+
qed

section \<open>Flushing keeps the log\<close>

abbreviation nonempty :: "wal_entry \<Rightarrow> bool" where
  "nonempty e \<equiv> we_cmds e \<noteq> []"

lemma fold_last: "fold (\<lambda>x _. f x) xs d = (if xs = [] then d else f (last xs))"
  by (induction xs arbitrary: d) auto

lemma Flush_write_log:
  assumes "list_all valid_wal_entry bs" and "wm_files wm (wal_path (wm_wal_dir wm)) = Some c"
  shows "\<exists>n. Flush_write (map Some bs) wm = Inr (wm\<lparr>
      wm_files := (wm_files wm)(wal_path (wm_wal_dir wm) \<mapsto> c @ file_of (filter nonempty bs)),
      wm_max_commit_ts := fold (\<lambda>e _. we_commit_ts e) (filter nonempty bs) (wm_max_commit_ts wm),
      wm_wal_size := n\<rparr>)"
  using assms
proof (induction bs arbitrary: wm c)
  case Nil
  from Nil(2) have "(wm_files wm)(wal_path (wm_wal_dir wm) \<mapsto> c) = wm_files wm" by (rule map_upd_triv)
  then show ?case by (intro exI [of _ "wm_wal_size wm"]) (simp add: file_of_def)
next
  case (Cons e bs)
  then have v: "valid_wal_entry e" by simp
  show ?case
  proof (cases "we_cmds e = []")
    case True
    then have "Flush_write (map Some (e # bs)) wm = Flush_write (map Some bs) wm" "filter nonempty (e # bs) = filter nonempty bs"
      by simp_all
    moreover have "list_all valid_wal_entry bs" using Cons.prems(1) by simp
    ultimately show ?thesis using Cons.IH [OF _ Cons.prems(2)] by (simp only:)
  next
    case False
    obtain buf where b: "WalEntry_WriteAdv e = Inr buf" "WalEntry_GetSizeInBytes e = Inr (word_of_nat (length buf))"
      by (rule WalEntry_size [OF v])
    have "length buf < 2 ^ 31" using length_wbytes [OF v] b(1) by (simp add: wbytes_def)
    then have s: "0 \<le> sint (word_of_nat (length buf) :: i32)"
      by (simp add: signed_of_nat signed_take_bit_int_eq_self)
    let ?p = "wal_path (wm_wal_dir wm)"
    let ?wm = "wm\<lparr>wm_files := append_file ?p buf (wm_files wm), wm_max_commit_ts := we_commit_ts e,
        wm_wal_size := wm_wal_size wm + scast (word_of_nat (length buf) :: i32)\<rparr>"
    have "wm_files ?wm (wal_path (wm_wal_dir ?wm)) = Some (c @ buf)" using Cons.prems(2) by (simp add: append_file_def)
    from Cons.IH [OF _ this] Cons.prems(1) obtain n where n: "Flush_write (map Some bs) ?wm = Inr (?wm\<lparr>
        wm_files := (wm_files ?wm)(?p \<mapsto> (c @ buf) @ file_of (filter nonempty bs)),
        wm_max_commit_ts := fold (\<lambda>e _. we_commit_ts e) (filter nonempty bs) (we_commit_ts e),
        wm_wal_size := n\<rparr>)" by (auto simp: fun_upd_def)
    have step: "Flush_write (map Some (e # bs)) wm = Flush_write (map Some bs) ?wm" using False b s by (simp add: Let_def)
    show ?thesis
      by (intro exI [of _ n], subst step, subst n) (use False b(1) in \<open>simp add: append_file_def file_of_def wbytes_def\<close>)
  qed
qed

text \<open>
  The state of a running manager: \<open>hist\<close> is everything written to the log so far, of which only entries up to the
  time stamp \<open>recycled\<close> have been deleted.
\<close>

definition good_entry :: "wal_entry \<Rightarrow> bool" where
  "good_entry e \<longleftrightarrow> valid_wal_entry e \<and> unat (we_commit_ts e) < 2 ^ 63"

definition wal_inv :: "wal_manager \<Rightarrow> wal_entry list \<Rightarrow> u64 \<Rightarrow> bool" where
  "wal_inv wm hist recycled \<longleftrightarrow>
     (\<exists>es olds dropped queue. wal_log (wm_wal_dir wm) (wm_files wm) es olds
        \<and> hist = dropped @ concat (rev (map snd olds)) @ es \<and> (\<forall>e \<in> set dropped. we_commit_ts e \<le> recycled)
        \<and> wm_wait_flush wm = map Some queue \<and> wm_running wm \<and> wm_catalog_dir wm \<noteq> wm_wal_dir wm
        \<and> list_all good_entry (es @ queue) \<and> sorted_wrt (<) (map we_commit_ts (hist @ queue))
        \<and> (\<forall>(t, xs) \<in> set olds. t \<in> we_commit_ts ` set xs)
        \<and> (es \<noteq> [] \<longrightarrow> wm_max_commit_ts wm = we_commit_ts (last es)))"

lemma wal_invI:
  assumes "wal_log (wm_wal_dir wm) (wm_files wm) es olds"
    and "hist = dropped @ concat (rev (map snd olds)) @ es" and "\<forall>e \<in> set dropped. we_commit_ts e \<le> recycled"
    and "wm_wait_flush wm = map Some queue" and "wm_running wm" and "wm_catalog_dir wm \<noteq> wm_wal_dir wm"
    and "list_all good_entry (es @ queue)" and "sorted_wrt (<) (map we_commit_ts (hist @ queue))"
    and "\<forall>(t, xs) \<in> set olds. t \<in> we_commit_ts ` set xs"
    and "es \<noteq> [] \<longrightarrow> wm_max_commit_ts wm = we_commit_ts (last es)"
  shows "wal_inv wm hist recycled"
  using assms unfolding wal_inv_def by blast

lemma wal_invE:
  assumes "wal_inv wm hist recycled"
  obtains es olds dropped queue where "wal_log (wm_wal_dir wm) (wm_files wm) es olds"
    and "hist = dropped @ concat (rev (map snd olds)) @ es" and "\<forall>e \<in> set dropped. we_commit_ts e \<le> recycled"
    and "wm_wait_flush wm = map Some queue" and "wm_running wm" and "wm_catalog_dir wm \<noteq> wm_wal_dir wm"
    and "list_all good_entry (es @ queue)" and "sorted_wrt (<) (map we_commit_ts (hist @ queue))"
    and "\<forall>(t, xs) \<in> set olds. t \<in> we_commit_ts ` set xs"
    and "es \<noteq> [] \<longrightarrow> wm_max_commit_ts wm = we_commit_ts (last es)"
  using assms unfolding wal_inv_def by blast

lemma wal_log_append:
  assumes log: "wal_log d fs es olds" and v: "list_all valid_wal_entry bs" and s: "sorted_wrt (<) (map we_commit_ts (es @ bs))"
    and o: "\<forall>t \<in> fst ` set olds. \<forall>e \<in> set bs. t < we_commit_ts e"
  shows "wal_log d (fs(wal_path d \<mapsto> file_of es @ file_of bs)) (es @ bs) olds"
proof -
  note w = wal_logD [OF log]
  show ?thesis
  proof (rule wal_logI)
    show "(fs(wal_path d \<mapsto> file_of es @ file_of bs)) (wal_path d) = Some (file_of (es @ bs))" by (simp add: file_of_def)
    show "(fs(wal_path d \<mapsto> file_of es @ file_of bs)) (old_wal_path d t) = Some (file_of xs)" if "(t, xs) \<in> set olds" for t xs
      using w(5) [OF that] wal_paths(5) [of d t] by simp
    show "t < we_commit_ts x" if "(t, xs) \<in> set olds" "x \<in> set (es @ bs)" for t xs x
      using w(10) [OF that(1)] o that by force
    show "p = wal_path d \<or> (\<exists>(t, xs) \<in> set olds. p = old_wal_path d t)"
      if "in_directory d p" "(fs(wal_path d \<mapsto> file_of es @ file_of bs)) p \<noteq> None" for p
      using w(12) [OF that(1)] that(2) by (cases "p = wal_path d") auto
    show "list_all valid_wal_entry (es @ bs)" using w(3) v by simp
    show "finite (dom (fs(wal_path d \<mapsto> file_of es @ file_of bs)))" using w(1) by simp
  qed (use w s in blast)+
qed

lemma wal_log_swap:
  assumes log: "wal_log d fs es olds" and ne: "es \<noteq> []" and t: "t = we_commit_ts (last es)" "unat t < 2 ^ 63"
  shows "wal_log d (fs(wal_path d := None, old_wal_path d t := Some (file_of es), wal_path d := Some [])) [] ((t, es) # olds)"
    (is "wal_log d ?fs _ _")
proof -
  note w = wal_logD [OF log]
  have last: "last es \<in> set es" using ne by simp
  have lt: "t' < t" if "(t', xs) \<in> set olds" for t' xs using w(10) [OF that last] t(1) by simp
  have le: "we_commit_ts x \<le> t" if "x \<in> set es" for x
  proof -
    have "sorted (map we_commit_ts es)" using w(4) by (simp add: strict_sorted_iff)
    then show ?thesis using sorted_last_max [of we_commit_ts es x] that t(1) by simp
  qed
  show ?thesis
  proof (rule wal_logI)
    show "finite (dom ?fs)" using w(1) by simp
    show "?fs (wal_path d) = Some (file_of [])" by (simp add: file_of_def)
    show "?fs (old_wal_path d t') = Some (file_of xs)" if "(t', xs) \<in> set ((t, es) # olds)" for t' xs
      using that w(5) [of t' xs] lt [of t' xs] wal_paths(6) [of d] wal_paths(5) [of d t', THEN not_sym] by (auto simp: fun_upd_def)
    show "sorted_wrt (\<lambda>(t, xs) (t', xs'). t' < t \<and> (\<forall>x \<in> set xs. t' < we_commit_ts x)) ((t, es) # olds)"
      using w(11) lt w(10) by auto
    show "p = wal_path d \<or> (\<exists>(t', xs) \<in> set ((t, es) # olds). p = old_wal_path d t')" if "in_directory d p" "?fs p \<noteq> None" for p
      using w(12) [OF that(1)] that(2) by (auto split: if_splits)
    show "unat t' < 2 ^ 63" if "(t', xs) \<in> set ((t, es) # olds)" for t' xs using that w(7) t(2) by auto
    show "we_commit_ts x \<le> t'" if "(t', xs) \<in> set ((t, es) # olds)" "x \<in> set xs" for t' xs x using that w(9) le by auto
    show "sorted_wrt (<) (map we_commit_ts xs)" if "(t', xs) \<in> set ((t, es) # olds)" for t' xs using that w(4,8) by auto
    show "list_all valid_wal_entry xs" if "(t', xs) \<in> set ((t, es) # olds)" for t' xs using that w(3,6) by auto
  qed simp_all
qed

lemma Flush_swap_log:
  assumes inv: "wal_inv wm hist recycled" and q: "wm_wait_flush wm = []"
  obtains fs where "Flush_swap wm = Inr (wm\<lparr>wm_files := fs\<rparr>)" "wal_inv (wm\<lparr>wm_files := fs\<rparr>) hist recycled"
proof -
  let ?d = "wm_wal_dir wm" and ?t = "wm_max_commit_ts wm"
  obtain es olds dropped queue where log: "wal_log ?d (wm_files wm) es olds"
    and h: "hist = dropped @ concat (rev (map snd olds)) @ es" "\<forall>e \<in> set dropped. we_commit_ts e \<le> recycled"
    and r: "wm_wait_flush wm = map Some queue" "wm_running wm" "wm_catalog_dir wm \<noteq> ?d" "list_all good_entry (es @ queue)"
      "sorted_wrt (<) (map we_commit_ts (hist @ queue))" "\<forall>(t, xs) \<in> set olds. t \<in> we_commit_ts ` set xs"
    and m: "es \<noteq> [] \<longrightarrow> ?t = we_commit_ts (last es)"
    using inv by (rule wal_invE)
  have [simp]: "queue = []" using q r(1) by simp
  note w = wal_logD [OF log]
  show ?thesis
  proof (cases "word_of_nat (length (file_of es)) > wm_cfg_wal_size_threshold wm")
    case True
    then have ne: "es \<noteq> []" by (auto simp: file_of_def)
    then have "good_entry (last es)" using r(4) by (simp add: list_all_iff)
    then have "unat ?t < 2 ^ 63" using m ne by (simp add: good_entry_def)
    note log2 = wal_log_swap [OF log ne mp [OF m ne] this]
    show ?thesis
    proof (rule that [OF _ wal_invI [where es = "[]" and olds = "(?t, es) # olds" and dropped = dropped and queue = "[]"]])
      show "Flush_swap wm = Inr (wm\<lparr>wm_files := (wm_files wm)(wal_path ?d := None, old_wal_path ?d ?t := Some (file_of es), wal_path ?d := Some [])\<rparr>)"
        using True w(2) wal_paths(5) [of ?d ?t]
        by (simp add: Flush_swap_def SwapWalFile_def Rename_def open_app_def)
    qed (use log2 h q r m ne in simp_all)
  next
    case False
    then show ?thesis using that [of "wm_files wm"] w(2) inv by (simp add: Flush_swap_def)
  qed
qed

lemma wal_inv_checkpoint_flag: "wal_inv (wm\<lparr>wm_checkpoint_in_progress := b\<rparr>) hist recycled \<longleftrightarrow> wal_inv wm hist recycled"
  by (simp add: wal_inv_def)

lemma Flush_checkpoint_log:
  obtains submitted b where "Flush_checkpoint wm = (submitted, wm\<lparr>wm_checkpoint_in_progress := b\<rparr>)"
proof -
  have "\<exists>submitted b. Flush_checkpoint wm = (submitted, wm\<lparr>wm_checkpoint_in_progress := b\<rparr>)"
  proof (cases "snd (Flush_checkpoint wm) = wm")
    case True
    then show ?thesis
      by (intro exI [of _ "fst (Flush_checkpoint wm)"] exI [of _ "wm_checkpoint_in_progress wm"]) (simp add: prod_eq_iff)
  next
    case False
    then have "Flush_checkpoint wm = (True, wm\<lparr>wm_checkpoint_in_progress := True\<rparr>)"
      by (simp add: Flush_checkpoint_def TrySubmitCheckpointTask_def split: if_splits)
    then show ?thesis by blast
  qed
  then show ?thesis using that by blast
qed

lemma wal_inv_write:
  assumes inv: "wal_inv wm hist recycled"
  obtains queue wm1 where "wm_wait_flush wm = map Some queue" "Flush_write (map Some queue) (wm\<lparr>wm_wait_flush := []\<rparr>) = Inr wm1"
    "wal_inv wm1 (hist @ filter nonempty queue) recycled" "wm_wait_flush wm1 = []"
    "wm_wal_dir wm1 = wm_wal_dir wm" "wm_catalog_dir wm1 = wm_catalog_dir wm"
proof -
  let ?d = "wm_wal_dir wm"
  obtain es olds dropped queue where log: "wal_log ?d (wm_files wm) es olds"
    and h: "hist = dropped @ concat (rev (map snd olds)) @ es" "\<forall>e \<in> set dropped. we_commit_ts e \<le> recycled"
    and q: "wm_wait_flush wm = map Some queue" "wm_running wm" "wm_catalog_dir wm \<noteq> ?d" "list_all good_entry (es @ queue)"
    and s: "sorted_wrt (<) (map we_commit_ts (hist @ queue))" and o: "\<forall>(t, xs) \<in> set olds. t \<in> we_commit_ts ` set xs"
    and m: "es \<noteq> [] \<longrightarrow> wm_max_commit_ts wm = we_commit_ts (last es)"
    using inv by (rule wal_invE)
  note w = wal_logD [OF log]
  define bs where "bs = filter nonempty queue"
  have v: "list_all valid_wal_entry queue" and g: "list_all good_entry (es @ bs)" "list_all valid_wal_entry bs"
    using q(4) by (auto simp: list_all_iff good_entry_def bs_def)
  define t where "t = fold (\<lambda>e _. we_commit_ts e) bs (wm_max_commit_ts wm)"
  obtain n where r: "Flush_write (map Some queue) (wm\<lparr>wm_wait_flush := []\<rparr>)
      = Inr (wm\<lparr>wm_wait_flush := [], wm_files := (wm_files wm)(wal_path ?d \<mapsto> file_of es @ file_of bs), wm_max_commit_ts := t, wm_wal_size := n\<rparr>)"
    using Flush_write_log [OF v, of "wm\<lparr>wm_wait_flush := []\<rparr>" "file_of es"] w(2)
    by (auto simp: t_def bs_def)
  have s1: "sorted_wrt (<) (map we_commit_ts (hist @ bs))"
    using s unfolding map_append sorted_wrt_append bs_def by (auto simp: sorted_wrt_map intro: sorted_wrt_filter)
  then have s2: "sorted_wrt (<) (map we_commit_ts (es @ bs))" using h(1) by (auto simp: sorted_wrt_append)
  have "t < we_commit_ts e" if "(t, xs) \<in> set olds" "e \<in> set bs" for t xs e
  proof -
    obtain x where x: "x \<in> set xs" "t = we_commit_ts x" using o \<open>(t, xs) \<in> set olds\<close> by blast
    then have "x \<in> set hist" using that(1) h(1) by force
    then show ?thesis using s1 x(2) that(2) by (auto simp: sorted_wrt_append)
  qed
  then have "\<forall>t \<in> fst ` set olds. \<forall>e \<in> set bs. t < we_commit_ts e" by auto
  note log1 = wal_log_append [OF log g(2) s2 this]
  have t: "es @ bs \<noteq> [] \<longrightarrow> t = we_commit_ts (last (es @ bs))" using m by (auto simp: t_def fold_last)
  show ?thesis
  proof (rule that [OF q(1) r wal_invI [where es = "es @ bs" and olds = olds and dropped = dropped and queue = "[]"]])
    show "wal_log (wm_wal_dir (wm\<lparr>wm_wait_flush := [], wm_files := (wm_files wm)(wal_path ?d \<mapsto> file_of es @ file_of bs), wm_max_commit_ts := t, wm_wal_size := n\<rparr>))
       (wm_files (wm\<lparr>wm_wait_flush := [], wm_files := (wm_files wm)(wal_path ?d \<mapsto> file_of es @ file_of bs), wm_max_commit_ts := t, wm_wal_size := n\<rparr>)) (es @ bs) olds"
      using log1 by simp
  qed (use h q s1 t g o in \<open>simp_all add: bs_def\<close>)
qed

lemma Flush_round_log:
  assumes inv: "wal_inv wm hist recycled"
  obtains queue submitted wm' where "wm_wait_flush wm = map Some queue" "Flush_round wm = Inr (queue, submitted, wm')"
    "wal_inv wm' (hist @ filter nonempty queue) recycled" "wm_wait_flush wm' = []"
    "wm_wal_dir wm' = wm_wal_dir wm" "wm_catalog_dir wm' = wm_catalog_dir wm"
proof -
  obtain queue wm1 where w1: "wm_wait_flush wm = map Some queue" "Flush_write (map Some queue) (wm\<lparr>wm_wait_flush := []\<rparr>) = Inr wm1"
    "wal_inv wm1 (hist @ filter nonempty queue) recycled" "wm_wait_flush wm1 = []"
    "wm_wal_dir wm1 = wm_wal_dir wm" "wm_catalog_dir wm1 = wm_catalog_dir wm"
    by (rule wal_inv_write [OF inv])
  show ?thesis
  proof (cases "queue = []")
    case True
    then show ?thesis using that [of queue False wm1] w1 by (simp add: Flush_round_def)
  next
    case False
    obtain fs where w2: "Flush_swap wm1 = Inr (wm1\<lparr>wm_files := fs\<rparr>)" "wal_inv (wm1\<lparr>wm_files := fs\<rparr>) (hist @ filter nonempty queue) recycled"
      by (rule Flush_swap_log [OF w1(3,4)])
    obtain submitted b where w3: "Flush_checkpoint (wm1\<lparr>wm_files := fs\<rparr>) = (submitted, wm1\<lparr>wm_files := fs, wm_checkpoint_in_progress := b\<rparr>)"
      by (rule Flush_checkpoint_log)
    have "wm_running wm1" using w1(3) by (auto simp: wal_inv_def)
    then have "Flush_round wm = Inr (queue, submitted, wm1\<lparr>wm_files := fs, wm_checkpoint_in_progress := b\<rparr>)"
      using False w1(1,2) w2(1) w3 by (simp add: Flush_round_def comp_def)
    then show ?thesis using that w1(1,4-6) w2(2) wal_inv_checkpoint_flag by fastforce
  qed
qed
section \<open>Checkpoints keep what recovery needs\<close>

lemma wal_log_other:
  assumes log: "wal_log d fs es olds" and same: "\<And>p. in_directory d p \<Longrightarrow> fs' p = fs p" and fin: "finite (dom fs')"
  shows "wal_log d fs' es olds"
proof -
  note w = wal_logD [OF log]
  show ?thesis
  proof (rule wal_logI)
    show "fs' (wal_path d) = Some (file_of es)" using w(2) same [OF wal_paths(3)] by simp
    show "fs' (old_wal_path d t) = Some (file_of xs)" if "(t, xs) \<in> set olds" for t xs
      using w(5) [OF that] same [OF wal_paths(4)] by simp
    show "p = wal_path d \<or> (\<exists>(t, xs) \<in> set olds. p = old_wal_path d t)" if "in_directory d p" "fs' p \<noteq> None" for p
      using w(12) [OF that(1)] same [OF that(1)] that(2) by simp
  qed (use w fin in blast)+
qed

lemma wal_inv_files:
  assumes inv: "wal_inv wm hist recycled" and "\<And>p. in_directory (wm_wal_dir wm) p \<Longrightarrow> fs' p = wm_files wm p" and "finite (dom fs')"
  shows "wal_inv (wm\<lparr>wm_files := fs'\<rparr>) hist recycled"
  using inv by (rule wal_invE) (rule wal_invI, auto intro: wal_log_other [OF _ assms(2,3)])

lemma wal_inv_same:
  assumes "wal_inv wm hist recycled" and "wm_wal_dir wm' = wm_wal_dir wm" "wm_catalog_dir wm' = wm_catalog_dir wm"
    "wm_files wm' = wm_files wm" "wm_running wm' = wm_running wm" "wm_wait_flush wm' = wm_wait_flush wm"
    "wm_max_commit_ts wm' = wm_max_commit_ts wm"
  shows "wal_inv wm' hist recycled"
  using assms by (simp add: wal_inv_def)

lemma split_descending:
  "sorted_wrt (\<lambda>a b. fst b < fst a) olds \<Longrightarrow> olds = filter (\<lambda>(t, xs). T < t) olds @ filter (\<lambda>(t, xs). t \<le> T) olds"
  for olds :: "(u64 \<times> 'a) list"
proof (induction olds)
  case (Cons a olds)
  show ?case
  proof (cases "T < fst a")
    case True
    then show ?thesis using Cons by (auto split: prod.splits)
  next
    case False
    then have "\<forall>b \<in> set olds. fst b \<le> T" using Cons.prems by (auto intro: less_imp_le order_trans dest: order.strict_trans2)
    then have "filter (\<lambda>(t, xs). T < t) olds = []" "filter (\<lambda>(t, xs). t \<le> T) olds = olds"
      by (auto simp: filter_empty_conv filter_id_conv)
    with False show ?thesis by (auto split: prod.splits)
  qed
qed simp

lemma wal_inv_recycle:
  assumes inv: "wal_inv wm hist recycled" and ls: "lists_files ls"
  obtains paths where "RecycleWalFile T (wm_wal_dir wm) (Some (ls (wm_wal_dir wm) (wm_files wm))) = Inr paths"
    "wal_inv (delete_files paths wm) hist (max recycled T)"
proof -
  let ?d = "wm_wal_dir wm"
  obtain es olds dropped queue where log: "wal_log ?d (wm_files wm) es olds"
    and h: "hist = dropped @ concat (rev (map snd olds)) @ es" "\<forall>e \<in> set dropped. we_commit_ts e \<le> recycled"
    and r: "wm_wait_flush wm = map Some queue" "wm_running wm" "wm_catalog_dir wm \<noteq> ?d" "list_all good_entry (es @ queue)"
      "sorted_wrt (<) (map we_commit_ts (hist @ queue))" "\<forall>(t, xs) \<in> set olds. t \<in> we_commit_ts ` set xs"
      "es \<noteq> [] \<longrightarrow> wm_max_commit_ts wm = we_commit_ts (last es)"
    using inv by (rule wal_invE)
  note w = wal_logD [OF log]
  obtain paths where p: "RecycleWalFile T ?d (Some (ls ?d (wm_files wm))) = Inr paths"
    "set paths = old_wal_path ?d ` {t \<in> fst ` set olds. t \<le> T}"
    by (rule RecycleWalFile_log [OF ls log])
  let ?new = "filter (\<lambda>(t, xs). T < t) olds" and ?old = "filter (\<lambda>(t, xs). t \<le> T) olds"
  note log2 = wal_log_recycle [OF log p(2)]
  have "sorted_wrt (\<lambda>a b. fst b < fst a) olds" using w(11) by (rule sorted_wrt_mono_rel [rotated]) auto
  from split_descending [OF this, of T] have "concat (rev (map snd olds)) = concat (rev (map snd ?old)) @ concat (rev (map snd ?new))"
    by (metis concat_append map_append rev_append)
  then have h': "hist = (dropped @ concat (rev (map snd ?old))) @ concat (rev (map snd ?new)) @ es" using h(1) by simp
  have "we_commit_ts x \<le> T" if "x \<in> set (concat (rev (map snd ?old)))" for x
    using that w(9) by (fastforce intro: order_trans)
  then have d': "\<forall>e \<in> set (dropped @ concat (rev (map snd ?old))). we_commit_ts e \<le> max recycled T"
    using h(2) unfolding set_append le_max_iff_disj by blast
  have "wal_inv (delete_files paths wm) hist (max recycled T)"
  proof (rule wal_invI [OF _ h' d'])
    show "wal_log (wm_wal_dir (delete_files paths wm)) (wm_files (delete_files paths wm)) es ?new"
      using log2 by (simp add: delete_files_def)
  qed (use r in \<open>auto simp: delete_files_def\<close>)
  with p(1) show ?thesis by (rule that)
qed

lemma RecycleCatalogFile_listed:
  assumes "RecycleCatalogFile T c (Some es) = (paths, r)" and "p \<in> set paths"
  shows "p \<in> de_path ` set (filter de_regular es)"
proof -
  obtain fulls deltas where P: "ParseCheckpointFilenames c (Some es) = Inr (fulls, deltas)"
    "fulls = concat (map (\<lambda>e. fst (parse_checkpoint_entry e)) es)" "deltas = concat (map (\<lambda>e. snd (parse_checkpoint_entry e)) es)"
    by (simp add: ParseCheckpointFilenames_def ListDirectory_def)
  have "p \<in> fi_path ` (set fulls \<union> set deltas)"
    using assms P(1) by (cases "list_ex (\<lambda>i. fi_max_commit_ts i = T) fulls") (auto simp: RecycleCatalogFile_def comprehension_filter Let_def)
  then obtain i where i: "i \<in> set fulls \<or> i \<in> set deltas" "p = fi_path i" by blast
  then obtain e where e: "e \<in> set es" "fi_path i = de_path e" "parse_checkpoint_entry e = ([i], []) \<or> parse_checkpoint_entry e = ([], [i])"
    using listed_entry [of i es] unfolding P(2,3) by blast
  have "de_regular e" using e(3) by (auto simp: parse_checkpoint_entry_def Let_def split: if_splits)
  with e(1,2) i(2) show ?thesis by auto
qed

lemma in_directory_unique: "in_directory d p \<Longrightarrow> in_directory d' p \<Longrightarrow> d = d'"
proof -
  assume "in_directory d p" "in_directory d' p"
  then obtain n n' where n: "CHR ''/'' \<notin> set n" "p = d @ ''/'' @ n" "CHR ''/'' \<notin> set n'" "p = d' @ ''/'' @ n'"
    unfolding in_directory_def by blast
  then have "n = n'" using path_filename_join [OF n(1), of d] path_filename_join [OF n(3), of d'] by simp
  with n(2,4) show "d = d'" by simp
qed

lemma wal_inv_recycle_catalog:
  assumes inv: "wal_inv wm hist recycled" and ls: "lists_files ls"
    and r: "RecycleCatalogFile T (wm_catalog_dir wm) (Some (ls (wm_catalog_dir wm) (wm_files wm))) = (paths, r)"
  shows "wal_inv (delete_files paths wm) hist recycled"
proof -
  have fin: "finite (dom (wm_files wm))" and cd: "wm_catalog_dir wm \<noteq> wm_wal_dir wm"
    using inv by (auto elim!: wal_invE dest: wal_logD(1))
  have "p \<notin> set paths" if "in_directory (wm_wal_dir wm) p" for p
  proof
    assume "p \<in> set paths"
    from RecycleCatalogFile_listed [OF r this] have "in_directory (wm_catalog_dir wm) p"
      using ls fin unfolding lists_files_def by blast
    with that cd show False using in_directory_unique by blast
  qed
  then show ?thesis unfolding delete_files_def
    by (intro wal_inv_files [OF inv]) (auto intro: finite_subset [OF _ fin] split: if_splits)
qed

text \<open>What a checkpoint writes lies outside the directory of the log.\<close>

definition keeps_log :: "string \<Rightarrow> (files \<Rightarrow> bool res \<times> files) \<Rightarrow> bool" where
  "keeps_log wal_dir txn_checkpoint \<longleftrightarrow> (\<forall>fs. finite (dom fs) \<longrightarrow>
     finite (dom (snd (txn_checkpoint fs))) \<and> (\<forall>p. in_directory wal_dir p \<longrightarrow> snd (txn_checkpoint fs) p = fs p))"

lemma checkpoint_recycle_log:
  assumes inv: "wal_inv wm hist recycled" and ls: "lists_files ls" and r: "checkpoint_recycle ls full T wm = Inr wm'"
  shows "wal_inv wm' hist (max recycled T)"
proof -
  let ?wm0 = "wm\<lparr>wm_last_ckp_ts := T\<rparr>"
  obtain paths where p: "RecycleWalFile T (wm_wal_dir wm) (Some (ls (wm_wal_dir wm) (wm_files wm))) = Inr paths"
    "wal_inv (delete_files paths wm) hist (max recycled T)"
    by (rule wal_inv_recycle [OF inv ls])
  let ?wm1 = "delete_files paths ?wm0"
  have i1: "wal_inv ?wm1 hist (max recycled T)" by (rule wal_inv_same [OF p(2)]) (simp_all add: delete_files_def cong: if_cong)
  show ?thesis
  proof (cases full)
    case False
    then show ?thesis using r p(1) i1 by (simp add: checkpoint_recycle_def Let_def)
  next
    case True
    obtain paths2 res where c: "RecycleCatalogFile T (wm_catalog_dir ?wm1) (Some (ls (wm_catalog_dir ?wm1) (wm_files ?wm1))) = (paths2, res)"
      by fastforce
    have "wm' = delete_files paths2 (?wm1\<lparr>wm_last_full_ckp_ts := T\<rparr>)"
      using r p(1) c True by (cases res) (auto simp: checkpoint_recycle_def Let_def)
    then show ?thesis
      using wal_inv_same [OF wal_inv_recycle_catalog [OF i1 ls c], of wm'] by (simp add: delete_files_def cong: if_cong)
  qed
qed

lemma CheckpointInner_log:
  assumes inv: "wal_inv wm hist recycled" and ls: "lists_files ls" and k: "keeps_log (wm_wal_dir wm) txn_checkpoint"
    and r: "CheckpointInner ls txn_checkpoint full T wal_size wm = Inr wm'"
  shows "wal_inv wm' hist (max recycled T)"
proof -
  have fin: "finite (dom (wm_files wm))" using inv by (auto elim!: wal_invE dest: wal_logD(1))
  obtain res fs where t: "txn_checkpoint (wm_files wm) = (res, fs)" by fastforce
  have i1: "wal_inv (wm\<lparr>wm_files := fs\<rparr>) hist recycled"
    by (rule wal_inv_files [OF inv]) (use k fin t in \<open>force simp: keeps_log_def\<close>)+
  have i2: "wal_inv (SetLastCkpWalSize wal_size (wm\<lparr>wm_files := fs\<rparr>)) hist recycled"
    by (rule wal_inv_same [OF i1]) (simp_all add: SetLastCkpWalSize_def)
  have more: "wal_inv wm1 hist (max recycled T)" if "wal_inv wm1 hist recycled" for wm1
    using that by (rule wal_invE) (rule wal_invI, auto simp: le_max_iff_disj)
  obtain due where due: "checkpoint_due full T wm = Inr due"
    using r by (cases "checkpoint_due full T wm") (simp_all add: CheckpointInner_def)
  obtain wm1 where w: "wm' = wm1\<lparr>wm_checkpoint_in_progress := False\<rparr>"
    and b: "(if \<not> due then Inr wm else case (res, fs) of
                 (Inr False, fs) \<Rightarrow> Inr (wm\<lparr>wm_files := fs\<rparr>)
               | (Inr True, fs) \<Rightarrow> checkpoint_recycle ls full T (SetLastCkpWalSize wal_size (wm\<lparr>wm_files := fs\<rparr>))
               | (Inl (RecoverableError _), fs) \<Rightarrow> checkpoint_recycle ls full T (wm\<lparr>wm_files := fs\<rparr>)
               | (Inl err, _) \<Rightarrow> Inl err) = Inr wm1" (is "?body = _")
    using r unfolding CheckpointInner_def due t by (cases ?body) auto
  have c: "wm1 = wm \<or> wm1 = wm\<lparr>wm_files := fs\<rparr> \<or> checkpoint_recycle ls full T (SetLastCkpWalSize wal_size (wm\<lparr>wm_files := fs\<rparr>)) = Inr wm1
      \<or> checkpoint_recycle ls full T (wm\<lparr>wm_files := fs\<rparr>) = Inr wm1"
    using b by (simp split: if_splits sum.splits bool.splits infinity_error.splits)
  from c have "wal_inv wm1 hist (max recycled T)"
    using more [OF inv] more [OF i1] checkpoint_recycle_log [OF i2 ls] checkpoint_recycle_log [OF i1 ls] by blast
  then show ?thesis unfolding w wal_inv_checkpoint_flag .
qed

section \<open>Runs of the manager\<close>

text \<open>
  What may happen between two starts of the server: transactions hand over entries in commit order, the log thread runs
  a round, a checkpoint is made.  \<open>hist\<close> is what has been written to the log, \<open>recycled\<close> the greatest time stamp a
  checkpoint was made for.
\<close>

inductive wal_run :: "lister \<Rightarrow> wal_manager \<Rightarrow> wal_entry list \<Rightarrow> u64 \<Rightarrow> bool" for ls where
  start: "wal_run ls (WalManager_Start ((WalManager_new wal_dir catalog_dir threshold interval fs)\<lparr>wm_max_commit_ts := ts\<rparr>))
      (concat (rev (map snd olds)) @ es) 0"
  if "wal_log wal_dir (open_app (wal_path wal_dir) fs) es olds" and "catalog_dir \<noteq> wal_dir" and "list_all good_entry es"
    and "\<forall>(t, xs) \<in> set olds. t \<in> we_commit_ts ` set xs" and "es \<noteq> [] \<longrightarrow> ts = we_commit_ts (last es)"
| put: "wal_run ls (PutEntries new wm) hist recycled"
  if "wal_run ls wm hist recycled" and "list_all good_entry new"
    and "sorted_wrt (<) (map we_commit_ts (hist @ map the (wm_wait_flush wm) @ new))"
| flush: "wal_run ls wm' (hist @ filter nonempty committed) recycled"
  if "wal_run ls wm hist recycled" and "Flush_round wm = Inr (committed, submitted, wm')"
| checkpoint: "wal_run ls wm' hist (max recycled max_commit_ts)"
  if "wal_run ls wm hist recycled" and "keeps_log (wm_wal_dir wm) txn_checkpoint"
    and "CheckpointInner ls txn_checkpoint is_full_checkpoint max_commit_ts wal_size wm = Inr wm'"

lemma closed_files_sorted:
  fixes olds :: "(u64 \<times> wal_entry list) list"
  assumes "sorted_wrt (\<lambda>(t, xs) (t', xs'). t' < t \<and> (\<forall>x \<in> set xs. t' < we_commit_ts x)) olds"
    and "\<And>t xs. (t, xs) \<in> set olds \<Longrightarrow> sorted_wrt (<) (map we_commit_ts xs)"
    and "\<And>t xs x. (t, xs) \<in> set olds \<Longrightarrow> x \<in> set xs \<Longrightarrow> we_commit_ts x \<le> t"
  shows "sorted_wrt (<) (map we_commit_ts (concat (rev (map snd olds))))"
  using assms
proof (induction olds)
  case (Cons b bs)
  obtain t xs where b: "b = (t, xs)" by (cases b)
  have "sorted_wrt (<) (map we_commit_ts (concat (rev (map snd bs))))"
  proof (rule Cons.IH)
    show "sorted_wrt (<) (map we_commit_ts ys)" if "(u, ys) \<in> set bs" for u ys
      using Cons.prems(2) [of u ys] that by simp
    show "we_commit_ts y \<le> u" if "(u, ys) \<in> set bs" "y \<in> set ys" for u ys y
      using Cons.prems(3) [of u ys y] that by simp
  qed (use Cons.prems(1) in simp)
  moreover have "we_commit_ts y < we_commit_ts x" if "(u, ys) \<in> set bs" "y \<in> set ys" "x \<in> set xs" for u ys y x
    using Cons.prems(3) [of u ys y] Cons.prems(1) that b by force
  moreover have "sorted_wrt (<) (map we_commit_ts xs)" using Cons.prems(2) [of t xs] b by simp
  ultimately show ?case using b by (force simp: sorted_wrt_append)
qed simp

lemma wal_log_sorted:
  assumes "wal_log d fs es olds"
  shows "sorted_wrt (<) (map we_commit_ts (concat (rev (map snd olds)) @ es))"
proof -
  note w = wal_logD [OF assms]
  have "sorted_wrt (<) (map we_commit_ts (concat (rev (map snd olds))))"
    by (rule closed_files_sorted [OF w(11,8,9)])
  moreover have "we_commit_ts y < we_commit_ts x" if "(t, ys) \<in> set olds" "y \<in> set ys" "x \<in> set es" for t ys y x
    using w(9) [OF that(1,2)] w(10) [OF that(1,3)] by (rule le_less_trans)
  ultimately show ?thesis using w(4) by (force simp: sorted_wrt_append)
qed

lemma wal_inv_put:
  assumes "wal_inv wm hist recycled" and "list_all good_entry new"
    and "sorted_wrt (<) (map we_commit_ts (hist @ map the (wm_wait_flush wm) @ new))"
  shows "wal_inv (PutEntries new wm) hist recycled"
  using assms(1)
proof (rule wal_invE)
  fix es olds dropped queue
  assume log: "wal_log (wm_wal_dir wm) (wm_files wm) es olds"
    and h: "hist = dropped @ concat (rev (map snd olds)) @ es" "\<forall>e \<in> set dropped. we_commit_ts e \<le> recycled"
    and q: "wm_wait_flush wm = map Some queue" "wm_running wm" "wm_catalog_dir wm \<noteq> wm_wal_dir wm" "list_all good_entry (es @ queue)"
    and o: "\<forall>(t, xs) \<in> set olds. t \<in> we_commit_ts ` set xs" "es \<noteq> [] \<longrightarrow> wm_max_commit_ts wm = we_commit_ts (last es)"
  show ?thesis
  proof (rule wal_invI [where es = es and olds = olds and dropped = dropped and queue = "queue @ new"])
    show "sorted_wrt (<) (map we_commit_ts (hist @ queue @ new))" using assms(3) q(1) by (simp add: comp_def)
  qed (use log h q o assms(2) in \<open>simp_all add: PutEntries_def\<close>)
qed

lemma wal_run_inv: "wal_run ls wm hist recycled \<Longrightarrow> lists_files ls \<Longrightarrow> wal_inv wm hist recycled"
proof (induction rule: wal_run.induct)
  case (start wal_dir fs es olds catalog_dir ts threshold interval)
  show ?case
    by (rule wal_invI [where es = es and olds = olds and dropped = "[]" and queue = "[]"])
      (use start wal_log_sorted [OF start(1)] in \<open>simp_all add: WalManager_Start_def WalManager_new_def\<close>)
next
  case (put wm hist recycled new)
  then show ?case by (intro wal_inv_put) simp_all
next
  case (flush wm hist recycled committed submitted wm')
  obtain queue submitted1 wm1 where "Flush_round wm = Inr (queue, submitted1, wm1)" "wal_inv wm1 (hist @ filter nonempty queue) recycled"
    by (rule Flush_round_log [OF flush.IH [OF flush.prems]])
  then show ?case using flush.hyps(2) by simp
next
  case checkpoint
  then show ?case using CheckpointInner_log by blast
qed

section \<open>Recovery after a crash\<close>

text \<open>
  The files a crash leaves: of the entries in the queue \<open>xs\<close> have been written completely, and of the next one
  perhaps a part, \<open>tail\<close>.
\<close>

lemma crash_names:
  assumes log: "wal_log d fs es olds"
  shows "wal_names d (append_file (wal_path d) bs fs) (set (map fst olds))"
proof -
  note w = wal_logD [OF log]
  have "append_file (wal_path d) bs fs p = fs p" if "p \<noteq> wal_path d" for p using that by (simp add: append_file_def)
  then have "append_file (wal_path d) bs fs (old_wal_path d t) = fs (old_wal_path d t)" for t
    using wal_paths(5) [of d t] by metis
  moreover have "append_file (wal_path d) bs fs (wal_path d) \<noteq> None" "finite (dom (append_file (wal_path d) bs fs))"
    using w(1) by (simp_all add: append_file_def)
  moreover have "p = wal_path d \<or> (\<exists>t \<in> set (map fst olds). p = old_wal_path d t)"
    if "in_directory d p" "append_file (wal_path d) bs fs p \<noteq> None" for p
    using w(12) [OF that(1)] that(2) by (cases "p = wal_path d") (force simp: append_file_def)+
  ultimately show ?thesis
    unfolding wal_names_def using w(5,7) by (auto; blast)
qed

lemma crash_log_state:
  assumes log: "wal_log d fs0 es olds" and xs: "list_all valid_wal_entry xs" and t: "tail = [] \<or> torn_entry tail"
    and fs: "fs = append_file (wal_path d) (file_of xs @ tail) fs0" and size: "\<forall>bs \<in> ran fs. length bs < 2 ^ 63"
  shows "log_state fs (wal_path d) (map (old_wal_path d) (map fst olds)) (es @ xs) (map snd olds) tail"
proof -
  note w = wal_logD [OF log]
  have cur: "fs (wal_path d) = Some (file_of (es @ xs) @ tail)"
    using w(2) by (simp add: fs append_file_def file_of_def)
  then have len: "length (file_of (es @ xs) @ tail) < 2 ^ 63" using size ranI by fast
  have "intact_file fs (old_wal_path d u) ys" if "(u, ys) \<in> set olds" for u ys
  proof -
    have f: "fs (old_wal_path d u) = Some (file_of ys)"
      using w(5) [OF that] wal_paths(5) [of d u] by (simp add: fs append_file_def)
    then have "length (file_of ys) < 2 ^ 63" using size ranI by fast
    with f w(6) [OF that] show ?thesis by (simp add: intact_file_def)
  qed
  then have "list_all2 (intact_file fs) (map (old_wal_path d) (map fst olds)) (map snd olds)"
    by (auto simp: list_all2_map1 list_all2_map2 list.rel_map intro!: list.rel_refl_strong)
  moreover have "wal_path d \<notin> set (map (old_wal_path d) (map fst olds))" using wal_paths(5) [of d] by auto
  ultimately show ?thesis unfolding log_state_def using cur len w(3) xs t by simp
qed

lemma crash_wal_list:
  assumes log: "wal_log d fs es olds" and ls: "lists_files ls"
  shows "wal_list ls d (append_file (wal_path d) bs fs) = Inr (wal_path d # map (old_wal_path d) (map fst olds))"
proof (rule wal_list_names [OF ls crash_names [OF log]])
  have "sorted_wrt (\<lambda>a b. fst b < fst a) olds" using wal_logD(11) [OF log] by (rule sorted_wrt_mono_rel [rotated]) auto
  then show "sorted_wrt (\<lambda>a b. b < a) (map fst olds)" by (simp add: sorted_wrt_map)
qed

text \<open>After recovery the log is intact again, with the entries written completely.\<close>

lemma purged_log:
  assumes log: "wal_log d fs0 es olds" and xs: "list_all valid_wal_entry xs"
    and s: "sorted_wrt (<) (map we_commit_ts (es @ xs))" and o: "\<forall>t \<in> fst ` set olds. \<forall>e \<in> set xs. t < we_commit_ts e"
    and fs: "fs = append_file (wal_path d) (file_of xs @ tail) fs0"
  shows "wal_log d (open_app (wal_path d) (snd (purged (wal_path d) ps (es @ xs) tail fs))) (es @ xs) olds"
proof -
  note w = wal_logD [OF log]
  have f: "file_of (es @ xs) = file_of es @ file_of xs" by (simp add: file_of_def)
  have "open_app (wal_path d) (snd (purged (wal_path d) ps (es @ xs) tail fs)) = fs0(wal_path d \<mapsto> file_of es @ file_of xs)"
    using w(2) unfolding purged_def fs append_file_def open_app_def
    by (auto simp: file_of_def)
  then show ?thesis using wal_log_append [OF log xs s o] by simp
qed

lemma replay_phase3_ok:
  "\<forall>e \<in> set es. m \<le> we_commit_ts e \<Longrightarrow>
     \<exists>i. replay_phase3 m s t es = Inr (if es = [] then s else we_commit_ts (last es), i)"
proof (induction es arbitrary: s t)
  case (Cons e es)
  then show ?case by (auto simp: not_less)
qed simp

text \<open>Recovery finds a full catalog file up to the time stamp when there is one.\<close>

lemma ParseValid_found:
  assumes ls: "lists_files ls" and fin: "finite (dom fs)" and f: "fs (d @ ''/'' @ FullCheckpoingFilename full_ts) \<noteq> None"
    and t: "full_ts \<le> T" "unat full_ts < 2 ^ 63"
  obtains full deltas where "ParseValidCheckpointFilenames d T (Some (ls d fs)) = Inr (Some (full, deltas))"
    "full_ts \<le> fi_max_commit_ts full" "fi_max_commit_ts full \<le> T" "fs (fi_path full) \<noteq> None"
proof -
  let ?es = "ls d fs"
  let ?p = "d @ ''/'' @ FullCheckpoingFilename full_ts"
  have se: "de_path ` set (filter de_regular ?es) = {p \<in> dom fs. in_directory d p}"
    using ls fin by (auto simp: lists_files_def)
  obtain fulls deltas where P: "ParseCheckpointFilenames d (Some ?es) = Inr (fulls, deltas)"
    "fulls = concat (map (\<lambda>e. fst (parse_checkpoint_entry e)) ?es)"
    by (simp add: ParseCheckpointFilenames_def ListDirectory_def)
  have "in_directory d ?p" unfolding in_directory_def using names_no_slash(1) by blast
  then have "?p \<in> {p \<in> dom fs. in_directory d p}" using f by blast
  then obtain e where e: "e \<in> set ?es" "de_regular e" "de_path e = ?p" unfolding se [symmetric] by auto
  have "parse_checkpoint_entry e = ([\<lparr>fi_path = ?p, fi_max_commit_ts = full_ts\<rparr>], [])"
    using parse_named(1) [OF e(2), of full_ts] path_filename_join [OF names_no_slash(1), of d full_ts] e(3) t(2) by simp
  then have i: "\<lparr>fi_path = ?p, fi_max_commit_ts = full_ts\<rparr> \<in> set fulls" (is "?i \<in> _") using e(1) P(2) by force
  let ?zs = "filter (\<lambda>i. fi_max_commit_ts i \<le> T) (sort_key fi_max_commit_ts fulls)"
  have iz: "?i \<in> set ?zs" using i t(1) by simp
  then have ne: "?zs \<noteq> []" by (metis empty_iff list.set(1))
  have "sorted (map fi_max_commit_ts ?zs)" by (rule sorted_filter [OF sorted_sort_key])
  from sorted_last_max [OF this iz] have l: "full_ts \<le> fi_max_commit_ts (last ?zs)" by simp
  have lz: "last ?zs \<in> set ?zs" using ne by (rule last_in_set)
  then have lf: "last ?zs \<in> set fulls" "fi_max_commit_ts (last ?zs) \<le> T" by simp_all
  obtain e' where e': "e' \<in> set ?es" "fi_path (last ?zs) = de_path e'"
    "parse_checkpoint_entry e' = ([last ?zs], []) \<or> parse_checkpoint_entry e' = ([], [last ?zs])"
    by (rule listed_entry [of "last ?zs" ?es]) (use lf(1) P(2) in blast)+
  have "de_regular e'" using e'(3) by (auto simp: parse_checkpoint_entry_def Let_def split: if_splits)
  then have "fi_path (last ?zs) \<in> {p \<in> dom fs. in_directory d p}" unfolding se [symmetric] using e'(1,2) by simp
  then have "fs (fi_path (last ?zs)) \<noteq> None" by blast
  moreover have "\<exists>ds. ParseValidCheckpointFilenames d T (Some ?es) = Inr (Some (last ?zs, ds))"
    unfolding ParseValid_filters [OF P(1)] Let_def using ne by (simp only: if_False) blast
  ultimately show ?thesis using that l lf(2) by blast
qed

lemma split_behind:
  assumes "c \<notin> set xs" and "xs @ ys = as @ c # bs"
  obtains as' where "as = xs @ as'" "ys = as' @ c # bs"
proof -
  from assms(2) consider us where "xs = as @ us" "us @ ys = c # bs" | us where "xs @ us = as" "ys = us @ c # bs"
    by (auto simp: append_eq_append_conv2)
  then show ?thesis
  proof cases
    case 1
    then show ?thesis using assms(1) that [of "[]"] by (cases us) auto
  next
    case 2
    then show ?thesis using that [of us] by simp
  qed
qed

lemma crash_recovery:
  assumes inv: "wal_inv wm hist recycled" and ls: "lists_files ls"
    and q: "filter nonempty (map the (wm_wait_flush wm)) = xs @ ys" and t: "tail = [] \<or> torn_entry tail"
    and fs: "fs = append_file (wal_path (wm_wal_dir wm)) (file_of xs @ tail) (wm_files wm)"
    and size: "\<forall>bs \<in> ran fs. length bs < 2 ^ 63"
    and h: "hist @ xs = as @ c # bs" "checkpoint_of c = Some (WalCmdCheckpoint ts is_full path)" "\<forall>b \<in> set bs. no_checkpoint b"
    and r: "recycled \<le> scast ts" "scast ts < we_commit_ts c"
  obtains fs' es olds dropped where "ReplayWalFile_plan ls (wm_wal_dir wm) fs
      = Inr (Some \<lparr>rp_max_commit_ts = scast ts, rp_catalog_path = path, rp_checkpoint_commit_ts = we_commit_ts c,
                   rp_entries = map lentry (filter (\<lambda>e. we_commit_ts e > scast ts) as @ bs)\<rparr>, fs')"
    "\<forall>p. p \<noteq> wal_path (wm_wal_dir wm) \<longrightarrow> fs' p = fs p" "finite (dom fs')"
    "wal_log (wm_wal_dir wm) (open_app (wal_path (wm_wal_dir wm)) fs') es olds"
    "hist @ xs = dropped @ concat (rev (map snd olds)) @ es" "\<forall>e \<in> set dropped. we_commit_ts e \<le> recycled"
    "sorted_wrt (<) (map we_commit_ts (hist @ xs))"
proof -
  let ?d = "wm_wal_dir wm" and ?gt = "\<lambda>e. we_commit_ts e > scast ts"
  obtain es olds dropped queue where log: "wal_log ?d (wm_files wm) es olds"
    and hist: "hist = dropped @ concat (rev (map snd olds)) @ es" and dr: "\<forall>e \<in> set dropped. we_commit_ts e \<le> recycled"
    and qu: "wm_wait_flush wm = map Some queue" "list_all good_entry (es @ queue)"
    and s: "sorted_wrt (<) (map we_commit_ts (hist @ queue))" and o: "\<forall>(t, xs) \<in> set olds. t \<in> we_commit_ts ` set xs"
    using inv by (rule wal_invE)
  note w = wal_logD [OF log]
  have fq: "filter nonempty queue = xs @ ys" using q qu(1) by (simp add: comp_def)
  have xq: "set xs \<subseteq> set queue" using arg_cong [OF fq, of set] by auto
  then have v: "list_all valid_wal_entry xs" using qu(2) by (auto simp: list_all_iff good_entry_def)
  have "sorted_wrt (<) (map we_commit_ts (hist @ filter nonempty queue))"
    using s unfolding map_append sorted_wrt_append by (auto simp: sorted_wrt_map intro: sorted_wrt_filter)
  then have s1: "sorted_wrt (<) (map we_commit_ts (hist @ xs))" by (simp add: fq sorted_wrt_append)
  then have s2: "sorted_wrt (<) (map we_commit_ts (es @ xs))" unfolding hist by (simp add: sorted_wrt_append)
  have "t < we_commit_ts e" if tz: "(t, zs) \<in> set olds" and e: "e \<in> set xs" for t zs e
  proof -
    obtain x where x: "x \<in> set zs" "t = we_commit_ts x" using bspec [OF o tz] by auto
    then have "x \<in> set hist" unfolding hist using tz by force
    then show ?thesis using s1 e unfolding x(2) map_append sorted_wrt_append by simp
  qed
  then have o2: "\<forall>t \<in> fst ` set olds. \<forall>e \<in> set xs. t < we_commit_ts e" by auto
  let ?ps = "map (old_wal_path ?d) (map fst olds)"
  let ?fs = "snd (purged (wal_path ?d) ?ps (es @ xs) tail fs)"
  have "c \<notin> set dropped" using bspec [OF dr, of c] r by auto
  moreover have all: "dropped @ concat (rev (map snd olds)) @ es @ xs = as @ c # bs" using h(1) hist by simp
  ultimately obtain as' where as: "as = dropped @ as'" "concat (rev (map snd olds)) @ es @ xs = as' @ c # bs"
    by (rule split_behind)
  have f: "filter ?gt as = filter ?gt as'"
  proof -
    have "\<not> ?gt e" if "e \<in> set dropped" for e
      unfolding not_less by (rule order_trans [OF bspec [OF dr that] r(1)])
    then have "filter ?gt dropped = []" by (simp add: filter_empty_conv)
    then show ?thesis by (simp add: as(1))
  qed
  have sa: "sorted (map we_commit_ts as')" using s1 unfolding h(1) as(1) by (simp add: sorted_wrt_append strict_sorted_iff)
  have "we_commit_ts c \<noteq> 0" using r(2) by auto
  moreover have "concat (rev ((es @ xs) # map snd olds)) = as' @ c # bs" using as(2) by simp
  ultimately have sel: "ReplayWalFile_select (wal_path ?d # ?ps) fs
    = Inr (Some \<lparr>rp_max_commit_ts = scast ts, rp_catalog_path = path, rp_checkpoint_commit_ts = we_commit_ts c,
                 rp_entries = map lentry (filter ?gt as' @ bs)\<rparr>, ?fs)"
    using select_uncheckpointed [OF crash_log_state [OF log v t fs size] _ h(2) _ h(3) sa] by blast
  have "ReplayWalFile_plan ls ?d fs = Inr (Some \<lparr>rp_max_commit_ts = scast ts, rp_catalog_path = path,
      rp_checkpoint_commit_ts = we_commit_ts c, rp_entries = map lentry (filter ?gt as @ bs)\<rparr>, ?fs)"
    unfolding ReplayWalFile_plan_def fs crash_wal_list [OF log ls] res_bind_simps f
    using sel unfolding fs .
  moreover have "\<forall>p. p \<noteq> wal_path ?d \<longrightarrow> ?fs p = fs p" by (simp add: purged_def)
  moreover have "finite (dom fs)" using w(1) by (simp add: fs append_file_def)
  then have "finite (dom ?fs)" by (auto simp: purged_def)
  moreover have "hist @ xs = dropped @ concat (rev (map snd olds)) @ es @ xs" using hist by simp
  ultimately show ?thesis by (intro that [OF _ _ _ purged_log [OF log v s2 o2 fs] _ dr s1])
qed

lemma full_not_wal: "d @ ''/'' @ FullCheckpoingFilename t \<noteq> wal_path d'"
proof
  assume "d @ ''/'' @ FullCheckpoingFilename t = wal_path d'"
  then have "FullCheckpoingFilename t = TempWalFilename"
    using path_filename_join [OF names_no_slash(1), of d t] wal_paths(1) [of d'] by simp
  then show False by (simp add: FullCheckpoingFilename_def TempWalFilename_def WAL_FILE_PREFIX_def WAL_FILE_TEMP_FILE_def)
qed

lemma crash_replay:
  assumes "wal_run ls wm hist recycled" and "lists_files ls"
    and "filter nonempty (map the (wm_wait_flush wm)) = xs @ ys" and "tail = [] \<or> torn_entry tail"
    and "fs = append_file (wal_path (wm_wal_dir wm)) (file_of xs @ tail) (wm_files wm)" and "\<forall>bs \<in> ran fs. length bs < 2 ^ 63"
    and "hist @ xs = as @ c # bs" and "checkpoint_of c = Some (WalCmdCheckpoint ts is_full path)" and "\<forall>b \<in> set bs. no_checkpoint b"
    and "recycled \<le> scast ts" and "scast ts < we_commit_ts c"
    and "fs (parent_path path @ ''/'' @ FullCheckpoingFilename full_ts) \<noteq> None" and "full_ts \<le> scast ts" and "unat full_ts < 2 ^ 63"
  shows "\<exists>rec fs'. ReplayWalFile ls (wm_wal_dir wm) fs = Inr (Some rec, fs')
    \<and> rc_entries rec = map lentry (filter (\<lambda>e. scast ts < we_commit_ts e) as @ bs)
    \<and> rc_start_ts rec = we_commit_ts (last (c # filter (\<lambda>e. scast ts < we_commit_ts e) as @ bs))
    \<and> fs (fi_path (rc_full rec)) \<noteq> None \<and> full_ts \<le> fi_max_commit_ts (rc_full rec) \<and> fi_max_commit_ts (rc_full rec) \<le> scast ts
    \<and> (\<exists>es olds dropped. wal_log (wm_wal_dir wm) (open_app (wal_path (wm_wal_dir wm)) fs') es olds
         \<and> hist @ xs = dropped @ concat (rev (map snd olds)) @ es \<and> (\<forall>e \<in> set dropped. we_commit_ts e \<le> recycled))"
proof -
  let ?d = "wm_wal_dir wm" and ?es = "filter (\<lambda>e. scast ts < we_commit_ts e) as @ bs" and ?c = "parent_path path"
  obtain fs' es olds dropped where plan: "ReplayWalFile_plan ls ?d fs
      = Inr (Some \<lparr>rp_max_commit_ts = scast ts, rp_catalog_path = path, rp_checkpoint_commit_ts = we_commit_ts c,
                   rp_entries = map lentry ?es\<rparr>, fs')"
    and same: "\<forall>p. p \<noteq> wal_path ?d \<longrightarrow> fs' p = fs p" and fin: "finite (dom fs')"
    and log: "wal_log ?d (open_app (wal_path ?d) fs') es olds" "hist @ xs = dropped @ concat (rev (map snd olds)) @ es"
      "\<forall>e \<in> set dropped. we_commit_ts e \<le> recycled"
    and s: "sorted_wrt (<) (map we_commit_ts (hist @ xs))"
    by (rule crash_recovery [OF wal_run_inv [OF assms(1,2)] assms(2-11)])
  have "fs' (?c @ ''/'' @ FullCheckpoingFilename full_ts) \<noteq> None"
    using assms(12) same full_not_wal by simp
  from ParseValid_found [OF assms(2) fin this assms(13,14)] obtain full deltas
    where v: "ParseValidCheckpointFilenames ?c (scast ts) (Some (ls ?c fs')) = Inr (Some (full, deltas))"
      "full_ts \<le> fi_max_commit_ts full" "fi_max_commit_ts full \<le> scast ts" "fs' (fi_path full) \<noteq> None" .
  have "scast ts \<le> we_commit_ts e" if "e \<in> set (map lentry ?es)" for e
    using that s assms(11) unfolding assms(7) by (force simp: sorted_wrt_append)
  then obtain i where p3: "replay_phase3 (scast ts) (we_commit_ts c) 0 (map lentry ?es)
      = Inr (if map lentry ?es = [] then we_commit_ts c else we_commit_ts (last (map lentry ?es)), i)"
    using replay_phase3_ok [of "map lentry ?es" "scast ts" "we_commit_ts c" 0] by blast
  have l: "(if map lentry ?es = [] then we_commit_ts c else we_commit_ts (last (map lentry ?es))) = we_commit_ts (last (c # ?es))"
    by (cases "?es = []") (auto simp add: last_map simp del: map_append)
  have "fs (fi_path full) \<noteq> None" using v(4) same assms(5) by (cases "fi_path full = wal_path ?d") (auto simp: append_file_def)
  moreover define r where "r = \<lparr>rc_full = full, rc_deltas = deltas, rc_entries = map lentry ?es,
      rc_start_ts = we_commit_ts (last (c # ?es)), rc_txn_id = i\<rparr>"
  have "ReplayWalFile ls ?d fs = Inr (Some r, fs')"
    unfolding ReplayWalFile_def plan res_bind_simps case_prod_conv option.case Let_def replay_plan.simps v(1) p3 l r_def ..
  moreover have "rc_entries r = map lentry ?es" "rc_start_ts r = we_commit_ts (last (c # ?es))" "rc_full r = full"
    unfolding r_def by (rule recovery.select_convs)+
  moreover have "\<exists>es olds dropped. wal_log ?d (open_app (wal_path ?d) fs') es olds
      \<and> hist @ xs = dropped @ concat (rev (map snd olds)) @ es \<and> (\<forall>e \<in> set dropped. we_commit_ts e \<le> recycled)"
    using log by blast
  ultimately show ?thesis using v(2,3)
    by (intro exI [of _ r] exI [of _ fs'] conjI) (simp_all only: not_False_eq_True)
qed


text \<open>A listing in alphabetical order, and a manager that has just started on an empty log.\<close>

definition sorted_lister :: lister where
  "sorted_lister d fs = map (\<lambda>p. \<lparr>de_path = p, de_regular = True\<rparr>) (sorted_list_of_set {p \<in> dom fs. in_directory d p})"

lemma sorted_lister_lists: "lists_files sorted_lister"
proof -
  have "finite {p \<in> dom fs. in_directory d p}" if "finite (dom fs)" for d and fs :: files using that by simp
  then show ?thesis by (simp add: lists_files_def sorted_lister_def comp_def image_image filter_map)
qed

definition sample_catalog :: string where
  "sample_catalog = ''c'' @ ''/'' @ FullCheckpoingFilename 5"

definition sample_start :: "u64 \<Rightarrow> wal_manager" where
  "sample_start threshold = WalManager_Start ((WalManager_new ''w'' ''c'' threshold 100000 [sample_catalog \<mapsto> []])\<lparr>wm_max_commit_ts := 0\<rparr>)"

lemma sample_start_run: "wal_run ls (sample_start threshold) [] 0"
proof -
  have n: "sample_catalog \<noteq> wal_path ''w''" unfolding sample_catalog_def by (rule full_not_wal)
  have "in_directory ''c'' sample_catalog"
    unfolding sample_catalog_def in_directory_def using names_no_slash(1) by blast
  then have "\<not> in_directory ''w'' sample_catalog" using in_directory_unique [of "''c''" sample_catalog "''w''"] by auto
  then have "wal_log ''w'' (open_app (wal_path ''w'') [sample_catalog \<mapsto> []]) [] []"
    using n by (intro wal_logI) (auto simp: open_app_def file_of_def split: if_splits)
  from wal_run.start [OF this, of "''c''" 0 ls threshold 100000] show ?thesis by (simp add: sample_start_def)
qed

lemma sample_start_simps [simp]:
  "wm_wal_dir (sample_start threshold) = ''w''" "wm_catalog_dir (sample_start threshold) = ''c''"
  "wm_files (sample_start threshold) = [sample_catalog \<mapsto> [], wal_path ''w'' \<mapsto> []]"
  "wm_wait_flush (sample_start threshold) = []" "wm_running (sample_start threshold)"
  "wm_last_ckp_ts (sample_start threshold) = UNCOMMIT_TS" "wm_last_full_ckp_ts (sample_start threshold) = UNCOMMIT_TS"
  "wm_max_commit_ts (sample_start threshold) = 0" "wm_cfg_wal_size_threshold (sample_start threshold) = threshold"
  using full_not_wal [of "''c''" 5 "''w''"]
  by (auto simp: sample_start_def WalManager_Start_def WalManager_new_def open_app_def sample_catalog_def)

lemma good_sample_entry:
  "length path < 2 ^ 30 \<Longrightarrow> unat t < 2 ^ 63 \<Longrightarrow> good_entry (log_entry t (WalCmdCheckpoint ts is_full path))"
  "length path < 2 ^ 30 \<Longrightarrow> unat t < 2 ^ 63 \<Longrightarrow> good_entry (log_entry t (WalCmdDropDatabase path))"
  using valid_log_entry [of path t] by (simp_all add: good_entry_def valid_string_def log_entry_def)

lemma parent_path_join:
  assumes "CHR ''/'' \<notin> set name" and "d \<noteq> []" and "last d \<noteq> CHR ''/''"
  shows "parent_path (d @ ''/'' @ name) = d"
proof -
  obtain d' x where d: "d = d' @ [x]" "x \<noteq> CHR ''/''" using assms(2,3) by (cases d rule: rev_cases) auto
  have "rfind CHR ''/'' (d @ ''/'' @ name) = Some (length d)" using rfind_last [OF assms(1), of d] by simp
  then show ?thesis unfolding parent_path_def d(1) using d(2) by simp
qed

lemma sample_catalog_parent: "parent_path sample_catalog = ''c''"
  unfolding sample_catalog_def by (rule parent_path_join) (simp_all add: names_no_slash)

lemma sample_catalog_length: "length sample_catalog < 2 ^ 30"
  by (simp add: sample_catalog_def FullCheckpoingFilename_def nat_digits.simps)


section \<open>Checkpoints that leave no way back\<close>

text \<open>What a checkpoint leaves of the log: the closed files behind its time stamp.\<close>

lemma checkpoint_recycle_files:
  assumes log: "wal_log (wm_wal_dir wm) (wm_files wm) es olds" and cd: "wm_catalog_dir wm \<noteq> wm_wal_dir wm" and ls: "lists_files ls"
    and r: "checkpoint_recycle ls full T wm = Inr wm'"
  shows "wal_log (wm_wal_dir wm) (wm_files wm') es (filter (\<lambda>(t, xs). T < t) olds)"
    and "wm_last_ckp_ts wm' = T" and "wm_wal_dir wm' = wm_wal_dir wm"
proof -
  let ?d = "wm_wal_dir wm" and ?c = "wm_catalog_dir wm" and ?olds = "filter (\<lambda>(t, xs). T < t) olds"
  obtain paths where p: "RecycleWalFile T ?d (Some (ls ?d (wm_files wm))) = Inr paths"
    "set paths = old_wal_path ?d ` {t \<in> fst ` set olds. t \<le> T}"
    by (rule RecycleWalFile_log [OF ls log])
  define fs1 where "fs1 = (\<lambda>p. if p \<in> set paths then None else wm_files wm p)"
  have log1: "wal_log ?d fs1 es ?olds" unfolding fs1_def by (rule wal_log_recycle [OF log p(2)])
  define wm1 where "wm1 = wm\<lparr>wm_last_ckp_ts := T, wm_files := fs1\<rparr>"
  have w1: "delete_files paths (wm\<lparr>wm_last_ckp_ts := T\<rparr>) = wm1" by (simp add: delete_files_def wm1_def fs1_def cong: if_cong)
  obtain paths2 res where c: "RecycleCatalogFile T ?c (Some (ls ?c fs1)) = (paths2, res)" by fastforce
  have "wal_log ?d (wm_files wm') es ?olds \<and> wm_last_ckp_ts wm' = T \<and> wm_wal_dir wm' = ?d"
  proof (cases full)
    case False
    then have "wm' = wm1" using r p(1) w1 by (simp add: checkpoint_recycle_def Let_def)
    then show ?thesis using log1 by (simp add: wm1_def)
  next
    case True
    then have w: "wm' = delete_files paths2 (wm1\<lparr>wm_last_full_ckp_ts := T\<rparr>)"
      using r p(1) w1 c by (cases res) (auto simp: checkpoint_recycle_def Let_def wm1_def)
    have out: "q \<notin> set paths2" if "in_directory ?d q" for q
    proof
      assume "q \<in> set paths2"
      from RecycleCatalogFile_listed [OF c this] have "in_directory ?c q"
        using ls wal_logD(1) [OF log1] unfolding lists_files_def by blast
      with that cd show False using in_directory_unique by blast
    qed
    have "wal_log ?d (\<lambda>q. if q \<in> set paths2 then None else fs1 q) es ?olds"
      by (rule wal_log_other [OF log1]) (use out in \<open>auto intro: finite_subset [OF _ wal_logD(1) [OF log1]] split: if_splits\<close>)
    then show ?thesis unfolding w by (simp add: delete_files_def wm1_def cong: if_cong)
  qed
  then show "wal_log ?d (wm_files wm') es ?olds" "wm_last_ckp_ts wm' = T" "wm_wal_dir wm' = ?d" by simp_all
qed

text \<open>\<open>txn_checkpoint\<close> reported success, or an error that is only logged.\<close>

lemma CheckpointInner_files:
  assumes log: "wal_log (wm_wal_dir wm) (wm_files wm) es olds" and cd: "wm_catalog_dir wm \<noteq> wm_wal_dir wm" and ls: "lists_files ls"
    and k: "keeps_log (wm_wal_dir wm) txn_checkpoint"
    and t: "fst (txn_checkpoint (wm_files wm)) = Inr True \<or> fst (txn_checkpoint (wm_files wm)) = Inl (RecoverableError msg)"
    and due: "checkpoint_due full T wm = Inr True" and r: "CheckpointInner ls txn_checkpoint full T wal_size wm = Inr wm'"
  shows "wal_log (wm_wal_dir wm) (wm_files wm') es (filter (\<lambda>(t, xs). T < t) olds)" and "wm_last_ckp_ts wm' = T"
proof -
  obtain res fs where tc: "txn_checkpoint (wm_files wm) = (res, fs)" by fastforce
  have log1: "wal_log (wm_wal_dir wm) fs es olds"
    by (rule wal_log_other [OF log]) (use k tc wal_logD(1) [OF log] in \<open>force simp: keeps_log_def\<close>)+
  have "\<exists>wm0 wm1. wm_wal_dir wm0 = wm_wal_dir wm \<and> wm_catalog_dir wm0 = wm_catalog_dir wm \<and> wm_files wm0 = fs
      \<and> checkpoint_recycle ls full T wm0 = Inr wm1 \<and> wm' = wm1\<lparr>wm_checkpoint_in_progress := False\<rparr>"
  proof (cases "res = Inr True")
    case True
    let ?wm = "SetLastCkpWalSize wal_size (wm\<lparr>wm_files := fs\<rparr>)"
    have "CheckpointInner ls txn_checkpoint full T wal_size wm
        = res_bind (checkpoint_recycle ls full T ?wm) (\<lambda>wm. Inr (wm\<lparr>wm_checkpoint_in_progress := False\<rparr>))"
      unfolding CheckpointInner_def due tc True by simp
    with r show ?thesis by - (rule exI [of _ ?wm], auto simp: SetLastCkpWalSize_def res_bind_eq_Inr)
  next
    case False
    then have res: "res = Inl (RecoverableError msg)" using t tc by simp
    let ?wm = "wm\<lparr>wm_files := fs\<rparr>"
    have "CheckpointInner ls txn_checkpoint full T wal_size wm
        = res_bind (checkpoint_recycle ls full T ?wm) (\<lambda>wm. Inr (wm\<lparr>wm_checkpoint_in_progress := False\<rparr>))"
      unfolding CheckpointInner_def due tc res by simp
    with r show ?thesis by - (rule exI [of _ ?wm], auto simp: res_bind_eq_Inr)
  qed
  then obtain wm0 wm1 where w: "wm_wal_dir wm0 = wm_wal_dir wm" "wm_catalog_dir wm0 = wm_catalog_dir wm" "wm_files wm0 = fs"
    "checkpoint_recycle ls full T wm0 = Inr wm1" "wm' = wm1\<lparr>wm_checkpoint_in_progress := False\<rparr>" by blast
  have "wal_log (wm_wal_dir wm0) (wm_files wm0) es olds" "wm_catalog_dir wm0 \<noteq> wm_wal_dir wm0" using log1 cd w by simp_all
  from checkpoint_recycle_files [OF this ls w(4)] w(1,5)
  show "wal_log (wm_wal_dir wm) (wm_files wm') es (filter (\<lambda>(t, xs). T < t) olds)" "wm_last_ckp_ts wm' = T" by simp_all
qed

lemma no_checkpoint_left:
  assumes log: "wal_log d fs es olds" and ls: "lists_files ls" and size: "\<forall>bs \<in> ran fs. length bs < 2 ^ 63"
    and ne: "concat (es # map snd olds) \<noteq> []" and nc: "\<forall>e \<in> set (concat (es # map snd olds)). no_checkpoint e"
  shows "ReplayWalFile ls d fs = Inl (UnrecoverableError ''No checkpoint found in wal'')"
proof -
  have fs: "append_file (wal_path d) [] fs = fs"
    using wal_logD(2) [OF log] by (simp add: append_file_def fun_upd_idem)
  have "log_state fs (wal_path d) (map (old_wal_path d) (map fst olds)) es (map snd olds) []"
    using crash_log_state [OF log, of "[]" "[]" fs] size fs by (simp add: file_of_def)
  from select_no_checkpoint [OF this ne nc] crash_wal_list [OF log ls, of "[]"]
  have "ReplayWalFile_plan ls d fs = Inl (UnrecoverableError ''No checkpoint found in wal'')"
    unfolding fs ReplayWalFile_plan_def by (simp only: res_bind_simps)
  then show ?thesis unfolding ReplayWalFile_def by (simp only: res_bind_simps)
qed

text \<open>
  C10: A checkpoint can leave the server without a way to start.  It recycles the closed log files up to its time stamp
  before its own entry is handed to the log.  When all logged checkpoints are in these files and the files that are left
  hold other entries, a crash before the new entry is written leaves files that recovery refuses with
  \<^verbatim>\<open>No checkpoint found in wal\<close>.
\<close>

theorem crash_before_checkpoint_logged:
  assumes "wal_log (wm_wal_dir wm) (wm_files wm) es olds" and "wm_catalog_dir wm \<noteq> wm_wal_dir wm" and "lists_files ls"
    and "keeps_log (wm_wal_dir wm) txn_checkpoint" and "fst (txn_checkpoint (wm_files wm)) = Inr True"
    and "checkpoint_due full T wm = Inr True" and "CheckpointInner ls txn_checkpoint full T wal_size wm = Inr wm'"
    and "\<forall>bs \<in> ran (wm_files wm'). length bs < 2 ^ 63" and "concat (es # map snd (filter (\<lambda>(t, xs). T < t) olds)) \<noteq> []"
    and "\<forall>e \<in> set (concat (es # map snd (filter (\<lambda>(t, xs). T < t) olds))). no_checkpoint e"
  shows "ReplayWalFile ls (wm_wal_dir wm) (wm_files wm') = Inl (UnrecoverableError ''No checkpoint found in wal'')"
  by (rule no_checkpoint_left [OF CheckpointInner_files(1) [OF assms(1-4) disjI1 [OF assms(5)] assms(6,7)] assms(3,8-10)])

text \<open>
  C11: A checkpoint that fails still counts.  When writing the catalog ends with a recoverable error, the error is logged,
  but the closed log files up to the time stamp are deleted, and the cleanup is told that everything up to it has been
  saved.
\<close>

theorem failed_checkpoint_loses_log:
  assumes "wal_log (wm_wal_dir wm) (wm_files wm) es olds" and "wm_catalog_dir wm \<noteq> wm_wal_dir wm" and "lists_files ls"
    and "keeps_log (wm_wal_dir wm) txn_checkpoint" and "fst (txn_checkpoint (wm_files wm)) = Inl (RecoverableError msg)"
    and "checkpoint_due full T wm = Inr True" and "CheckpointInner ls txn_checkpoint full T wal_size wm = Inr wm'"
    and "T \<noteq> UNCOMMIT_TS" and "(t, xs) \<in> set olds" and "t \<le> T"
  shows "wm_files wm' (old_wal_path (wm_wal_dir wm) t) = None \<and> GetCheckpointedTS wm' = T + 1"
proof -
  note f = CheckpointInner_files [OF assms(1-4) disjI2 [OF assms(5)] assms(6,7)]
  have "wm_files wm' (old_wal_path (wm_wal_dir wm) t) = None"
  proof (rule ccontr)
    assume "wm_files wm' (old_wal_path (wm_wal_dir wm) t) \<noteq> None"
    from wal_logD(12) [OF f(1) wal_paths(4) this] obtain u ys where "T < u" "old_wal_path (wm_wal_dir wm) t = old_wal_path (wm_wal_dir wm) u"
      using wal_paths(5) [of "wm_wal_dir wm" t] by auto
    then show False using assms(10) by (simp add: wal_paths(6))
  qed
  then show ?thesis using f(2) assms(8) by (simp add: GetCheckpointedTS_def)
qed

text \<open>A log of two closed files and an empty current one; the only checkpoint is in the older file.\<close>

definition sample_files :: files where
  "sample_files = [wal_path ''w'' \<mapsto> [], old_wal_path ''w'' 9 \<mapsto> file_of [log_entry 9 (WalCmdDropDatabase ''x'')],
     old_wal_path ''w'' 7 \<mapsto> file_of [log_entry 7 (WalCmdCheckpoint 5 True ''c'')]]"

definition sample_wm :: wal_manager where
  "sample_wm = (WalManager_new ''w'' ''c'' 100000 100000 sample_files)\<lparr>wm_last_ckp_ts := 5\<rparr>"

lemma sample_wm_simps [simp]:
  "wm_wal_dir sample_wm = ''w''" "wm_catalog_dir sample_wm = ''c''" "wm_files sample_wm = sample_files" "wm_last_ckp_ts sample_wm = 5"
  by (simp_all add: sample_wm_def WalManager_new_def)

lemma sample_wm_log:
  "wal_log ''w'' sample_files [] [(9, [log_entry 9 (WalCmdDropDatabase ''x'')]), (7, [log_entry 7 (WalCmdCheckpoint 5 True ''c'')])]"
proof -
  have v: "valid_wal_entry (log_entry 9 (WalCmdDropDatabase ''x''))" "valid_wal_entry (log_entry 7 (WalCmdCheckpoint 5 True ''c''))"
    by (rule valid_log_entry; simp add: valid_string_def)+
  have p: "wal_path ''w'' \<noteq> old_wal_path ''w'' 7" "wal_path ''w'' \<noteq> old_wal_path ''w'' 9" "old_wal_path ''w'' 7 \<noteq> old_wal_path ''w'' 9"
    using wal_paths(5,6) by simp_all
  show ?thesis
    by (rule wal_logI) (use v p in \<open>auto simp: sample_files_def file_of_def log_entry_def split: if_splits\<close>)
qed


lemma sample_sizes: "bs \<in> ran sample_files \<Longrightarrow> length bs < 2 ^ 63"
proof -
  have v: "valid_wal_entry (log_entry 9 (WalCmdDropDatabase ''x''))" "valid_wal_entry (log_entry 7 (WalCmdCheckpoint 5 True ''c''))"
    by (rule valid_log_entry; simp add: valid_string_def)+
  show "bs \<in> ran sample_files \<Longrightarrow> length bs < 2 ^ 63"
    using length_wbytes [OF v(1)] length_wbytes [OF v(2)] by (auto simp: sample_files_def ran_def file_of_def split: if_splits)
qed

lemma sample_CheckpointInner:
  assumes k: "keeps_log ''w'' txn_checkpoint" and t: "txn_checkpoint sample_files = (res, fs)"
    and r: "res = Inr True \<or> res = Inl (RecoverableError msg)"
  obtains wm' where "CheckpointInner sorted_lister txn_checkpoint False 8 0 sample_wm = Inr wm'" "ran (wm_files wm') \<subseteq> ran fs"
proof -
  have "finite (dom sample_files)" by (rule wal_logD(1) [OF sample_wm_log])
  then have f: "finite (dom fs)" "\<And>p. in_directory ''w'' p \<Longrightarrow> fs p = sample_files p" using k t by (force simp: keeps_log_def)+
  obtain paths where p: "RecycleWalFile 8 ''w'' (Some (sorted_lister ''w'' fs)) = Inr paths"
    by (rule RecycleWalFile_log [OF sorted_lister_lists wal_log_other [OF sample_wm_log f(2,1)]])
  have "ran (\<lambda>q. if q \<in> set paths then None else fs q) \<subseteq> ran fs" by (auto simp: ran_def split: if_splits)
  then show ?thesis
    using r that p t by (elim disjE)
      (simp_all add: CheckpointInner_def checkpoint_due_def checkpoint_recycle_def Let_def SetLastCkpWalSize_def delete_files_def cong: if_cong)
qed

lemma sample_keeps_log:
  assumes "CHR ''/'' \<notin> set name"
  shows "keeps_log ''w'' (\<lambda>fs. (res, fs(''c'' @ ''/'' @ name \<mapsto> bs)))"
proof -
  have "in_directory ''c'' (''c'' @ ''/'' @ name)" unfolding in_directory_def using assms by blast
  then have "p \<noteq> ''c'' @ ''/'' @ name" if "in_directory ''w'' p" for p using in_directory_unique [of "''c''" p "''w''"] that by auto
  then show ?thesis by (simp add: keeps_log_def)
qed

theorem crash_before_checkpoint_logged_witness:
  "\<exists>wm'. CheckpointInner sorted_lister (\<lambda>fs. (Inr True, fs(''c'' @ ''/'' @ DeltaCheckpointFilename 8 \<mapsto> []))) False 8 0 sample_wm = Inr wm'
     \<and> ReplayWalFile sorted_lister ''w'' (wm_files wm') = Inl (UnrecoverableError ''No checkpoint found in wal'')"
proof -
  let ?txn = "\<lambda>fs :: files. (Inr True :: bool res, fs(''c'' @ ''/'' @ DeltaCheckpointFilename 8 \<mapsto> []))"
  have k: "keeps_log ''w'' ?txn" by (rule sample_keeps_log [OF names_no_slash(3)])
  obtain wm' where r: "CheckpointInner sorted_lister ?txn False 8 0 sample_wm = Inr wm'"
    "ran (wm_files wm') \<subseteq> ran (sample_files(''c'' @ ''/'' @ DeltaCheckpointFilename 8 \<mapsto> []))"
    by (rule sample_CheckpointInner [OF k refl disjI1 [OF refl]])
  have "length bs < 2 ^ 63" if "bs \<in> ran (wm_files wm')" for bs
  proof -
    have "bs = [] \<or> bs \<in> ran sample_files" using that r(2) by (auto simp: ran_def split: if_splits)
    then show ?thesis using sample_sizes by auto
  qed
  then have "\<forall>bs \<in> ran (wm_files wm'). length bs < 2 ^ 63" by blast
  then have "ReplayWalFile sorted_lister (wm_wal_dir sample_wm) (wm_files wm') = Inl (UnrecoverableError ''No checkpoint found in wal'')"
    using sample_wm_log sorted_lister_lists k
    by (intro crash_before_checkpoint_logged [OF _ _ _ _ _ _ r(1), where es = "[]"
          and olds = "[(9, [log_entry 9 (WalCmdDropDatabase ''x'')]), (7, [log_entry 7 (WalCmdCheckpoint 5 True ''c'')])]"])
      (simp_all add: checkpoint_due_def log_entry_def IsCheckPoint_def)
  with r(1) show ?thesis by auto
qed

theorem failed_checkpoint_loses_log_witness:
  "\<exists>wm'. sample_files (old_wal_path ''w'' 7) \<noteq> None
     \<and> CheckpointInner sorted_lister (\<lambda>fs. (Inl (RecoverableError ''disk full''), fs(''c'' @ ''/'' @ DeltaCheckpointFilename 8 \<mapsto> []))) False 8 0 sample_wm = Inr wm'
     \<and> wm_files wm' (old_wal_path ''w'' 7) = None \<and> GetCheckpointedTS wm' = 9"
proof -
  let ?txn = "\<lambda>fs :: files. (Inl (RecoverableError ''disk full'') :: bool res, fs(''c'' @ ''/'' @ DeltaCheckpointFilename 8 \<mapsto> []))"
  have k: "keeps_log ''w'' ?txn" by (rule sample_keeps_log [OF names_no_slash(3)])
  obtain wm' where r: "CheckpointInner sorted_lister ?txn False 8 0 sample_wm = Inr wm'"
    by (rule sample_CheckpointInner [OF k refl disjI2 [OF refl]])
  have "wm_files wm' (old_wal_path (wm_wal_dir sample_wm) 7) = None \<and> GetCheckpointedTS wm' = 8 + 1"
    using sample_wm_log sorted_lister_lists k
    by (intro failed_checkpoint_loses_log [OF _ _ _ _ _ _ r, where msg = "''disk full''" and es = "[]"
          and olds = "[(9, [log_entry 9 (WalCmdDropDatabase ''x'')]), (7, [log_entry 7 (WalCmdCheckpoint 5 True ''c'')])]"
          and xs = "[log_entry 7 (WalCmdCheckpoint 5 True ''c'')]"])
      (simp_all add: checkpoint_due_def UNCOMMIT_TS_def)
  with r show ?thesis by (auto simp: sample_files_def)
qed

end
