(* ===== verification/Catalog_Delta_Op.thy ===== *)
theory Catalog_Delta_Op
  imports Wal_Manager
begin

text \<open>
  The operations of a catalog delta, \<^verbatim>\<open>src/storage/wal/catalog_delta_entry.cpp\<close>: what a transaction has changed in
  the catalog, one operation for every entry.  An operation names its entry by an encoded path, made by the classes
  under \<^verbatim>\<open>src/storage/meta/entry/\<close>.  Modelled are the paths, the creation, comparison, binary form and merging of
  operations; the pointers to entries that some operations carry to flush data are left out.
\<close>

section \<open>Paths of entries\<close>

text \<open>
  \<^verbatim>\<open>EncodeIndex\<close>: a database is \<^verbatim>\<open>#name\<close>, every other entry its parent followed by \<^verbatim>\<open>#\<close> and its name or number.  Four of
  the functions give the empty string for a null pointer instead of a parent, which only unit tests pass.
\<close>

definition DBEntry_EncodeIndex :: "string \<Rightarrow> string" where
  "DBEntry_EncodeIndex db_name = ''#'' @ db_name"

definition TableEntry_EncodeIndex :: "string \<Rightarrow> string option \<Rightarrow> string" where
  "TableEntry_EncodeIndex table_name parent =
     (case parent of None \<Rightarrow> [] | Some db_encode \<Rightarrow> db_encode @ ''#'' @ table_name)"

definition SegmentEntry_EncodeIndex :: "u32 \<Rightarrow> string option \<Rightarrow> string" where
  "SegmentEntry_EncodeIndex segment_id parent =
     (case parent of None \<Rightarrow> [] | Some table_encode \<Rightarrow> table_encode @ ''#'' @ nat_digits (unat segment_id))"

definition BlockEntry_EncodeIndex :: "u16 \<Rightarrow> string \<Rightarrow> string" where
  "BlockEntry_EncodeIndex block_id segment_encode = segment_encode @ ''#'' @ nat_digits (unat block_id)"

definition BlockColumnEntry_EncodeIndex :: "u64 \<Rightarrow> string \<Rightarrow> string" where
  "BlockColumnEntry_EncodeIndex column_id block_encode = block_encode @ ''#'' @ nat_digits (unat column_id)"

definition TableIndexEntry_EncodeIndex :: "string \<Rightarrow> string option \<Rightarrow> string" where
  "TableIndexEntry_EncodeIndex index_name parent =
     (case parent of None \<Rightarrow> [] | Some table_encode \<Rightarrow> table_encode @ ''#'' @ index_name)"

definition SegmentIndexEntry_EncodeIndex :: "u32 \<Rightarrow> string option \<Rightarrow> string" where
  "SegmentIndexEntry_EncodeIndex segment_id parent =
     (case parent of None \<Rightarrow> [] | Some index_encode \<Rightarrow> index_encode @ ''#'' @ nat_digits (unat segment_id))"

definition ChunkIndexEntry_EncodeIndex :: "u32 \<Rightarrow> string \<Rightarrow> string" where
  "ChunkIndexEntry_EncodeIndex chunk_id segment_index_encode = segment_index_encode @ ''#'' @ nat_digits (unat chunk_id)"

definition DBEntry_DecodeIndex :: "string \<Rightarrow> string list res" where
  "DBEntry_DecodeIndex encode =
     (if encode = [] \<or> hd encode \<noteq> CHR ''#'' then Inl (UnrecoverableError (''Invalid db entry encode: '' @ encode))
      else Inr [tl encode])"

text \<open>The other forms differ in the message and in the form of the parent.\<close>

definition decode_last :: "string \<Rightarrow> (string \<Rightarrow> string list res) \<Rightarrow> string \<Rightarrow> string list res" where
  "decode_last msg parent encode =
     (case rfind CHR ''#'' encode of
        None \<Rightarrow> Inl (UnrecoverableError (msg @ encode))
      | Some delimiter_i \<Rightarrow>
          res_bind (parent (take delimiter_i encode)) (\<lambda>decodes. Inr (decodes @ [drop (delimiter_i + 1) encode])))"

definition TableEntry_DecodeIndex :: "string \<Rightarrow> string list res" where
  "TableEntry_DecodeIndex = decode_last ''Invalid table entry encode: '' DBEntry_DecodeIndex"

definition SegmentEntry_DecodeIndex :: "string \<Rightarrow> string list res" where
  "SegmentEntry_DecodeIndex = decode_last ''Invalid segment entry encode: '' TableEntry_DecodeIndex"

definition BlockEntry_DecodeIndex :: "string \<Rightarrow> string list res" where
  "BlockEntry_DecodeIndex = decode_last ''Invalid block entry encode: '' SegmentEntry_DecodeIndex"

definition BlockColumnEntry_DecodeIndex :: "string \<Rightarrow> string list res" where
  "BlockColumnEntry_DecodeIndex = decode_last ''Invalid block column entry encode: '' BlockEntry_DecodeIndex"

definition TableIndexEntry_DecodeIndex :: "string \<Rightarrow> string list res" where
  "TableIndexEntry_DecodeIndex = decode_last ''Invalid table index entry encode: '' TableEntry_DecodeIndex"

definition SegmentIndexEntry_DecodeIndex :: "string \<Rightarrow> string list res" where
  "SegmentIndexEntry_DecodeIndex = decode_last ''Invalid segment index entry encode: '' TableIndexEntry_DecodeIndex"

definition ChunkIndexEntry_DecodeIndex :: "string \<Rightarrow> string list res" where
  "ChunkIndexEntry_DecodeIndex = decode_last ''Invalid chunk index entry encode: '' SegmentIndexEntry_DecodeIndex"

section \<open>Operations\<close>

datatype delta_op_type =
    DT_INVALID | ADD_DATABASE_ENTRY | ADD_TABLE_ENTRY | ADD_SEGMENT_ENTRY | ADD_BLOCK_ENTRY | ADD_COLUMN_ENTRY
  | ADD_TABLE_INDEX_ENTRY | ADD_SEGMENT_INDEX_ENTRY | ADD_CHUNK_INDEX_ENTRY
  | DT_SET_SEGMENT_STATUS_SEALED | DT_SET_BLOCK_STATUS_SEALED

fun CatalogDeltaOpType_num :: "delta_op_type \<Rightarrow> i8" where
  "CatalogDeltaOpType_num DT_INVALID = 0"
| "CatalogDeltaOpType_num ADD_DATABASE_ENTRY = 1"
| "CatalogDeltaOpType_num ADD_TABLE_ENTRY = 2"
| "CatalogDeltaOpType_num ADD_SEGMENT_ENTRY = 3"
| "CatalogDeltaOpType_num ADD_BLOCK_ENTRY = 4"
| "CatalogDeltaOpType_num ADD_COLUMN_ENTRY = 5"
| "CatalogDeltaOpType_num ADD_TABLE_INDEX_ENTRY = 11"
| "CatalogDeltaOpType_num ADD_SEGMENT_INDEX_ENTRY = 12"
| "CatalogDeltaOpType_num ADD_CHUNK_INDEX_ENTRY = 13"
| "CatalogDeltaOpType_num DT_SET_SEGMENT_STATUS_SEALED = 21"
| "CatalogDeltaOpType_num DT_SET_BLOCK_STATUS_SEALED = 22"

datatype merge_flag = MF_kInvalid | MF_kDelete | MF_kNew | MF_kUpdate | MF_kDeleteAndNew

definition MergeFlag_of_num :: "nat \<Rightarrow> merge_flag option" where
  "MergeFlag_of_num = enum_of_num [MF_kInvalid, MF_kDelete, MF_kNew, MF_kUpdate, MF_kDeleteAndNew]"

fun MergeFlag_num :: "merge_flag \<Rightarrow> nat" where
  "MergeFlag_num MF_kInvalid = 0"
| "MergeFlag_num MF_kDelete = 1"
| "MergeFlag_num MF_kNew = 2"
| "MergeFlag_num MF_kUpdate = 3"
| "MergeFlag_num MF_kDeleteAndNew = 4"

datatype prune_flag = PF_kInvalid | PF_kPrune | PF_kPruneSub | PF_kKeep

datatype segment_status = SS_kUnsealed | SS_kSealed | SS_kCompacting | SS_kNoDelete | SS_kDeprecated

definition SegmentStatus_of_num :: "nat \<Rightarrow> segment_status option" where
  "SegmentStatus_of_num = enum_of_num [SS_kUnsealed, SS_kSealed, SS_kCompacting, SS_kNoDelete, SS_kDeprecated]"

fun SegmentStatus_num :: "segment_status \<Rightarrow> nat" where
  "SegmentStatus_num SS_kUnsealed = 0"
| "SegmentStatus_num SS_kSealed = 1"
| "SegmentStatus_num SS_kCompacting = 2"
| "SegmentStatus_num SS_kNoDelete = 3"
| "SegmentStatus_num SS_kDeprecated = 4"

record segment_op =
  so_status :: segment_status
  so_column_count :: u64
  so_row_count :: u64
  so_actual_row_count :: u64
  so_row_capacity :: u64
  so_min_row_ts :: u64
  so_max_row_ts :: u64
  so_first_delete_ts :: u64
  so_deprecate_ts :: u64
  so_segment_filter_binary_data :: string

record block_op =
  bo_row_capacity :: u16
  bo_row_count :: u16
  bo_min_row_ts :: u64
  bo_max_row_ts :: u64
  bo_checkpoint_ts :: u64
  bo_checkpoint_row_count :: u16
  bo_block_filter_binary_data :: string

text \<open>
  The members of the derived classes.  \<^verbatim>\<open>table_entry_type_\<close> keeps its default and is left out; the directory and
  the definition of an index are null pointers after an operation that deletes it has been read.
\<close>

datatype delta_body =
    AddDBEntryOp string
  | AddTableEntryOp string "column_def list" u64 u32 u32
  | AddSegmentEntryOp segment_op
  | AddBlockEntryOp block_op
  | AddColumnEntryOp outline_info
  | AddTableIndexEntryOp "string option" "index_base option"
  | AddSegmentIndexEntryOp u64 u64 u32
  | AddChunkIndexEntryOp string u64 u32 u64

record delta_op =
  op_begin_ts :: u64
  op_txn_id :: u64
  op_commit_ts :: u64
  op_merge_flag :: merge_flag
  op_encode :: string
  op_body :: delta_body

fun body_type :: "delta_body \<Rightarrow> delta_op_type" where
  "body_type (AddDBEntryOp _) = ADD_DATABASE_ENTRY"
| "body_type (AddTableEntryOp _ _ _ _ _) = ADD_TABLE_ENTRY"
| "body_type (AddSegmentEntryOp _) = ADD_SEGMENT_ENTRY"
| "body_type (AddBlockEntryOp _) = ADD_BLOCK_ENTRY"
| "body_type (AddColumnEntryOp _) = ADD_COLUMN_ENTRY"
| "body_type (AddTableIndexEntryOp _ _) = ADD_TABLE_INDEX_ENTRY"
| "body_type (AddSegmentIndexEntryOp _ _ _) = ADD_SEGMENT_INDEX_ENTRY"
| "body_type (AddChunkIndexEntryOp _ _ _ _) = ADD_CHUNK_INDEX_ENTRY"

abbreviation op_type :: "delta_op \<Rightarrow> delta_op_type" where
  "op_type op \<equiv> body_type (op_body op)"

fun GetTypeStr :: "delta_op_type \<Rightarrow> string" where
  "GetTypeStr ADD_DATABASE_ENTRY = ''ADD_DATABASE_ENTRY''"
| "GetTypeStr ADD_TABLE_ENTRY = ''ADD_TABLE_ENTRY''"
| "GetTypeStr ADD_SEGMENT_ENTRY = ''ADD_SEGMENT_ENTRY''"
| "GetTypeStr ADD_BLOCK_ENTRY = ''ADD_BLOCK_ENTRY''"
| "GetTypeStr ADD_COLUMN_ENTRY = ''ADD_COLUMN_ENTRY''"
| "GetTypeStr ADD_TABLE_INDEX_ENTRY = ''ADD_TABLE_INDEX_ENTRY''"
| "GetTypeStr ADD_SEGMENT_INDEX_ENTRY = ''ADD_SEGMENT_INDEX_ENTRY''"
| "GetTypeStr ADD_CHUNK_INDEX_ENTRY = ''ADD_CHUNK_INDEX_ENTRY''"
| "GetTypeStr _ = []"

text \<open>The constructor: what happened to the entry follows from its own commit time stamp.\<close>

record base_entry =
  be_txn_id :: u64
  be_begin_ts :: u64
  be_commit_ts :: u64
  be_deleted :: bool
  be_encode :: string

definition CatalogDeltaOperation_new :: "delta_body \<Rightarrow> base_entry \<Rightarrow> u64 \<Rightarrow> delta_op res" where
  "CatalogDeltaOperation_new body be commit_ts =
     (let op = (\<lambda>flag. \<lparr>op_begin_ts = be_begin_ts be, op_txn_id = be_txn_id be, op_commit_ts = be_commit_ts be,
                       op_merge_flag = flag, op_encode = be_encode be, op_body = body\<rparr>)
      in if be_deleted be then Inr (op MF_kDelete)
         else if commit_ts = be_commit_ts be then Inr (op MF_kNew)
         else if be_commit_ts be = UNCOMMIT_TS then Inl (UnrecoverableError ''Entry not committed.'')
         else if commit_ts < be_commit_ts be
         then Inl (UnrecoverableError (''Invalid commit_ts: '' @ nat_digits (unat commit_ts) @ '' < ''
                @ nat_digits (unat (be_commit_ts be))))
         else Inr (op MF_kUpdate))"

section \<open>Sizes\<close>

definition GetBaseSizeInBytes :: "delta_op \<Rightarrow> u64" where
  "GetBaseSizeInBytes op = 8 + 1 + 8 + 8 + (4 + word_of_nat (length (op_encode op)))"

text \<open>
  Some sizes are summed up in an \<^verbatim>\<open>int\<close>, which \<^verbatim>\<open>auto total_size = 0\<close> declares, before they become a \<^verbatim>\<open>SizeT\<close>.
\<close>

definition delta_column_size :: "column_def \<Rightarrow> i32 res" where
  "delta_column_size cd =
     sz_sum [Inr 8, DataType_GetSizeInBytes (cd_column_type cd), Inr (4 + word_of_nat (length (cd_name cd))),
       Inr 4, Inr (word_of_nat (length (cd_constraints cd)) * 1), Inr (ConstantExpr_GetSizeInBytes (cd_default_expr cd))]"

definition CatalogDeltaOperation_GetSizeInBytes :: "delta_op \<Rightarrow> u64 res" where
  "CatalogDeltaOperation_GetSizeInBytes op =
     (let base = GetBaseSizeInBytes op
      in case op_body op of
           AddDBEntryOp db_entry_dir \<Rightarrow> Inr (1 + base + (4 + word_of_nat (length db_entry_dir)))
         | AddTableEntryOp table_entry_dir column_defs _ _ _ \<Rightarrow>
             res_bind (sz_sum ([Inr (ucast (1 + base)), Inr (4 + word_of_nat (length table_entry_dir)), Inr 4]
                               @ map delta_column_size column_defs @ [Inr 8, Inr (4 * 2)])) (\<lambda>total_size :: i32.
               Inr (scast total_size))
         | AddSegmentEntryOp s \<Rightarrow>
             Inr (scast (ucast (1 + base) + 1 + 8 + 8 + 8 + 8 + 8 * 4
                         + (4 + word_of_nat (length (so_segment_filter_binary_data s))) :: i32))
         | AddBlockEntryOp b \<Rightarrow>
             Inr (1 + base + (2 + 2 + 8 * 2) + (8 + 2) + (4 + word_of_nat (length (bo_block_filter_binary_data b))))
         | AddColumnEntryOp outline_infos \<Rightarrow> Inr (1 + base + (4 + word_of_nat (length outline_infos) * (4 + 8)))
         | AddTableIndexEntryOp index_dir index_base \<Rightarrow>
             if op_merge_flag op \<noteq> MF_kDelete then
               (case (index_dir, index_base) of
                  (Some dir, Some ib) \<Rightarrow>
                    res_bind (Index_GetSizeInBytes ib) (\<lambda>ib_size. Inr (1 + base + (4 + word_of_nat (length dir)) + scast ib_size))
                | _ \<Rightarrow> Inl UndefinedBehaviour)
             else Inr (1 + base)
         | AddSegmentIndexEntryOp _ _ _ \<Rightarrow> Inr (1 + base + (8 + 8) + 4)
         | AddChunkIndexEntryOp base_name _ _ _ \<Rightarrow> Inr (1 + base + (4 + word_of_nat (length base_name)) + 8 + 4 + 8))"

section \<open>Writing\<close>

definition WriteAdvBase :: "delta_op \<Rightarrow> byte list" where
  "WriteAdvBase op =
     WriteBufAdv (op_begin_ts op) @ WriteBufAdv (word_of_nat (MergeFlag_num (op_merge_flag op)) :: u8)
     @ WriteBufAdv (op_txn_id op) @ WriteBufAdv (op_commit_ts op) @ WriteBufAdv_string (op_encode op)"

definition delta_column_write :: "column_def \<Rightarrow> byte list res" where
  "delta_column_write cd =
     wr_concat [Inr (WriteBufAdv (cd_id cd)), DataType_WriteAdv (cd_column_type cd),
       Inr (WriteBufAdv_string (cd_name cd)),
       Inr (WriteBufAdv (word_of_nat (length (cd_constraints cd)) :: i32)),
       Inr (concat (map ConstraintType_bytes (cd_constraints cd))),
       Inr (ConstantExpr_WriteAdv (cd_default_expr cd))]"

fun body_write :: "merge_flag \<Rightarrow> delta_body \<Rightarrow> byte list res" where
  "body_write flag (AddDBEntryOp db_entry_dir) = Inr (WriteBufAdv_string db_entry_dir)"
| "body_write flag (AddTableEntryOp table_entry_dir column_defs row_count unsealed_id next_segment_id) =
     wr_concat ([Inr (WriteBufAdv_string table_entry_dir), Inr (WriteBufAdv (word_of_nat (length column_defs) :: i32))]
       @ map delta_column_write column_defs
       @ [Inr (WriteBufAdv row_count), Inr (WriteBufAdv unsealed_id), Inr (WriteBufAdv next_segment_id)])"
| "body_write flag (AddSegmentEntryOp s) =
     Inr (WriteBufAdv (word_of_nat (SegmentStatus_num (so_status s)) :: u8) @ WriteBufAdv (so_column_count s)
          @ WriteBufAdv (so_row_count s) @ WriteBufAdv (so_actual_row_count s) @ WriteBufAdv (so_row_capacity s)
          @ WriteBufAdv (so_min_row_ts s) @ WriteBufAdv (so_max_row_ts s) @ WriteBufAdv (so_first_delete_ts s)
          @ WriteBufAdv (so_deprecate_ts s) @ WriteBufAdv_string (so_segment_filter_binary_data s))"
| "body_write flag (AddBlockEntryOp b) =
     Inr (WriteBufAdv (bo_row_count b) @ WriteBufAdv (bo_row_capacity b) @ WriteBufAdv (bo_min_row_ts b)
          @ WriteBufAdv (bo_max_row_ts b) @ WriteBufAdv (bo_checkpoint_ts b) @ WriteBufAdv (bo_checkpoint_row_count b)
          @ WriteBufAdv_string (bo_block_filter_binary_data b))"
| "body_write flag (AddColumnEntryOp outline_infos) =
     Inr (WriteBufAdv (word_of_nat (length outline_infos) :: u32)
          @ concat (map (\<lambda>(idx, off). WriteBufAdv idx @ WriteBufAdv off) outline_infos))"
| "body_write flag (AddTableIndexEntryOp index_dir index_base) =
     (if flag \<noteq> MF_kDelete then
        (case (index_dir, index_base) of
           (Some dir, Some ib) \<Rightarrow> wr_cat (Inr (WriteBufAdv_string dir)) (Index_WriteAdv ib)
         | _ \<Rightarrow> Inl UndefinedBehaviour)
      else Inr [])"
| "body_write flag (AddSegmentIndexEntryOp min_ts max_ts next_chunk_id) =
     Inr (WriteBufAdv min_ts @ WriteBufAdv max_ts @ WriteBufAdv next_chunk_id)"
| "body_write flag (AddChunkIndexEntryOp base_name base_rowid row_count deprecate_ts) =
     Inr (WriteBufAdv_string base_name @ WriteBufAdv base_rowid @ WriteBufAdv row_count @ WriteBufAdv deprecate_ts)"

definition CatalogDeltaOperation_WriteAdv :: "delta_op \<Rightarrow> byte list res" where
  "CatalogDeltaOperation_WriteAdv op =
     wr_cat (Inr (WriteBufAdv (CatalogDeltaOpType_num (op_type op)) @ WriteAdvBase op))
       (body_write (op_merge_flag op) (op_body op))"

section \<open>Reading\<close>

text \<open>
  \<^verbatim>\<open>SizeT max_bytes = ptr_end - ptr\<close> is compared with zero as an unsigned number; where it is handed on as an
  \<^verbatim>\<open>int32_t\<close> it is unchanged, \<^verbatim>\<open>ptr_end\<close> being an \<^verbatim>\<open>i32\<close> ahead of where the operation starts.
\<close>

definition delta_column_read :: "int \<Rightarrow> nat \<Rightarrow> column_def reader" where
  "delta_column_read max_bytes start =
     rd_bind ReadBufAdv (\<lambda>column_id :: i64.
     rd_bind rd_left (\<lambda>now.
     if ptr_room max_bytes start now = 0
     then rd_fail (UnrecoverableError ''ptr goes out of range when reading TableDef'')
     else rd_bind (DataType_ReadAdv (ptr_room max_bytes start now)) (\<lambda>column_type.
     rd_bind ReadBufAdv_string (\<lambda>column_name.
     rd_bind ReadBufAdv (\<lambda>constraints_size :: i32.
     rd_bind (rd_times (nat (sint constraints_size)) (rd_enum TYPE(8 word) ConstraintType_of_num)) (\<lambda>cts.
     rd_bind (ConstantExpr_ReadAdv (ptr_room max_bytes start now)) (\<lambda>default_expr.
     rd_return
       (ColumnDef_new column_id column_type column_name (foldl (\<lambda>s c. insort_insert c s) [] cts) (Some default_expr)))))))))"

definition body_read :: "int \<Rightarrow> nat \<Rightarrow> merge_flag \<Rightarrow> delta_op_type \<Rightarrow> delta_body reader" where
  "body_read max_bytes start flag t =
     (case t of
        ADD_DATABASE_ENTRY \<Rightarrow> rd_bind ReadBufAdv_string (\<lambda>db_entry_dir. rd_return (AddDBEntryOp db_entry_dir))
      | ADD_TABLE_ENTRY \<Rightarrow>
          rd_bind ReadBufAdv_string (\<lambda>table_entry_dir.
          rd_bind ReadBufAdv (\<lambda>columns_size :: i32.
          rd_bind (rd_times (nat (sint columns_size)) (delta_column_read max_bytes start)) (\<lambda>columns.
          rd_bind ReadBufAdv (\<lambda>row_count.
          rd_bind ReadBufAdv (\<lambda>unsealed_id.
          rd_bind ReadBufAdv (\<lambda>next_segment_id.
            rd_return (AddTableEntryOp table_entry_dir columns row_count unsealed_id next_segment_id)))))))
      | ADD_SEGMENT_ENTRY \<Rightarrow>
          rd_bind (rd_enum TYPE(8 word) SegmentStatus_of_num) (\<lambda>status.
          rd_bind ReadBufAdv (\<lambda>column_count.
          rd_bind ReadBufAdv (\<lambda>row_count.
          rd_bind ReadBufAdv (\<lambda>actual_row_count.
          rd_bind ReadBufAdv (\<lambda>row_capacity.
          rd_bind ReadBufAdv (\<lambda>min_row_ts.
          rd_bind ReadBufAdv (\<lambda>max_row_ts.
          rd_bind ReadBufAdv (\<lambda>first_delete_ts.
          rd_bind ReadBufAdv (\<lambda>deprecate_ts.
          rd_bind ReadBufAdv_string (\<lambda>filter_data.
            rd_return (AddSegmentEntryOp \<lparr>so_status = status, so_column_count = column_count, so_row_count = row_count,
              so_actual_row_count = actual_row_count, so_row_capacity = row_capacity, so_min_row_ts = min_row_ts,
              so_max_row_ts = max_row_ts, so_first_delete_ts = first_delete_ts, so_deprecate_ts = deprecate_ts,
              so_segment_filter_binary_data = filter_data\<rparr>)))))))))))
      | ADD_BLOCK_ENTRY \<Rightarrow>
          rd_bind ReadBufAdv (\<lambda>row_count.
          rd_bind ReadBufAdv (\<lambda>row_capacity.
          rd_bind ReadBufAdv (\<lambda>min_row_ts.
          rd_bind ReadBufAdv (\<lambda>max_row_ts.
          rd_bind ReadBufAdv (\<lambda>checkpoint_ts.
          rd_bind ReadBufAdv (\<lambda>checkpoint_row_count.
          rd_bind ReadBufAdv_string (\<lambda>filter_data.
            rd_return (AddBlockEntryOp \<lparr>bo_row_capacity = row_capacity, bo_row_count = row_count, bo_min_row_ts = min_row_ts,
              bo_max_row_ts = max_row_ts, bo_checkpoint_ts = checkpoint_ts, bo_checkpoint_row_count = checkpoint_row_count,
              bo_block_filter_binary_data = filter_data\<rparr>))))))))
      | ADD_COLUMN_ENTRY \<Rightarrow>
          rd_bind ReadBufAdv (\<lambda>outline_infos_size :: u32.
          rd_bind (rd_times (unat outline_infos_size)
            (rd_bind ReadBufAdv (\<lambda>outline_buffer_count :: u32.
             rd_bind ReadBufAdv (\<lambda>last_chunk_offset :: u64.
               rd_return (outline_buffer_count, last_chunk_offset))))) (\<lambda>outline_infos.
            rd_return (AddColumnEntryOp outline_infos)))
      | ADD_TABLE_INDEX_ENTRY \<Rightarrow>
          if flag \<noteq> MF_kDelete then
            rd_bind ReadBufAdv_string (\<lambda>index_dir.
            rd_bind rd_left (\<lambda>now.
            rd_bind (IndexBase_ReadAdv (ptr_room max_bytes start now)) (\<lambda>index_base.
              rd_return (AddTableIndexEntryOp (Some index_dir) (Some index_base)))))
          else rd_return (AddTableIndexEntryOp None None)
      | ADD_SEGMENT_INDEX_ENTRY \<Rightarrow>
          rd_bind ReadBufAdv (\<lambda>min_ts.
          rd_bind ReadBufAdv (\<lambda>max_ts.
          rd_bind ReadBufAdv (\<lambda>next_chunk_id. rd_return (AddSegmentIndexEntryOp min_ts max_ts next_chunk_id))))
      | ADD_CHUNK_INDEX_ENTRY \<Rightarrow>
          rd_bind ReadBufAdv_string (\<lambda>base_name.
          rd_bind ReadBufAdv (\<lambda>base_rowid.
          rd_bind ReadBufAdv (\<lambda>row_count.
          rd_bind ReadBufAdv (\<lambda>deprecate_ts.
            rd_return (AddChunkIndexEntryOp base_name base_rowid row_count deprecate_ts)))))
      | _ \<Rightarrow> rd_fail (UnrecoverableError (''UNIMPLEMENTED ReadAdv for CatalogDeltaOperation type ''
               @ std_to_string (sint (CatalogDeltaOpType_num t)))))"

definition delta_type_of :: "i8 \<Rightarrow> delta_op_type option" where
  "delta_type_of n = List.find (\<lambda>t. CatalogDeltaOpType_num t = n)
     [ADD_DATABASE_ENTRY, ADD_TABLE_ENTRY, ADD_SEGMENT_ENTRY, ADD_BLOCK_ENTRY, ADD_COLUMN_ENTRY,
      ADD_TABLE_INDEX_ENTRY, ADD_SEGMENT_INDEX_ENTRY, ADD_CHUNK_INDEX_ENTRY]"

definition ReadAdvBase :: "(u64 \<times> merge_flag \<times> u64 \<times> u64 \<times> string) reader" where
  "ReadAdvBase =
     rd_bind ReadBufAdv (\<lambda>begin_ts :: u64.
     rd_bind (rd_enum TYPE(8 word) MergeFlag_of_num) (\<lambda>flag.
     rd_bind ReadBufAdv (\<lambda>txn_id :: u64.
     rd_bind ReadBufAdv (\<lambda>commit_ts :: u64.
     rd_bind ReadBufAdv_string (\<lambda>encode. rd_return (begin_ts, flag, txn_id, commit_ts, encode))))))"

definition CatalogDeltaOperation_ReadAdv :: "int \<Rightarrow> delta_op reader" where
  "CatalogDeltaOperation_ReadAdv max_bytes =
     rd_bind rd_left (\<lambda>start.
     rd_bind ReadBufAdv (\<lambda>n :: i8.
     case delta_type_of n of
       None \<Rightarrow> rd_fail (UnrecoverableError (''UNIMPLEMENTED ReadAdv for CatalogDeltaOperation type '' @ std_to_string (sint n)))
     | Some t \<Rightarrow>
         rd_bind ReadAdvBase (\<lambda>(begin_ts, flag, txn_id, commit_ts, encode).
         rd_bind (body_read max_bytes start flag t) (\<lambda>body.
         rd_bind rd_left (\<lambda>now.
           if ptr_room max_bytes start now < 0
           then rd_fail (UnrecoverableError ''ptr goes out of range when reading CatalogDeltaOperation'')
           else rd_return \<lparr>op_begin_ts = begin_ts, op_txn_id = txn_id, op_commit_ts = commit_ts, op_merge_flag = flag,
                           op_encode = encode, op_body = body\<rparr>)))))"

section \<open>Comparison\<close>

text \<open>
  \<^verbatim>\<open>operator==\<close> leaves out the filter data of segments and blocks and the \<^verbatim>\<open>deprecate_ts_\<close> of chunk indexes, and
  dereferences the two pointers of an index operation.
\<close>

definition index_op_eq :: "string option \<Rightarrow> index_base option \<Rightarrow> string option \<Rightarrow> index_base option \<Rightarrow> bool res" where
  "index_op_eq dir ib dir' ib' =
     (case (dir, dir') of
        (Some d, Some d') \<Rightarrow>
          if d \<noteq> d' then Inr False
          else (case (ib, ib') of (Some i, Some i') \<Rightarrow> Inr (IndexBase_eq i i') | _ \<Rightarrow> Inl UndefinedBehaviour)
      | _ \<Rightarrow> Inl UndefinedBehaviour)"

definition body_eq :: "delta_body \<Rightarrow> delta_body \<Rightarrow> bool res" where
  "body_eq b b' =
     (case b of
        AddDBEntryOp dir \<Rightarrow> (case b' of AddDBEntryOp dir' \<Rightarrow> Inr (dir = dir') | _ \<Rightarrow> Inr False)
      | AddTableEntryOp dir cols n unsealed next_id \<Rightarrow>
          (case b' of
             AddTableEntryOp dir' cols' n' unsealed' next_id' \<Rightarrow>
               Inr (dir = dir' \<and> n = n' \<and> unsealed = unsealed' \<and> next_id = next_id' \<and> list_all2 ColumnDef_eq cols cols')
           | _ \<Rightarrow> Inr False)
      | AddSegmentEntryOp s \<Rightarrow>
          (case b' of
             AddSegmentEntryOp s' \<Rightarrow>
               Inr (so_status s = so_status s' \<and> so_column_count s = so_column_count s' \<and> so_row_count s = so_row_count s'
                    \<and> so_actual_row_count s = so_actual_row_count s' \<and> so_row_capacity s = so_row_capacity s'
                    \<and> so_min_row_ts s = so_min_row_ts s' \<and> so_max_row_ts s = so_max_row_ts s'
                    \<and> so_first_delete_ts s = so_first_delete_ts s' \<and> so_deprecate_ts s = so_deprecate_ts s')
           | _ \<Rightarrow> Inr False)
      | AddBlockEntryOp k \<Rightarrow>
          (case b' of
             AddBlockEntryOp k' \<Rightarrow>
               Inr (bo_row_count k = bo_row_count k' \<and> bo_row_capacity k = bo_row_capacity k'
                    \<and> bo_min_row_ts k = bo_min_row_ts k' \<and> bo_max_row_ts k = bo_max_row_ts k'
                    \<and> bo_checkpoint_ts k = bo_checkpoint_ts k' \<and> bo_checkpoint_row_count k = bo_checkpoint_row_count k')
           | _ \<Rightarrow> Inr False)
      | AddColumnEntryOp infos \<Rightarrow> (case b' of AddColumnEntryOp infos' \<Rightarrow> Inr (infos = infos') | _ \<Rightarrow> Inr False)
      | AddTableIndexEntryOp dir ib \<Rightarrow>
          (case b' of AddTableIndexEntryOp dir' ib' \<Rightarrow> index_op_eq dir ib dir' ib' | _ \<Rightarrow> Inr False)
      | AddSegmentIndexEntryOp min_ts max_ts next_id \<Rightarrow>
          (case b' of
             AddSegmentIndexEntryOp min_ts' max_ts' next_id' \<Rightarrow> Inr (min_ts = min_ts' \<and> max_ts = max_ts' \<and> next_id = next_id')
           | _ \<Rightarrow> Inr False)
      | AddChunkIndexEntryOp name rowid n ts \<Rightarrow>
          (case b' of
             AddChunkIndexEntryOp name' rowid' n' ts' \<Rightarrow> Inr (name = name' \<and> rowid = rowid' \<and> n = n')
           | _ \<Rightarrow> Inr False))"

definition CatalogDeltaOperation_eq :: "delta_op \<Rightarrow> delta_op \<Rightarrow> bool" where
  "CatalogDeltaOperation_eq a b \<longleftrightarrow>
     op_begin_ts a = op_begin_ts b \<and> op_txn_id a = op_txn_id b \<and> op_commit_ts a = op_commit_ts b
     \<and> op_merge_flag a = op_merge_flag b \<and> op_type a = op_type b \<and> op_encode a = op_encode b"

definition delta_op_eq :: "delta_op \<Rightarrow> delta_op \<Rightarrow> bool res" where
  "delta_op_eq a b = (if CatalogDeltaOperation_eq a b then body_eq (op_body a) (op_body b) else Inr False)"

section \<open>Merging\<close>

text \<open>
  \<^verbatim>\<open>ToPrune\<close>: what a new operation does to the ones already recorded for the entry (if any) and for what is below it.
\<close>

definition invalid_flag :: "merge_flag \<Rightarrow> 'a res" where
  "invalid_flag flag = Inl (UnrecoverableError (''Invalid MergeFlag: '' @ nat_digits (MergeFlag_num flag)))"

definition ToPrune :: "merge_flag option \<Rightarrow> merge_flag \<Rightarrow> prune_flag res" where
  "ToPrune old_merge_flag_opt new_merge_flag =
     (case old_merge_flag_opt of
        None \<Rightarrow>
          (case new_merge_flag of
             MF_kDelete \<Rightarrow> Inr PF_kPruneSub | MF_kDeleteAndNew \<Rightarrow> Inr PF_kPruneSub
           | MF_kNew \<Rightarrow> Inr PF_kKeep | MF_kUpdate \<Rightarrow> Inr PF_kKeep
           | _ \<Rightarrow> invalid_flag new_merge_flag)
      | Some old_merge_flag \<Rightarrow>
          (case new_merge_flag of
             MF_kDelete \<Rightarrow>
               (case old_merge_flag of
                  MF_kNew \<Rightarrow> Inr PF_kPrune
                | MF_kUpdate \<Rightarrow> Inr PF_kPruneSub | MF_kDeleteAndNew \<Rightarrow> Inr PF_kPruneSub
                | _ \<Rightarrow> invalid_flag old_merge_flag)
           | MF_kNew \<Rightarrow> Inr PF_kKeep | MF_kUpdate \<Rightarrow> Inr PF_kKeep
           | MF_kDeleteAndNew \<Rightarrow>
               (case old_merge_flag of
                  MF_kNew \<Rightarrow> Inr PF_kPruneSub | MF_kUpdate \<Rightarrow> Inr PF_kPruneSub | MF_kDeleteAndNew \<Rightarrow> Inr PF_kPruneSub
                | _ \<Rightarrow> invalid_flag old_merge_flag)
           | _ \<Rightarrow> invalid_flag new_merge_flag))"

definition NextDeleteFlag :: "merge_flag \<Rightarrow> merge_flag \<Rightarrow> merge_flag res" where
  "NextDeleteFlag merge_flag new_merge_flag =
     (let invalid_step = Inl (UnrecoverableError (''Invalid MergeFlag from '' @ nat_digits (MergeFlag_num merge_flag)
            @ '' to '' @ nat_digits (MergeFlag_num new_merge_flag)))
      in case merge_flag of
           MF_kDelete \<Rightarrow> (case new_merge_flag of MF_kNew \<Rightarrow> Inr MF_kDeleteAndNew | _ \<Rightarrow> invalid_step)
         | MF_kNew \<Rightarrow>
             (case new_merge_flag of
                MF_kDelete \<Rightarrow> Inl (UnrecoverableError ''Should prune before reach this.'')
              | MF_kUpdate \<Rightarrow> Inr MF_kNew | MF_kDeleteAndNew \<Rightarrow> Inr MF_kNew
              | _ \<Rightarrow> invalid_step)
         | MF_kUpdate \<Rightarrow>
             (case new_merge_flag of
                MF_kDelete \<Rightarrow> Inr MF_kDelete | MF_kUpdate \<Rightarrow> Inr MF_kUpdate | MF_kDeleteAndNew \<Rightarrow> Inr MF_kNew
              | _ \<Rightarrow> invalid_step)
         | MF_kDeleteAndNew \<Rightarrow>
             (case new_merge_flag of
                MF_kDelete \<Rightarrow> Inr MF_kDelete
              | MF_kUpdate \<Rightarrow> Inr MF_kDeleteAndNew | MF_kDeleteAndNew \<Rightarrow> Inr MF_kDeleteAndNew
              | _ \<Rightarrow> invalid_step)
         | _ \<Rightarrow> invalid_flag merge_flag)"

text \<open>
  \<^verbatim>\<open>Merge\<close> replaces the operation by the newer one.  The flags of columns, segment indexes and chunk indexes are
  overwritten, the others combined; the filter data of a segment or block is kept once it is there.
\<close>

definition keep_filter :: "string \<Rightarrow> string \<Rightarrow> string \<Rightarrow> string res" where
  "keep_filter msg old new =
     (if old \<noteq> [] then (if new \<noteq> [] then Inl (UnrecoverableError msg) else Inr old) else Inr new)"

definition CatalogDeltaOperation_Merge :: "delta_op \<Rightarrow> delta_op \<Rightarrow> delta_op res" where
  "CatalogDeltaOperation_Merge this other =
     (if op_type other \<noteq> op_type this
      then Inl (UnrecoverableError (''Merge failed, other type: '' @ GetTypeStr (op_type other)))
      else case op_body this of
        AddColumnEntryOp _ \<Rightarrow> Inr other
      | AddSegmentIndexEntryOp _ _ _ \<Rightarrow> Inr other
      | AddChunkIndexEntryOp _ _ _ _ \<Rightarrow> Inr other
      | this_body \<Rightarrow>
          res_bind (NextDeleteFlag (op_merge_flag this) (op_merge_flag other)) (\<lambda>flag.
          res_bind
            (case (this_body, op_body other) of
               (AddSegmentEntryOp s, AddSegmentEntryOp t) \<Rightarrow>
                 res_bind (keep_filter ''Serialize segment filter binary twice''
                   (so_segment_filter_binary_data s) (so_segment_filter_binary_data t)) (\<lambda>filter_data.
                 Inr (AddSegmentEntryOp (t\<lparr>so_segment_filter_binary_data := filter_data\<rparr>)))
             | (AddBlockEntryOp s, AddBlockEntryOp t) \<Rightarrow>
                 res_bind (keep_filter ''Serialize block filter binary twice''
                   (bo_block_filter_binary_data s) (bo_block_filter_binary_data t)) (\<lambda>filter_data.
                 Inr (AddBlockEntryOp (t\<lparr>bo_block_filter_binary_data := filter_data\<rparr>)))
             | (_, other_body) \<Rightarrow> Inr other_body) (\<lambda>body.
          Inr (other\<lparr>op_merge_flag := flag, op_body := body\<rparr>))))"

section \<open>Operations are read back\<close>

text \<open>
  The binary form of a table operation has no place for \<^verbatim>\<open>build_bloom_filter_\<close>, that of a deleted index none for its
  directory and definition.
\<close>

definition valid_delta_column :: "column_def \<Rightarrow> bool" where
  "valid_delta_column cd \<longleftrightarrow> valid_column_def cd \<and> \<not> cd_build_bloom_filter cd"

fun valid_delta_body :: "merge_flag \<Rightarrow> delta_body \<Rightarrow> bool" where
  "valid_delta_body flag (AddDBEntryOp dir) \<longleftrightarrow> valid_string dir"
| "valid_delta_body flag (AddTableEntryOp dir cols _ _ _) \<longleftrightarrow>
     valid_string dir \<and> length cols < 2 ^ 31 \<and> list_all valid_delta_column cols"
| "valid_delta_body flag (AddSegmentEntryOp s) \<longleftrightarrow> valid_string (so_segment_filter_binary_data s)"
| "valid_delta_body flag (AddBlockEntryOp b) \<longleftrightarrow> valid_string (bo_block_filter_binary_data b)"
| "valid_delta_body flag (AddColumnEntryOp infos) \<longleftrightarrow> length infos < 2 ^ 32"
| "valid_delta_body flag (AddTableIndexEntryOp dir ib) \<longleftrightarrow>
     (if flag = MF_kDelete then dir = None \<and> ib = None
      else dir \<noteq> None \<and> valid_string (the dir) \<and> ib \<noteq> None \<and> valid_index (the ib))"
| "valid_delta_body flag (AddSegmentIndexEntryOp _ _ _) \<longleftrightarrow> True"
| "valid_delta_body flag (AddChunkIndexEntryOp name _ _ _) \<longleftrightarrow> valid_string name"

definition valid_delta_op :: "delta_op \<Rightarrow> bool" where
  "valid_delta_op op \<longleftrightarrow> valid_string (op_encode op) \<and> valid_delta_body (op_merge_flag op) (op_body op)"

lemma delta_column_codec:
  assumes "valid_delta_column cd"
  shows "\<exists>bs. delta_column_write cd = Inr bs \<and> delta_column_size cd = Inr (word_of_nat (length bs))
    \<and> (\<forall>m start rest. int start - int (length rest) \<le> m \<longrightarrow> start \<ge> length (bs @ rest)
         \<longrightarrow> delta_column_read m start (bs @ rest) = Inr (cd, rest))"
proof -
  have v: "valid_data_type (cd_column_type cd)" "valid_string (cd_name cd)"
    "sorted_wrt (<) (cd_constraints cd)" "valid_constant_expr (cd_default_expr cd)" "\<not> cd_build_bloom_filter cd"
    using assms by (simp_all add: valid_column_def_def valid_delta_column_def)
  obtain tb where tb: "DataType_WriteAdv (cd_column_type cd) = Inr tb"
    using data_type_codec.enc_ok [OF v(1)] by blast
  note ts = data_type_codec.size_law [OF v(1) tb]
  note es = ConstantExpr_size [of "cd_default_expr cd"]
  define eb where "eb = ConstantExpr_WriteAdv (cd_default_expr cd)"
  define cb where "cb = concat (map ConstraintType_bytes (cd_constraints cd))"
  define bs where "bs = WriteBufAdv (cd_id cd) @ tb @ WriteBufAdv_string (cd_name cd)
      @ WriteBufAdv (word_of_nat (length (cd_constraints cd)) :: i32) @ cb @ eb"
  have len: "length cb = length (cd_constraints cd)" by (simp add: cb_def)
  have w: "delta_column_write cd = Inr bs"
    by (simp add: delta_column_write_def tb bs_def eb_def cb_def del: ConstantExpr_WriteAdv.simps)
  moreover have "delta_column_size cd = Inr (word_of_nat (length bs))"
    by (simp add: delta_column_size_def ts es eb_def [symmetric] bs_def len del: ConstantExpr_WriteAdv.simps)
  moreover have "delta_column_read m start (bs @ rest) = Inr (cd, rest)"
    if m: "int start - int (length rest) \<le> m" "start \<ge> length (bs @ rest)" for m start rest
  proof -
    define now where "now = length bs - 8 + length rest"
    have room: "int (length tb) \<le> ptr_room m start now" "int (length eb) \<le> ptr_room m start now"
      "\<not> ptr_room m start now = 0"
      using m by (simp_all add: ptr_room_def now_def bs_def)
    have cs: "nat (sint (word_of_nat (length (cd_constraints cd)) :: i32)) = length (cd_constraints cd)"
      using sorted_constraints_length [OF v(3)] by (simp add: sint_word_of_nat32)
    have 1: "DataType_ReadAdv (ptr_room m start now) (tb @ more) = Inr (cd_column_type cd, more)" for more
      by (rule data_type_codec.dec_enc [OF v(1) tb room(1)])
    have 2: "ConstantExpr_ReadAdv (ptr_room m start now) (eb @ more) = Inr (cd_default_expr cd, more)" for more
      using constant_expr_codec.dec_enc [OF v(4) refl] room(2) by (simp add: eb_def)
    have l: "length (tb @ WriteBufAdv_string (cd_name cd) @ WriteBufAdv (word_of_nat (length (cd_constraints cd)) :: i32)
        @ cb @ eb @ rest) = now"
      by (simp add: now_def bs_def)
    show ?thesis
      unfolding delta_column_read_def bs_def append_assoc
      by (simp only: rd_bind_Inr rd_left_apply ReadBufAdv_WriteBufAdv l room(3) if_False 1 2
          ReadBufAdv_string_WriteBufAdv [OF v(2)] cs
          read_constraints [of "cd_constraints cd", folded cb_def])
        (simp add: rd_return_def ColumnDef_new_def foldl_insort_insert_sorted [OF v(3)] v(5))
  qed
  ultimately show ?thesis by blast
qed

lemma delta_columns_codec:
  assumes "list_all valid_delta_column cols"
  obtains bs where "wr_concat (map delta_column_write cols) = Inr bs"
    and "sz_sum (map delta_column_size cols) = Inr (word_of_nat (length bs))"
    and "\<And>m start rest. int start - int (length rest) \<le> m \<Longrightarrow> start \<ge> length (bs @ rest) \<Longrightarrow>
           rd_times (length cols) (delta_column_read m start) (bs @ rest) = Inr (cols, rest)"
proof -
  have "\<exists>bs. wr_concat (map delta_column_write cols) = Inr bs
    \<and> sz_sum (map delta_column_size cols) = Inr (word_of_nat (length bs))
    \<and> (\<forall>m start rest. int start - int (length rest) \<le> m \<longrightarrow> start \<ge> length (bs @ rest) \<longrightarrow>
           rd_times (length cols) (delta_column_read m start) (bs @ rest) = Inr (cols, rest))"
    using assms
  proof (induction cols)
    case (Cons c cols)
    then obtain bs where bs: "wr_concat (map delta_column_write cols) = Inr bs"
      "sz_sum (map delta_column_size cols) = Inr (word_of_nat (length bs))"
      "\<forall>m start rest. int start - int (length rest) \<le> m \<longrightarrow> start \<ge> length (bs @ rest) \<longrightarrow>
           rd_times (length cols) (delta_column_read m start) (bs @ rest) = Inr (cols, rest)" by auto
    have "valid_delta_column c" using Cons.prems by simp
    from delta_column_codec [OF this] obtain b where b: "delta_column_write c = Inr b"
      "delta_column_size c = Inr (word_of_nat (length b))"
      "\<forall>m start rest. int start - int (length rest) \<le> m \<longrightarrow> start \<ge> length (b @ rest)
         \<longrightarrow> delta_column_read m start (b @ rest) = Inr (c, rest)" by blast
    have "rd_times (length (c # cols)) (delta_column_read m start) ((b @ bs) @ rest) = Inr (c # cols, rest)"
      if "int start - int (length rest) \<le> m" "start \<ge> length ((b @ bs) @ rest)" for m start rest
    proof -
      have "delta_column_read m start (b @ bs @ rest) = Inr (c, bs @ rest)" using b(3) that by simp
      moreover have "rd_times (length cols) (delta_column_read m start) (bs @ rest) = Inr (cols, rest)"
        using bs(3) that by simp
      ultimately show ?thesis by (simp add: rd_bind_def rd_return_def)
    qed
    moreover have "wr_concat (map delta_column_write (c # cols)) = Inr (b @ bs)"
      and "sz_sum (map delta_column_size (c # cols)) = Inr (word_of_nat (length (b @ bs)))"
      using b(1,2) bs(1,2) by simp_all
    ultimately show ?case by blast
  qed (simp add: rd_return_def)
  then show ?thesis using that by blast
qed

definition op_i32_size :: "delta_op \<Rightarrow> i32 res" where
  "op_i32_size op = res_bind (CatalogDeltaOperation_GetSizeInBytes op) (\<lambda>n. Inr (ucast n))"

lemma ucast_i32_of_int: "ucast (word_of_int k :: u64) = (word_of_int k :: i32)"
  by (rule bit_word_eqI) (auto simp: bit_simps)

lemma ucast_i32_add: "ucast (a + b :: u64) = (ucast a + ucast b :: i32)"
proof -
  obtain x y where "a = word_of_int x" "b = word_of_int y" using word_of_int_uint by metis
  then show ?thesis by (simp only: ucast_i32_of_int flip: of_int_add)
qed

lemma ucast_i32_scast: "ucast (scast (a :: i32) :: u64) = a"
  by (rule bit_word_eqI) (auto simp: bit_simps)

lemma ucast_i32_nat: "ucast (word_of_nat n :: u64) = (word_of_nat n :: i32)"
  using ucast_i32_of_int [of "int n"] by simp

lemmas ucast_i32 = ucast_i32_add ucast_i32_scast ucast_i32_nat

lemma MergeFlag_of_num_num [simp]: "MergeFlag_of_num (MergeFlag_num f) = Some f"
  by (cases f) (simp_all add: MergeFlag_of_num_def enum_of_num_def)

lemma SegmentStatus_of_num_num [simp]: "SegmentStatus_of_num (SegmentStatus_num s) = Some s"
  by (cases s) (simp_all add: SegmentStatus_of_num_def enum_of_num_def)

lemma MergeFlag_num_less: "MergeFlag_num f < 5"
  by (cases f) simp_all

lemma SegmentStatus_num_less: "SegmentStatus_num s < 5"
  by (cases s) simp_all

lemma read_flags:
  "rd_enum TYPE(8 word) MergeFlag_of_num (WriteBufAdv (word_of_nat (MergeFlag_num f) :: 8 word) @ rest) = Inr (f, rest)"
  "rd_enum TYPE(8 word) SegmentStatus_of_num (WriteBufAdv (word_of_nat (SegmentStatus_num s) :: 8 word) @ rest) = Inr (s, rest)"
  using MergeFlag_num_less [of f] SegmentStatus_num_less [of s] by (simp_all add: rd_enum_WriteBufAdv(1))

lemma read_outline_infos:
  assumes "length infos < 2 ^ 32"
  shows "rd_times (unat (word_of_nat (length infos) :: u32))
      (rd_bind ReadBufAdv (\<lambda>outline_buffer_count :: u32.
       rd_bind ReadBufAdv (\<lambda>last_chunk_offset :: u64. rd_return (outline_buffer_count, last_chunk_offset))))
      (concat (map (\<lambda>(idx, off). WriteBufAdv idx @ WriteBufAdv off) infos) @ rest) = Inr (infos, rest)"
proof -
  have "unat (word_of_nat (length infos) :: u32) = length infos" using assms by (simp add: unat_of_nat)
  moreover have "rd_times (length infos)
      (rd_bind ReadBufAdv (\<lambda>outline_buffer_count :: u32.
       rd_bind ReadBufAdv (\<lambda>last_chunk_offset :: u64. rd_return (outline_buffer_count, last_chunk_offset))))
      (concat (map (\<lambda>(idx, off). WriteBufAdv idx @ WriteBufAdv off) infos) @ rest) = Inr (infos, rest)"
    by (rule rd_times_concat) (simp add: rd_return_def codec_simps split: prod.split)
  ultimately show ?thesis by simp
qed

definition body_payload :: "merge_flag \<Rightarrow> delta_body \<Rightarrow> byte list \<Rightarrow> bool" where
  "body_payload flag body pl \<longleftrightarrow>
     body_write flag body = Inr pl
     \<and> (\<forall>m start rest. 0 \<le> ptr_room m start (length rest) \<longrightarrow> length (pl @ rest) \<le> start \<longrightarrow>
          body_read m start flag (body_type body) (pl @ rest) = Inr (body, rest))
     \<and> (\<forall>op. op_merge_flag op = flag \<longrightarrow> op_body op = body \<longrightarrow>
          op_i32_size op = Inr (word_of_nat (30 + length (op_encode op) + length pl)))"

lemmas body_read_simps = body_read_def delta_op_type.case body_type.simps append_assoc rd_bind_Inr ReadBufAdv_WriteBufAdv
  ReadBufAdv_string_WriteBufAdv rd_left_apply rd_return_def read_flags read_outline_infos

lemmas op_size_simps = op_i32_size_def CatalogDeltaOperation_GetSizeInBytes_def GetBaseSizeInBytes_def Let_def ucast_i32

lemma payload_plain:
  "valid_string dir \<Longrightarrow> body_payload flag (AddDBEntryOp dir) (WriteBufAdv_string dir)"
  "valid_string name \<Longrightarrow> body_payload flag (AddChunkIndexEntryOp name rowid n ts)
     (WriteBufAdv_string name @ WriteBufAdv rowid @ WriteBufAdv n @ WriteBufAdv ts)"
  "body_payload flag (AddSegmentIndexEntryOp min_ts max_ts next_id)
     (WriteBufAdv min_ts @ WriteBufAdv max_ts @ WriteBufAdv next_id)"
  unfolding body_payload_def
  by (simp_all only: body_read_simps) (simp_all add: op_size_simps)

lemma payload_column:
  assumes "length infos < 2 ^ 32"
  shows "body_payload flag (AddColumnEntryOp infos) (WriteBufAdv (word_of_nat (length infos) :: u32)
    @ concat (map (\<lambda>(idx, off). WriteBufAdv idx @ WriteBufAdv off) infos))"
proof -
  have "length (concat (map (\<lambda>(idx :: u32, off :: u64). WriteBufAdv idx @ WriteBufAdv off) infos)) = length infos * 12"
    by (induction infos) (auto split: prod.splits)
  moreover have "ucast (word_of_nat (length infos) * 12 :: u64) = (word_of_nat (length infos) * 12 :: i32)"
    using ucast_i32_nat [of "length infos * 12"] by simp
  ultimately show ?thesis
    using assms unfolding body_payload_def
    by (simp only: body_read_simps) (simp add: op_size_simps del: length_concat)
qed

lemma payload_filtered:
  "valid_string (so_segment_filter_binary_data s) \<Longrightarrow> \<exists>pl. body_payload flag (AddSegmentEntryOp s) pl"
  "valid_string (bo_block_filter_binary_data b) \<Longrightarrow> \<exists>pl. body_payload flag (AddBlockEntryOp b) pl"
  unfolding body_payload_def
  by (simp_all only: body_write.simps sum.inject ex_simps simp_thms body_read_simps) (simp_all add: op_size_simps)

lemma wr_concat_append:
  "wr_concat xs = Inr a \<Longrightarrow> wr_concat (xs @ ys) = wr_cat (Inr a) (wr_concat ys)"
proof (induction xs arbitrary: a)
  case Nil
  then show ?case by (cases "wr_concat ys") (auto simp: wr_cat_def)
next
  case (Cons x xs)
  then show ?case by (cases x; cases "wr_concat xs"; cases "wr_concat ys") (auto simp: wr_cat_def)
qed

lemma payload_delta_table:
  assumes "valid_string dir" and "length cols < 2 ^ 31" and "list_all valid_delta_column cols"
  shows "\<exists>pl. body_payload flag (AddTableEntryOp dir cols n unsealed next_id) pl"
proof -
  obtain bs where bs: "wr_concat (map delta_column_write cols) = Inr bs"
    "sz_sum (map delta_column_size cols) = Inr (word_of_nat (length bs))"
    "\<And>m start rest. int start - int (length rest) \<le> m \<Longrightarrow> start \<ge> length (bs @ rest) \<Longrightarrow>
           rd_times (length cols) (delta_column_read m start) (bs @ rest) = Inr (cols, rest)"
    using delta_columns_codec [OF assms(3)] by blast
  let ?tail = "WriteBufAdv n @ WriteBufAdv unsealed @ WriteBufAdv next_id"
  let ?pl = "WriteBufAdv_string dir @ WriteBufAdv (word_of_nat (length cols) :: i32) @ bs @ ?tail"
  have cnt: "nat (sint (word_of_nat (length cols) :: i32)) = length cols"
    using assms(2) by (simp add: sint_word_of_nat32)
  have "body_write flag (AddTableEntryOp dir cols n unsealed next_id) = Inr ?pl"
    using bs(1) by (simp add: wr_concat_append)
  moreover have "body_read m start flag ADD_TABLE_ENTRY (?pl @ rest) = Inr (AddTableEntryOp dir cols n unsealed next_id, rest)"
    if "0 \<le> ptr_room m start (length rest)" "length (?pl @ rest) \<le> start" for m start rest
  proof -
    have "rd_times (length cols) (delta_column_read m start) (bs @ ?tail @ rest) = Inr (cols, ?tail @ rest)"
      using that by (intro bs(3)) (simp_all add: ptr_room_def)
    then show ?thesis
      using assms(1) by (simp only: body_read_simps cnt)
  qed
  moreover have "op_i32_size op = Inr (word_of_nat (30 + length (op_encode op) + length ?pl))"
    if "op_body op = AddTableEntryOp dir cols n unsealed next_id" for op
    using that bs(2) by (simp add: op_size_simps sz_sum_append)
  ultimately have "body_payload flag (AddTableEntryOp dir cols n unsealed next_id) ?pl"
    unfolding body_payload_def body_type.simps by blast
  then show ?thesis by blast
qed

lemma payload_delta_index:
  assumes "valid_delta_body flag (AddTableIndexEntryOp dir ib)"
  shows "\<exists>pl. body_payload flag (AddTableIndexEntryOp dir ib) pl"
proof (cases "flag = MF_kDelete")
  case True
  then have "body_payload flag (AddTableIndexEntryOp dir ib) []"
    using assms unfolding body_payload_def
    by (auto simp: body_read_def op_size_simps rd_return_def)
  then show ?thesis by blast
next
  case False
  then obtain d i where di: "dir = Some d" "ib = Some i" "valid_string d" "valid_index i" using assms by auto
  obtain bs where bs: "Index_WriteAdv i = Inr bs" using index_codec.enc_ok [OF di(4)] by blast
  have "body_payload flag (AddTableIndexEntryOp dir ib) (WriteBufAdv_string d @ bs)"
    unfolding body_payload_def
  proof (intro conjI allI impI)
    fix m start and rest :: "byte list"
    assume "0 \<le> ptr_room m start (length rest)"
    from index_codec.dec_enc [OF di(4) bs sub_codec_room [OF this]]
    show "body_read m start flag (body_type (AddTableIndexEntryOp dir ib)) ((WriteBufAdv_string d @ bs) @ rest)
        = Inr (AddTableIndexEntryOp dir ib, rest)"
      using False di by (simp only: body_read_simps simp_thms if_True)
  qed (use False di bs index_codec.size_law [OF di(4) bs] in \<open>simp_all add: op_size_simps\<close>)
  then show ?thesis by blast
qed

lemma body_codec: "valid_delta_body flag body \<Longrightarrow> \<exists>pl. body_payload flag body pl"
  by (cases body) (auto intro: payload_plain payload_column [simplified] payload_filtered payload_delta_table [simplified]
      payload_delta_index simp del: valid_delta_body.simps(6))

lemma delta_type_of_num: "delta_type_of (CatalogDeltaOpType_num (body_type b)) = Some (body_type b)"
  by (cases b) (simp_all add: delta_type_of_def)

lemma ReadAdvBase_WriteAdvBase:
  "valid_string (op_encode op) \<Longrightarrow>
     ReadAdvBase (WriteAdvBase op @ rest)
       = Inr ((op_begin_ts op, op_merge_flag op, op_txn_id op, op_commit_ts op, op_encode op), rest)"
  by (simp only: ReadAdvBase_def WriteAdvBase_def append_assoc rd_bind_Inr ReadBufAdv_WriteBufAdv read_flags
      ReadBufAdv_string_WriteBufAdv rd_return_def)

lemma CatalogDeltaOperation_codec:
  assumes "valid_delta_op op"
  shows "\<exists>bs. CatalogDeltaOperation_WriteAdv op = Inr bs
    \<and> (\<forall>m rest. int (length bs) \<le> m \<longrightarrow> CatalogDeltaOperation_ReadAdv m (bs @ rest) = Inr (op, rest))
    \<and> op_i32_size op = Inr (word_of_nat (length bs)) \<and> bs \<noteq> []"
proof -
  have v: "valid_string (op_encode op)" "valid_delta_body (op_merge_flag op) (op_body op)"
    using assms by (simp_all add: valid_delta_op_def)
  obtain pl where pl: "body_payload (op_merge_flag op) (op_body op) pl" using body_codec [OF v(2)] by blast
  let ?n = "CatalogDeltaOpType_num (op_type op)"
  let ?bs = "(WriteBufAdv ?n @ WriteAdvBase op) @ pl"
  have w: "CatalogDeltaOperation_WriteAdv op = Inr ?bs"
    using pl by (simp add: CatalogDeltaOperation_WriteAdv_def body_payload_def)
  have l: "length ?bs = 30 + length (op_encode op) + length pl" by (simp add: WriteAdvBase_def)
  have "CatalogDeltaOperation_ReadAdv m (?bs @ rest) = Inr (op, rest)" if m: "int (length ?bs) \<le> m" for m rest
  proof -
    let ?start = "length (WriteBufAdv ?n @ WriteAdvBase op @ pl @ rest)"
    have room: "0 \<le> ptr_room m ?start (length rest)" using m by (simp add: ptr_room_def)
    then have ok: "\<not> ptr_room m ?start (length rest) < 0" by simp
    have "body_read m ?start (op_merge_flag op) (op_type op) (pl @ rest) = Inr (op_body op, rest)"
      using pl room by (simp add: body_payload_def)
    then show ?thesis
      unfolding CatalogDeltaOperation_ReadAdv_def append_assoc
      by (simp only: rd_bind_Inr rd_left_apply ReadBufAdv_WriteBufAdv delta_type_of_num option.case
          ReadAdvBase_WriteAdvBase [OF v(1)] prod.case ok if_False rd_return_def) simp
  qed
  moreover have "op_i32_size op = Inr (word_of_nat (length ?bs))"
    using pl unfolding l by (simp add: body_payload_def)
  moreover have "?bs \<noteq> []" using l by (metis add_is_0 list.size(3) zero_neq_numeral)
  ultimately show ?thesis using w by blast
qed

interpretation delta_op_codec:
  sized_codec valid_delta_op CatalogDeltaOperation_WriteAdv CatalogDeltaOperation_ReadAdv op_i32_size
  by unfold_locales (use CatalogDeltaOperation_codec in fastforce)+

section \<open>Paths are decoded\<close>

lemma decode_last_append:
  "CHR ''#'' \<notin> set x \<Longrightarrow>
     decode_last msg parent (e @ ''#'' @ x) = res_bind (parent e) (\<lambda>decodes. Inr (decodes @ [x]))"
  by (simp add: decode_last_def rfind_last)

lemma digits_no_hash: "CHR ''#'' \<notin> set (nat_digits n)"
  using nat_digits_isdigit [of n] by (auto simp: list_all_iff isdigit_def char_code_def)

lemma DBEntry_decode: "DBEntry_DecodeIndex (DBEntry_EncodeIndex db) = Inr [db]"
  by (simp add: DBEntry_DecodeIndex_def DBEntry_EncodeIndex_def)

lemma TableEntry_decode:
  "CHR ''#'' \<notin> set t \<Longrightarrow>
     TableEntry_DecodeIndex (TableEntry_EncodeIndex t (Some (DBEntry_EncodeIndex db))) = Inr ([db] @ [t])"
  unfolding TableEntry_DecodeIndex_def TableEntry_EncodeIndex_def by (simp only: option.case decode_last_append DBEntry_decode not_False_eq_True res_bind_simps)

lemma SegmentEntry_decode:
  "TableEntry_DecodeIndex e = Inr ds \<Longrightarrow>
     SegmentEntry_DecodeIndex (SegmentEntry_EncodeIndex s (Some e)) = Inr (ds @ [nat_digits (unat s)])"
  unfolding SegmentEntry_DecodeIndex_def SegmentEntry_EncodeIndex_def by (simp only: option.case decode_last_append digits_no_hash not_False_eq_True res_bind_simps)

lemma BlockColumnEntry_decode:
  "SegmentEntry_DecodeIndex e = Inr ds \<Longrightarrow>
     BlockColumnEntry_DecodeIndex (BlockColumnEntry_EncodeIndex c (BlockEntry_EncodeIndex b e))
       = Inr ((ds @ [nat_digits (unat b)]) @ [nat_digits (unat c)])"
  unfolding BlockColumnEntry_DecodeIndex_def BlockColumnEntry_EncodeIndex_def BlockEntry_DecodeIndex_def
    BlockEntry_EncodeIndex_def by (simp only: decode_last_append digits_no_hash not_False_eq_True res_bind_simps)

lemma ChunkIndexEntry_decode:
  "TableEntry_DecodeIndex e = Inr ds \<Longrightarrow> CHR ''#'' \<notin> set i \<Longrightarrow>
     ChunkIndexEntry_DecodeIndex
       (ChunkIndexEntry_EncodeIndex c (SegmentIndexEntry_EncodeIndex s (Some (TableIndexEntry_EncodeIndex i (Some e)))))
       = Inr (((ds @ [i]) @ [nat_digits (unat s)]) @ [nat_digits (unat c)])"
  unfolding ChunkIndexEntry_DecodeIndex_def ChunkIndexEntry_EncodeIndex_def SegmentIndexEntry_DecodeIndex_def
    SegmentIndexEntry_EncodeIndex_def TableIndexEntry_DecodeIndex_def TableIndexEntry_EncodeIndex_def
  by (simp only: option.case decode_last_append digits_no_hash not_False_eq_True res_bind_simps)

text \<open>
  C22: The path of a column and the path of a chunk of an index are decoded into the names and numbers they were made of,
  whatever the database is called, when there is no \<^verbatim>\<open>#\<close> in the names of the table and of the index.
\<close>

theorem paths_decoded:
  assumes "CHR ''#'' \<notin> set t" and "CHR ''#'' \<notin> set i"
  shows "BlockColumnEntry_DecodeIndex (BlockColumnEntry_EncodeIndex c (BlockEntry_EncodeIndex b
           (SegmentEntry_EncodeIndex s (Some (TableEntry_EncodeIndex t (Some (DBEntry_EncodeIndex db)))))))
      = Inr [db, t, nat_digits (unat s), nat_digits (unat b), nat_digits (unat c)]
    \<and> ChunkIndexEntry_DecodeIndex (ChunkIndexEntry_EncodeIndex k (SegmentIndexEntry_EncodeIndex s
           (Some (TableIndexEntry_EncodeIndex i (Some (TableEntry_EncodeIndex t (Some (DBEntry_EncodeIndex db))))))))
      = Inr [db, t, i, nat_digits (unat s), nat_digits (unat k)]"
  using BlockColumnEntry_decode [OF SegmentEntry_decode [OF TableEntry_decode [OF assms(1), of db]], of c b s]
    ChunkIndexEntry_decode [OF TableEntry_decode [OF assms(1), of db] assms(2), of k s]
  by simp

theorem paths_decoded_witness:
  "BlockColumnEntry_DecodeIndex (BlockColumnEntry_EncodeIndex 3 (BlockEntry_EncodeIndex 0
           (SegmentEntry_EncodeIndex 1 (Some (TableEntry_EncodeIndex ''t1'' (Some (DBEntry_EncodeIndex ''a#b'')))))))
      = Inr [''a#b'', ''t1'', nat_digits 1, nat_digits 0, nat_digits 3]
    \<and> ChunkIndexEntry_DecodeIndex (ChunkIndexEntry_EncodeIndex 0 (SegmentIndexEntry_EncodeIndex 1
           (Some (TableIndexEntry_EncodeIndex ''idx'' (Some (TableEntry_EncodeIndex ''t1'' (Some (DBEntry_EncodeIndex ''a#b''))))))))
      = Inr [''a#b'', ''t1'', ''idx'', nat_digits 1, nat_digits 0]"
  using paths_decoded [of "''t1''" "''idx''" 3 0 1 "''a#b''" 0] by simp

end
