(* ===== verification/Catalog_Delta.thy ===== *)
theory Catalog_Delta
  imports Catalog_Delta_Op "HOL-Library.Sublist"
begin

text \<open>
  Catalog deltas, \<^verbatim>\<open>src/storage/wal/catalog_delta_entry.cpp\<close>: the entry of one transaction, the global entry into which
  the entries of the committed transactions are merged, and the delta catalog files that
  \<^verbatim>\<open>src/storage/meta/catalog.cpp\<close> writes at a checkpoint and reads at recovery.  The merging is related to an abstract
  catalog to which the operations are applied one by one.
\<close>

section \<open>Entries\<close>

record delta_entry =
  ce_txn_ids :: "u64 list"
  ce_max_commit_ts :: u64
  ce_sequence :: u64
  ce_operations :: "delta_op list"

definition CatalogDeltaEntry_new :: delta_entry where
  "CatalogDeltaEntry_new = \<lparr>ce_txn_ids = [], ce_max_commit_ts = UNCOMMIT_TS, ce_sequence = 0, ce_operations = []\<rparr>"

definition AddOperation :: "delta_op \<Rightarrow> delta_entry \<Rightarrow> delta_entry" where
  "AddOperation op e = e\<lparr>ce_operations := ce_operations e @ [op]\<rparr>"

definition SaveState :: "u64 \<Rightarrow> u64 \<Rightarrow> u64 \<Rightarrow> delta_entry \<Rightarrow> delta_entry res" where
  "SaveState txn_id commit_ts sequence e =
     (if ce_max_commit_ts e \<noteq> UNCOMMIT_TS \<or> ce_txn_ids e \<noteq> []
      then Inl (UnrecoverableError (''CatalogDeltaEntry SaveState failed, max_commit_ts_ ''
             @ nat_digits (unat (ce_max_commit_ts e)) @ '' txn_ids_ size '' @ nat_digits (length (ce_txn_ids e))))
      else Inr (e\<lparr>ce_sequence := sequence, ce_max_commit_ts := commit_ts, ce_txn_ids := [txn_id],
                 ce_operations := map (\<lambda>op. op\<lparr>op_commit_ts := commit_ts\<rparr>) (ce_operations e)\<rparr>))"

definition CatalogDeltaEntry_GetSizeInBytes :: "delta_entry \<Rightarrow> i32 res" where
  "CatalogDeltaEntry_GetSizeInBytes e = sz_sum (Inr (8 + 8 + 4) # map op_i32_size (ce_operations e) @ [Inr 4])"

text \<open>One round of the loop of \<^verbatim>\<open>WriteAdv\<close>, with the comparison of the announced and the actual size.\<close>

definition write_sized_op :: "delta_op \<Rightarrow> byte list res" where
  "write_sized_op op =
     res_bind (op_i32_size op) (\<lambda>exp_size.
     res_bind (CatalogDeltaOperation_WriteAdv op) (\<lambda>bs.
       let act_size = word_of_nat (length bs) :: i32
       in if exp_size \<noteq> act_size
          then Inl (UnrecoverableError (''catalog delta operation write failed, exp_size: '' @ std_to_string (sint exp_size)
                 @ '', act_size: '' @ std_to_string (sint act_size)))
          else Inr bs))"

definition delta_bytes :: "i32 \<Rightarrow> u32 \<Rightarrow> byte list \<Rightarrow> byte list" where
  "delta_bytes entry_size checksum payload = WriteBufAdv entry_size @ WriteBufAdv checksum @ payload @ WriteBufAdv entry_size"

definition CatalogDeltaEntry_WriteAdv :: "delta_entry \<Rightarrow> byte list res" where
  "CatalogDeltaEntry_WriteAdv e =
     res_bind (wr_concat (map write_sized_op (ce_operations e))) (\<lambda>ops.
       let payload = WriteBufAdv (ce_max_commit_ts e) @ WriteBufAdv (word_of_nat (length (ce_operations e)) :: i32) @ ops;
           n = word_of_nat (8 + length payload + 4) :: i32
       in res_bind (crc_of (delta_bytes n 0 payload) n) (\<lambda>crc. Inr (delta_bytes n crc payload)))"

text \<open>
  A size that is not repeated at the end gives the null pointer \<open>None\<close>, a wrong checksum an error.  Transactions and
  sequence number are not part of the binary form.
\<close>

definition delta_out_of_range :: infinity_error where
  "delta_out_of_range = UnrecoverableError ''ptr goes out of range when reading WalEntry''"

definition delta_read_op :: "int \<Rightarrow> nat \<Rightarrow> delta_op reader" where
  "delta_read_op max_bytes start =
     rd_bind rd_left (\<lambda>now.
       if ptr_room max_bytes start now \<le> 0 then rd_fail delta_out_of_range
       else CatalogDeltaOperation_ReadAdv (ptr_room max_bytes start now))"

definition delta_read_payload :: "int \<Rightarrow> nat \<Rightarrow> delta_entry reader" where
  "delta_read_payload max_bytes start =
     rd_bind ReadBufAdv (\<lambda>max_commit_ts :: u64.
     rd_bind ReadBufAdv (\<lambda>cnt :: i32.
     rd_bind (rd_times (nat (sint cnt)) (delta_read_op max_bytes start)) (\<lambda>operations.
     rd_bind (\<lambda>bs. Inr (length bs, drop 4 bs)) (\<lambda>left.
       if ptr_room max_bytes start left - 4 < 0 then rd_fail delta_out_of_range
       else rd_return (CatalogDeltaEntry_new\<lparr>ce_max_commit_ts := max_commit_ts, ce_operations := operations\<rparr>)))))"

definition CatalogDeltaEntry_ReadAdv :: "int \<Rightarrow> delta_entry option reader" where
  "CatalogDeltaEntry_ReadAdv max_bytes =
     (if max_bytes \<le> 0 then rd_fail delta_out_of_range
      else
        rd_bind (\<lambda>buf. Inr (buf, buf)) (\<lambda>buf.
        rd_bind ReadBufAdv (\<lambda>entry_size :: i32.
        rd_bind ReadBufAdv (\<lambda>checksum :: u32.
        rd_bind (rd_lift (i32_at buf (sint entry_size - 4))) (\<lambda>size2.
        if entry_size \<noteq> size2 then rd_return None
        else rd_bind (rd_lift (crc_of (clear_checksum buf) entry_size)) (\<lambda>checksum2.
        if checksum \<noteq> checksum2
        then rd_fail (UnrecoverableError (''checksum failed, checksum: '' @ nat_digits (unat checksum)
               @ '', checksum2: '' @ nat_digits (unat checksum2)))
        else rd_bind (delta_read_payload max_bytes (length buf)) (\<lambda>e. rd_return (Some e))))))))"

section \<open>The global entry\<close>

text \<open>
  \<^verbatim>\<open>delta_ops_\<close> is a \<^verbatim>\<open>std::map\<close>: its pairs in the order of the keys.  The priority queue of sequence numbers is a list
  in increasing order, its top the head; the hash set of transactions is a list of its elements.
\<close>

type_synonym op_map = "(string \<times> delta_op) list"

record global_delta =
  gd_last_sequence :: u64
  gd_sequence_heap :: "u64 list"
  gd_delta_entry_map :: "u64 \<rightharpoonup> delta_entry"
  gd_delta_ops :: op_map
  gd_txn_ids :: "u64 list"
  gd_max_commit_ts :: u64
  gd_last_full_ckp_ts :: u64
  gd_wal_size :: i64

definition GlobalCatalogDeltaEntry_new :: global_delta where
  "GlobalCatalogDeltaEntry_new =
     \<lparr>gd_last_sequence = 0, gd_sequence_heap = [], gd_delta_entry_map = Map.empty, gd_delta_ops = [], gd_txn_ids = [],
      gd_max_commit_ts = 0, gd_last_full_ckp_ts = 0, gd_wal_size = 0\<rparr>"

definition InitMaxCommitTS :: "u64 \<Rightarrow> global_delta \<Rightarrow> global_delta" where
  "InitMaxCommitTS max_commit_ts g = g\<lparr>gd_max_commit_ts := max_commit_ts\<rparr>"

definition InitFullCheckpointTs :: "u64 \<Rightarrow> global_delta \<Rightarrow> global_delta" where
  "InitFullCheckpointTs last_full_ckp_ts g = g\<lparr>gd_last_full_ckp_ts := last_full_ckp_ts\<rparr>"

definition GetCheckpointState :: "global_delta \<Rightarrow> u64 \<times> i64" where
  "GetCheckpointState g = (gd_max_commit_ts g, gd_wal_size g)"

definition OpSize :: "global_delta \<Rightarrow> u64" where
  "OpSize g = word_of_nat (length (gd_delta_ops g))"

definition omap_put :: "string \<Rightarrow> delta_op \<Rightarrow> op_map \<Rightarrow> op_map" where
  "omap_put k op m = filter (\<lambda>(k', _). k' < k) m @ (k, op) # filter (\<lambda>(k', _). k < k') m"

definition omap_erase :: "string \<Rightarrow> op_map \<Rightarrow> op_map" where
  "omap_erase k m = filter (\<lambda>(k', _). k' \<noteq> k) m"

text \<open>\<^verbatim>\<open>std::mismatch\<close> with three iterators: what is left of both sequences; it may run over the end of the second.\<close>

fun std_mismatch :: "string \<Rightarrow> string \<Rightarrow> (string \<times> string) res" where
  "std_mismatch [] ys = Inr ([], ys)"
| "std_mismatch (x # xs) [] = Inl UndefinedBehaviour"
| "std_mismatch (x # xs) (y # ys) = (if x = y then std_mismatch xs ys else Inr (x # xs, y # ys))"

fun prune_loop :: "string \<Rightarrow> op_map \<Rightarrow> op_map res" where
  "prune_loop encode1 [] = Inr []"
| "prune_loop encode1 ((encode2, op) # m) =
     res_bind (std_mismatch encode1 encode2) (\<lambda>(iter1, iter2).
       if iter1 \<noteq> [] then Inr ((encode2, op) # m)
       else if iter2 = [] then res_bind (prune_loop encode1 m) (\<lambda>r. Inr ((encode2, op) # r))
       else if hd iter2 \<noteq> CHR ''#'' then res_bind (prune_loop encode1 m) (\<lambda>r. Inr ((encode2, op) # r))
       else prune_loop encode1 m)"

definition PruneOpWithSamePrefix :: "string \<Rightarrow> op_map \<Rightarrow> op_map res" where
  "PruneOpWithSamePrefix encode1 m =
     res_bind (prune_loop encode1 (dropWhile (\<lambda>(k, _). k < encode1) m)) (\<lambda>r.
       Inr (takeWhile (\<lambda>(k, _). k < encode1) m @ r))"

text \<open>One round of the loop of \<^verbatim>\<open>AddDeltaEntryInner\<close>.\<close>

definition deprecate_op :: "delta_op \<Rightarrow> delta_op" where
  "deprecate_op op =
     (case op_body op of
        AddSegmentEntryOp s \<Rightarrow> if so_status s = SS_kDeprecated then op\<lparr>op_merge_flag := MF_kDelete\<rparr> else op
      | _ \<Rightarrow> op)"

definition catch_merge :: "u64 list \<Rightarrow> string \<Rightarrow> delta_op res \<Rightarrow> delta_op res" where
  "catch_merge txn_ids encode r =
     (case r of
        Inl (UnrecoverableError _) \<Rightarrow>
          Inl (UnrecoverableError (''Merge failed, encode: '' @ encode @ '' txn_ids: ''
            @ concat (map (\<lambda>txn_id. nat_digits (unat txn_id) @ '' '') txn_ids)))
      | _ \<Rightarrow> r)"

definition AddDeltaOp :: "u64 \<Rightarrow> u64 list \<Rightarrow> delta_op \<Rightarrow> op_map \<Rightarrow> op_map res" where
  "AddDeltaOp last_full_ckp_ts txn_ids delta_op m =
     (let new_op = deprecate_op delta_op; encode = op_encode new_op
      in if encode = [] then Inl (UnrecoverableError ''encode is empty'')
         else
           let found = map_of m encode;
               stale = (case found of Some op \<Rightarrow> op_commit_ts op \<le> last_full_ckp_ts | None \<Rightarrow> False);
               m = (if stale then omap_erase encode m else m)
           in case (if stale then None else found) of
                Some op \<Rightarrow>
                  res_bind (ToPrune (Some (op_merge_flag op)) (op_merge_flag new_op)) (\<lambda>prune_flag.
                    if prune_flag = PF_kPrune then PruneOpWithSamePrefix encode (omap_erase encode m)
                    else res_bind (if prune_flag = PF_kPruneSub then PruneOpWithSamePrefix encode m else Inr m) (\<lambda>m.
                         res_bind (catch_merge txn_ids encode (CatalogDeltaOperation_Merge op new_op)) (\<lambda>merged.
                           Inr (omap_put encode merged m))))
              | None \<Rightarrow>
                  res_bind (ToPrune None (op_merge_flag new_op)) (\<lambda>prune_flag.
                    let m = omap_put encode new_op m
                    in if prune_flag = PF_kPruneSub then PruneOpWithSamePrefix encode m else Inr m))"

fun AddDeltaOps :: "u64 \<Rightarrow> u64 list \<Rightarrow> delta_op list \<Rightarrow> op_map \<Rightarrow> op_map res" where
  "AddDeltaOps last_full_ckp_ts txn_ids [] m = Inr m"
| "AddDeltaOps last_full_ckp_ts txn_ids (op # ops) m =
     res_bind (AddDeltaOp last_full_ckp_ts txn_ids op m) (AddDeltaOps last_full_ckp_ts txn_ids ops)"

definition AddDeltaEntryInner :: "delta_entry \<Rightarrow> global_delta \<Rightarrow> global_delta res" where
  "AddDeltaEntryInner e g =
     (let max_commit_ts = ce_max_commit_ts e
      in if max_commit_ts = UNCOMMIT_TS then Inl (UnrecoverableError ''max_commit_ts == UNCOMMIT_TS'')
         else if max_commit_ts < gd_max_commit_ts g
         then Inl (UnrecoverableError (''max_commit_ts_ '' @ nat_digits (unat (gd_max_commit_ts g)) @ '' > max_commit_ts ''
                @ nat_digits (unat max_commit_ts)))
         else res_bind (AddDeltaOps (gd_last_full_ckp_ts g) (ce_txn_ids e) (ce_operations e) (gd_delta_ops g)) (\<lambda>m.
                Inr (g\<lparr>gd_max_commit_ts := max_commit_ts, gd_delta_ops := m,
                       gd_txn_ids := fold List.insert (ce_txn_ids e) (gd_txn_ids g)\<rparr>)))"

text \<open>
  \<^verbatim>\<open>AddDeltaEntry\<close>: an entry that is not the next one waits in the map; the next one is merged together with those
  behind it that have arrived.  Every round of the loop takes a number from the queue.
\<close>

definition std_max_i64 :: "i64 \<Rightarrow> i64 \<Rightarrow> i64" where
  "std_max_i64 a b = (if sint a < sint b then b else a)"

definition add_next :: "i64 \<Rightarrow> delta_entry \<Rightarrow> u64 list \<Rightarrow> global_delta \<Rightarrow> global_delta res" where
  "add_next wal_size e heap g =
     res_bind (AddDeltaEntryInner e (g\<lparr>gd_wal_size := std_max_i64 (gd_wal_size g) wal_size\<rparr>)) (\<lambda>g.
       Inr (g\<lparr>gd_last_sequence := gd_last_sequence g + 1, gd_sequence_heap := heap\<rparr>))"

fun add_loop :: "i64 \<Rightarrow> delta_entry \<Rightarrow> u64 list \<Rightarrow> global_delta \<Rightarrow> global_delta res" where
  "add_loop wal_size e [] g = add_next wal_size e [] g"
| "add_loop wal_size e (s # heap) g =
     res_bind (add_next wal_size e (s # heap) g) (\<lambda>g.
       if s = gd_last_sequence g + 1
       then (case gd_delta_entry_map g s of
               None \<Rightarrow> Inl (UnrecoverableError (''sequence_heap_.top() '' @ nat_digits (unat s) @ '' in delta_entry_map_''))
             | Some e' \<Rightarrow> add_loop wal_size e' heap (g\<lparr>gd_delta_entry_map := (gd_delta_entry_map g)(s := None)\<rparr>))
       else Inr g)"

definition AddDeltaEntry :: "delta_entry \<Rightarrow> i64 \<Rightarrow> global_delta \<Rightarrow> global_delta res" where
  "AddDeltaEntry e wal_size g =
     (let entry_sequence = ce_sequence e
      in if entry_sequence \<noteq> gd_last_sequence g + 1
         then Inr (g\<lparr>gd_sequence_heap := insort entry_sequence (gd_sequence_heap g),
                     gd_delta_entry_map :=
                       (if gd_delta_entry_map g entry_sequence = None then (gd_delta_entry_map g)(entry_sequence \<mapsto> e)
                        else gd_delta_entry_map g)\<rparr>)
         else add_loop wal_size e (gd_sequence_heap g) g)"

definition ReplayDeltaEntry :: "delta_entry \<Rightarrow> global_delta \<Rightarrow> global_delta res" where
  "ReplayDeltaEntry = AddDeltaEntryInner"

text \<open>
  \<^verbatim>\<open>PickFlushEntry\<close>: \<^verbatim>\<open>std::sort\<close> need not keep the order of operations of the same type, so sorting is a parameter.
\<close>

definition PickFlushEntry :: "(delta_op list \<Rightarrow> delta_op list) \<Rightarrow> u64 \<Rightarrow> global_delta \<Rightarrow> delta_entry \<times> global_delta" where
  "PickFlushEntry srt max_commit_ts g =
     (CatalogDeltaEntry_new
        \<lparr>ce_operations := srt (filter (\<lambda>op. \<not> op_commit_ts op \<le> gd_last_full_ckp_ts g) (map snd (gd_delta_ops g))),
         ce_txn_ids := gd_txn_ids g, ce_max_commit_ts := max_commit_ts\<rparr>,
      g\<lparr>gd_delta_ops := [], gd_txn_ids := []\<rparr>)"

section \<open>Delta catalog files\<close>

text \<open>
  \<^verbatim>\<open>Catalog::SaveDeltaCatalog\<close>: nothing is written when there is nothing to write.  The flushing of blocks and indexes
  of the operations is left out.
\<close>

definition SaveDeltaCatalog ::
  "(delta_op list \<Rightarrow> delta_op list) \<Rightarrow> string \<Rightarrow> u64 \<Rightarrow> global_delta \<Rightarrow> ((string \<times> byte list) option \<times> global_delta) res" where
  "SaveDeltaCatalog srt catalog_dir max_commit_ts g =
     (let delta_catalog_path = catalog_dir @ ''/'' @ DeltaCheckpointFilename max_commit_ts;
          (flush_delta_entry, g) = PickFlushEntry srt max_commit_ts g
      in if ce_operations flush_delta_entry = [] then Inr (None, g)
         else res_bind (CatalogDeltaEntry_GetSizeInBytes flush_delta_entry) (\<lambda>exp_size.
              res_bind (CatalogDeltaEntry_WriteAdv flush_delta_entry) (\<lambda>buf.
                let act_size = word_of_nat (length buf) :: i32
                in if exp_size \<noteq> act_size
                   then Inl (UnrecoverableError (''Save delta catalog failed, exp_size: '' @ std_to_string (sint exp_size)
                          @ '', act_size: '' @ std_to_string (sint act_size)))
                   else Inr (Some (delta_catalog_path, buf), g))))"

text \<open>\<^verbatim>\<open>Catalog::LoadFromFileDelta\<close>, on the contents of the file.\<close>

definition LoadFromFileDelta :: "string \<Rightarrow> byte list \<Rightarrow> delta_entry res" where
  "LoadFromFileDelta catalog_path buf =
     (let file_size = word_of_nat (length buf) :: i32
      in if sint file_size < 0 then Inl LengthError
         else
           res_bind (CatalogDeltaEntry_ReadAdv (sint file_size) (take (nat (sint file_size)) buf)) (\<lambda>(catalog_delta_entry, _).
             case catalog_delta_entry of
               None \<Rightarrow> Inl (UnrecoverableError (''Load catalog delta entry failed: '' @ catalog_path))
             | Some e \<Rightarrow>
                 res_bind (CatalogDeltaEntry_GetSizeInBytes e) (\<lambda>n_bytes.
                   if file_size \<noteq> n_bytes then Inl (RecoverableError (''Catalog: '' @ catalog_path @ '' is corrupted''))
                   else Inr e)))"

text \<open>\<^verbatim>\<open>Catalog::LoadFromFiles\<close> from the second step on: the delta files are merged and the operations picked.\<close>

fun replay_files :: "(string \<times> byte list) list \<Rightarrow> u64 \<Rightarrow> global_delta \<Rightarrow> (u64 \<times> global_delta) res" where
  "replay_files [] max_commit_ts g = Inr (max_commit_ts, g)"
| "replay_files ((path, buf) # files) max_commit_ts g =
     res_bind (LoadFromFileDelta path buf) (\<lambda>e.
     res_bind (ReplayDeltaEntry e g) (\<lambda>g.
       replay_files files (max max_commit_ts (ce_max_commit_ts e)) g))"

definition LoadDeltaFiles ::
  "(delta_op list \<Rightarrow> delta_op list) \<Rightarrow> (string \<times> byte list) list \<Rightarrow> global_delta \<Rightarrow> (delta_op list \<times> global_delta) res" where
  "LoadDeltaFiles srt files g =
     res_bind (replay_files files 0 g) (\<lambda>(max_commit_ts, g).
       let (e, g) = PickFlushEntry srt max_commit_ts g in Inr (ce_operations e, g))"

section \<open>The ordered map\<close>

definition omap_ok :: "op_map \<Rightarrow> bool" where
  "omap_ok m \<longleftrightarrow> sorted_wrt (<) (map fst m)"

text \<open>The path \<open>q\<close> is that of something below the entry with the path \<open>p\<close>.\<close>

definition below :: "string \<Rightarrow> string \<Rightarrow> bool" where
  "below p q \<longleftrightarrow> prefix (p @ ''#'') q"

lemma below_trans: "below p q \<Longrightarrow> below q r \<Longrightarrow> below p r"
  unfolding below_def by (auto simp: prefix_def)

lemma below_irrefl [simp]: "\<not> below p p"
  unfolding below_def by (auto simp: prefix_def)

lemma omap_ok_Nil [simp]: "omap_ok []"
  by (simp add: omap_ok_def)

lemma omap_ok_distinct: "omap_ok m \<Longrightarrow> distinct (map fst m)"
  by (simp add: omap_ok_def strict_sorted_iff)

lemma omap_ok_filter: "omap_ok m \<Longrightarrow> omap_ok (filter P m)"
  unfolding omap_ok_def by (induction m) auto

lemma map_of_filter_keys: "map_of (filter (\<lambda>(k, _). P k) m) = map_of m |` {k. P k}"
  by (induction m) (auto simp: restrict_map_def fun_eq_iff)

lemma omap_erase: "omap_ok m \<Longrightarrow> omap_ok (omap_erase k m) \<and> map_of (omap_erase k m) = (map_of m)(k := None)"
  by (auto simp: omap_erase_def omap_ok_filter map_of_filter_keys restrict_map_def fun_eq_iff)

lemma omap_put:
  assumes "omap_ok m"
  shows "omap_ok (omap_put k op m) \<and> map_of (omap_put k op m) = (map_of m)(k \<mapsto> op)"
proof
  show "omap_ok (omap_put k op m)"
    using omap_ok_filter [OF assms]
    by (auto simp: omap_ok_def omap_put_def sorted_wrt_append intro: less_trans)
  show "map_of (omap_put k op m) = (map_of m)(k \<mapsto> op)"
    by (auto simp: omap_put_def map_of_filter_keys restrict_map_def map_add_def fun_eq_iff split: option.split)
qed

lemma std_mismatch_le:
  "e \<le> k \<Longrightarrow>
     (if prefix e k then std_mismatch e k = Inr ([], drop (length e) k)
      else (\<exists>i1 i2. i1 \<noteq> [] \<and> std_mismatch e k = Inr (i1, i2)) \<and> (\<forall>x. e @ x < k))"
proof (induction e arbitrary: k)
  case (Cons c e)
  then obtain d k' where "k = d # k'" by (cases k) auto
  with Cons.prems Cons.IH [of k'] show ?case by (cases "c = d") (auto split: if_splits)
qed simp

lemma prune_loop_filter:
  assumes "omap_ok m" and "\<forall>k\<in>set (map fst m). e \<le> k"
  shows "prune_loop e m = Inr (filter (\<lambda>(k, _). \<not> below e k) m)"
  using assms
proof (induction m)
  case (Cons x m)
  obtain k op where x: "x = (k, op)" by (cases x)
  have m: "prune_loop e m = Inr (filter (\<lambda>(k, _). \<not> below e k) m)"
    using Cons by (simp add: omap_ok_def)
  note mm = std_mismatch_le [of e k]
  show ?case
  proof (cases "prefix e k")
    case True
    then obtain r where "k = e @ r" by (auto simp: prefix_def)
    moreover have "std_mismatch e k = Inr ([], drop (length e) k)" using mm True Cons.prems x by simp
    ultimately show ?thesis using m x by (cases r) (auto simp: below_def)
  next
    case False
    have "\<not> below e k'" if "k' = k \<or> k' \<in> set (map fst m)" for k'
    proof
      assume "below e k'"
      then obtain r where r: "k' = e @ r" by (auto simp: below_def prefix_def)
      then have "k' < k" using mm False Cons.prems x by simp
      then show False using that Cons.prems x by (auto simp: omap_ok_def)
    qed
    then have "\<forall>y\<in>set (x # m). \<not> below e (fst y)" using x by simp
    then have "filter (\<lambda>(k, _). \<not> below e k) (x # m) = x # m" by (simp add: split_def)
    then show ?thesis using mm False Cons.prems x by auto
  qed
qed simp

lemma below_less: "below e k \<Longrightarrow> e < k"
proof -
  have "e < e @ c # r" for c r by (induction e) simp_all
  then show "below e k \<Longrightarrow> e < k" by (auto simp: below_def prefix_def)
qed

lemma PruneOpWithSamePrefix_filter:
  "omap_ok m \<Longrightarrow> PruneOpWithSamePrefix e m = Inr (filter (\<lambda>(k, _). \<not> below e k) m)"
proof (induction m)
  case (Cons x m)
  obtain k op where x: "x = (k, op)" by (cases x)
  show ?case
  proof (cases "k < e")
    case True
    moreover have "\<not> below e k" using below_less [of e k] True by auto
    moreover have "omap_ok m" using Cons.prems by (simp add: omap_ok_def)
    moreover have "PruneOpWithSamePrefix e (x # m) = res_bind (PruneOpWithSamePrefix e m) (\<lambda>r. Inr (x # r))"
      using True x by (cases "prune_loop e (dropWhile (\<lambda>(k, _). k < e) m)") (simp_all add: PruneOpWithSamePrefix_def)
    ultimately show ?thesis using Cons.IH x by simp
  next
    case False
    then have le: "e \<le> k" by simp
    have "\<forall>k'\<in>set (map fst m). k < k'" using Cons.prems x by (simp add: omap_ok_def)
    then have "\<forall>k\<in>set (map fst (x # m)). e \<le> k" using le x by (simp add: order.strict_implies_order order_le_less_trans)
    from prune_loop_filter [OF Cons.prems this] show ?thesis
      using False x by (simp add: PruneOpWithSamePrefix_def)
  qed
qed (simp add: PruneOpWithSamePrefix_def)

lemma prune_below:
  assumes "omap_ok m"
  shows "\<exists>m'. PruneOpWithSamePrefix e m = Inr m' \<and> omap_ok m' \<and> map_of m' = map_of m |` {k. \<not> below e k}"
  using assms by (simp add: PruneOpWithSamePrefix_filter omap_ok_filter map_of_filter_keys)

text \<open>
  C21: \<^verbatim>\<open>PruneOpWithSamePrefix\<close>, which walks the map from the lower bound of the path and stops at the first key the path
  is not a prefix of, removes exactly the operations on entries below the path, and \<^verbatim>\<open>std::mismatch\<close> never runs over the
  end of a shorter key.
\<close>

theorem PruneOpWithSamePrefix_exact:
  assumes "sorted_wrt (<) (map fst m)"
  shows "PruneOpWithSamePrefix e m = Inr (filter (\<lambda>(k, _). \<not> prefix (e @ ''#'') k) m)"
  using PruneOpWithSamePrefix_filter [of m e] assms by (simp only: omap_ok_def below_def)

definition sample_op :: "merge_flag \<Rightarrow> string \<Rightarrow> delta_body \<Rightarrow> delta_op" where
  "sample_op flag encode body =
     \<lparr>op_begin_ts = 1, op_txn_id = 1, op_commit_ts = 2, op_merge_flag = flag, op_encode = encode, op_body = body\<rparr>"

theorem PruneOpWithSamePrefix_exact_witness:
  "PruneOpWithSamePrefix ''#d#t''
     (map (\<lambda>k. (k, sample_op MF_kNew k (AddDBEntryOp ''x''))) [''#d'', ''#d#t'', ''#d#t!'', ''#d#t#0'', ''#d#ta'', ''#e''])
   = Inr (map (\<lambda>k. (k, sample_op MF_kNew k (AddDBEntryOp ''x''))) [''#d'', ''#d#t'', ''#d#t!'', ''#d#ta'', ''#e''])"
  using PruneOpWithSamePrefix_exact [of
      "map (\<lambda>k. (k, sample_op MF_kNew k (AddDBEntryOp ''x''))) [''#d'', ''#d#t'', ''#d#t!'', ''#d#t#0'', ''#d#ta'', ''#e'']"
      "''#d#t''"]
  by (simp add: less_char_def)

section \<open>The abstract catalog\<close>

text \<open>
  An abstract catalog gives for every path the operation its entry was last written by; the flag of the operation, and
  the filter data of segments and blocks, which merging carries along, are forgotten.  A deletion takes with it what is
  below the entry.
\<close>

fun body_filter :: "delta_body \<Rightarrow> string" where
  "body_filter (AddSegmentEntryOp s) = so_segment_filter_binary_data s"
| "body_filter (AddBlockEntryOp b) = bo_block_filter_binary_data b"
| "body_filter _ = []"

fun drop_filter :: "delta_body \<Rightarrow> delta_body" where
  "drop_filter (AddSegmentEntryOp s) = AddSegmentEntryOp (s\<lparr>so_segment_filter_binary_data := []\<rparr>)"
| "drop_filter (AddBlockEntryOp b) = AddBlockEntryOp (b\<lparr>bo_block_filter_binary_data := []\<rparr>)"
| "drop_filter b = b"

definition plain :: "delta_op \<Rightarrow> delta_op" where
  "plain op = op\<lparr>op_merge_flag := MF_kInvalid, op_body := drop_filter (op_body op)\<rparr>"

type_synonym catalog = "string \<rightharpoonup> delta_op"

definition apply_op :: "catalog \<Rightarrow> delta_op \<Rightarrow> catalog" where
  "apply_op C op =
     (let p = op_encode op
      in case op_merge_flag op of
           MF_kDelete \<Rightarrow> C |` {q. q \<noteq> p \<and> \<not> below p q}
         | MF_kDeleteAndNew \<Rightarrow> (C |` {q. \<not> below p q})(p \<mapsto> plain op)
         | _ \<Rightarrow> C(p \<mapsto> plain op))"

definition apply_ops :: "catalog \<Rightarrow> delta_op list \<Rightarrow> catalog" where
  "apply_ops C ops = foldl apply_op C ops"

text \<open>Flags of columns, segment indexes and chunk indexes are overwritten when operations are merged.\<close>

definition flag_overwritten :: "delta_body \<Rightarrow> bool" where
  "flag_overwritten b \<longleftrightarrow>
     body_type b = ADD_COLUMN_ENTRY \<or> body_type b = ADD_SEGMENT_INDEX_ENTRY \<or> body_type b = ADD_CHUNK_INDEX_ENTRY"

definition merged_flag :: "delta_op \<Rightarrow> delta_op \<Rightarrow> merge_flag res" where
  "merged_flag this other =
     (if flag_overwritten (op_body other) then Inr (op_merge_flag other)
      else NextDeleteFlag (op_merge_flag this) (op_merge_flag other))"

lemma Merge_ok:
  assumes "op_type other = op_type this" and "merged_flag this other = Inr flag"
    and "body_filter (op_body this) = [] \<or> body_filter (op_body other) = []"
  obtains merged where "CatalogDeltaOperation_Merge this other = Inr merged" and "plain merged = plain other"
    and "op_merge_flag merged = flag" and "op_type merged = op_type other"
    and "body_filter (op_body merged) = (if body_filter (op_body this) \<noteq> [] then body_filter (op_body this)
           else body_filter (op_body other))"
proof -
  have "\<exists>merged. CatalogDeltaOperation_Merge this other = Inr merged \<and> plain merged = plain other
      \<and> op_merge_flag merged = flag \<and> op_type merged = op_type other
      \<and> body_filter (op_body merged) = (if body_filter (op_body this) \<noteq> [] then body_filter (op_body this)
           else body_filter (op_body other))"
    using assms
    by (cases "op_body this"; cases "op_body other")
      (auto simp: CatalogDeltaOperation_Merge_def merged_flag_def flag_overwritten_def keep_filter_def plain_def)
  then show ?thesis using that by blast
qed

lemma plain_eq: "plain a = plain b \<Longrightarrow> op_encode a = op_encode b \<and> op_commit_ts a = op_commit_ts b"
  by (cases a; cases b) (simp add: plain_def)

section \<open>Merging against the abstract catalog\<close>

text \<open>
  What merged operations \<open>M\<close> make of the catalog \<open>C\<close> they start from: entries below one that is deleted or replaced are
  gone unless there is an operation that puts them back.
\<close>

definition wipes :: "delta_op option \<Rightarrow> bool" where
  "wipes x \<longleftrightarrow> (\<exists>op. x = Some op \<and> (op_merge_flag op = MF_kDelete \<or> op_merge_flag op = MF_kDeleteAndNew))"

definition wiped :: "(string \<rightharpoonup> delta_op) \<Rightarrow> string \<Rightarrow> bool" where
  "wiped M q \<longleftrightarrow> (\<exists>p. below p q \<and> wipes (M p))"

definition orig :: "(string \<rightharpoonup> delta_op) \<Rightarrow> catalog \<Rightarrow> catalog" where
  "orig M C q = (if wiped M q then None else C q)"

definition eff :: "(string \<rightharpoonup> delta_op) \<Rightarrow> catalog \<Rightarrow> catalog" where
  "eff M C q =
     (case M q of
        None \<Rightarrow> orig M C q
      | Some op \<Rightarrow> if op_merge_flag op = MF_kDelete then None else Some (plain op))"

definition flag_fits :: "catalog \<Rightarrow> string \<Rightarrow> delta_op \<Rightarrow> bool" where
  "flag_fits D p op \<longleftrightarrow>
     (if flag_overwritten (op_body op) then op_merge_flag op = MF_kNew \<or> op_merge_flag op = MF_kUpdate
      else op_merge_flag op \<noteq> MF_kInvalid \<and> (op_merge_flag op = MF_kNew \<longleftrightarrow> D p = None))"

definition merge_inv :: "u64 \<Rightarrow> catalog \<Rightarrow> (string \<rightharpoonup> delta_op) \<Rightarrow> bool" where
  "merge_inv lf C M \<longleftrightarrow>
     (\<forall>p op. M p = Some op \<longrightarrow> op_encode op = p \<and> lf < op_commit_ts op \<and> flag_fits (orig M C) p op)"

definition rooted :: "catalog \<Rightarrow> string \<Rightarrow> bool" where
  "rooted C p \<longleftrightarrow> (\<forall>q. below p q \<longrightarrow> C q \<noteq> None \<longrightarrow> C p \<noteq> None)"

lemma eff_put:
  assumes "op_merge_flag op \<noteq> MF_kDelete" and "wipes (Some op) \<longleftrightarrow> wipes (M p)"
  shows "eff (M(p \<mapsto> op)) C = (eff M C)(p \<mapsto> plain op) \<and> orig (M(p \<mapsto> op)) C = orig M C"
proof -
  have "wipes ((M(p \<mapsto> op)) r) = wipes (M r)" for r using assms(2) by (cases "r = p") simp_all
  then have "wiped (M(p \<mapsto> op)) = wiped M" unfolding wiped_def by simp
  then have o: "orig (M(p \<mapsto> op)) C = orig M C" by (simp add: orig_def fun_eq_iff)
  have "eff (M(p \<mapsto> op)) C q = ((eff M C)(p \<mapsto> plain op)) q" for q
    using assms(1) by (cases "q = p") (simp_all add: eff_def o split: option.split)
  with o show ?thesis by blast
qed

definition prune_put :: "(string \<rightharpoonup> delta_op) \<Rightarrow> string \<Rightarrow> delta_op option \<Rightarrow> (string \<rightharpoonup> delta_op)" where
  "prune_put M p x = (M |` {q. \<not> below p q})(p := x)"

lemma prune_put_apply:
  "prune_put M p x q = (if q = p then x else if below p q then None else M q)"
  by (auto simp: prune_put_def restrict_map_def)

lemma wiped_prune_put: "\<not> below p q \<Longrightarrow> wiped (prune_put M p x) q = wiped M q"
proof -
  assume q: "\<not> below p q"
  have "prune_put M p x r = M r" if "below r q" for r
    using that q below_trans [of p r q] by (auto simp: prune_put_apply)
  then show ?thesis by (auto simp: wiped_def)
qed

lemma orig_prune_put: "\<not> below p q \<Longrightarrow> orig (prune_put M p x) C q = orig M C q"
  by (simp add: orig_def wiped_prune_put)

lemma eff_prune_put:
  assumes "wipes x \<or> orig M C p = None" and "rooted C p"
  shows "eff (prune_put M p x) C =
    (eff M C |` {q. \<not> below p q})(p := (case x of None \<Rightarrow> orig M C p
       | Some op \<Rightarrow> if op_merge_flag op = MF_kDelete then None else Some (plain op)))" (is "_ = ?r")
proof
  fix q
  consider "q = p" | "q \<noteq> p" "\<not> below p q" | "q \<noteq> p" "below p q" by blast
  then show "eff (prune_put M p x) C q = ?r q"
  proof cases
    case 1
    then show ?thesis by (simp add: eff_def prune_put_apply orig_prune_put split: option.split)
  next
    case 2
    then show ?thesis by (simp add: eff_def prune_put_apply orig_prune_put split: option.split)
  next
    case 3
    have "orig (prune_put M p x) C q = None"
    proof (rule ccontr)
      assume "orig (prune_put M p x) C q \<noteq> None"
      then have w: "\<not> wiped (prune_put M p x) q" and c: "C q \<noteq> None" by (auto simp: orig_def split: if_splits)
      have "C p \<noteq> None" using assms(2) 3(2) c unfolding rooted_def by blast
      moreover have "\<not> wipes x" using w 3(2) unfolding wiped_def by (metis prune_put_apply)
      moreover have "\<not> wiped (prune_put M p x) p" using w below_trans [OF _ 3(2)] unfolding wiped_def by blast
      then have "orig M C p = C p" using wiped_prune_put [of p p M x] by (simp add: orig_def)
      ultimately show False using assms(1) by simp
    qed
    then show ?thesis using 3 by (simp add: eff_def prune_put_apply)
  qed
qed

definition applicable :: "catalog \<Rightarrow> delta_op \<Rightarrow> bool" where
  "applicable C op \<longleftrightarrow>
     op_encode op \<noteq> [] \<and> op_merge_flag op \<noteq> MF_kInvalid \<and> (op_merge_flag op = MF_kNew \<longleftrightarrow> C (op_encode op) = None)
     \<and> (flag_overwritten (op_body op) \<longrightarrow> op_merge_flag op = MF_kNew \<or> op_merge_flag op = MF_kUpdate)"

text \<open>The operation can be merged with the one recorded for the same path.\<close>

definition compatible :: "(string \<rightharpoonup> delta_op) \<Rightarrow> delta_op \<Rightarrow> bool" where
  "compatible M op \<longleftrightarrow>
     (\<forall>old. M (op_encode op) = Some old \<longrightarrow>
        op_type old = op_type op \<and> (body_filter (op_body old) = [] \<or> body_filter (op_body op) = [])
        \<and> \<not> (op_merge_flag op = MF_kDeleteAndNew \<and> op_merge_flag old = MF_kUpdate))"

lemma prune_put_lists:
  assumes "omap_ok m"
  shows "\<exists>m'. PruneOpWithSamePrefix p (omap_erase p m) = Inr m' \<and> omap_ok m' \<and> map_of m' = prune_put (map_of m) p None"
    and "\<exists>m'. PruneOpWithSamePrefix p (omap_put p op m) = Inr m' \<and> omap_ok m' \<and> map_of m' = prune_put (map_of m) p (Some op)"
    and "\<exists>m'. res_bind (PruneOpWithSamePrefix p m) (\<lambda>m. Inr (omap_put p op m)) = Inr m' \<and> omap_ok m'
           \<and> map_of m' = prune_put (map_of m) p (Some op)"
proof -
  have e: "(f(p := x)) |` {k. \<not> below p k} = prune_put f p x" "(f |` {k. \<not> below p k})(p := x) = prune_put f p x"
    for f :: "string \<rightharpoonup> delta_op" and x
    by (auto simp: prune_put_apply restrict_map_def)
  show "\<exists>m'. PruneOpWithSamePrefix p (omap_erase p m) = Inr m' \<and> omap_ok m' \<and> map_of m' = prune_put (map_of m) p None"
    using prune_below [of "omap_erase p m" p] omap_erase [OF assms, of p] e(1) [of "map_of m" None] by metis
  show "\<exists>m'. PruneOpWithSamePrefix p (omap_put p op m) = Inr m' \<and> omap_ok m' \<and> map_of m' = prune_put (map_of m) p (Some op)"
    using prune_below [of "omap_put p op m" p] omap_put [OF assms, of p op] e(1) [of "map_of m" "Some op"] by metis
  obtain m1 where "PruneOpWithSamePrefix p m = Inr m1" "omap_ok m1" "map_of m1 = map_of m |` {k. \<not> below p k}"
    using prune_below [OF assms] by blast
  then show "\<exists>m'. res_bind (PruneOpWithSamePrefix p m) (\<lambda>m. Inr (omap_put p op m)) = Inr m' \<and> omap_ok m'
           \<and> map_of m' = prune_put (map_of m) p (Some op)"
    using omap_put [of m1 p op] e(2) [of "map_of m" "Some op"] by simp
qed

lemma deprecate_op_simps [simp]:
  "op_encode (deprecate_op op) = op_encode op" "op_body (deprecate_op op) = op_body op"
  "op_commit_ts (deprecate_op op) = op_commit_ts op"
  by (simp_all add: deprecate_op_def split: delta_body.split)

lemma AddDeltaOp_absent:
  assumes "omap_ok m" and "map_of m (op_encode op) = None" and "op_encode op \<noteq> []" and "op_merge_flag (deprecate_op op) \<noteq> MF_kInvalid"
  shows "\<exists>m'. AddDeltaOp lf txn_ids op m = Inr m' \<and> omap_ok m'
    \<and> map_of m' = (if wipes (Some (deprecate_op op)) then prune_put (map_of m) (op_encode op) (Some (deprecate_op op))
                   else (map_of m)(op_encode op \<mapsto> deprecate_op op))"
  using assms prune_put_lists(2) [OF assms(1), of "op_encode op" "deprecate_op op"]
    omap_put [OF assms(1), of "op_encode op" "deprecate_op op"]
  by (cases "op_merge_flag (deprecate_op op)") (simp_all add: AddDeltaOp_def Let_def ToPrune_def wipes_def)

lemma not_stale: "lf < op_commit_ts op \<Longrightarrow> op_commit_ts op \<le> lf \<longleftrightarrow> False"
  by auto

lemma AddDeltaOp_pruned:
  assumes "omap_ok m" and "map_of m (op_encode op) = Some old" and "op_encode op \<noteq> []" and "lf < op_commit_ts old"
    and "op_merge_flag old = MF_kNew" and "op_merge_flag (deprecate_op op) = MF_kDelete"
  shows "\<exists>m'. AddDeltaOp lf txn_ids op m = Inr m' \<and> omap_ok m' \<and> map_of m' = prune_put (map_of m) (op_encode op) None"
  using assms prune_put_lists(1) [OF assms(1), of "op_encode op"]
  by (simp add: AddDeltaOp_def Let_def ToPrune_def not_stale)

lemma AddDeltaOp_merged:
  assumes "omap_ok m" and "map_of m (op_encode op) = Some old" and "op_encode op \<noteq> []" and "lf < op_commit_ts old"
    and "CatalogDeltaOperation_Merge old (deprecate_op op) = Inr merged"
    and "op_merge_flag old \<noteq> MF_kNew \<or> op_merge_flag (deprecate_op op) \<noteq> MF_kDelete"
    and "op_merge_flag old \<noteq> MF_kDelete \<or> \<not> wipes (Some (deprecate_op op))"
    and "op_merge_flag old \<noteq> MF_kInvalid" and "op_merge_flag (deprecate_op op) \<noteq> MF_kInvalid"
  shows "\<exists>m'. AddDeltaOp lf txn_ids op m = Inr m' \<and> omap_ok m'
    \<and> map_of m' = (if wipes (Some (deprecate_op op)) then prune_put (map_of m) (op_encode op) (Some merged)
                   else (map_of m)(op_encode op \<mapsto> merged))"
  using assms prune_put_lists(3) [OF assms(1), of "op_encode op" merged] omap_put [OF assms(1), of "op_encode op" merged]
  by (cases "op_merge_flag (deprecate_op op)"; cases "op_merge_flag old")
    (simp_all add: AddDeltaOp_def Let_def ToPrune_def wipes_def not_stale catch_merge_def)

lemma merge_inv_put:
  assumes "merge_inv lf C M" and "op_merge_flag op \<noteq> MF_kDelete" and "wipes (Some op) \<longleftrightarrow> wipes (M p)"
    and "op_encode op = p" and "lf < op_commit_ts op" and "flag_fits (orig M C) p op"
  shows "merge_inv lf C (M(p \<mapsto> op))"
  using assms eff_put [of op M p C] by (simp add: merge_inv_def)

lemma merge_inv_prune_put:
  assumes "merge_inv lf C M"
    and "\<And>op. x = Some op \<Longrightarrow> op_encode op = p \<and> lf < op_commit_ts op \<and> flag_fits (orig M C) p op"
  shows "merge_inv lf C (prune_put M p x)"
proof -
  have "flag_fits (orig (prune_put M p x) C) q op" if "prune_put M p x q = Some op" for q op
  proof -
    have "\<not> below p q" using that by (auto simp: prune_put_apply split: if_splits)
    then have "orig (prune_put M p x) C q = orig M C q" by (rule orig_prune_put)
    moreover have "flag_fits (orig M C) q op"
      using that assms by (auto simp: prune_put_apply merge_inv_def split: if_splits)
    ultimately show ?thesis by (simp add: flag_fits_def)
  qed
  then show ?thesis
    using assms by (auto simp: merge_inv_def prune_put_apply split: if_splits)
qed

lemma apply_op_put:
  "op_merge_flag op = MF_kNew \<or> op_merge_flag op = MF_kUpdate \<Longrightarrow> apply_op C op = C(op_encode op \<mapsto> plain op)"
  by (auto simp: apply_op_def)

lemma apply_op_wipe:
  "wipes (Some op) \<Longrightarrow> apply_op C op =
     (C |` {q. \<not> below (op_encode op) q})(op_encode op := (if op_merge_flag op = MF_kDelete then None else Some (plain op)))"
  by (auto simp: apply_op_def wipes_def Let_def restrict_map_def fun_eq_iff)

lemma applicable_flags:
  assumes "applicable C op"
  obtains (put) "op_merge_flag op = MF_kNew \<or> op_merge_flag op = MF_kUpdate" "\<not> wipes (Some op)"
  | (wipe) "wipes (Some op)" "\<not> flag_overwritten (op_body op)" "C (op_encode op) \<noteq> None"
      "op_merge_flag op = MF_kDelete \<or> op_merge_flag op = MF_kDeleteAndNew"
  using assms by (cases "op_merge_flag op") (auto simp: applicable_def wipes_def)

lemma merge_step_absent:
  assumes ok: "omap_ok m" and inv: "merge_inv lf C (map_of m)" and app: "applicable (eff (map_of m) C) (deprecate_op op)"
    and root: "rooted C (op_encode op)" and ts: "lf < op_commit_ts op" and absent: "map_of m (op_encode op) = None"
  shows "\<exists>m'. AddDeltaOp lf txn_ids op m = Inr m' \<and> omap_ok m' \<and> merge_inv lf C (map_of m')
    \<and> eff (map_of m') C = apply_op (eff (map_of m) C) (deprecate_op op)
    \<and> (\<forall>q r. map_of m' q = Some r \<longrightarrow> map_of m q = Some r \<or> r = deprecate_op op)"
proof -
  let ?p = "op_encode op" and ?new = "deprecate_op op" and ?M = "map_of m"
  have e: "eff ?M C ?p = orig ?M C ?p" using absent by (simp add: eff_def)
  have fits: "flag_fits (orig ?M C) ?p ?new" using app e by (auto simp: flag_fits_def applicable_def)
  obtain m' where m': "AddDeltaOp lf txn_ids op m = Inr m'" "omap_ok m'"
    "map_of m' = (if wipes (Some ?new) then prune_put ?M ?p (Some ?new) else ?M(?p \<mapsto> ?new))"
    using AddDeltaOp_absent [OF ok absent] app unfolding applicable_def deprecate_op_simps by blast
  have "merge_inv lf C (map_of m') \<and> eff (map_of m') C = apply_op (eff ?M C) ?new"
    using app
  proof (cases rule: applicable_flags)
    case put
    have d: "op_merge_flag ?new \<noteq> MF_kDelete" "wipes (Some ?new) \<longleftrightarrow> wipes (?M ?p)"
      using put absent by (auto simp: wipes_def)
    from eff_put [of ?new ?M ?p C] merge_inv_put [of lf C ?M ?new ?p] inv d put fits ts show ?thesis
      by (simp add: m'(3) apply_op_put)
  next
    case wipe
    have "eff (prune_put ?M ?p (Some ?new)) C = apply_op (eff ?M C) ?new"
      unfolding apply_op_wipe [OF wipe(1)] using eff_prune_put [OF disjI1 [OF wipe(1)] root, of ?M] by simp
    moreover have "merge_inv lf C (prune_put ?M ?p (Some ?new))"
      using fits ts by (intro merge_inv_prune_put [OF inv]) auto
    ultimately show ?thesis using wipe(1) m'(3) by simp
  qed
  moreover have "map_of m' q = Some r \<longrightarrow> ?M q = Some r \<or> r = ?new" for q r
    unfolding m'(3) by (auto simp: prune_put_apply)
  ultimately show ?thesis using m'(1,2) by blast
qed

lemma merged_flag_cases:
  assumes "op_type old = op_type new" and "flag_fits D p old" and "op_merge_flag new \<noteq> MF_kInvalid"
    and "op_merge_flag new = MF_kNew \<longleftrightarrow> op_merge_flag old = MF_kDelete"
    and "flag_overwritten (op_body new) \<longrightarrow> op_merge_flag new = MF_kNew \<or> op_merge_flag new = MF_kUpdate"
    and "\<not> (op_merge_flag new = MF_kDeleteAndNew \<and> op_merge_flag old = MF_kUpdate)"
  obtains (pruned) "op_merge_flag old = MF_kNew" "op_merge_flag new = MF_kDelete"
  | (put) flag where "merged_flag old new = Inr flag" "flag \<noteq> MF_kDelete" "\<not> wipes (Some new)"
      "op_merge_flag new = MF_kNew \<or> op_merge_flag new = MF_kUpdate"
      "flag = MF_kDeleteAndNew \<longleftrightarrow> wipes (Some old)"
      "flag_overwritten (op_body new) \<longrightarrow> flag = MF_kUpdate"
      "\<not> flag_overwritten (op_body new) \<longrightarrow> flag \<noteq> MF_kInvalid \<and> (flag = MF_kNew \<longleftrightarrow> op_merge_flag old = MF_kNew)"
  | (wipe) flag where "merged_flag old new = Inr flag" "wipes (Some new)" "flag = MF_kDelete \<longleftrightarrow> op_merge_flag new = MF_kDelete"
      "flag = MF_kDelete \<or> flag = MF_kDeleteAndNew \<or> op_merge_flag old = MF_kNew" "\<not> flag_overwritten (op_body new)"
      "flag \<noteq> MF_kInvalid" "flag = MF_kNew \<longleftrightarrow> op_merge_flag old = MF_kNew"
      "op_merge_flag old \<noteq> MF_kNew \<or> op_merge_flag new \<noteq> MF_kDelete" "op_merge_flag old \<noteq> MF_kDelete"
proof -
  have "flag_overwritten (op_body old) \<longleftrightarrow> flag_overwritten (op_body new)"
    using assms(1) by (simp add: flag_overwritten_def)
  then show ?thesis
    using assms(2-) that
    by (cases "op_merge_flag old"; cases "op_merge_flag new"; cases "flag_overwritten (op_body new)")
      (simp_all add: merged_flag_def NextDeleteFlag_def wipes_def flag_fits_def)
qed

lemma merge_step_found:
  assumes ok: "omap_ok m" and inv: "merge_inv lf C (map_of m)" and app: "applicable (eff (map_of m) C) (deprecate_op op)"
    and root: "rooted C (op_encode op)" and ts: "lf < op_commit_ts op" and found: "map_of m (op_encode op) = Some old"
    and comp: "compatible (map_of m) (deprecate_op op)"
  shows "\<exists>m'. AddDeltaOp lf txn_ids op m = Inr m' \<and> omap_ok m' \<and> merge_inv lf C (map_of m')
    \<and> eff (map_of m') C = apply_op (eff (map_of m) C) (deprecate_op op)
    \<and> (\<forall>q r. map_of m' q = Some r \<longrightarrow> map_of m q = Some r
         \<or> q = op_encode op \<and> op_type r = op_type op
           \<and> (body_filter (op_body r) = [] \<or> body_filter (op_body r) = body_filter (op_body op)
              \<or> body_filter (op_body r) = body_filter (op_body old)))"
proof -
  let ?p = "op_encode op" and ?new = "deprecate_op op" and ?M = "map_of m"
  have i: "op_encode old = ?p" "lf < op_commit_ts old" "flag_fits (orig ?M C) ?p old"
    using inv found by (auto simp: merge_inv_def)
  have a: "op_merge_flag ?new \<noteq> MF_kInvalid" "op_merge_flag ?new = MF_kNew \<longleftrightarrow> op_merge_flag old = MF_kDelete"
    "flag_overwritten (op_body ?new) \<longrightarrow> op_merge_flag ?new = MF_kNew \<or> op_merge_flag ?new = MF_kUpdate" "?p \<noteq> []"
    using app found by (auto simp: applicable_def eff_def)
  have c: "op_type old = op_type ?new" "body_filter (op_body old) = [] \<or> body_filter (op_body ?new) = []"
    "\<not> (op_merge_flag ?new = MF_kDeleteAndNew \<and> op_merge_flag old = MF_kUpdate)"
    using comp found by (auto simp: compatible_def)
  have old: "op_merge_flag old \<noteq> MF_kInvalid" using i(3) by (auto simp: flag_fits_def split: if_splits)
  show ?thesis
    using c(1) i(3) a(1-3) c(3)
  proof (cases rule: merged_flag_cases)
    case pruned
    then have none: "orig ?M C ?p = None" using i(3) c(1) app by (auto simp: flag_fits_def applicable_def flag_overwritten_def)
    obtain m' where m': "AddDeltaOp lf txn_ids op m = Inr m'" "omap_ok m'" "map_of m' = prune_put ?M ?p None"
      using AddDeltaOp_pruned [OF ok found a(4) i(2) pruned] by blast
    have "wipes (Some ?new)" using pruned by (simp add: wipes_def)
    then have "eff (map_of m') C = apply_op (eff ?M C) ?new"
      using eff_prune_put [of None ?M C ?p] none root pruned by (simp add: m'(3) apply_op_wipe)
    moreover have "merge_inv lf C (map_of m')" unfolding m'(3) by (rule merge_inv_prune_put [OF inv]) simp
    moreover have "map_of m' q = Some r \<longrightarrow> ?M q = Some r" for q r unfolding m'(3) by (simp add: prune_put_apply)
    ultimately show ?thesis using m'(1,2) by blast
  next
    case (put flag)
    obtain r where r: "CatalogDeltaOperation_Merge old ?new = Inr r" "plain r = plain ?new" "op_merge_flag r = flag"
      "op_type r = op_type ?new" "body_filter (op_body r) = (if body_filter (op_body old) \<noteq> [] then body_filter (op_body old)
           else body_filter (op_body ?new))"
      using Merge_ok [OF c(1) [symmetric] put(1) c(2)] by blast
    obtain m' where m': "AddDeltaOp lf txn_ids op m = Inr m'" "omap_ok m'" "map_of m' = ?M(?p \<mapsto> r)"
      using AddDeltaOp_merged [OF ok found a(4) i(2) r(1) _ _ old a(1), of txn_ids] put(3,4) by auto
    have d: "op_merge_flag r \<noteq> MF_kDelete" "wipes (Some r) \<longleftrightarrow> wipes (?M ?p)"
      using put found r(3) by (auto simp: wipes_def)
    have e: "op_encode r = ?p" "lf < op_commit_ts r" using plain_eq [OF r(2)] ts by auto
    have "flag_fits (orig ?M C) ?p r"
      using i(3) put(6,7) r(3,4) c(1) by (auto simp: flag_fits_def flag_overwritten_def split: if_splits)
    then have "merge_inv lf C (map_of m')" unfolding m'(3) using merge_inv_put [of lf C ?M r ?p] inv d e by blast
    moreover have "eff (map_of m') C = apply_op (eff ?M C) ?new"
      using eff_put [of r ?M ?p C] d put(4) r(2) by (simp add: m'(3) apply_op_put)
    moreover have "map_of m' q = Some s \<longrightarrow> ?M q = Some s \<or> q = ?p \<and> s = r" for q s by (simp add: m'(3))
    ultimately show ?thesis using m'(1,2) r(4,5) by (metis deprecate_op_simps(2))
  next
    case (wipe flag)
    obtain r where r: "CatalogDeltaOperation_Merge old ?new = Inr r" "plain r = plain ?new" "op_merge_flag r = flag"
      "op_type r = op_type ?new" "body_filter (op_body r) = (if body_filter (op_body old) \<noteq> [] then body_filter (op_body old)
           else body_filter (op_body ?new))"
      using Merge_ok [OF c(1) [symmetric] wipe(1) c(2)] by blast
    obtain m' where m': "AddDeltaOp lf txn_ids op m = Inr m'" "omap_ok m'" "map_of m' = prune_put ?M ?p (Some r)"
      using AddDeltaOp_merged [OF ok found a(4) i(2) r(1) wipe(8) _ old a(1), of txn_ids] wipe(2,9) by auto
    have e: "op_encode r = ?p" "lf < op_commit_ts r" using plain_eq [OF r(2)] ts by auto
    have ow: "\<not> flag_overwritten (op_body old)" "\<not> flag_overwritten (op_body r)"
      using wipe(5) c(1) r(4) by (simp_all add: flag_overwritten_def)
    have "wipes (Some r) \<or> orig ?M C ?p = None"
      using wipe(4) r(3) i(3) ow by (auto simp: wipes_def flag_fits_def)
    from eff_prune_put [OF this root] have "eff (map_of m') C = apply_op (eff ?M C) ?new"
      using wipe(3) r(2,3) by (simp add: m'(3) apply_op_wipe [OF wipe(2)])
    moreover have "flag_fits (orig ?M C) ?p r" using wipe(6,7) i(3) ow r(3) by (simp add: flag_fits_def)
    then have "merge_inv lf C (map_of m')" unfolding m'(3) using e by (intro merge_inv_prune_put [OF inv]) auto
    moreover have "map_of m' q = Some s \<longrightarrow> ?M q = Some s \<or> q = ?p \<and> s = r" for q s
      unfolding m'(3) by (auto simp: prune_put_apply)
    ultimately show ?thesis using m'(1,2) r(4,5) by (metis deprecate_op_simps(2))
  qed
qed

text \<open>
  Operations on the same path are of the same type, and at most one of them carries filter data; \<open>fits\<close> says this also
  for the operations recorded so far.
\<close>

definition same_entry :: "delta_op \<Rightarrow> delta_op \<Rightarrow> bool" where
  "same_entry a b \<longleftrightarrow>
     (op_encode a = op_encode b \<longrightarrow>
        op_type a = op_type b \<and> (body_filter (op_body a) = [] \<or> body_filter (op_body b) = []))"

definition fits :: "(string \<rightharpoonup> delta_op) \<Rightarrow> delta_op list \<Rightarrow> bool" where
  "fits M ops \<longleftrightarrow>
     sorted_wrt same_entry ops
     \<and> (\<forall>op\<in>set ops. \<forall>old. M (op_encode op) = Some old \<longrightarrow>
          op_type old = op_type op \<and> (body_filter (op_body old) = [] \<or> body_filter (op_body op) = []))"

fun consistent :: "catalog \<Rightarrow> delta_op list \<Rightarrow> bool" where
  "consistent C [] \<longleftrightarrow> True"
| "consistent C (op # ops) \<longleftrightarrow> applicable C op \<and> consistent (apply_op C op) ops"

definition proper_op :: "u64 \<Rightarrow> catalog \<Rightarrow> delta_op \<Rightarrow> bool" where
  "proper_op lf C op \<longleftrightarrow> rooted C (op_encode op) \<and> lf < op_commit_ts op \<and> op_merge_flag op \<noteq> MF_kDeleteAndNew"

lemma merge_step:
  assumes ok: "omap_ok m" and inv: "merge_inv lf C (map_of m)" and app: "applicable (eff (map_of m) C) (deprecate_op op)"
    and proper: "proper_op lf C op" and fits: "fits (map_of m) (op # ops)"
  shows "\<exists>m'. AddDeltaOp lf txn_ids op m = Inr m' \<and> omap_ok m' \<and> merge_inv lf C (map_of m')
    \<and> eff (map_of m') C = apply_op (eff (map_of m) C) (deprecate_op op) \<and> fits (map_of m') ops
    \<and> (\<forall>q r. map_of m' q = Some r \<longrightarrow> map_of m q = Some r \<or> q = op_encode op \<and> op_type r = op_type op)"
proof -
  have p: "rooted C (op_encode op)" "lf < op_commit_ts op" using proper by (simp_all add: proper_op_def)
  have "op_merge_flag (deprecate_op op) \<noteq> MF_kDeleteAndNew"
    using proper by (auto simp: proper_op_def deprecate_op_def split: delta_body.split)
  then have comp: "compatible (map_of m) (deprecate_op op)" using fits by (auto simp: compatible_def fits_def)
  have "\<exists>m'. AddDeltaOp lf txn_ids op m = Inr m' \<and> omap_ok m' \<and> merge_inv lf C (map_of m')
    \<and> eff (map_of m') C = apply_op (eff (map_of m) C) (deprecate_op op)
    \<and> (\<forall>q r. map_of m' q = Some r \<longrightarrow> map_of m q = Some r
         \<or> q = op_encode op \<and> op_type r = op_type op
           \<and> (body_filter (op_body r) = [] \<or> body_filter (op_body r) = body_filter (op_body op)
              \<or> (\<exists>old. map_of m q = Some old \<and> body_filter (op_body r) = body_filter (op_body old))))"
  proof (cases "map_of m (op_encode op)")
    case None
    obtain m' where m': "AddDeltaOp lf txn_ids op m = Inr m'" "omap_ok m'" "merge_inv lf C (map_of m')"
      "eff (map_of m') C = apply_op (eff (map_of m) C) (deprecate_op op)"
      "\<forall>q r. map_of m' q = Some r \<longrightarrow> map_of m q = Some r \<or> r = deprecate_op op"
      using merge_step_absent [OF ok inv app p None, of txn_ids] by blast
    have "map_of m q = Some r \<or> q = op_encode op \<and> op_type r = op_type op \<and> body_filter (op_body r) = body_filter (op_body op)"
      if qr: "map_of m' q = Some r" for q r
    proof -
      have "map_of m q = Some r \<or> r = deprecate_op op" "op_encode r = q" using m'(3,5) qr by (simp_all add: merge_inv_def)
      then show ?thesis by auto
    qed
    then show ?thesis using m'(1-4) by blast
  next
    case (Some old)
    then show ?thesis using merge_step_found [OF ok inv app p Some comp, of txn_ids] by (elim exE conjE, intro exI conjI) auto
  qed
  then obtain m' where m': "AddDeltaOp lf txn_ids op m = Inr m'" "omap_ok m'" "merge_inv lf C (map_of m')"
    "eff (map_of m') C = apply_op (eff (map_of m) C) (deprecate_op op)"
    and keys: "\<And>q r. map_of m' q = Some r \<Longrightarrow> map_of m q = Some r
         \<or> q = op_encode op \<and> op_type r = op_type op
           \<and> (body_filter (op_body r) = [] \<or> body_filter (op_body r) = body_filter (op_body op)
              \<or> (\<exists>old. map_of m q = Some old \<and> body_filter (op_body r) = body_filter (op_body old)))"
    by blast
  have "op_type r = op_type b \<and> (body_filter (op_body r) = [] \<or> body_filter (op_body b) = [])"
    if "b \<in> set ops" "map_of m' (op_encode b) = Some r" for b r
    using keys [OF that(2)]
  proof (elim disjE conjE exE)
    assume "map_of m (op_encode b) = Some r"
    then show ?thesis using fits that(1) by (simp add: fits_def)
  next
    assume "op_encode b = op_encode op" "op_type r = op_type op" "body_filter (op_body r) = []"
    then show ?thesis using fits that(1) by (simp add: fits_def same_entry_def)
  next
    assume "op_encode b = op_encode op" "op_type r = op_type op" "body_filter (op_body r) = body_filter (op_body op)"
    then show ?thesis using fits that(1) by (simp add: fits_def same_entry_def)
  next
    fix old
    assume "op_encode b = op_encode op" "op_type r = op_type op" "map_of m (op_encode b) = Some old"
      "body_filter (op_body r) = body_filter (op_body old)"
    then show ?thesis using fits that(1) by (simp add: fits_def same_entry_def)
  qed
  then have "fits (map_of m') ops" using fits by (simp add: fits_def)
  then show ?thesis using m' keys by blast
qed

lemma AddDeltaOps_refines:
  assumes "omap_ok m" and "merge_inv lf C (map_of m)" and "consistent (eff (map_of m) C) (map deprecate_op ops)"
    and "list_all (proper_op lf C) ops" and "fits (map_of m) (ops @ rest)"
  shows "\<exists>m'. AddDeltaOps lf txn_ids ops m = Inr m' \<and> omap_ok m' \<and> merge_inv lf C (map_of m')
    \<and> eff (map_of m') C = apply_ops (eff (map_of m) C) (map deprecate_op ops) \<and> fits (map_of m') rest
    \<and> (\<forall>q r. map_of m' q = Some r \<longrightarrow> map_of m q = Some r \<or> (\<exists>op\<in>set ops. op_encode op = q \<and> op_type op = op_type r))"
  using assms
proof (induction ops arbitrary: m)
  case (Cons op ops)
  have "applicable (eff (map_of m) C) (deprecate_op op)" "proper_op lf C op" "fits (map_of m) (op # ops @ rest)"
    using Cons.prems by simp_all
  from merge_step [OF Cons.prems(1,2) this, of txn_ids]
  obtain m1 where m1: "AddDeltaOp lf txn_ids op m = Inr m1" "omap_ok m1" "merge_inv lf C (map_of m1)"
    "eff (map_of m1) C = apply_op (eff (map_of m) C) (deprecate_op op)" "fits (map_of m1) (ops @ rest)"
    "\<forall>q r. map_of m1 q = Some r \<longrightarrow> map_of m q = Some r \<or> q = op_encode op \<and> op_type r = op_type op" by blast
  have "consistent (eff (map_of m1) C) (map deprecate_op ops)" "list_all (proper_op lf C) ops"
    using Cons.prems(3,4) m1(4) by simp_all
  from Cons.IH [OF m1(2,3) this m1(5)]
  obtain m' where m': "AddDeltaOps lf txn_ids ops m1 = Inr m'" "omap_ok m'" "merge_inv lf C (map_of m')"
    "eff (map_of m') C = apply_ops (eff (map_of m1) C) (map deprecate_op ops)" "fits (map_of m') rest"
    "\<forall>q r. map_of m' q = Some r \<longrightarrow> map_of m1 q = Some r \<or> (\<exists>op\<in>set ops. op_encode op = q \<and> op_type op = op_type r)"
    by blast
  have "AddDeltaOps lf txn_ids (op # ops) m = Inr m'" using m1(1) m'(1) by simp
  moreover have "eff (map_of m') C = apply_ops (eff (map_of m) C) (map deprecate_op (op # ops))"
    using m1(4) m'(4) by (simp add: apply_ops_def)
  moreover have "map_of m' q = Some r \<longrightarrow> map_of m q = Some r
      \<or> (\<exists>op\<in>set (op # ops). op_encode op = q \<and> op_type op = op_type r)" for q r
    using m1(6) m'(6) by (metis list.set_intros)
  ultimately show ?case using m'(2,3,5) by blast
qed (simp add: apply_ops_def)

section \<open>Applying the picked operations\<close>

definition op_rank :: "delta_op \<Rightarrow> int" where
  "op_rank op = sint (CatalogDeltaOpType_num (op_type op))"

text \<open>What \<^verbatim>\<open>std::sort\<close> promises.\<close>

definition sorts_by_type :: "(delta_op list \<Rightarrow> delta_op list) \<Rightarrow> bool" where
  "sorts_by_type srt \<longleftrightarrow>
     (\<forall>ops. mset (srt ops) = mset ops \<and> sorted_wrt (\<lambda>a b. op_rank a \<le> op_rank b) (srt ops))"

definition top_down :: "delta_op list \<Rightarrow> bool" where
  "top_down ops \<longleftrightarrow> (\<forall>a\<in>set ops. \<forall>b\<in>set ops. below (op_encode a) (op_encode b) \<longrightarrow> op_rank a < op_rank b)"

definition ops_map :: "delta_op list \<Rightarrow> (string \<rightharpoonup> delta_op)" where
  "ops_map ops = map_of (map (\<lambda>op. (op_encode op, op)) ops)"

lemma ops_map_None: "ops_map ops p = None \<longleftrightarrow> p \<notin> op_encode ` set ops"
  by (auto simp: ops_map_def map_of_eq_None_iff image_iff)

lemma ops_map_snoc:
  "op_encode op \<notin> op_encode ` set ops \<Longrightarrow> ops_map (ops @ [op]) = (ops_map ops)(op_encode op \<mapsto> op)"
proof -
  assume "op_encode op \<notin> op_encode ` set ops"
  then have "ops_map ops (op_encode op) = None" by (simp add: ops_map_None)
  then show ?thesis by (auto simp: ops_map_def fun_eq_iff map_add_def split: option.split)
qed

lemma apply_ops_eff:
  assumes "distinct (map op_encode ops)" and "sorted_wrt (\<lambda>a b. \<not> below (op_encode b) (op_encode a)) ops"
    and "\<forall>op\<in>set ops. op_merge_flag op \<noteq> MF_kInvalid \<and> rooted C (op_encode op)"
  shows "apply_ops C ops = eff (ops_map ops) C"
  using assms
proof (induction ops rule: rev_induct)
  case Nil
  then show ?case by (auto simp: apply_ops_def ops_map_def eff_def orig_def wiped_def wipes_def)
next
  case (snoc op ops)
  let ?p = "op_encode op" and ?M = "ops_map ops"
  have IH: "apply_ops C ops = eff ?M C" using snoc by (simp add: sorted_wrt_append)
  have fresh: "?p \<notin> op_encode ` set ops" using snoc.prems(1) by auto
  then have none: "?M ?p = None" by (simp add: ops_map_None)
  have sub: "?M q = None" if "below ?p q" for q
    using snoc.prems(2) that by (auto simp: sorted_wrt_append ops_map_None)
  have ap: "apply_ops C (ops @ [op]) = apply_op (eff ?M C) op" by (simp add: apply_ops_def flip: IH)
  show ?case
  proof (cases "wipes (Some op)")
    case True
    have "?M(?p \<mapsto> op) = prune_put ?M ?p (Some op)" using sub by (auto simp: fun_eq_iff prune_put_apply)
    moreover have "rooted C ?p" using snoc.prems(3) by simp
    from eff_prune_put [OF disjI1 [OF True] this, of ?M]
    have "eff (prune_put ?M ?p (Some op)) C = apply_op (eff ?M C) op"
      unfolding apply_op_wipe [OF True] by simp
    ultimately show ?thesis by (simp add: ap ops_map_snoc [OF fresh])
  next
    case False
    then have f: "op_merge_flag op = MF_kNew \<or> op_merge_flag op = MF_kUpdate"
      using snoc.prems(3) by (cases "op_merge_flag op") (auto simp: wipes_def)
    moreover have "op_merge_flag op \<noteq> MF_kDelete" using f by auto
    moreover have "wipes (Some op) \<longleftrightarrow> wipes (?M ?p)" using False none by (simp add: wipes_def)
    ultimately have "eff (?M(?p \<mapsto> op)) C = apply_op (eff ?M C) op" unfolding apply_op_put [OF f] using eff_put [of op ?M ?p C] by blast
    then show ?thesis by (simp only: ap ops_map_snoc [OF fresh])
  qed
qed

lemma apply_picked:
  assumes ok: "omap_ok m" and inv: "merge_inv lf C (map_of m)" and srt: "sorts_by_type srt"
    and root: "\<forall>p\<in>dom (map_of m). rooted C p" and down: "top_down (map snd m)"
  shows "apply_ops C (srt (filter (\<lambda>op. \<not> op_commit_ts op \<le> lf) (map snd m))) = eff (map_of m) C"
proof -
  have d: "distinct (map fst m)" using ok by (rule omap_ok_distinct)
  have el: "op_encode op = p \<and> lf < op_commit_ts op \<and> op_merge_flag op \<noteq> MF_kInvalid \<and> rooted C p" if "(p, op) \<in> set m" for p op
  proof -
    have "map_of m p = Some op" using d that by simp
    moreover from this have "op_encode op = p \<and> lf < op_commit_ts op" "flag_fits (orig (map_of m) C) p op"
      using inv by (simp_all add: merge_inv_def)
    moreover from this have "op_merge_flag op \<noteq> MF_kInvalid" by (auto simp: flag_fits_def split: if_splits)
    ultimately show ?thesis using root by blast
  qed
  then have "filter (\<lambda>op. \<not> op_commit_ts op \<le> lf) (map snd m) = map snd m" by (intro filter_True) (auto simp: not_le)
  moreover have ks: "map (\<lambda>op. (op_encode op, op)) (map snd m) = m" using el by (induction m) auto
  then have enc: "map op_encode (map snd m) = map fst m" using el by (induction m) auto
  let ?s = "srt (map snd m)"
  have s: "mset ?s = mset (map snd m)" "sorted_wrt (\<lambda>a b. op_rank a \<le> op_rank b) ?s" using srt by (simp_all add: sorts_by_type_def)
  have ss: "set ?s = set (map snd m)" using s(1) by (metis set_mset_mset)
  have ms: "mset (map op_encode ?s) = mset (map op_encode (map snd m))" unfolding mset_map s(1) ..
  have ds: "distinct (map op_encode ?s)"
    using d mset_eq_imp_distinct_iff [OF ms] unfolding enc by simp
  have "ops_map ?s = map_of m"
  proof -
    have "map_of (map (\<lambda>op. (op_encode op, op)) ?s) = map_of (map (\<lambda>op. (op_encode op, op)) (map snd m))"
    proof (rule map_of_inject_set [THEN iffD2])
      show "distinct (map fst (map (\<lambda>op. (op_encode op, op)) ?s))" using ds by (simp add: o_def)
      show "distinct (map fst (map (\<lambda>op. (op_encode op, op)) (map snd m)))" unfolding ks by (rule d)
    qed (simp only: set_map ss)
    then show ?thesis unfolding ks by (simp add: ops_map_def)
  qed
  moreover have "apply_ops C ?s = eff (ops_map ?s) C"
  proof (rule apply_ops_eff [OF ds])
    show "sorted_wrt (\<lambda>a b. \<not> below (op_encode b) (op_encode a)) ?s"
    proof (rule sorted_wrt_mono_rel [OF _ s(2)])
      fix a b assume "a \<in> set ?s" "b \<in> set ?s" "op_rank a \<le> op_rank b"
      then show "\<not> below (op_encode b) (op_encode a)" using down unfolding top_down_def ss by (meson not_le)
    qed
    show "\<forall>op\<in>set ?s. op_merge_flag op \<noteq> MF_kInvalid \<and> rooted C (op_encode op)" using el ss by auto
  qed
  ultimately show ?thesis by simp
qed

section \<open>Merging entries\<close>

fun AddDeltaEntries :: "delta_entry list \<Rightarrow> global_delta \<Rightarrow> global_delta res" where
  "AddDeltaEntries [] g = Inr g"
| "AddDeltaEntries (e # es) g = res_bind (AddDeltaEntryInner e g) (AddDeltaEntries es)"

definition entry_ops :: "delta_entry list \<Rightarrow> delta_op list" where
  "entry_ops es = concat (map ce_operations es)"

lemma entry_ops_simps [simp]: "entry_ops [] = []" "entry_ops (e # es) = ce_operations e @ entry_ops es"
  by (simp_all add: entry_ops_def)

lemma consistent_append: "consistent C (xs @ ys) \<longleftrightarrow> consistent C xs \<and> consistent (apply_ops C xs) ys"
  by (induction xs arbitrary: C) (simp_all add: apply_ops_def)

lemma apply_ops_append: "apply_ops C (xs @ ys) = apply_ops (apply_ops C xs) ys"
  by (simp add: apply_ops_def)

lemma AddDeltaEntries_refines:
  assumes "omap_ok (gd_delta_ops g)" and "merge_inv (gd_last_full_ckp_ts g) C (map_of (gd_delta_ops g))"
    and "consistent (eff (map_of (gd_delta_ops g)) C) (map deprecate_op (entry_ops es))"
    and "list_all (proper_op (gd_last_full_ckp_ts g) C) (entry_ops es)" and "fits (map_of (gd_delta_ops g)) (entry_ops es)"
    and "sorted (gd_max_commit_ts g # map ce_max_commit_ts es)" and "UNCOMMIT_TS \<notin> set (map ce_max_commit_ts es)"
  shows "\<exists>g'. AddDeltaEntries es g = Inr g' \<and> omap_ok (gd_delta_ops g')
    \<and> gd_last_full_ckp_ts g' = gd_last_full_ckp_ts g \<and> merge_inv (gd_last_full_ckp_ts g) C (map_of (gd_delta_ops g'))
    \<and> eff (map_of (gd_delta_ops g')) C = apply_ops (eff (map_of (gd_delta_ops g)) C) (map deprecate_op (entry_ops es))
    \<and> (\<forall>q r. map_of (gd_delta_ops g') q = Some r \<longrightarrow> map_of (gd_delta_ops g) q = Some r
         \<or> (\<exists>op\<in>set (entry_ops es). op_encode op = q \<and> op_type op = op_type r))"
  using assms
proof (induction es arbitrary: g)
  case (Cons e es)
  let ?lf = "gd_last_full_ckp_ts g"
  have "consistent (eff (map_of (gd_delta_ops g)) C) (map deprecate_op (ce_operations e))"
    "list_all (proper_op ?lf C) (ce_operations e)" "fits (map_of (gd_delta_ops g)) (ce_operations e @ entry_ops es)"
    using Cons.prems by (simp_all add: consistent_append)
  from AddDeltaOps_refines [OF Cons.prems(1,2) this, of "ce_txn_ids e"]
  obtain m where m: "AddDeltaOps ?lf (ce_txn_ids e) (ce_operations e) (gd_delta_ops g) = Inr m" "omap_ok m"
    "merge_inv ?lf C (map_of m)" "fits (map_of m) (entry_ops es)"
    "eff (map_of m) C = apply_ops (eff (map_of (gd_delta_ops g)) C) (map deprecate_op (ce_operations e))"
    "\<forall>q r. map_of m q = Some r \<longrightarrow> map_of (gd_delta_ops g) q = Some r
       \<or> (\<exists>op\<in>set (ce_operations e). op_encode op = q \<and> op_type op = op_type r)" by blast
  define g1 where "g1 = g\<lparr>gd_max_commit_ts := ce_max_commit_ts e, gd_delta_ops := m,
      gd_txn_ids := fold List.insert (ce_txn_ids e) (gd_txn_ids g)\<rparr>"
  have g1: "AddDeltaEntryInner e g = Inr g1"
    using m(1) Cons.prems(6,7) by (auto simp: AddDeltaEntryInner_def g1_def Let_def)
  have f: "gd_delta_ops g1 = m" "gd_last_full_ckp_ts g1 = ?lf" "gd_max_commit_ts g1 = ce_max_commit_ts e"
    by (simp_all add: g1_def)
  have "\<exists>g'. AddDeltaEntries es g1 = Inr g' \<and> omap_ok (gd_delta_ops g')
    \<and> gd_last_full_ckp_ts g' = gd_last_full_ckp_ts g1 \<and> merge_inv (gd_last_full_ckp_ts g1) C (map_of (gd_delta_ops g'))
    \<and> eff (map_of (gd_delta_ops g')) C = apply_ops (eff (map_of (gd_delta_ops g1)) C) (map deprecate_op (entry_ops es))
    \<and> (\<forall>q r. map_of (gd_delta_ops g') q = Some r \<longrightarrow> map_of (gd_delta_ops g1) q = Some r
         \<or> (\<exists>op\<in>set (entry_ops es). op_encode op = q \<and> op_type op = op_type r))"
    by (rule Cons.IH) (use m Cons.prems in \<open>simp_all add: f consistent_append\<close>)
  then obtain g' where g': "AddDeltaEntries es g1 = Inr g'" "omap_ok (gd_delta_ops g')" "gd_last_full_ckp_ts g' = ?lf"
    "merge_inv ?lf C (map_of (gd_delta_ops g'))"
    "eff (map_of (gd_delta_ops g')) C = apply_ops (eff (map_of m) C) (map deprecate_op (entry_ops es))"
    "\<forall>q r. map_of (gd_delta_ops g') q = Some r \<longrightarrow> map_of m q = Some r
         \<or> (\<exists>op\<in>set (entry_ops es). op_encode op = q \<and> op_type op = op_type r)" unfolding f by blast
  have "map_of (gd_delta_ops g') q = Some r \<longrightarrow> map_of (gd_delta_ops g) q = Some r
         \<or> (\<exists>op\<in>set (entry_ops (e # es)). op_encode op = q \<and> op_type op = op_type r)" for q r
    using g'(6) m(6) unfolding entry_ops_simps set_append by blast
  moreover have "AddDeltaEntries (e # es) g = Inr g'" using g1 g'(1) by simp
  moreover have "eff (map_of (gd_delta_ops g')) C
      = apply_ops (eff (map_of (gd_delta_ops g)) C) (map deprecate_op (entry_ops (e # es)))"
    using g'(5) m(5) by (simp add: apply_ops_append)
  ultimately show ?case using g'(2-4) by blast
qed (simp add: apply_ops_def)

text \<open>The operations of transactions that are committed one after the other against the catalog \<open>C\<close>.\<close>

definition proper_history :: "u64 \<Rightarrow> catalog \<Rightarrow> delta_op list \<Rightarrow> bool" where
  "proper_history lf C ops \<longleftrightarrow>
     consistent C (map deprecate_op ops) \<and> list_all (proper_op lf C) ops \<and> sorted_wrt same_entry ops \<and> top_down ops"

lemma eff_empty: "eff Map.empty C = C"
  by (simp add: eff_def orig_def wiped_def wipes_def fun_eq_iff)

lemma merge_history:
  assumes hist: "proper_history (gd_last_full_ckp_ts g) C (entry_ops es)" and empty: "gd_delta_ops g = []"
    and ord: "sorted (gd_max_commit_ts g # map ce_max_commit_ts es)" and com: "UNCOMMIT_TS \<notin> set (map ce_max_commit_ts es)"
    and srt: "sorts_by_type srt"
  shows "\<exists>g'. AddDeltaEntries es g = Inr g' \<and> omap_ok (gd_delta_ops g')
    \<and> gd_last_full_ckp_ts g' = gd_last_full_ckp_ts g \<and> merge_inv (gd_last_full_ckp_ts g) C (map_of (gd_delta_ops g'))
    \<and> top_down (map snd (gd_delta_ops g')) \<and> (\<forall>p\<in>dom (map_of (gd_delta_ops g')). rooted C p)
    \<and> apply_ops C (ce_operations (fst (PickFlushEntry srt ts g'))) = apply_ops C (map deprecate_op (entry_ops es))"
proof -
  let ?lf = "gd_last_full_ckp_ts g"
  have h: "consistent C (map deprecate_op (entry_ops es))" "list_all (proper_op ?lf C) (entry_ops es)"
    "sorted_wrt same_entry (entry_ops es)" "top_down (entry_ops es)" using hist by (simp_all add: proper_history_def)
  have "fits Map.empty (entry_ops es)" using h(3) by (simp add: fits_def)
  then obtain g' where g': "AddDeltaEntries es g = Inr g'" "omap_ok (gd_delta_ops g')" "gd_last_full_ckp_ts g' = ?lf"
    "merge_inv ?lf C (map_of (gd_delta_ops g'))"
    "eff (map_of (gd_delta_ops g')) C = apply_ops C (map deprecate_op (entry_ops es))"
    "\<forall>q r. map_of (gd_delta_ops g') q = Some r \<longrightarrow> (\<exists>op\<in>set (entry_ops es). op_encode op = q \<and> op_type op = op_type r)"
    using AddDeltaEntries_refines [of g C es] h(1,2) ord com by (auto simp: empty eff_empty merge_inv_def)
  have root: "\<forall>p\<in>dom (map_of (gd_delta_ops g')). rooted C p"
    using g'(6) h(2) by (force simp: list_all_iff proper_op_def)
  have key: "\<exists>op\<in>set (entry_ops es). op_encode op = op_encode a \<and> op_rank op = op_rank a" if a: "a \<in> set (map snd (gd_delta_ops g'))" for a
  proof -
    obtain p where "(p, a) \<in> set (gd_delta_ops g')" using a by auto
    then have "map_of (gd_delta_ops g') p = Some a" using omap_ok_distinct [OF g'(2)] by simp
    then show ?thesis using g'(4,6) unfolding merge_inv_def op_rank_def by metis
  qed
  have down: "top_down (map snd (gd_delta_ops g'))"
    using key h(4) unfolding top_down_def by metis
  from apply_picked [OF g'(2,4) srt root down] g'(3,5)
  have "apply_ops C (ce_operations (fst (PickFlushEntry srt ts g'))) = apply_ops C (map deprecate_op (entry_ops es))"
    by (simp add: PickFlushEntry_def)
  then show ?thesis using g' root down by blast
qed


definition sample_table :: delta_body where
  "sample_table = AddTableEntryOp ''dir'' [] 0 0 1"

definition sample_segment :: delta_body where
  "sample_segment =
     AddSegmentEntryOp \<lparr>so_status = SS_kUnsealed, so_column_count = 1, so_row_count = 0, so_actual_row_count = 0,
       so_row_capacity = 8, so_min_row_ts = 0, so_max_row_ts = 0, so_first_delete_ts = 0, so_deprecate_ts = 0,
       so_segment_filter_binary_data = []\<rparr>"

definition sample_base :: catalog where
  "sample_base =
     [''#d'' \<mapsto> plain (sample_op MF_kNew ''#d'' (AddDBEntryOp ''dir'')),
      ''#d#t'' \<mapsto> plain (sample_op MF_kNew ''#d#t'' sample_table),
      ''#d#t#0'' \<mapsto> plain (sample_op MF_kNew ''#d#t#0'' sample_segment)]"

text \<open>One table is updated, dropped and created again, another one created and dropped.\<close>

definition sample_entry :: "u64 \<Rightarrow> delta_op list \<Rightarrow> delta_entry" where
  "sample_entry n ops = \<lparr>ce_txn_ids = [n], ce_max_commit_ts = n + 1, ce_sequence = n, ce_operations = ops\<rparr>"

definition sample_entries :: "delta_entry list" where
  "sample_entries =
     [sample_entry 1 [sample_op MF_kUpdate ''#d#t'' sample_table, sample_op MF_kNew ''#d#u'' sample_table,
        sample_op MF_kNew ''#d#u#0'' sample_segment],
      sample_entry 2 [sample_op MF_kDelete ''#d#t'' sample_table],
      sample_entry 3 [sample_op MF_kNew ''#d#t'' sample_table, sample_op MF_kDelete ''#d#u'' sample_table]]"

lemma sort_key_sorts: "sorts_by_type (sort_key op_rank)"
  using sorted_sort_key [of op_rank] by (simp add: sorts_by_type_def sorted_map)

lemma sample_history: "proper_history 0 sample_base (entry_ops sample_entries)"
proof -
  have r: "rooted sample_base p" if "p \<in> {''#d#t'', ''#d#u'', ''#d#u#0''}" for p
    using that by (auto simp: rooted_def sample_base_def below_def)
  show ?thesis
    by (simp add: proper_history_def sample_entries_def sample_entry_def sample_op_def sample_table_def sample_segment_def
        proper_op_def r deprecate_op_def same_entry_def top_down_def below_def op_rank_def)
      (simp add: applicable_def apply_op_def Let_def sample_base_def flag_overwritten_def below_def restrict_map_def)
qed


section \<open>Entries are read back\<close>

definition valid_delta_entry :: "delta_entry \<Rightarrow> bool" where
  "valid_delta_entry e \<longleftrightarrow>
     list_all valid_delta_op (ce_operations e) \<and> length (ce_operations e) < 2 ^ 31
     \<and> (case wr_concat (map CatalogDeltaOperation_WriteAdv (ce_operations e)) of
          Inl _ \<Rightarrow> False | Inr ops \<Rightarrow> 24 + length ops < 2 ^ 31)"

text \<open>What is left of an entry in the file: transactions and sequence number are forgotten.\<close>

definition stored_entry :: "delta_entry \<Rightarrow> delta_entry" where
  "stored_entry e = CatalogDeltaEntry_new\<lparr>ce_max_commit_ts := ce_max_commit_ts e, ce_operations := ce_operations e\<rparr>"

lemma write_sized_op_valid:
  assumes "valid_delta_op op"
  shows "write_sized_op op = CatalogDeltaOperation_WriteAdv op"
proof -
  obtain bs where bs: "CatalogDeltaOperation_WriteAdv op = Inr bs" using delta_op_codec.enc_ok [OF assms] by blast
  then show ?thesis by (simp add: write_sized_op_def delta_op_codec.size_law [OF assms bs])
qed

lemma CatalogDeltaEntry_bytes:
  assumes "valid_delta_entry e"
  obtains ops n c where "wr_concat (map CatalogDeltaOperation_WriteAdv (ce_operations e)) = Inr ops"
    and "CatalogDeltaEntry_WriteAdv e = Inr (delta_bytes n c (WriteBufAdv (ce_max_commit_ts e)
           @ WriteBufAdv (word_of_nat (length (ce_operations e)) :: i32) @ ops))"
    and "n = word_of_nat (24 + length ops)" and "24 + length ops < 2 ^ 31"
    and "c = makeCRC (delta_bytes n 0 (WriteBufAdv (ce_max_commit_ts e)
           @ WriteBufAdv (word_of_nat (length (ce_operations e)) :: i32) @ ops))"
proof -
  obtain ops where o: "wr_concat (map CatalogDeltaOperation_WriteAdv (ce_operations e)) = Inr ops" "24 + length ops < 2 ^ 31"
    using assms by (auto simp: valid_delta_entry_def split: sum.splits)
  have "map write_sized_op (ce_operations e) = map CatalogDeltaOperation_WriteAdv (ce_operations e)"
    using assms by (auto simp: valid_delta_entry_def list_all_iff write_sized_op_valid)
  then have w: "wr_concat (map write_sized_op (ce_operations e)) = Inr ops" using o(1) by (simp only:)
  define n where "n = (word_of_nat (24 + length ops) :: i32)"
  let ?pl = "WriteBufAdv (ce_max_commit_ts e) @ WriteBufAdv (word_of_nat (length (ce_operations e)) :: i32) @ ops"
  have l: "length (delta_bytes n 0 ?pl) = 24 + length ops" by (simp add: delta_bytes_def)
  have "unat (scast n :: u64) = 24 + length ops" using unat_scast_nat [OF o(2)] by (simp add: n_def)
  then have "crc_of (delta_bytes n 0 ?pl) n = Inr (makeCRC (delta_bytes n 0 ?pl))"
    unfolding crc_of_def l by (simp add: l [symmetric])
  moreover have "(word_of_nat (8 + length ?pl + 4) :: i32) = n" by (simp add: n_def)
  ultimately have "CatalogDeltaEntry_WriteAdv e = Inr (delta_bytes n (makeCRC (delta_bytes n 0 ?pl)) ?pl)"
    unfolding CatalogDeltaEntry_WriteAdv_def w res_bind_simps Let_def by (simp only: res_bind_simps)
  then show ?thesis using that o n_def by blast
qed

lemma delta_read_ops:
  assumes "list_all valid_delta_op ops" and "wr_concat (map CatalogDeltaOperation_WriteAdv ops) = Inr bs"
    and "int start - int (length rest) \<le> m" and "length (bs @ rest) \<le> start"
  shows "rd_times (length ops) (delta_read_op m start) (bs @ rest) = Inr (ops, rest)"
  using assms
proof (induction ops arbitrary: bs)
  case (Cons op ops)
  then obtain b bs' where b: "CatalogDeltaOperation_WriteAdv op = Inr b"
    and bs': "wr_concat (map CatalogDeltaOperation_WriteAdv ops) = Inr bs'" and bs: "bs = b @ bs'"
    by (auto simp: wr_cat_eq_Inr)
  have v: "valid_delta_op op" using Cons.prems by simp
  have ne: "0 < length b" using CatalogDeltaOperation_codec [OF v] b by auto
  have room: "int (length b) \<le> ptr_room m start (length (b @ bs' @ rest))"
    using Cons.prems by (simp add: ptr_room_def bs)
  then have "\<not> ptr_room m start (length (b @ bs' @ rest)) \<le> 0" using ne by linarith
  then have "delta_read_op m start (b @ bs' @ rest) = Inr (op, bs' @ rest)"
    unfolding delta_read_op_def
    by (simp only: rd_bind_Inr rd_left_apply if_False delta_op_codec.dec_enc [OF v b room])
  moreover have "rd_times (length ops) (delta_read_op m start) (bs' @ rest) = Inr (ops, rest)"
    using Cons bs' by (simp add: bs)
  ultimately show ?case by (simp add: bs rd_bind_def rd_return_def)
qed (simp add: rd_return_def)

lemma delta_clear_checksum: "clear_checksum (delta_bytes n c pl @ rest) = delta_bytes n 0 pl @ rest"
  by (simp add: clear_checksum_def delta_bytes_def)

lemma CatalogDeltaEntry_read_back:
  assumes v: "valid_delta_entry e" and w: "CatalogDeltaEntry_WriteAdv e = Inr bs" and m: "int (length bs) \<le> m"
  shows "CatalogDeltaEntry_ReadAdv m (bs @ rest) = Inr (Some (stored_entry e), rest)"
proof -
  let ?t = "ce_max_commit_ts e" and ?cnt = "word_of_nat (length (ce_operations e)) :: i32"
  obtain ops n c where a: "wr_concat (map CatalogDeltaOperation_WriteAdv (ce_operations e)) = Inr ops"
    and b: "CatalogDeltaEntry_WriteAdv e = Inr (delta_bytes n c (WriteBufAdv ?t @ WriteBufAdv ?cnt @ ops))"
    and n: "n = word_of_nat (24 + length ops)" "24 + length ops < 2 ^ 31"
    and c: "c = makeCRC (delta_bytes n 0 (WriteBufAdv ?t @ WriteBufAdv ?cnt @ ops))"
    by (rule CatalogDeltaEntry_bytes [OF v])
  let ?pl = "WriteBufAdv ?t @ WriteBufAdv ?cnt @ ops"
  have bs: "bs = delta_bytes n c ?pl" using w b by (simp only: sum.inject)
  have l: "length bs = 24 + length ops" by (simp add: bs delta_bytes_def)
  have k: "sint n = int (24 + length ops)" "unat (scast n :: u64) = 24 + length ops"
    by (simp_all only: n(1) sint_word_of_nat32 [OF n(2)] unat_scast_nat [OF n(2)])
  have pad: "i32_at (bs @ rest) (sint n - 4) = Inr n"
    using i32_at_end [of "WriteBufAdv n @ WriteBufAdv c @ ?pl" n rest] by (simp add: bs k delta_bytes_def)
  have "take (24 + length ops) (clear_checksum (bs @ rest)) = delta_bytes n 0 ?pl"
    "24 + length ops \<le> length (clear_checksum (bs @ rest))"
    unfolding bs delta_clear_checksum by (simp_all add: delta_bytes_def)
  then have crc: "crc_of (clear_checksum (bs @ rest)) n = Inr c" unfolding crc_of_def k(2) c by simp
  have r: "(ReadBufAdv :: i32 reader) (bs @ rest) = Inr (n, WriteBufAdv c @ ?pl @ WriteBufAdv n @ rest)"
    unfolding bs delta_bytes_def append_assoc by (rule ReadBufAdv_WriteBufAdv)
  have cnt: "nat (sint ?cnt) = length (ce_operations e)" using v by (simp add: valid_delta_entry_def sint_word_of_nat32)
  let ?start = "length (bs @ rest)"
  have read: "rd_times (length (ce_operations e)) (delta_read_op m ?start) (ops @ WriteBufAdv n @ rest)
      = Inr (ce_operations e, WriteBufAdv n @ rest)"
    using v m by (intro delta_read_ops a) (simp_all add: valid_delta_entry_def l)
  have room: "\<not> ptr_room m ?start (length (WriteBufAdv n @ rest)) - 4 < 0" using m by (simp add: ptr_room_def l)
  have "delta_read_payload m ?start (?pl @ WriteBufAdv n @ rest) = Inr (stored_entry e, rest)"
    unfolding delta_read_payload_def append_assoc
    by (simp only: rd_bind_Inr ReadBufAdv_WriteBufAdv cnt read room if_False) (simp add: rd_return_def stored_entry_def)
  moreover have "\<not> m \<le> 0" using m l by linarith
  ultimately show ?thesis
    unfolding CatalogDeltaEntry_ReadAdv_def
    by (simp only: if_False rd_bind_Inr r ReadBufAdv_WriteBufAdv rd_lift_simps pad crc simp_thms rd_return_def)
qed


lemma CatalogDeltaEntry_size:
  assumes "valid_delta_entry e" and "CatalogDeltaEntry_WriteAdv e = Inr bs"
  shows "CatalogDeltaEntry_GetSizeInBytes e = Inr (word_of_nat (length bs)) \<and> length bs < 2 ^ 31"
proof -
  obtain ops n c where a: "wr_concat (map CatalogDeltaOperation_WriteAdv (ce_operations e)) = Inr ops"
    and bs: "CatalogDeltaEntry_WriteAdv e = Inr (delta_bytes n c (WriteBufAdv (ce_max_commit_ts e)
           @ WriteBufAdv (word_of_nat (length (ce_operations e)) :: i32) @ ops))" and n: "24 + length ops < 2 ^ 31"
    by (rule CatalogDeltaEntry_bytes [OF assms(1)])
  have l: "length bs = 24 + length ops" using bs assms(2) by (auto simp: delta_bytes_def)
  have "list_all valid_delta_op (ce_operations e)" using assms(1) by (simp add: valid_delta_entry_def)
  from delta_op_codec.size_list [OF this a] show ?thesis
    using n by (simp add: CatalogDeltaEntry_GetSizeInBytes_def sz_sum_append l)
qed

lemma stored_entry_valid: "valid_delta_entry e \<Longrightarrow> valid_delta_entry (stored_entry e)"
  by (simp add: valid_delta_entry_def stored_entry_def)

lemma stored_entry_bytes: "CatalogDeltaEntry_WriteAdv (stored_entry e) = CatalogDeltaEntry_WriteAdv e"
  by (simp add: CatalogDeltaEntry_WriteAdv_def stored_entry_def)


definition sample_global :: global_delta where
  "sample_global = GlobalCatalogDeltaEntry_new
     \<lparr>gd_delta_ops := [(''#d'', sample_op MF_kNew ''#d'' (AddDBEntryOp ''dir''))], gd_txn_ids := [1], gd_max_commit_ts := 2\<rparr>"


section \<open>Entries that arrive out of order\<close>

fun AddArrivals :: "(delta_entry \<times> i64) list \<Rightarrow> global_delta \<Rightarrow> global_delta res" where
  "AddArrivals [] g = Inr g"
| "AddArrivals ((e, wal_size) # es) g = res_bind (AddDeltaEntry e wal_size g) (AddArrivals es)"

text \<open>The part of the state that merging works on.\<close>

definition core :: "global_delta \<Rightarrow> op_map \<times> u64 list \<times> u64 \<times> u64" where
  "core g = (gd_delta_ops g, gd_txn_ids g, gd_max_commit_ts g, gd_last_full_ckp_ts g)"

lemma AddDeltaEntryInner_core:
  assumes "AddDeltaEntryInner e g = Inr g1" and "core h = core g"
  shows "\<exists>h1. AddDeltaEntryInner e h = Inr h1 \<and> core h1 = core g1 \<and> gd_last_sequence h1 = gd_last_sequence h
    \<and> gd_sequence_heap h1 = gd_sequence_heap h \<and> gd_delta_entry_map h1 = gd_delta_entry_map h"
  using assms by (auto simp: AddDeltaEntryInner_def core_def Let_def res_bind_eq_Inr split: if_splits)

lemma add_next_core:
  assumes "AddDeltaEntryInner e g = Inr g1" and "core h = core g"
  obtains h1 where "add_next w e heap h = Inr h1" "core h1 = core g1" "gd_last_sequence h1 = gd_last_sequence h + 1"
    "gd_sequence_heap h1 = heap" "gd_delta_entry_map h1 = gd_delta_entry_map h"
proof -
  have "core (h\<lparr>gd_wal_size := std_max_i64 (gd_wal_size h) w\<rparr>) = core g" using assms(2) by (simp add: core_def)
  from AddDeltaEntryInner_core [OF assms(1) this]
  obtain h1 where "AddDeltaEntryInner e (h\<lparr>gd_wal_size := std_max_i64 (gd_wal_size h) w\<rparr>) = Inr h1" "core h1 = core g1"
    "gd_last_sequence h1 = gd_last_sequence h" "gd_delta_entry_map h1 = gd_delta_entry_map h" by auto
  then show ?thesis using that [of "h1\<lparr>gd_last_sequence := gd_last_sequence h1 + 1, gd_sequence_heap := heap\<rparr>"]
    by (simp add: add_next_def core_def)
qed

text \<open>
  The entry with index \<open>i\<close> has the number \<open>seq_no s i\<close>.  In the invariant, \<open>A\<close> are the indexes of the entries that have
  arrived, \<open>k\<close> of them merged.
\<close>

definition seq_no :: "u64 \<Rightarrow> nat \<Rightarrow> u64" where
  "seq_no s i = s + word_of_nat (i + 1)"

definition arrived :: "u64 \<Rightarrow> delta_entry list \<Rightarrow> global_delta \<Rightarrow> nat set \<Rightarrow> nat \<Rightarrow> global_delta \<Rightarrow> u64 list \<Rightarrow> bool" where
  "arrived s es g A k h heap \<longleftrightarrow>
     k \<le> length es \<and> A \<subseteq> {..<length es} \<and> {..<k} \<subseteq> A \<and> k \<notin> A
     \<and> (\<exists>gk. AddDeltaEntries (take k es) g = Inr gk \<and> core h = core gk)
     \<and> gd_last_sequence h = s + word_of_nat k
     \<and> sorted_wrt (<) heap \<and> set heap = seq_no s ` (A - {..<k})
     \<and> dom (gd_delta_entry_map h) = seq_no s ` (A - {..<k})
     \<and> (\<forall>i\<in>A - {..<k}. gd_delta_entry_map h (seq_no s i) = Some (es ! i))"

lemma arrivedI:
  assumes "k \<le> length es" and "A \<subseteq> {..<length es}" and "{..<k} \<subseteq> A" and "k \<notin> A"
    and "AddDeltaEntries (take k es) g = Inr gk" and "core h = core gk" and "gd_last_sequence h = s + word_of_nat k"
    and "sorted_wrt (<) heap" and "set heap = seq_no s ` (A - {..<k})" and "dom (gd_delta_entry_map h) = seq_no s ` (A - {..<k})"
    and "\<And>i. i \<in> A - {..<k} \<Longrightarrow> gd_delta_entry_map h (seq_no s i) = Some (es ! i)"
  shows "arrived s es g A k h heap"
  using assms by (simp add: arrived_def)

lemma seq_no_less:
  assumes "unat s + n + 1 < 2 ^ 64" and "i \<le> n" and "j \<le> n"
  shows "seq_no s i < seq_no s j \<longleftrightarrow> i < j" and "seq_no s i = seq_no s j \<longleftrightarrow> i = j"
proof -
  have "unat (seq_no s k) = unat s + k + 1" if "k \<le> n" for k
    using that assms(1) by (simp add: seq_no_def unat_word_ariths unat_of_nat)
  then show "seq_no s i < seq_no s j \<longleftrightarrow> i < j" "seq_no s i = seq_no s j \<longleftrightarrow> i = j"
    using assms(2,3) by (simp_all add: word_less_nat_alt word_unat_eq_iff)
qed

lemma seq_no_next: "s + word_of_nat k + 1 = seq_no s k"
  by (simp add: seq_no_def)

lemma AddDeltaEntries_take:
  assumes "AddDeltaEntries es g = Inr g'" and "k < length es" and "AddDeltaEntries (take k es) g = Inr gk"
  shows "\<exists>g1. AddDeltaEntryInner (es ! k) gk = Inr g1 \<and> AddDeltaEntries (take (Suc k) es) g = Inr g1"
  using assms
proof (induction es arbitrary: g k)
  case (Cons e es)
  then obtain g1 where g1: "AddDeltaEntryInner e g = Inr g1" "AddDeltaEntries es g1 = Inr g'" by (auto simp: res_bind_eq_Inr)
  then show ?case using Cons by (cases k) auto
qed simp

lemma add_loop_arrived:
  assumes es: "AddDeltaEntries es g = Inr g'" and bound: "unat s + length es + 1 < 2 ^ 64"
    and inv: "arrived s es g A k h heap" and k: "k < length es"
  shows "\<exists>h' k'. add_loop w (es ! k) heap h = Inr h' \<and> arrived s es g (insert k A) k' h' (gd_sequence_heap h')"
  using inv k
proof (induction heap arbitrary: k A h)
  case (Nil k A h)
  then obtain gk where gk: "AddDeltaEntries (take k es) g = Inr gk" "core h = core gk" by (auto simp: arrived_def)
  obtain g1 where g1: "AddDeltaEntryInner (es ! k) gk = Inr g1" "AddDeltaEntries (take (Suc k) es) g = Inr g1"
    using AddDeltaEntries_take [OF es Nil.prems(2) gk(1)] by blast
  obtain h1 where h1: "add_next w (es ! k) [] h = Inr h1" "core h1 = core g1" "gd_last_sequence h1 = gd_last_sequence h + 1"
    "gd_sequence_heap h1 = []" "gd_delta_entry_map h1 = gd_delta_entry_map h"
    using add_next_core [OF g1(1) gk(2)] by blast
  have A: "A = {..<k}" using Nil.prems by (auto simp: arrived_def)
  then have i: "insert k A = {..<Suc k}" by auto
  have "arrived s es g (insert k A) (Suc k) h1 (gd_sequence_heap h1)"
    using Nil.prems h1 unfolding i by (intro arrivedI [OF _ _ _ _ g1(2)]) (auto simp: arrived_def A)
  then show ?case using h1(1) by auto
next
  case (Cons x xs k A h)
  then obtain gk where gk: "AddDeltaEntries (take k es) g = Inr gk" "core h = core gk" by (auto simp: arrived_def)
  obtain g1 where g1: "AddDeltaEntryInner (es ! k) gk = Inr g1" "AddDeltaEntries (take (Suc k) es) g = Inr g1"
    using AddDeltaEntries_take [OF es Cons.prems(2) gk(1)] by blast
  obtain h1 where h1: "add_next w (es ! k) (x # xs) h = Inr h1" "core h1 = core g1" "gd_last_sequence h1 = gd_last_sequence h + 1"
    "gd_sequence_heap h1 = x # xs" "gd_delta_entry_map h1 = gd_delta_entry_map h"
    using add_next_core [OF g1(1) gk(2)] by blast
  have inv: "A \<subseteq> {..<length es}" "{..<k} \<subseteq> A" "k \<notin> A" "sorted_wrt (<) (x # xs)" "set (x # xs) = seq_no s ` (A - {..<k})"
    "dom (gd_delta_entry_map h) = seq_no s ` (A - {..<k})" "\<forall>i\<in>A - {..<k}. gd_delta_entry_map h (seq_no s i) = Some (es ! i)"
    using Cons.prems(1) by (simp_all add: arrived_def)
  have last: "gd_last_sequence h1 = s + word_of_nat (Suc k)" using Cons.prems(1) h1(3) by (simp add: arrived_def algebra_simps)
  have nxt: "gd_last_sequence h1 + 1 = seq_no s (Suc k)" unfolding last by (rule seq_no_next)
  have rest: "insert k A - {..<Suc k} = A - {..<k}" using inv(3) by (auto simp: less_Suc_eq)
  show ?case
  proof (cases "x = seq_no s (Suc k)")
    case True
    have "x \<in> seq_no s ` (A - {..<k})" unfolding inv(5) [symmetric] by simp
    then obtain i where i: "i \<in> A" "x = seq_no s i" by auto
    then have sk: "Suc k \<in> A" using True seq_no_less(2) [OF bound, of i "Suc k"] inv(1) Cons.prems(2) by auto
    let ?B = "insert k A - {Suc k}" and ?h = "h1\<lparr>gd_delta_entry_map := (gd_delta_entry_map h1)(x := None)\<rparr>"
    have d: "?B - {..<Suc k} = (A - {..<k}) - {Suc k}" using inv(3) by (auto simp: less_Suc_eq)
    have "inj_on (seq_no s) A"
      using seq_no_less(2) [OF bound] inv(1) by (intro inj_onI) (auto simp: subset_iff less_imp_le)
    then have img: "seq_no s ` ((A - {..<k}) - {Suc k}) = seq_no s ` (A - {..<k}) - {x}"
      using sk True by (subst inj_on_image_set_diff) auto
    have xs: "set xs = seq_no s ` (A - {..<k}) - {x}" using inv(4) unfolding inv(5) [symmetric] by auto
    have "arrived s es g ?B (Suc k) ?h xs"
    proof (rule arrivedI [OF _ _ _ _ g1(2)], unfold d img)
      show "{..<Suc k} \<subseteq> ?B" using inv(2) by (auto simp: less_Suc_eq)
      show "dom (gd_delta_entry_map ?h) = seq_no s ` (A - {..<k}) - {x}" using inv(6) h1(5) by simp
      fix i assume i: "i \<in> A - {..<k} - {Suc k}"
      then have "seq_no s i \<noteq> x" using seq_no_less(2) [OF bound, of i "Suc k"] inv(1) Cons.prems(2) True by (auto simp: subset_iff)
      then show "gd_delta_entry_map ?h (seq_no s i) = Some (es ! i)" using inv(7) h1(5) i by simp
    qed (use Cons.prems(2) inv(1,4) h1(2) last xs in \<open>auto simp: core_def\<close>)
    moreover have "insert (Suc k) ?B = insert k A" using sk by auto
    ultimately obtain h' k' where
      "add_loop w (es ! Suc k) xs ?h = Inr h'" and h': "arrived s es g (insert k A) k' h' (gd_sequence_heap h')"
      using Cons.IH [of ?B "Suc k" ?h] sk inv(1) by auto
    moreover have "gd_delta_entry_map h1 x = Some (es ! Suc k)" using inv(7) sk True h1(5) by auto
    ultimately have "add_loop w (es ! k) (x # xs) h = Inr h'" using h1(1) True nxt by simp
    then show ?thesis using h' by blast
  next
    case False
    have "Suc k \<notin> A"
    proof
      assume sk: "Suc k \<in> A"
      then have y: "seq_no s (Suc k) \<in> set (x # xs)" using inv(5) by auto
      have "x \<in> seq_no s ` (A - {..<k})" unfolding inv(5) [symmetric] by simp
      then obtain i where "i \<in> A - {..<k}" "x = seq_no s i" by blast
      then have i: "i \<in> A" "k \<le> i" "x = seq_no s i" by simp_all
      have "i \<noteq> k" "i \<noteq> Suc k" using i inv(3) False by auto
      then have "seq_no s (Suc k) < x" using i(1,2,3) sk seq_no_less(1) [OF bound, of "Suc k" i] inv(1) by auto
      then show False using y inv(4) by auto
    qed
    then have "arrived s es g (insert k A) (Suc k) h1 (gd_sequence_heap h1)"
    proof (intro arrivedI [OF _ _ _ _ g1(2)], unfold rest h1(4,5) inv(5,6))
      show "{..<Suc k} \<subseteq> insert k A" using inv(2) by (auto simp: less_Suc_eq)
      show "insert k A \<subseteq> {..<length es}" using inv(1) Cons.prems(2) by simp
    qed (use Cons.prems(2) inv(4,7) h1(2) last in simp_all)
    moreover have "add_loop w (es ! k) (x # xs) h = Inr h1" using h1(1) False nxt by simp
    ultimately show ?thesis by blast
  qed
qed

lemma strict_sorted_insort: "sorted_wrt (<) xs \<Longrightarrow> x \<notin> set xs \<Longrightarrow> sorted_wrt (<) (insort x (xs :: u64 list))"
  by (simp add: strict_sorted_iff distinct_insort sorted_insort)

lemma AddDeltaEntry_arrived:
  assumes es: "AddDeltaEntries es g = Inr g'" and bound: "unat s + length es + 1 < 2 ^ 64"
    and seqs: "\<forall>i<length es. ce_sequence (es ! i) = seq_no s i"
    and inv: "arrived s es g A k h (gd_sequence_heap h)" and i: "i < length es" "i \<notin> A"
  shows "\<exists>h' k'. AddDeltaEntry (es ! i) w h = Inr h' \<and> arrived s es g (insert i A) k' h' (gd_sequence_heap h')"
proof (cases "i = k")
  case True
  have "ce_sequence (es ! i) = gd_last_sequence h + 1" using seqs i inv True by (simp add: arrived_def seq_no_next)
  then show ?thesis using add_loop_arrived [OF es bound inv, of w] i True by (simp add: AddDeltaEntry_def)
next
  case False
  have v: "k \<le> length es" "A \<subseteq> {..<length es}" "{..<k} \<subseteq> A" "k \<notin> A" "gd_last_sequence h = s + word_of_nat k"
    "sorted_wrt (<) (gd_sequence_heap h)" "set (gd_sequence_heap h) = seq_no s ` (A - {..<k})"
    "dom (gd_delta_entry_map h) = seq_no s ` (A - {..<k})" "\<forall>j\<in>A - {..<k}. gd_delta_entry_map h (seq_no s j) = Some (es ! j)"
    using inv by (simp_all add: arrived_def)
  have ik: "k < i" using False v(3) i(2) by (metis lessThan_iff linorder_neqE_nat subsetD)
  have ne: "seq_no s i \<noteq> gd_last_sequence h + 1"
    using seq_no_less(2) [OF bound, of i k] i v(1) False by (simp add: v(5) seq_no_next)
  have new: "seq_no s i \<notin> seq_no s ` (A - {..<k})"
    using seq_no_less(2) [OF bound] i v(2) by (auto simp: subset_iff less_imp_le)
  then have none: "gd_delta_entry_map h (seq_no s i) = None" using v(8) by auto
  have d: "insert i A - {..<k} = insert i (A - {..<k})" using ik by auto
  let ?h = "h\<lparr>gd_sequence_heap := insort (seq_no s i) (gd_sequence_heap h),
      gd_delta_entry_map := (gd_delta_entry_map h)(seq_no s i \<mapsto> es ! i)\<rparr>"
  have step: "AddDeltaEntry (es ! i) w h = Inr ?h" using seqs i ne none by (simp add: AddDeltaEntry_def Let_def)
  have "sorted_wrt (<) (gd_sequence_heap ?h)" using strict_sorted_insort [OF v(6)] new by (simp add: v(7))
  moreover obtain gk where gk: "AddDeltaEntries (take k es) g = Inr gk" "core h = core gk" using inv by (auto simp: arrived_def)
  ultimately have "arrived s es g (insert i A) k ?h (gd_sequence_heap ?h)"
  proof (intro arrivedI [OF _ _ _ _ gk(1)], unfold d)
    fix j assume j: "j \<in> insert i (A - {..<k})"
    show "gd_delta_entry_map ?h (seq_no s j) = Some (es ! j)"
    proof (cases "j = i")
      case False
      then have "j \<in> A - {..<k}" using j by simp
      moreover from this have "seq_no s j \<noteq> seq_no s i" using new by (metis imageI)
      ultimately show ?thesis using v(9) by simp
    qed simp
  qed (use i ik v gk(2) in \<open>auto simp: core_def set_insort_key\<close>)
  then show ?thesis using step by blast
qed

lemma AddArrivals_arrived:
  assumes es: "AddDeltaEntries es g = Inr g'" and bound: "unat s + length es + 1 < 2 ^ 64"
    and seqs: "\<forall>i<length es. ce_sequence (es ! i) = seq_no s i"
    and inv: "arrived s es g A k h (gd_sequence_heap h)" and ord: "distinct order" "set order \<inter> A = {}" "set order \<subseteq> {..<length es}"
  shows "\<exists>h' k'. AddArrivals (map (\<lambda>i. (es ! i, ws i)) order) h = Inr h'
    \<and> arrived s es g (set order \<union> A) k' h' (gd_sequence_heap h')"
  using inv ord
proof (induction order arbitrary: A k h)
  case (Cons i order)
  have i: "i < length es" "i \<notin> A" using Cons.prems by auto
  obtain h1 k1 where h1: "AddDeltaEntry (es ! i) (ws i) h = Inr h1" "arrived s es g (insert i A) k1 h1 (gd_sequence_heap h1)"
    using AddDeltaEntry_arrived [OF es bound seqs Cons.prems(1) i] by blast
  have "set order \<inter> insert i A = {}" using Cons.prems by auto
  then obtain h' k' where "AddArrivals (map (\<lambda>i. (es ! i, ws i)) order) h1 = Inr h'"
    "arrived s es g (set order \<union> insert i A) k' h' (gd_sequence_heap h')"
    using Cons.IH [OF h1(2)] Cons.prems by auto
  then show ?case using h1(1) by auto
qed auto

text \<open>
  C17: The order in which background tasks hand over the entries of committed transactions does not matter.  If merging the
  entries in the order of their sequence numbers succeeds, then handing them over in any order succeeds too and leaves the
  same operations, transactions and commit time stamp; nothing is left waiting.
\<close>

theorem arrival_order_irrelevant:
  assumes "AddDeltaEntries es g = Inr g'" and "\<forall>i<length es. ce_sequence (es ! i) = gd_last_sequence g + word_of_nat (i + 1)"
    and "unat (gd_last_sequence g) + length es + 1 < 2 ^ 64" and "gd_sequence_heap g = []" and "gd_delta_entry_map g = Map.empty"
    and "mset order = mset [0..<length es]"
  shows "\<exists>h. AddArrivals (map (\<lambda>i. (es ! i, ws i)) order) g = Inr h
    \<and> gd_delta_ops h = gd_delta_ops g' \<and> gd_txn_ids h = gd_txn_ids g' \<and> gd_max_commit_ts h = gd_max_commit_ts g'
    \<and> gd_last_sequence h = gd_last_sequence g + word_of_nat (length es)
    \<and> gd_sequence_heap h = [] \<and> gd_delta_entry_map h = Map.empty"
proof -
  let ?s = "gd_last_sequence g"
  have o: "distinct order" "set order = {..<length es}"
    using mset_eq_imp_distinct_iff [OF assms(6)] mset_eq_setD [OF assms(6)] by (simp_all add: atLeast0LessThan)
  have "arrived ?s es g {} 0 g (gd_sequence_heap g)" using assms(4,5) by (simp add: arrived_def)
  moreover have "\<forall>i<length es. ce_sequence (es ! i) = seq_no ?s i" using assms(2) by (simp add: seq_no_def)
  ultimately obtain h k where h: "AddArrivals (map (\<lambda>i. (es ! i, ws i)) order) g = Inr h"
    "arrived ?s es g {..<length es} k h (gd_sequence_heap h)"
    using AddArrivals_arrived [OF assms(1,3), of "{}" 0 g order ws] o by auto
  then have "k = length es" by (auto simp: arrived_def)
  then show ?thesis using h assms(1) by (auto simp: arrived_def core_def)
qed


lemma sample_merges: "\<exists>g'. AddDeltaEntries sample_entries GlobalCatalogDeltaEntry_new = Inr g'"
proof -
  have "proper_history (gd_last_full_ckp_ts GlobalCatalogDeltaEntry_new) sample_base (entry_ops sample_entries)"
    using sample_history by (simp add: GlobalCatalogDeltaEntry_new_def)
  from merge_history [OF this _ _ _ sort_key_sorts] show ?thesis
    by (simp add: GlobalCatalogDeltaEntry_new_def sample_entries_def sample_entry_def UNCOMMIT_TS_def) blast
qed

theorem arrival_order_irrelevant_witness:
  "\<exists>g' h. AddDeltaEntries sample_entries GlobalCatalogDeltaEntry_new = Inr g'
    \<and> AddArrivals (map (\<lambda>i. (sample_entries ! i, 5)) [2, 0, 1]) GlobalCatalogDeltaEntry_new = Inr h
    \<and> gd_delta_ops h = gd_delta_ops g' \<and> gd_sequence_heap h = []"
proof -
  obtain g' where g': "AddDeltaEntries sample_entries GlobalCatalogDeltaEntry_new = Inr g'" using sample_merges by blast
  have "\<forall>i<length sample_entries. ce_sequence (sample_entries ! i)
      = gd_last_sequence GlobalCatalogDeltaEntry_new + word_of_nat (i + 1)"
    by (auto simp: sample_entries_def sample_entry_def GlobalCatalogDeltaEntry_new_def less_Suc_eq numeral_3_eq_3)
  from arrival_order_irrelevant [OF g' this, of "[2, 0, 1]" "\<lambda>_. 5"] g' show ?thesis
    by (auto simp: sample_entries_def GlobalCatalogDeltaEntry_new_def upt_rec)
qed


section \<open>A dropped table that comes back\<close>

text \<open>
  What one checkpoint round stores: the entries of the committed transactions are merged and the operations picked.
\<close>

definition checkpoint_round :: "u64 \<Rightarrow> delta_entry list \<Rightarrow> global_delta \<Rightarrow> (delta_entry \<times> global_delta) res" where
  "checkpoint_round ts es g =
     res_bind (AddDeltaEntries es g) (\<lambda>g.
       let (e, g) = PickFlushEntry (sort_key op_rank) ts g in Inr (stored_entry e, g))"

fun checkpoint_rounds :: "(u64 \<times> delta_entry list) list \<Rightarrow> global_delta \<Rightarrow> (delta_entry list) res" where
  "checkpoint_rounds [] g = Inr []"
| "checkpoint_rounds ((ts, es) # rounds) g =
     res_bind (checkpoint_round ts es g) (\<lambda>(e, g). res_bind (checkpoint_rounds rounds g) (\<lambda>files. Inr (e # files)))"

text \<open>In three rounds a table of the full catalog is written to, dropped and created again, and dropped.\<close>

definition drop_rounds :: "(u64 \<times> delta_entry list) list" where
  "drop_rounds =
     [(2, [sample_entry 1 [sample_op MF_kUpdate ''#d#t'' sample_table]]),
      (4, [sample_entry 2 [sample_op MF_kDelete ''#d#t'' sample_table],
           sample_entry 3 [sample_op MF_kNew ''#d#t'' sample_table]]),
      (5, [sample_entry 4 [sample_op MF_kDelete ''#d#t'' sample_table]])]"

text \<open>
  C19: Dropping a table can be lost when the database is restarted.  A table of the full catalog is written to in one
  checkpoint round, dropped and created again in the next, and dropped in the third.  After the operations of these rounds
  the catalog has no such table.  But recovery merges the operations of the three files, and an update followed by a
  deletion with new creation becomes a plain creation, which the last deletion cancels: nothing is left to be replayed, and
  the full catalog's table is back.
\<close>

theorem dropped_table_returns:
  "\<exists>files g. checkpoint_rounds drop_rounds GlobalCatalogDeltaEntry_new = Inr files
    \<and> map (map op_merge_flag \<circ> ce_operations) files = [[MF_kUpdate], [MF_kDeleteAndNew], [MF_kDelete]]
    \<and> apply_ops sample_base (concat (map (entry_ops \<circ> snd) drop_rounds)) ''#d#t'' = None
    \<and> apply_ops sample_base (entry_ops files) ''#d#t'' = None
    \<and> AddDeltaEntries files GlobalCatalogDeltaEntry_new = Inr g
    \<and> apply_ops sample_base (ce_operations (fst (PickFlushEntry (sort_key op_rank) 5 g))) ''#d#t'' \<noteq> None"
proof -
  let ?file = "\<lambda>ts flag. \<lparr>ce_txn_ids = [], ce_max_commit_ts = ts, ce_sequence = 0,
    ce_operations = [sample_op flag ''#d#t'' sample_table]\<rparr>"
  have r: "checkpoint_rounds drop_rounds GlobalCatalogDeltaEntry_new
      = Inr [?file 2 MF_kUpdate, ?file 4 MF_kDeleteAndNew, ?file 5 MF_kDelete]"
    by code_simp
  obtain g where g: "AddDeltaEntries [?file 2 MF_kUpdate, ?file 4 MF_kDeleteAndNew, ?file 5 MF_kDelete] GlobalCatalogDeltaEntry_new
      = Inr g \<and> gd_delta_ops g = []"
  proof -
    have "(case AddDeltaEntries [?file 2 MF_kUpdate, ?file 4 MF_kDeleteAndNew, ?file 5 MF_kDelete] GlobalCatalogDeltaEntry_new
        of Inl _ \<Rightarrow> False | Inr g \<Rightarrow> gd_delta_ops g = [])" by code_simp
    then show ?thesis using that by (auto split: sum.splits)
  qed
  then have "apply_ops sample_base (ce_operations (fst (PickFlushEntry (sort_key op_rank) 5 g))) ''#d#t'' \<noteq> None"
    by (simp add: PickFlushEntry_def apply_ops_def sample_base_def)
  moreover have "apply_ops sample_base (concat (map (entry_ops \<circ> snd) drop_rounds)) ''#d#t'' = None"
    "apply_ops sample_base (entry_ops [?file 2 MF_kUpdate, ?file 4 MF_kDeleteAndNew, ?file 5 MF_kDelete]) ''#d#t'' = None"
    by (simp_all add: drop_rounds_def sample_entry_def sample_op_def apply_ops_def apply_op_def restrict_map_def Let_def)
  ultimately show ?thesis using r g by (auto simp: sample_op_def)
qed

end
