(* ===== verification/Txn_Store.thy ===== *)
theory Txn_Store
  imports Infinity_Prelude
begin

text \<open>
  What a transaction has changed, as far as conflicts between transactions depend on it:
  \<^verbatim>\<open>src/storage/txn/txn_store.cpp\<close>.  A hash map is an association list with one pair for every key;
  an entry of the catalog is known by its address and its name.  The appended blocks, segments
  and the compaction state of a table store play no part in conflicts and are left out.
\<close>

section \<open>Stores\<close>

type_synonym segment_id = "32 word"
type_synonym block_id = "16 word"
type_synonym block_offset = "16 word"

record row_id =
  ri_segment_id :: segment_id
  ri_segment_offset :: "32 word"

record entry_ref =
  er_address :: nat
  er_name :: string

definition DEFAULT_BLOCK_CAPACITY :: nat where
  "DEFAULT_BLOCK_CAPACITY = 8192"

type_synonym delete_rows = "(segment_id \<times> (block_id \<times> block_offset list) list) list"

record txn_table_store =
  ts_txn_indexes :: "entry_ref list"
  ts_txn_indexes_store :: "string list"
  ts_rows :: delete_rows
  ts_has_update :: bool

record txn_store =
  st_txn_dbs :: "entry_ref list"
  st_txn_tables :: "entry_ref list"
  st_txn_tables_store :: "(string \<times> txn_table_store) list"

definition TxnTableStore_new :: txn_table_store where
  "TxnTableStore_new = \<lparr>ts_txn_indexes = [], ts_txn_indexes_store = [], ts_rows = [], ts_has_update = False\<rparr>"

definition TxnStore_new :: txn_store where
  "TxnStore_new = \<lparr>st_txn_dbs = [], st_txn_tables = [], st_txn_tables_store = []\<rparr>"

text \<open>\<^verbatim>\<open>operator[]\<close> of a hash map followed by an update in place: a missing key gets a default value first.\<close>

fun hash_modify :: "'k \<Rightarrow> 'v \<Rightarrow> ('v \<Rightarrow> 'v) \<Rightarrow> ('k \<times> 'v) list \<Rightarrow> ('k \<times> 'v) list" where
  "hash_modify k d f [] = [(k, f d)]"
| "hash_modify k d f ((k', v) # m) = (if k' = k then (k', f v) # m else (k', v) # hash_modify k d f m)"

section \<open>Changes\<close>

definition block_rows :: "segment_id \<Rightarrow> block_id \<Rightarrow> delete_rows \<Rightarrow> block_offset list" where
  "block_rows s b rows = (case map_of rows s of None \<Rightarrow> [] | Some m \<Rightarrow> (case map_of m b of None \<Rightarrow> [] | Some os \<Rightarrow> os))"

fun Delete_loop :: "row_id list \<Rightarrow> delete_rows \<Rightarrow> delete_rows res" where
  "Delete_loop [] rows = Inr rows"
| "Delete_loop (row_id # row_ids) rows =
     (let block_id = word_of_nat (unat (ri_segment_offset row_id) div DEFAULT_BLOCK_CAPACITY);
          block_offset = word_of_nat (unat (ri_segment_offset row_id) mod DEFAULT_BLOCK_CAPACITY);
          rows = hash_modify (ri_segment_id row_id) []
                   (hash_modify block_id [] (\<lambda>block_vec. block_vec @ [block_offset])) rows
      in if length (block_rows (ri_segment_id row_id) block_id rows) > DEFAULT_BLOCK_CAPACITY
         then Inl (UnrecoverableError ''Delete row exceed block capacity'')
         else Delete_loop row_ids rows)"

definition TxnTableStore_Delete :: "row_id list \<Rightarrow> txn_table_store \<Rightarrow> txn_table_store res" where
  "TxnTableStore_Delete row_ids store =
     res_bind (Delete_loop row_ids (ts_rows store)) (\<lambda>rows.
       Inr (store\<lparr>ts_rows := rows, ts_has_update := True\<rparr>))"

definition AddIndexStore :: "entry_ref \<Rightarrow> txn_table_store \<Rightarrow> txn_table_store" where
  "AddIndexStore table_index_entry store =
     store\<lparr>ts_txn_indexes := List.insert table_index_entry (ts_txn_indexes store), ts_has_update := True\<rparr>"

definition GetIndexStore :: "entry_ref \<Rightarrow> txn_table_store \<Rightarrow> txn_table_store" where
  "GetIndexStore table_index_entry store =
     (if er_name table_index_entry \<in> set (ts_txn_indexes_store store) then store
      else store\<lparr>ts_txn_indexes_store := ts_txn_indexes_store store @ [er_name table_index_entry], ts_has_update := True\<rparr>)"

definition DropIndexStore :: "entry_ref \<Rightarrow> txn_table_store \<Rightarrow> txn_table_store" where
  "DropIndexStore table_index_entry store =
     (if table_index_entry \<in> set (ts_txn_indexes store)
      then store\<lparr>ts_txn_indexes := removeAll table_index_entry (ts_txn_indexes store),
                 ts_txn_indexes_store := removeAll (er_name table_index_entry) (ts_txn_indexes_store store),
                 ts_has_update := True\<rparr>
      else store\<lparr>ts_txn_indexes := ts_txn_indexes store @ [table_index_entry], ts_has_update := True\<rparr>)"

definition AddDBStore :: "entry_ref \<Rightarrow> txn_store \<Rightarrow> txn_store" where
  "AddDBStore db_entry st = st\<lparr>st_txn_dbs := List.insert db_entry (st_txn_dbs st)\<rparr>"

definition DropDBStore :: "entry_ref \<Rightarrow> txn_store \<Rightarrow> txn_store" where
  "DropDBStore db_entry st =
     (if db_entry \<in> set (st_txn_dbs st) then st\<lparr>st_txn_dbs := removeAll db_entry (st_txn_dbs st)\<rparr>
      else st\<lparr>st_txn_dbs := st_txn_dbs st @ [db_entry]\<rparr>)"

definition AddTableStore :: "entry_ref \<Rightarrow> txn_store \<Rightarrow> txn_store" where
  "AddTableStore table_entry st = st\<lparr>st_txn_tables := List.insert table_entry (st_txn_tables st)\<rparr>"

definition DropTableStore :: "entry_ref \<Rightarrow> txn_store \<Rightarrow> txn_store" where
  "DropTableStore table_entry st =
     (if table_entry \<in> set (st_txn_tables st)
      then st\<lparr>st_txn_tables := removeAll table_entry (st_txn_tables st),
              st_txn_tables_store := filter (\<lambda>(name, _). name \<noteq> er_name table_entry) (st_txn_tables_store st)\<rparr>
      else st\<lparr>st_txn_tables := st_txn_tables st @ [table_entry]\<rparr>)"

text \<open>\<^verbatim>\<open>GetTxnTableStore\<close> followed by a change of the store it returns.\<close>

definition on_table_store :: "entry_ref \<Rightarrow> (txn_table_store \<Rightarrow> txn_table_store) \<Rightarrow> txn_store \<Rightarrow> txn_store" where
  "on_table_store table_entry f st =
     st\<lparr>st_txn_tables_store := hash_modify (er_name table_entry) TxnTableStore_new f (st_txn_tables_store st)\<rparr>"

definition ReadOnly :: "txn_store \<Rightarrow> bool" where
  "ReadOnly st \<longleftrightarrow> st_txn_dbs st = [] \<and> st_txn_tables st = [] \<and> \<not> list_ex (\<lambda>(_, s). ts_has_update s) (st_txn_tables_store st)"

section \<open>Conflicts\<close>

text \<open>
  The scan of two vectors of offsets: \<^verbatim>\<open>j\<close> only moves forward, so the second argument is what is left
  of the other vector.
\<close>

fun scan_offsets :: "block_offset list \<Rightarrow> block_offset list \<Rightarrow> bool" where
  "scan_offsets [] other = False"
| "scan_offsets (block_offset # block_offsets) other =
     (case dropWhile (\<lambda>x. x < block_offset) other of
        [] \<Rightarrow> False
      | x # rest \<Rightarrow> x = block_offset \<or> scan_offsets block_offsets (x # rest))"

definition TxnTableStore_CheckConflict :: "txn_table_store \<Rightarrow> txn_table_store \<Rightarrow> bool" where
  "TxnTableStore_CheckConflict store other =
     (if list_ex (\<lambda>index_name. list_ex (\<lambda>index_entry. index_name = er_name index_entry) (ts_txn_indexes other))
           (ts_txn_indexes_store store)
      then True
      else if ts_rows store = [] \<or> ts_rows other = [] then False
      else list_ex (\<lambda>(segment_id, block_map).
             case map_of (ts_rows other) segment_id of
               None \<Rightarrow> False
             | Some other_map \<Rightarrow>
                 list_ex (\<lambda>(block_id, block_offsets).
                   case map_of other_map block_id of
                     None \<Rightarrow> False
                   | Some other_block_offsets \<Rightarrow> scan_offsets block_offsets other_block_offsets) block_map)
             (ts_rows store))"

definition TxnStore_CheckConflict :: "txn_store \<Rightarrow> txn_store \<Rightarrow> bool" where
  "TxnStore_CheckConflict st other =
     list_ex (\<lambda>(table_name, table_store).
       list_ex (\<lambda>table_entry. table_name = er_name table_entry) (st_txn_tables other)
       \<or> (case map_of (st_txn_tables_store other) table_name of
            None \<Rightarrow> False
          | Some other_table_store \<Rightarrow> TxnTableStore_CheckConflict table_store other_table_store))
       (st_txn_tables_store st)"

section \<open>The rows a store deletes\<close>

definition deleted_rows :: "txn_table_store \<Rightarrow> (segment_id \<times> block_id \<times> block_offset) set" where
  "deleted_rows store = {(s, b, x). x \<in> set (block_rows s b (ts_rows store))}"

definition rows_wf :: "delete_rows \<Rightarrow> bool" where
  "rows_wf rows \<longleftrightarrow> distinct (map fst rows) \<and> list_all (\<lambda>(_, m). distinct (map fst m)) rows"

definition ascending :: "txn_table_store \<Rightarrow> bool" where
  "ascending store \<longleftrightarrow> (\<forall>s b. sorted (block_rows s b (ts_rows store)))"

definition row_place :: "row_id \<Rightarrow> segment_id \<times> block_id \<times> block_offset" where
  "row_place r = (ri_segment_id r, word_of_nat (unat (ri_segment_offset r) div DEFAULT_BLOCK_CAPACITY),
     word_of_nat (unat (ri_segment_offset r) mod DEFAULT_BLOCK_CAPACITY))"

lemma word16_of_nat_inject: "(word_of_nat m :: 16 word) = word_of_nat n \<Longrightarrow> m < 2 ^ 16 \<Longrightarrow> n < 2 ^ 16 \<Longrightarrow> m = n"
  by (drule arg_cong [of _ _ unat]) (simp add: unsigned_of_nat take_bit_nat_eq_self)

lemma row_place_inject:
  assumes "unat (ri_segment_offset r) < 2 ^ 29" "unat (ri_segment_offset r') < 2 ^ 29" "row_place r = row_place r'"
  shows "r = r'"
proof -
  let ?x = "unat (ri_segment_offset r)" and ?y = "unat (ri_segment_offset r')"
  have "?x div 8192 = ?y div 8192" "?x mod 8192 = ?y mod 8192"
    using assms by (auto simp: row_place_def DEFAULT_BLOCK_CAPACITY_def intro!: word16_of_nat_inject)
  then have "?x = ?y" by (metis div_mult_mod_eq)
  with assms(3) show ?thesis by (simp add: row_place_def word_unat_eq_iff)
qed

lemma map_of_hash_modify:
  "map_of (hash_modify k d f m) k' = (if k' = k then Some (f (case map_of m k of None \<Rightarrow> d | Some v \<Rightarrow> v)) else map_of m k')"
  by (induction m) auto

lemma fst_hash_modify: "map fst (hash_modify k d f m) = (if k \<in> set (map fst m) then map fst m else map fst m @ [k])"
proof (induction m)
  case (Cons p m)
  then show ?case by (cases p; cases "fst p = k") auto
qed simp

lemma block_rows_modify:
  "block_rows s' b' (hash_modify s [] (hash_modify b [] f) rows)
     = (if s' = s \<and> b' = b then f (block_rows s b rows) else block_rows s' b' rows)"
  by (auto simp: block_rows_def map_of_hash_modify split: option.splits)

lemma block_rowsE:
  assumes "x \<in> set (block_rows s b rows)"
  obtains m xs where "map_of rows s = Some m" "map_of m b = Some xs" "block_rows s b rows = xs"
  using assms by (cases "map_of rows s"; cases "map_of (the (map_of rows s)) b") (auto simp: block_rows_def)

lemma hash_modify_distinct: "distinct (map fst m) \<Longrightarrow> distinct (map fst (hash_modify k d f m))"
  by (auto simp: fst_hash_modify)

lemma hash_modify_values: "list_all (\<lambda>(_, v). P v) m \<Longrightarrow> P (f d) \<Longrightarrow> (\<And>v. P v \<Longrightarrow> P (f v)) \<Longrightarrow> list_all (\<lambda>(_, v). P v) (hash_modify k d f m)"
  by (induction m) auto

lemma Delete_loop_Cons:
  assumes "Delete_loop (r # rs) rows = Inr rows'" and "row_place r = (s, b, x)"
  shows "Delete_loop rs (hash_modify s [] (hash_modify b [] (\<lambda>v. v @ [x])) rows) = Inr rows'"
  using assms by (auto simp: row_place_def Let_def split: if_splits)

lemma Delete_loop_wf: "Delete_loop rs rows = Inr rows' \<Longrightarrow> rows_wf rows \<Longrightarrow> rows_wf rows'"
proof (induction rs arbitrary: rows)
  case (Cons r rs)
  obtain s b x where p: "row_place r = (s, b, x)" by (cases "row_place r")
  have "rows_wf (hash_modify s [] (hash_modify b [] (\<lambda>v. v @ [x])) rows)"
    using Cons.prems(2) unfolding rows_wf_def by (auto intro!: hash_modify_distinct hash_modify_values)
  then show ?case by (rule Cons.IH [OF Delete_loop_Cons [OF Cons.prems(1) p]])
qed simp

lemma Delete_loop_rows:
  "Delete_loop rs rows = Inr rows' \<Longrightarrow>
     block_rows s b rows' = block_rows s b rows @ [x. (s', b', x) \<leftarrow> map row_place rs, s' = s \<and> b' = b]"
proof (induction rs arbitrary: rows)
  case (Cons r rs)
  obtain s' b' x where p: "row_place r = (s', b', x)" by (cases "row_place r")
  from Cons.IH [OF Delete_loop_Cons [OF Cons.prems(1) p]] show ?case
    by (simp add: block_rows_modify p)
qed simp

lemma scan_offsets_sound: "scan_offsets xs ys \<Longrightarrow> set xs \<inter> set ys \<noteq> {}"
proof (induction xs arbitrary: ys)
  case (Cons x xs)
  obtain z zs where z: "dropWhile (\<lambda>y. y < x) ys = z # zs" "z = x \<or> scan_offsets xs (z # zs)"
    using Cons.prems by (auto split: list.splits)
  then have "set (z # zs) \<subseteq> set ys" by (metis set_dropWhileD subsetI)
  then show ?case using z(2) Cons.IH [of "z # zs"] by auto
qed simp

lemma scan_offsets_complete:
  "sorted xs \<Longrightarrow> sorted ys \<Longrightarrow> z \<in> set xs \<Longrightarrow> z \<in> set ys \<Longrightarrow> scan_offsets xs ys"
proof (induction xs arbitrary: ys)
  case (Cons x xs)
  have x: "x \<le> z" "sorted xs" using Cons.prems by auto
  have z: "z \<in> set (dropWhile (\<lambda>y. y < x) ys)"
    using Cons.prems(4) x(1) by (metis UnE leD set_append set_takeWhileD takeWhile_dropWhile_id)
  then obtain w ws where w: "dropWhile (\<lambda>y. y < x) ys = w # ws" by (cases "dropWhile (\<lambda>y. y < x) ys") auto
  have s: "sorted (w # ws)" using Cons.prems(2) sorted_dropWhile w by metis
  have "\<not> w < x" using hd_dropWhile [of "\<lambda>y. y < x" ys] w by simp
  show ?case
  proof (cases "z = x")
    case True
    have "w \<le> z" using s z w by auto
    with True \<open>\<not> w < x\<close> have "w = x" by simp
    then show ?thesis by (simp add: w)
  next
    case False
    then have "scan_offsets xs (w # ws)" using Cons.IH [OF x(2) s] Cons.prems(3) z w by auto
    then show ?thesis by (simp add: w)
  qed
qed simp

lemma scan_offsets_sorted: "sorted xs \<Longrightarrow> sorted ys \<Longrightarrow> scan_offsets xs ys \<longleftrightarrow> set xs \<inter> set ys \<noteq> {}"
  using scan_offsets_sound scan_offsets_complete by blast

section \<open>Conflicts are common rows\<close>

lemma conflict_rows:
  assumes wf: "rows_wf (ts_rows a)" and a: "ascending a" and b: "ascending b"
  shows "TxnTableStore_CheckConflict a b \<longleftrightarrow>
    (\<exists>n \<in> set (ts_txn_indexes_store a). \<exists>e \<in> set (ts_txn_indexes b). n = er_name e) \<or> deleted_rows a \<inter> deleted_rows b \<noteq> {}"
    (is "_ \<longleftrightarrow> ?I \<or> ?R")
proof -
  let ?L = "list_ex (\<lambda>(s, m). case map_of (ts_rows b) s of None \<Rightarrow> False
      | Some m' \<Rightarrow> list_ex (\<lambda>(bl, xs). case map_of m' bl of None \<Rightarrow> False | Some ys \<Rightarrow> scan_offsets xs ys) m) (ts_rows a)"
  have br: "block_rows s bl (ts_rows a) = xs" if "(s, m) \<in> set (ts_rows a)" "(bl, xs) \<in> set m" for s m bl xs
    using wf that by (auto simp: rows_wf_def list_all_iff block_rows_def)
  have "?L \<longleftrightarrow> ?R"
  proof
    assume ?L
    then obtain s m m' bl xs ys where h: "(s, m) \<in> set (ts_rows a)" "map_of (ts_rows b) s = Some m'" "(bl, xs) \<in> set m"
      "map_of m' bl = Some ys" "scan_offsets xs ys" by (auto simp: list_ex_iff split: option.splits)
    then have "xs = block_rows s bl (ts_rows a)" "ys = block_rows s bl (ts_rows b)"
      using br by (auto simp: block_rows_def)
    with scan_offsets_sound [OF h(5)] show ?R by (auto simp: deleted_rows_def)
  next
    assume ?R
    then obtain s bl x where x: "x \<in> set (block_rows s bl (ts_rows a))" "x \<in> set (block_rows s bl (ts_rows b))"
      by (auto simp: deleted_rows_def)
    then have s: "scan_offsets (block_rows s bl (ts_rows a)) (block_rows s bl (ts_rows b))"
      using a b by (auto simp: ascending_def intro: scan_offsets_complete)
    from x(1) obtain m xs where m: "(s, m) \<in> set (ts_rows a)" "(bl, xs) \<in> set m" "block_rows s bl (ts_rows a) = xs"
      by (metis block_rowsE map_of_SomeD)
    from x(2) obtain m' ys where m': "map_of (ts_rows b) s = Some m'" "map_of m' bl = Some ys" "block_rows s bl (ts_rows b) = ys"
      by (rule block_rowsE)
    show ?L unfolding list_ex_iff
      by (rule bexI [OF _ m(1)]) (use m(2,3) m' s in \<open>auto simp: list_ex_iff intro!: bexI [OF _ m(2)]\<close>)
  qed
  moreover have "ts_rows a = [] \<or> ts_rows b = [] \<Longrightarrow> \<not> ?R" by (auto simp: deleted_rows_def block_rows_def)
  ultimately show ?thesis unfolding TxnTableStore_CheckConflict_def by (auto simp: list_ex_iff)
qed

lemma Delete_new:
  assumes "TxnTableStore_Delete rs TxnTableStore_new = Inr a"
  shows "rows_wf (ts_rows a)" "ts_txn_indexes_store a = []" "ts_txn_indexes a = []"
    and "block_rows s b (ts_rows a) = [x. (s', b', x) \<leftarrow> map row_place rs, s' = s \<and> b' = b]"
    and "deleted_rows a = row_place ` set rs"
proof -
  obtain rows where r: "Delete_loop rs [] = Inr rows" and a: "a = TxnTableStore_new\<lparr>ts_rows := rows, ts_has_update := True\<rparr>"
    using assms by (auto simp: TxnTableStore_Delete_def TxnTableStore_new_def res_bind_eq_Inr)
  show "rows_wf (ts_rows a)" using Delete_loop_wf [OF r] a by (simp add: rows_wf_def)
  show "ts_txn_indexes_store a = []" "ts_txn_indexes a = []" using a by (simp_all add: TxnTableStore_new_def)
  have br: "block_rows s b (ts_rows a) = [x. (s', b', x) \<leftarrow> map row_place rs, s' = s \<and> b' = b]" for s b
    using Delete_loop_rows [OF r, of s b] a by (simp add: block_rows_def)
  then show "block_rows s b (ts_rows a) = [x. (s', b', x) \<leftarrow> map row_place rs, s' = s \<and> b' = b]" .
  show "deleted_rows a = row_place ` set rs"
    unfolding deleted_rows_def br by (force split: if_splits)
qed

lemma block_ascending:
  assumes "sorted (map ri_segment_offset rs)" and "\<forall>r \<in> set rs. unat (ri_segment_offset r) < 2 ^ 29"
  shows "sorted [x. (s', b', x) \<leftarrow> map row_place rs, s' = s \<and> b' = b]"
  using assms
proof (induction rs)
  case (Cons r rs)
  have "x \<le> y" if "row_place r = (s, b, x)" "row_place r' = (s, b, y)" "r' \<in> set rs" for x y r'
  proof -
    let ?i = "unat (ri_segment_offset r)" and ?j = "unat (ri_segment_offset r')"
    have "?i \<le> ?j" "?i < 2 ^ 29" "?j < 2 ^ 29" using Cons.prems that(3) by (auto simp: word_le_nat_alt)
    moreover have "(word_of_nat (?i div 8192) :: 16 word) = word_of_nat (?j div 8192)"
      using that(1,2) by (simp add: row_place_def DEFAULT_BLOCK_CAPACITY_def)
    ultimately have "?i div 8192 = ?j div 8192" by (auto intro!: word16_of_nat_inject)
    with \<open>?i \<le> ?j\<close> have "?i mod 8192 \<le> ?j mod 8192"
      by (metis div_mult_mod_eq nat_add_left_cancel_le)
    moreover have "unat x = ?i mod 8192" "unat y = ?j mod 8192"
      using that(1,2) by (auto simp: row_place_def DEFAULT_BLOCK_CAPACITY_def unsigned_of_nat take_bit_nat_eq_self)
    ultimately show ?thesis by (simp add: word_le_nat_alt)
  qed
  then show ?case using Cons by (cases "row_place r") (auto split: if_splits)
qed simp



text \<open>
  The order matters: \<^verbatim>\<open>Delete\<close> keeps the order of the row ids it is given, and the scan misses a common
  row behind a larger offset.
\<close>

theorem descending_delete_conflict_missed:
  "\<exists>a b. TxnTableStore_Delete [\<lparr>ri_segment_id = 0, ri_segment_offset = 5\<rparr>, \<lparr>ri_segment_id = 0, ri_segment_offset = 3\<rparr>] TxnTableStore_new = Inr a
     \<and> TxnTableStore_Delete [\<lparr>ri_segment_id = 0, ri_segment_offset = 3\<rparr>] TxnTableStore_new = Inr b
     \<and> \<not> TxnTableStore_CheckConflict a b"
  by (simp add: TxnTableStore_Delete_def TxnTableStore_new_def DEFAULT_BLOCK_CAPACITY_def block_rows_def Let_def
      TxnTableStore_CheckConflict_def)

end
