(* ===== verification/Txn_Manager.thy ===== *)
theory Txn_Manager
  imports Txn_Store Wal_Entry
begin

text \<open>
  Transactions and their manager: \<^verbatim>\<open>src/storage/txn/txn_manager.cpp\<close>, the states of
  \<^verbatim>\<open>txn_context.cppm\<close> and the control flow of \<^verbatim>\<open>Txn::Commit\<close> and \<^verbatim>\<open>Txn::Rollback\<close> in
  \<^verbatim>\<open>txn.cpp\<close>.  Many threads run transactions at the same time.  Each operation of the manager holds
  its lock, so it is one step; between them the threads interleave, and the place a thread has reached in
  \<^verbatim>\<open>Commit\<close> or \<^verbatim>\<open>Rollback\<close> is part of its transaction.  A pointer to a transaction is its id; it
  is valid as long as the map of the manager holds the transaction.
\<close>

section \<open>Transactions\<close>

datatype txn_state = kNotStarted | kStarted | kCommitting | kCommitted | kRollbacking | kRollbacked | TS_kInvalid

datatype txn_type = kRead | kWrite | TT_kInvalid

text \<open>
  The place of the thread: executing statements, inside \<^verbatim>\<open>Commit\<close> of a read-only transaction, inside \<^verbatim>\<open>Commit\<close> with a
  time stamp for writing, waiting for \<^verbatim>\<open>CommitBottom\<close>, inside \<^verbatim>\<open>Rollback\<close>, before and after \<^verbatim>\<open>FinishTxn\<close>.
\<close>

datatype txn_pc =
    Running | ReadStamped u64 | ReadCommitting u64 | Stamped u64 | Prepared | Conflicted | Passed | Sent | ConflictSent
  | AbortStamped u64 | Finishing | Finished

record txn =
  tx_begin_ts :: u64
  tx_commit_ts :: u64
  tx_committed_ts :: u64
  tx_state :: txn_state
  tx_type :: txn_type
  tx_wal_entry :: "wal_entry option"
  tx_store :: txn_store
  tx_pc :: txn_pc

definition new_wal_entry :: wal_entry where
  "new_wal_entry = \<lparr>we_size = 0, we_checksum = 0, we_txn_id = 0, we_commit_ts = 0, we_cmds = []\<rparr>"

definition Txn_new :: "u64 \<Rightarrow> txn" where
  "Txn_new begin_ts = \<lparr>tx_begin_ts = begin_ts, tx_commit_ts = 0, tx_committed_ts = 0, tx_state = kStarted,
     tx_type = TT_kInvalid, tx_wal_entry = Some new_wal_entry, tx_store = TxnStore_new, tx_pc = Running\<rparr>"

definition SetTxnCommitting :: "u64 \<Rightarrow> txn \<Rightarrow> txn res" where
  "SetTxnCommitting commit_ts t =
     (if tx_state t \<noteq> kStarted then Inl (UnrecoverableError ''Transaction isn't in STARTED status.'')
      else Inr (t\<lparr>tx_state := kCommitting, tx_commit_ts := commit_ts,
                  tx_wal_entry := map_option (\<lambda>e. e\<lparr>we_commit_ts := commit_ts\<rparr>) (tx_wal_entry t)\<rparr>))"

definition SetTxnCommitted :: "u64 \<Rightarrow> txn \<Rightarrow> txn res" where
  "SetTxnCommitted committed_ts t =
     (if tx_state t \<noteq> kCommitting then Inl (UnrecoverableError ''Transaction isn't in COMMITTING status.'')
      else Inr (t\<lparr>tx_state := kCommitted, tx_committed_ts := committed_ts\<rparr>))"

definition SetTxnRollbacking :: "u64 \<Rightarrow> txn \<Rightarrow> txn res" where
  "SetTxnRollbacking rollback_ts t =
     (if tx_state t \<noteq> kCommitting \<and> tx_state t \<noteq> kStarted
      then Inl (UnrecoverableError ''Transaction isn't in TO_ROLLBACK status.'')
      else Inr (t\<lparr>tx_state := kRollbacking, tx_commit_ts := rollback_ts\<rparr>))"

definition SetTxnRollbacked :: "txn \<Rightarrow> txn" where
  "SetTxnRollbacked t = t\<lparr>tx_state := kRollbacked\<rparr>"

section \<open>The manager\<close>

text \<open>
  \<open>tm_wait\<close> is the ordered map \<^verbatim>\<open>wait_conflict_ck_\<close>.  \<open>tm_put\<close> is everything given to
  \<^verbatim>\<open>WalManager::PutEntries\<close> so far, of which the log thread has taken the first \<open>tm_flushed\<close> entries.
\<close>

record txn_manager =
  tm_txn_map :: "u64 \<rightharpoonup> txn"
  tm_next_txn_id :: u64
  tm_start_ts :: u64
  tm_beginned :: "u64 list"
  tm_finishing :: "u64 list"
  tm_finished :: "(u64 \<times> u64) list"
  tm_wait :: "(u64 \<times> wal_entry option) list"
  tm_running :: bool
  tm_put :: "wal_entry list"
  tm_flushed :: nat

definition TxnManager_start :: "u64 \<Rightarrow> u64 \<Rightarrow> txn_manager" where
  "TxnManager_start next_txn_id start_ts =
     \<lparr>tm_txn_map = Map.empty, tm_next_txn_id = next_txn_id, tm_start_ts = start_ts, tm_beginned = [], tm_finishing = [],
      tm_finished = [], tm_wait = [], tm_running = True, tm_put = [], tm_flushed = 0\<rparr>"

text \<open>
  \<^verbatim>\<open>Stop\<close> wakes the waiting threads and forgets all transactions; the transaction is lost with the map.
\<close>

definition TxnManager_Stop :: "txn_manager \<Rightarrow> txn_manager" where
  "TxnManager_Stop tm = (if \<not> tm_running tm then tm else tm\<lparr>tm_running := False, tm_txn_map := Map.empty\<rparr>)"

definition set_txn :: "u64 \<Rightarrow> txn \<Rightarrow> txn_manager \<Rightarrow> txn_manager" where
  "set_txn i t tm = tm\<lparr>tm_txn_map := (tm_txn_map tm)(i \<mapsto> t)\<rparr>"

text \<open>Following a pointer.\<close>

definition txn_at :: "txn_manager \<Rightarrow> u64 \<Rightarrow> txn res" where
  "txn_at tm i = (case tm_txn_map tm i of None \<Rightarrow> Inl UndefinedBehaviour | Some t \<Rightarrow> Inr t)"

definition BeginTxn :: "txn_manager \<Rightarrow> (u64 \<times> txn_manager) res" where
  "BeginTxn tm =
     (if \<not> tm_running tm then Inl (UnrecoverableError ''TxnManager is not running, cannot create txn'')
      else
        let new_txn_id = tm_next_txn_id tm + 1; ts = tm_start_ts tm + 1
        in Inr (new_txn_id, tm\<lparr>tm_next_txn_id := new_txn_id, tm_start_ts := ts,
                   tm_txn_map := (tm_txn_map tm)(new_txn_id \<mapsto> Txn_new ts),
                   tm_beginned := tm_beginned tm @ [new_txn_id]\<rparr>))"

definition GetTxn :: "u64 \<Rightarrow> txn_manager \<Rightarrow> txn res" where
  "GetTxn i tm = (case tm_txn_map tm i of None \<Rightarrow> Inl (StdException ''out_of_range'') | Some t \<Rightarrow> Inr t)"

definition GetTxnState :: "u64 \<Rightarrow> txn_manager \<Rightarrow> txn_state" where
  "GetTxnState i tm = (case tm_txn_map tm i of None \<Rightarrow> kCommitted | Some t \<Rightarrow> tx_state t)"

definition CheckIfCommitting :: "u64 \<Rightarrow> u64 \<Rightarrow> txn_manager \<Rightarrow> bool" where
  "CheckIfCommitting i begin_ts tm =
     (case tm_txn_map tm i of
        None \<Rightarrow> True
      | Some t \<Rightarrow> if tx_state t \<noteq> kCommitting \<and> tx_state t \<noteq> kCommitted then False else tx_commit_ts t < begin_ts)"

definition GetCommitTimeStampR :: "u64 \<Rightarrow> txn_manager \<Rightarrow> (u64 \<times> txn_manager) res" where
  "GetCommitTimeStampR i tm =
     res_bind (txn_at tm i) (\<lambda>t.
       let commit_ts = tm_start_ts tm + 1
       in Inr (commit_ts, set_txn i (t\<lparr>tx_type := kRead\<rparr>) (tm\<lparr>tm_start_ts := commit_ts\<rparr>)))"

fun map_emplace :: "'k::linorder \<Rightarrow> 'v \<Rightarrow> ('k \<times> 'v) list \<Rightarrow> ('k \<times> 'v) list" where
  "map_emplace k v [] = [(k, v)]"
| "map_emplace k v ((k', v') # m) =
     (if k < k' then (k, v) # (k', v') # m else if k = k' then (k', v') # m else (k', v') # map_emplace k v m)"

definition map_set :: "'k \<Rightarrow> 'v \<Rightarrow> ('k \<times> 'v) list \<Rightarrow> ('k \<times> 'v) list res" where
  "map_set k v m =
     (if k \<in> fst ` set m then Inr (map (\<lambda>(k', v'). if k' = k then (k', v) else (k', v')) m)
      else Inl (StdException ''out_of_range''))"

definition map_erase :: "'k \<Rightarrow> ('k \<times> 'v) list \<Rightarrow> ('k \<times> 'v) list" where
  "map_erase k m = filter (\<lambda>(k', _). k' \<noteq> k) m"

definition GetCommitTimeStampW :: "u64 \<Rightarrow> txn_manager \<Rightarrow> (u64 \<times> txn_manager) res" where
  "GetCommitTimeStampW i tm =
     res_bind (txn_at tm i) (\<lambda>t.
       let commit_ts = tm_start_ts tm + 1
       in Inr (commit_ts, set_txn i (t\<lparr>tx_type := kWrite\<rparr>)
                (tm\<lparr>tm_start_ts := commit_ts, tm_wait := map_emplace commit_ts None (tm_wait tm),
                    tm_finishing := List.insert i (tm_finishing tm)\<rparr>)))"

text \<open>
  The finishing transactions the conflict check looks at.  The comparison with each of them, after the lock is released,
  reads only what no longer changes once a transaction is committing, so the whole check counts as one step.
\<close>

definition conflict_candidate :: "txn \<Rightarrow> txn \<Rightarrow> bool" where
  "conflict_candidate t finishing_txn =
     (case tx_state finishing_txn of
        kCommitted \<Rightarrow> tx_begin_ts t < tx_committed_ts finishing_txn
      | kCommitting \<Rightarrow> tx_commit_ts t > tx_commit_ts finishing_txn
      | _ \<Rightarrow> False)"

fun candidate_txns :: "txn_manager \<Rightarrow> txn \<Rightarrow> u64 list \<Rightarrow> txn list res" where
  "candidate_txns tm t [] = Inr []"
| "candidate_txns tm t (j # js) =
     res_bind (txn_at tm j) (\<lambda>f. res_bind (candidate_txns tm t js) (\<lambda>cs.
       Inr (if conflict_candidate t f then f # cs else cs)))"

definition CheckConflict :: "u64 \<Rightarrow> txn_manager \<Rightarrow> bool res" where
  "CheckConflict i tm =
     res_bind (txn_at tm i) (\<lambda>t. res_bind (candidate_txns tm t (tm_finishing tm)) (\<lambda>cs.
       Inr (list_ex (\<lambda>c. TxnStore_CheckConflict (tx_store t) (tx_store c)) cs)))"

definition SendToWAL :: "u64 \<Rightarrow> txn_manager \<Rightarrow> txn_manager res" where
  "SendToWAL i tm =
     (if \<not> tm_running tm then Inl (UnrecoverableError ''TxnManager is not running, cannot put wal entry'')
      else res_bind (txn_at tm i) (\<lambda>t.
        let commit_ts = tx_commit_ts t
        in case tm_wait tm of
             [] \<Rightarrow> Inl (UnrecoverableError (''WalManager::PutEntry wait_conflict_ck_ is empty, txn->CommitTS() ''
                     @ nat_digits (unat commit_ts)))
           | (first, _) # _ \<Rightarrow>
               if first > commit_ts
               then Inl (UnrecoverableError (''WalManager::PutEntry wait_conflict_ck_.begin()->first '' @ nat_digits (unat first)
                      @ '' > txn->CommitTS() '' @ nat_digits (unat commit_ts)))
               else
                 res_bind (case tx_wal_entry t of
                             Some wal_entry \<Rightarrow> map_set commit_ts (Some wal_entry) (tm_wait tm)
                           | None \<Rightarrow> Inr (map_erase commit_ts (tm_wait tm))) (\<lambda>wait.
                   Inr (tm\<lparr>tm_wait := dropWhile (\<lambda>(_, e). e \<noteq> None) wait,
                           tm_put := tm_put tm @ map (\<lambda>(_, e). the e) (takeWhile (\<lambda>(_, e). e \<noteq> None) wait)\<rparr>))))"

section \<open>Finishing a transaction\<close>

fun first_uncommitted :: "txn_manager \<Rightarrow> u64 list \<Rightarrow> u64 \<Rightarrow> u64 list \<times> u64" where
  "first_uncommitted tm [] least = ([], least)"
| "first_uncommitted tm (j # js) least =
     (case tm_txn_map tm j of
        None \<Rightarrow> first_uncommitted tm js least
      | Some t \<Rightarrow>
          if tx_state t = kCommitted \<or> tx_state t = kRollbacked then first_uncommitted tm js least
          else (j # js, tx_begin_ts t))"

text \<open>
  The last loop of \<^verbatim>\<open>FinishTxn\<close>.  The check that the finished transaction is in the map repeats the use of the
  pointer before.
\<close>

fun pop_finished :: "u64 \<Rightarrow> (u64 \<times> u64) list \<Rightarrow> txn_manager \<Rightarrow> txn_manager res" where
  "pop_finished least [] tm = Inr (tm\<lparr>tm_finished := []\<rparr>)"
| "pop_finished least ((finished_ts, j) # finished) tm =
     res_bind (txn_at tm j) (\<lambda>f.
       if tx_state f \<noteq> kCommitted \<and> tx_state f \<noteq> kRollbacked then Inr (tm\<lparr>tm_finished := (finished_ts, j) # finished\<rparr>)
       else if finished_ts > least then Inr (tm\<lparr>tm_finished := (finished_ts, j) # finished\<rparr>)
       else pop_finished least finished
              (tm\<lparr>tm_finishing := removeAll j (tm_finishing tm), tm_txn_map := (tm_txn_map tm)(j := None)\<rparr>))"

definition FinishTxn :: "u64 \<Rightarrow> txn_manager \<Rightarrow> txn_manager res" where
  "FinishTxn i tm =
     res_bind (txn_at tm i) (\<lambda>t.
       case tx_type t of
         TT_kInvalid \<Rightarrow> Inl (UnrecoverableError ''Txn type is invalid'')
       | kRead \<Rightarrow> Inr (tm\<lparr>tm_txn_map := (tm_txn_map tm)(i := None)\<rparr>)
       | kWrite \<Rightarrow>
           let finished_ts = tm_start_ts tm + 1
           in res_bind (if tx_state t = kCommitting then SetTxnCommitted finished_ts t
                        else Inr (if tx_state t = kRollbacking then SetTxnRollbacked t else t)) (\<lambda>t.
              let tm = set_txn i t (tm\<lparr>tm_start_ts := finished_ts\<rparr>);
                  (beginned, least) = first_uncommitted tm (tm_beginned tm) (tx_commit_ts t + 1)
              in pop_finished least (tm_finished tm @ [(finished_ts, i)]) (tm\<lparr>tm_beginned := beginned\<rparr>)))"

definition GetCleanupScanTS :: "u64 \<Rightarrow> txn_manager \<Rightarrow> u64 \<times> txn_manager" where
  "GetCleanupScanTS checkpointed_ts tm =
     (let (beginned, first_uncommitted_begin_ts) =
            (case dropWhile (\<lambda>j. tm_txn_map tm j = None) (tm_beginned tm) of
               [] \<Rightarrow> ([], tm_start_ts tm)
             | j # js \<Rightarrow> (j # js, tx_begin_ts (the (tm_txn_map tm j))))
      in (min first_uncommitted_begin_ts checkpointed_ts, tm\<lparr>tm_beginned := beginned\<rparr>))"

section \<open>Committing and rolling back\<close>

definition at_pc :: "txn_pc \<Rightarrow> txn \<Rightarrow> txn" where
  "at_pc pc t = t\<lparr>tx_pc := pc\<rparr>"

definition move_txn :: "u64 \<Rightarrow> txn_pc \<Rightarrow> txn_manager \<Rightarrow> txn_manager res" where
  "move_txn i pc tm = res_bind (txn_at tm i) (\<lambda>t. Inr (set_txn i (at_pc pc t) tm))"

text \<open>The first step of \<^verbatim>\<open>Txn::Commit\<close>: a time stamp, for reading when there is nothing to write.\<close>

definition Commit_begin :: "u64 \<Rightarrow> txn_manager \<Rightarrow> txn_manager res" where
  "Commit_begin i tm =
     res_bind (txn_at tm i) (\<lambda>t.
       if (case tx_wal_entry t of None \<Rightarrow> True | Some e \<Rightarrow> we_cmds e = []) \<and> ReadOnly (tx_store t)
       then res_bind (GetCommitTimeStampR i tm) (\<lambda>(ts, tm). move_txn i (ReadStamped ts) tm)
       else res_bind (GetCommitTimeStampW i tm) (\<lambda>(ts, tm). move_txn i (Stamped ts) tm))"

text \<open>The first step of \<^verbatim>\<open>Txn::Rollback\<close> of a transaction that has not begun to commit.\<close>

definition Rollback_begin :: "u64 \<Rightarrow> txn_manager \<Rightarrow> txn_manager res" where
  "Rollback_begin i tm = res_bind (GetCommitTimeStampR i tm) (\<lambda>(ts, tm). move_txn i (AbortStamped ts) tm)"

text \<open>
  The next step of a thread inside \<^verbatim>\<open>Commit\<close> or \<^verbatim>\<open>Rollback\<close>.  After a conflict the entry is dropped, its place
  in the log is given up, and the exception makes the caller roll back.
\<close>

definition txn_action :: "u64 \<Rightarrow> txn_manager \<Rightarrow> txn_manager res" where
  "txn_action i tm =
     res_bind (txn_at tm i) (\<lambda>t.
       case tx_pc t of
         ReadStamped ts \<Rightarrow>
           res_bind (SetTxnCommitting ts t) (\<lambda>t. Inr (set_txn i (at_pc (ReadCommitting ts) t) tm))
       | ReadCommitting ts \<Rightarrow>
           res_bind (SetTxnCommitted ts t) (\<lambda>t. Inr (set_txn i (at_pc Finishing t) tm))
       | Stamped ts \<Rightarrow>
           res_bind (SetTxnCommitting ts t) (\<lambda>t. Inr (set_txn i (at_pc Prepared t) tm))
       | Prepared \<Rightarrow>
           res_bind (CheckConflict i tm) (\<lambda>conflict.
             Inr (set_txn i (if conflict then at_pc Conflicted (t\<lparr>tx_wal_entry := None\<rparr>)
                             else at_pc Passed (t\<lparr>tx_wal_entry := map_option (\<lambda>e. e\<lparr>we_txn_id := i\<rparr>) (tx_wal_entry t)\<rparr>)) tm))
       | Conflicted \<Rightarrow> res_bind (SendToWAL i tm) (move_txn i ConflictSent)
       | Passed \<Rightarrow> res_bind (SendToWAL i tm) (move_txn i Sent)
       | ConflictSent \<Rightarrow>
           res_bind (SetTxnRollbacking (tx_commit_ts t) t) (\<lambda>t. Inr (set_txn i (at_pc Finishing t) tm))
       | AbortStamped ts \<Rightarrow>
           res_bind (SetTxnRollbacking ts t) (\<lambda>t. Inr (set_txn i (at_pc Finishing t) tm))
       | Finishing \<Rightarrow> FinishTxn i (set_txn i (at_pc Finished t) tm)
       | _ \<Rightarrow> Inr tm)"

text \<open>The log thread has written the next entry and runs \<^verbatim>\<open>CommitBottom\<close> of its transaction.\<close>

definition flush_next :: "txn_manager \<Rightarrow> txn_manager res" where
  "flush_next tm =
     (let e = tm_put tm ! tm_flushed tm
      in res_bind (GetTxn (we_txn_id e) tm) (\<lambda>t.
           Inr (set_txn (we_txn_id e) (at_pc Finishing t) (tm\<lparr>tm_flushed := tm_flushed tm + 1\<rparr>))))"

text \<open>
  The steps of the system.  Time stamps and transaction ids have not run out of 64 bits.
\<close>

abbreviation stamps_left :: "txn_manager \<Rightarrow> bool" where
  "stamps_left tm \<equiv> tm_start_ts tm < - 1 \<and> tm_next_txn_id tm < - 1"

definition working :: "txn_pc \<Rightarrow> bool" where
  "working pc \<longleftrightarrow> pc \<noteq> Running \<and> pc \<noteq> Sent \<and> pc \<noteq> Finished"

text \<open>The steps that finish what has been started: of a thread inside \<^verbatim>\<open>Commit\<close> or \<^verbatim>\<open>Rollback\<close>, or of the log thread.\<close>

inductive finish_step :: "txn_manager \<Rightarrow> txn_manager \<Rightarrow> bool" where
  act: "tm_txn_map tm i = Some t \<Longrightarrow> working (tx_pc t) \<Longrightarrow> txn_action i tm = Inr tm' \<Longrightarrow> finish_step tm tm'"
| flush: "tm_flushed tm < length (tm_put tm) \<Longrightarrow> flush_next tm = Inr tm' \<Longrightarrow> finish_step tm tm'"

inductive txn_step :: "txn_manager \<Rightarrow> txn_manager \<Rightarrow> bool" where
  begin_txn: "stamps_left tm \<Longrightarrow> BeginTxn tm = Inr (i, tm') \<Longrightarrow> txn_step tm tm'"
| statement: "tm_txn_map tm i = Some t \<Longrightarrow> tx_pc t = Running \<Longrightarrow>
    txn_step tm (set_txn i (t\<lparr>tx_store := st, tx_wal_entry := Some e\<rparr>) tm)"
| commit: "stamps_left tm \<Longrightarrow> tm_txn_map tm i = Some t \<Longrightarrow> tx_pc t = Running \<Longrightarrow> Commit_begin i tm = Inr tm' \<Longrightarrow> txn_step tm tm'"
| rollback: "stamps_left tm \<Longrightarrow> tm_txn_map tm i = Some t \<Longrightarrow> tx_pc t = Running \<Longrightarrow> Rollback_begin i tm = Inr tm' \<Longrightarrow> txn_step tm tm'"
| finish: "stamps_left tm \<Longrightarrow> finish_step tm tm' \<Longrightarrow> txn_step tm tm'"
| cleanup: "GetCleanupScanTS checkpointed_ts tm = (visible_ts, tm') \<Longrightarrow> txn_step tm tm'"

definition reachable :: "txn_manager \<Rightarrow> bool" where
  "reachable tm \<longleftrightarrow> (\<exists>next_txn_id start_ts. txn_step\<^sup>*\<^sup>* (TxnManager_start next_txn_id start_ts) tm)"

section \<open>The order of the log\<close>

text \<open>
  The queue in front of the log, seen from outside: which time stamp a transaction holds that it has not yet
  sent (\<open>uns\<close>), and with which time stamp one waits for its entry to be flushed (\<open>snt\<close>).
\<close>

definition unsent_ts :: "txn \<Rightarrow> u64 option" where
  "unsent_ts t =
     (case tx_pc t of
        Stamped ts \<Rightarrow> Some ts
      | Prepared \<Rightarrow> Some (tx_commit_ts t) | Conflicted \<Rightarrow> Some (tx_commit_ts t) | Passed \<Rightarrow> Some (tx_commit_ts t)
      | _ \<Rightarrow> None)"

definition sent_ts :: "txn \<Rightarrow> u64 option" where
  "sent_ts t = (if tx_pc t = Sent then Some (tx_commit_ts t) else None)"

definition uns :: "txn_manager \<Rightarrow> u64 \<Rightarrow> u64 option" where
  "uns tm i = Option.bind (tm_txn_map tm i) unsent_ts"

definition snt :: "txn_manager \<Rightarrow> u64 \<Rightarrow> u64 option" where
  "snt tm i = Option.bind (tm_txn_map tm i) sent_ts"

definition queued :: "wal_entry list \<Rightarrow> nat \<Rightarrow> (u64 \<times> wal_entry option) list \<Rightarrow> wal_entry set" where
  "queued put flushed wait = set (drop flushed put) \<union> {e. \<exists>ts. (ts, Some e) \<in> set wait}"

text \<open>
  Time stamps in the log and behind it are in order; a place is kept for every unsent time stamp, and the
  entries not yet flushed are those of the transactions that wait for it.
\<close>

definition queue_pre ::
  "(u64 \<Rightarrow> u64 option) \<Rightarrow> (u64 \<Rightarrow> u64 option) \<Rightarrow> (u64 \<times> wal_entry option) list \<Rightarrow> wal_entry list \<Rightarrow> nat \<Rightarrow> u64 \<Rightarrow> bool" where
  "queue_pre U S wait put flushed start \<longleftrightarrow>
     sorted_wrt (<) (map we_commit_ts put @ map fst wait)
     \<and> (\<forall>x \<in> set (map we_commit_ts put @ map fst wait). x \<le> start)
     \<and> (\<forall>ts. (ts, None) \<in> set wait \<longleftrightarrow> (\<exists>i. U i = Some ts))
     \<and> (\<forall>i j ts. U i = Some ts \<longrightarrow> U j = Some ts \<longrightarrow> i = j)
     \<and> (\<forall>ts e. (ts, Some e) \<in> set wait \<longrightarrow> we_commit_ts e = ts)
     \<and> flushed \<le> length put
     \<and> (\<forall>e \<in> queued put flushed wait. S (we_txn_id e) = Some (we_commit_ts e))
     \<and> (\<forall>i. S i \<noteq> None \<longrightarrow> (\<exists>e \<in> queued put flushed wait. we_txn_id e = i))"

text \<open>Between two operations the queue never begins with an entry that could be handed on.\<close>

definition queue_inv ::
  "(u64 \<Rightarrow> u64 option) \<Rightarrow> (u64 \<Rightarrow> u64 option) \<Rightarrow> (u64 \<times> wal_entry option) list \<Rightarrow> wal_entry list \<Rightarrow> nat \<Rightarrow> u64 \<Rightarrow> bool" where
  "queue_inv U S wait put flushed start \<longleftrightarrow>
     queue_pre U S wait put flushed start \<and> (wait \<noteq> [] \<longrightarrow> snd (hd wait) = None)"

lemma queue_preD:
  assumes "queue_pre U S wait put flushed start"
  shows "sorted_wrt (<) (map we_commit_ts put @ map fst wait)"
    and "\<forall>x \<in> set (map we_commit_ts put @ map fst wait). x \<le> start"
    and "\<And>ts. (ts, None) \<in> set wait \<longleftrightarrow> (\<exists>i. U i = Some ts)"
    and "\<And>i j ts. U i = Some ts \<Longrightarrow> U j = Some ts \<Longrightarrow> i = j"
    and "\<And>ts e. (ts, Some e) \<in> set wait \<Longrightarrow> we_commit_ts e = ts"
    and "flushed \<le> length put"
    and "\<And>e. e \<in> queued put flushed wait \<Longrightarrow> S (we_txn_id e) = Some (we_commit_ts e)"
    and "\<And>i. S i \<noteq> None \<Longrightarrow> \<exists>e \<in> queued put flushed wait. we_txn_id e = i"
  using assms unfolding queue_pre_def by blast+

lemma queue_preI:
  assumes "sorted_wrt (<) (map we_commit_ts put @ map fst wait)"
    and "\<And>x. x \<in> set (map we_commit_ts put @ map fst wait) \<Longrightarrow> x \<le> start"
    and "\<And>ts. (ts, None) \<in> set wait \<longleftrightarrow> (\<exists>i. U i = Some ts)"
    and "\<And>i j ts. U i = Some ts \<Longrightarrow> U j = Some ts \<Longrightarrow> i = j"
    and "\<And>ts e. (ts, Some e) \<in> set wait \<Longrightarrow> we_commit_ts e = ts"
    and "flushed \<le> length put"
    and "\<And>e. e \<in> queued put flushed wait \<Longrightarrow> S (we_txn_id e) = Some (we_commit_ts e)"
    and "\<And>i. S i \<noteq> None \<Longrightarrow> \<exists>e \<in> queued put flushed wait. we_txn_id e = i"
  shows "queue_pre U S wait put flushed start"
  using assms unfolding queue_pre_def by blast

lemma map_emplace_last: "\<forall>x \<in> set (map fst m). x < k \<Longrightarrow> map_emplace k v m = m @ [(k, v)]"
  by (induction m) auto

lemma queue_inv_later: "queue_inv U S wait put flushed start \<Longrightarrow> start \<le> start' \<Longrightarrow> queue_inv U S wait put flushed start'"
  unfolding queue_inv_def queue_pre_def by (blast intro: order_trans)

lemma less_inc: "x < - 1 \<Longrightarrow> x < x + 1" for x :: u64
  by (simp add: word_less_nat_alt unat_word_ariths unsigned_minus_1_eq_mask mask_eq_exp_minus_1)

lemma queue_stamp:
  assumes inv: "queue_inv U S wait put flushed start" and s: "start < - 1" and u: "U i = None"
  shows "queue_inv (U(i \<mapsto> start + 1)) S (map_emplace (start + 1) None wait) put flushed (start + 1)"
proof -
  have q: "queue_pre U S wait put flushed start" and h: "wait \<noteq> [] \<longrightarrow> snd (hd wait) = None"
    using inv by (simp_all add: queue_inv_def)
  note q = queue_preD [OF q]
  have le: "\<forall>x \<in> set (map we_commit_ts put @ map fst wait). x < start + 1"
    using q(2) less_inc [OF s] by (blast intro: le_less_trans)
  then have "\<forall>x \<in> set (map fst wait). x < start + 1" by simp
  note e = map_emplace_last [OF this]
  have new: "U j \<noteq> Some (start + 1)" for j
  proof
    assume "U j = Some (start + 1)"
    then have "(start + 1, None) \<in> set wait" using q(3) by blast
    then have "start + 1 \<in> set (map we_commit_ts put @ map fst wait)" by force
    with le show False by blast
  qed
  have qd: "queued put flushed (wait @ [(start + 1, None)]) = queued put flushed wait"
    by (auto simp: queued_def)
  have "queue_pre (U(i \<mapsto> start + 1)) S (wait @ [(start + 1, None)]) put flushed (start + 1)"
  proof (rule queue_preI, unfold qd)
    show "sorted_wrt (<) (map we_commit_ts put @ map fst (wait @ [(start + 1, None)]))"
      using q(1) le by (simp add: sorted_wrt_append)
    show "x \<le> start + 1" if "x \<in> set (map we_commit_ts put @ map fst (wait @ [(start + 1, None)]))" for x
      using le that by (auto intro: less_imp_le)
    show "(ts, None) \<in> set (wait @ [(start + 1, None)]) \<longleftrightarrow> (\<exists>j. (U(i \<mapsto> start + 1)) j = Some ts)" for ts
      using q(3) [of ts] u by (cases "ts = start + 1") (auto simp: fun_upd_def, metis option.distinct(1))
    show "j = k" if "(U(i \<mapsto> start + 1)) j = Some ts" "(U(i \<mapsto> start + 1)) k = Some ts" for j k ts
      using q(4) new that by (auto simp: fun_upd_def split: if_splits)
    show "we_commit_ts e = ts" if "(ts, Some e) \<in> set (wait @ [(start + 1, None)])" for ts e
      using q(5) that by simp
  qed (rule q(6) q(7) q(8), assumption?)+
  moreover have "snd (hd (wait @ [(start + 1, None)])) = None" using h by (cases wait) auto
  ultimately show ?thesis unfolding e queue_inv_def by blast
qed

lemma queue_release:
  assumes "queue_pre U S wait put flushed start"
  shows "queue_inv U S (dropWhile (\<lambda>(_, e). e \<noteq> None) wait)
    (put @ map (\<lambda>(_, e). the e) (takeWhile (\<lambda>(_, e). e \<noteq> None) wait)) flushed start"
proof -
  let ?r = "takeWhile (\<lambda>(_, e). e \<noteq> None) wait" and ?w = "dropWhile (\<lambda>(_, e). e \<noteq> None) wait"
  let ?p = "put @ map (\<lambda>(_, e). the e) ?r"
  note q = queue_preD [OF assms]
  have w: "wait = ?r @ ?w" by simp
  have r: "\<exists>ts e. x = (ts, Some e)" if "x \<in> set ?r" for x using set_takeWhileD [OF that] by auto
  have "map we_commit_ts (map (\<lambda>(_, e). the e) ?r) = map fst ?r"
    unfolding map_map
  proof (rule map_cong [OF refl])
    fix x assume x: "x \<in> set ?r"
    then obtain ts e where "x = (ts, Some e)" using r by blast
    moreover from x have "x \<in> set wait" by (rule set_takeWhileD [THEN conjunct1])
    ultimately show "(we_commit_ts \<circ> (\<lambda>(_, e). the e)) x = fst x" using q(5) by simp
  qed
  then have "map we_commit_ts ?p @ map fst ?w = map we_commit_ts put @ map fst ?r @ map fst ?w"
    by (simp only: map_append append_assoc)
  moreover have "map fst ?r @ map fst ?w = map fst wait" by (simp only: map_append [symmetric] takeWhile_dropWhile_id)
  ultimately have m: "map we_commit_ts ?p @ map fst ?w = map we_commit_ts put @ map fst wait" by (simp only:)
  have n: "(ts, None) \<in> set ?w \<longleftrightarrow> (ts, None) \<in> set wait" for ts
    using w r by (metis Un_iff option.distinct(1) prod.inject set_append)
  have "{e. \<exists>ts. (ts, Some e) \<in> set wait} = set (map (\<lambda>(_, e). the e) ?r) \<union> {e. \<exists>ts. (ts, Some e) \<in> set ?w}"
  proof (intro set_eqI iffI)
    fix e assume "e \<in> set (map (\<lambda>(_, e). the e) ?r) \<union> {e. \<exists>ts. (ts, Some e) \<in> set ?w}"
    then show "e \<in> {e. \<exists>ts. (ts, Some e) \<in> set wait}" using r by (fastforce dest: set_takeWhileD set_dropWhileD)
  next
    fix e assume "e \<in> {e. \<exists>ts. (ts, Some e) \<in> set wait}"
    then obtain ts where "(ts, Some e) \<in> set (?r @ ?w)" using w by auto
    then consider "(ts, Some e) \<in> set ?r" | "(ts, Some e) \<in> set ?w" unfolding set_append by blast
    then show "e \<in> set (map (\<lambda>(_, e). the e) ?r) \<union> {e. \<exists>ts. (ts, Some e) \<in> set ?w}"
    proof cases
      case 1
      from imageI [OF this, of "\<lambda>(_, e). the e"] show ?thesis unfolding set_map by simp
    qed blast
  qed
  then have qd: "queued ?p flushed ?w = queued put flushed wait"
    using q(6) by (auto simp: queued_def)
  have "queue_pre U S ?w ?p flushed start"
  proof (rule queue_preI, unfold m n qd)
    show "x \<le> start" if "x \<in> set (map we_commit_ts put @ map fst wait)" for x using q(2) that by blast
    show "we_commit_ts e = ts" if "(ts, Some e) \<in> set ?w" for ts e by (rule q(5) [OF set_dropWhileD [OF that]])
    show "flushed \<le> length ?p" using q(6) by (simp only: length_append trans_le_add1)
  qed (rule q(1) q(3) q(4) q(7) q(8), assumption?, assumption?)+
  moreover have "?w \<noteq> [] \<longrightarrow> snd (hd ?w) = None"
  proof
    assume "?w \<noteq> []"
    from hd_dropWhile [OF this] show "snd (hd ?w) = None" by (cases "hd ?w") (simp only: split_conv not_not snd_conv)
  qed
  ultimately show ?thesis unfolding queue_inv_def by (rule conjI)
qed

lemma sorted_keys_unique:
  "sorted_wrt (<) (map fst m) \<Longrightarrow> (k, v) \<in> set m \<Longrightarrow> (k, v') \<in> set m \<Longrightarrow> v = v'"
  for m :: "(u64 \<times> 'v) list"
  using strict_sorted_iff [of "map fst m"] eq_key_imp_eq_value [of m] by blast

lemma queue_send:
  assumes inv: "queue_pre U S wait put flushed start" and u: "U i = Some ts" and s: "S i = None"
    and e: "we_commit_ts e = ts" "we_txn_id e = i"
  shows "queue_pre (U(i := None)) (S(i \<mapsto> ts)) (map (\<lambda>(k, v). if k = ts then (k, Some e) else (k, v)) wait) put flushed start"
    (is "queue_pre _ _ ?w _ _ _")
proof -
  note q = queue_preD [OF inv]
  have k: "map fst ?w = map fst wait" by (induction wait) auto
  have n: "(ts, None) \<in> set wait" using q(3) u by blast
  have sk: "sorted_wrt (<) (map fst wait)" using q(1) by (simp add: sorted_wrt_append)
  have wN: "(x, None) \<in> set ?w \<longleftrightarrow> x \<noteq> ts \<and> (x, None) \<in> set wait" for x
    by (auto simp: image_iff split: if_splits intro!: bexI [of _ "(x, None)"])
  have wS: "(x, Some e') \<in> set ?w \<longleftrightarrow> (if x = ts then e' = e else (x, Some e') \<in> set wait)" for x e'
    using n by (cases "x = ts") (auto simp: image_iff split: if_splits intro: bexI [of _ "(x, Some e')"] bexI [of _ "(ts, None)"])
  have "(ts, Some e') \<notin> set wait" for e' using sorted_keys_unique [OF sk n] by blast
  then have "{e'. \<exists>x. if x = ts then e' = e else (x, Some e') \<in> set wait} = insert e {e'. \<exists>x. (x, Some e') \<in> set wait}"
    by (intro set_eqI) (simp, metis)
  then have qd: "queued put flushed ?w = insert e (queued put flushed wait)"
    unfolding queued_def wS by simp
  show ?thesis
  proof (rule queue_preI, unfold k wN wS qd)
    show "x \<noteq> ts \<and> (x, None) \<in> set wait \<longleftrightarrow> (\<exists>j. (U(i := None)) j = Some x)" for x
      using q(3) [of x] q(4) u by (auto simp: fun_upd_def) (metis option.inject)
    show "j = l" if "(U(i := None)) j = Some x" "(U(i := None)) l = Some x" for j l x
      using q(4) that by (auto simp: fun_upd_def split: if_splits)
    show "we_commit_ts e' = x" if "if x = ts then e' = e else (x, Some e') \<in> set wait" for x e'
      using q(5) e that by (auto split: if_splits)
    show "(S(i \<mapsto> ts)) (we_txn_id e') = Some (we_commit_ts e')" if "e' \<in> insert e (queued put flushed wait)" for e'
      using q(7) [of e'] e s that by (cases "e' = e"; cases "we_txn_id e' = i") (simp_all add: fun_upd_def)
    show "\<exists>e' \<in> insert e (queued put flushed wait). we_txn_id e' = j" if "(S(i \<mapsto> ts)) j \<noteq> None" for j
      using q(8) [of j] e that by (auto simp: fun_upd_def split: if_splits)
  qed (use q(1,2,6) in blast)+
qed

lemma queue_drop:
  assumes inv: "queue_pre U S wait put flushed start" and u: "U i = Some ts"
  shows "queue_pre (U(i := None)) S (map_erase ts wait) put flushed start"
proof -
  note q = queue_preD [OF inv]
  have sk: "sorted_wrt (<) (map fst wait)" using q(1) by (simp add: sorted_wrt_append)
  have n: "(ts, None) \<in> set wait" using q(3) u by blast
  have sub: "set (map fst (map_erase ts wait)) \<subseteq> set (map fst wait)" by (auto simp: map_erase_def)
  have wN: "(x, None) \<in> set (map_erase ts wait) \<longleftrightarrow> x \<noteq> ts \<and> (x, None) \<in> set wait" for x by (auto simp: map_erase_def)
  have wS: "(x, Some e) \<in> set (map_erase ts wait) \<longleftrightarrow> (x, Some e) \<in> set wait" for x e
    using sorted_keys_unique [OF sk n] by (auto simp: map_erase_def)
  have qd: "queued put flushed (map_erase ts wait) = queued put flushed wait" by (simp add: queued_def wS)
  have so: "sorted_wrt (<) (map fst (map_erase ts wait))"
    using sk unfolding map_erase_def sorted_wrt_map by (rule sorted_wrt_filter)
  show ?thesis
  proof (rule queue_preI, unfold wN wS qd)
    show "sorted_wrt (<) (map we_commit_ts put @ map fst (map_erase ts wait))"
      using q(1) so unfolding sorted_wrt_append by (blast dest: subsetD [OF sub])
    show "x \<le> start" if "x \<in> set (map we_commit_ts put @ map fst (map_erase ts wait))" for x
      using q(2) that unfolding set_append by (blast dest: subsetD [OF sub])
    show "x \<noteq> ts \<and> (x, None) \<in> set wait \<longleftrightarrow> (\<exists>j. (U(i := None)) j = Some x)" for x
      using q(3) [of x] q(4) u by (auto simp: fun_upd_def) (metis option.inject)
    show "j = l" if "(U(i := None)) j = Some x" "(U(i := None)) l = Some x" for j l x
      using q(4) that by (auto simp: fun_upd_def split: if_splits)
  qed (use q(5-8) in blast)+
qed

lemma queue_flush:
  assumes inv: "queue_pre U S wait put flushed start" and f: "flushed < length put"
  shows "queue_pre U (S(we_txn_id (put ! flushed) := None)) wait put (flushed + 1) start"
    and "S (we_txn_id (put ! flushed)) = Some (we_commit_ts (put ! flushed))"
proof -
  note q = queue_preD [OF inv]
  let ?e = "put ! flushed"
  have d: "drop flushed put = ?e # drop (flushed + 1) put" using f by (simp add: Cons_nth_drop_Suc)
  then have qd: "queued put flushed wait = insert ?e (queued put (flushed + 1) wait)" by (simp add: queued_def)
  have so: "sorted_wrt (<) (map we_commit_ts (drop flushed put) @ map fst wait)"
    using sorted_wrt_drop [OF q(1), of flushed] f by (simp add: drop_map)
  have lt: "we_commit_ts ?e < we_commit_ts e" if "e \<in> queued put (flushed + 1) wait" for e
  proof -
    from that have "we_commit_ts e \<in> set (map we_commit_ts (drop (flushed + 1) put) @ map fst wait)"
      using q(5) unfolding queued_def by force
    with so show ?thesis unfolding d list.map append_Cons sorted_wrt.simps(2) by blast
  qed
  show s: "S (we_txn_id ?e) = Some (we_commit_ts ?e)" using q(7) qd by blast
  have ne: "we_txn_id e \<noteq> we_txn_id ?e" if "e \<in> queued put (flushed + 1) wait" for e
    using s q(7) [of e] lt [OF that] that qd by auto
  show "queue_pre U (S(we_txn_id ?e := None)) wait put (flushed + 1) start"
  proof (rule queue_preI)
    show "flushed + 1 \<le> length put" using f by simp
    show "(S(we_txn_id ?e := None)) (we_txn_id e) = Some (we_commit_ts e)" if "e \<in> queued put (flushed + 1) wait" for e
      using q(7) qd ne [OF that] that by auto
    show "\<exists>e \<in> queued put (flushed + 1) wait. we_txn_id e = j" if "(S(we_txn_id ?e := None)) j \<noteq> None" for j
      using q(8) [of j] that unfolding qd by (auto simp: fun_upd_def split: if_splits)
  qed (use q(1-5) in blast)+
qed

section \<open>The invariant of the manager\<close>

definition txn_done :: "txn \<Rightarrow> bool" where
  "txn_done t \<longleftrightarrow> tx_state t = kCommitted \<or> tx_state t = kRollbacked"

text \<open>What the place of the thread says about state, type and log entry of its transaction.\<close>

definition pc_ok :: "u64 \<Rightarrow> txn \<Rightarrow> bool" where
  "pc_ok i t \<longleftrightarrow>
     (case tx_pc t of
        Running \<Rightarrow> tx_state t = kStarted \<and> tx_type t = TT_kInvalid \<and> tx_wal_entry t \<noteq> None
      | ReadStamped _ \<Rightarrow> tx_state t = kStarted \<and> tx_type t = kRead
      | AbortStamped _ \<Rightarrow> tx_state t = kStarted \<and> tx_type t = kRead
      | ReadCommitting _ \<Rightarrow> tx_state t = kCommitting \<and> tx_type t = kRead
      | Stamped _ \<Rightarrow> tx_state t = kStarted \<and> tx_type t = kWrite \<and> tx_wal_entry t \<noteq> None
      | Prepared \<Rightarrow> tx_state t = kCommitting \<and> tx_type t = kWrite \<and> map_option we_commit_ts (tx_wal_entry t) = Some (tx_commit_ts t)
      | Passed \<Rightarrow> tx_state t = kCommitting \<and> tx_type t = kWrite
          \<and> map_option (\<lambda>e. (we_commit_ts e, we_txn_id e)) (tx_wal_entry t) = Some (tx_commit_ts t, i)
      | Conflicted \<Rightarrow> tx_state t = kCommitting \<and> tx_type t = kWrite \<and> tx_wal_entry t = None
      | Sent \<Rightarrow> tx_state t = kCommitting \<and> tx_type t = kWrite
      | ConflictSent \<Rightarrow> tx_state t = kCommitting \<and> tx_type t = kWrite
      | Finishing \<Rightarrow> tx_state t = kCommitting \<and> tx_type t = kWrite \<or> tx_state t = kRollbacking \<and> tx_type t \<noteq> TT_kInvalid
          \<or> tx_state t = kCommitted \<and> tx_type t = kRead
      | Finished \<Rightarrow> txn_done t \<and> tx_type t = kWrite)"

definition finish_inv ::
  "(u64 \<rightharpoonup> txn) \<Rightarrow> u64 list \<Rightarrow> (u64 \<times> u64) list \<Rightarrow> u64 list \<Rightarrow> u64 \<Rightarrow> u64 \<Rightarrow> bool" where
  "finish_inv M finishing finished beginned start next_id \<longleftrightarrow>
     finite (dom M)
     \<and> (\<forall>i. i \<in> set finishing \<longleftrightarrow> (\<exists>t. M i = Some t \<and> tx_type t = kWrite))
     \<and> (\<forall>(ts, j) \<in> set finished. ts \<le> start \<and> (\<exists>t. M j = Some t \<and> tx_pc t = Finished \<and> (tx_state t = kCommitted \<longrightarrow> tx_committed_ts t = ts)))
     \<and> (\<forall>i t. M i = Some t \<longrightarrow> tx_pc t = Finished \<longrightarrow> i \<in> snd ` set finished)
     \<and> distinct (map snd finished)
     \<and> (\<forall>i t. M i = Some t \<longrightarrow> tx_begin_ts t \<le> start \<and> i \<le> next_id)
     \<and> (\<forall>i t. M i = Some t \<longrightarrow> \<not> txn_done t \<longrightarrow> i \<in> set beginned)
     \<and> (\<forall>i \<in> set beginned. i \<le> next_id)
     \<and> sorted_wrt (\<lambda>i j. \<forall>t u. M i = Some t \<longrightarrow> M j = Some u \<longrightarrow> tx_begin_ts t \<le> tx_begin_ts u) beginned"

definition txn_inv :: "txn_manager \<Rightarrow> bool" where
  "txn_inv tm \<longleftrightarrow>
     tm_running tm \<and> (\<forall>i t. tm_txn_map tm i = Some t \<longrightarrow> pc_ok i t)
     \<and> queue_inv (uns tm) (snt tm) (tm_wait tm) (tm_put tm) (tm_flushed tm) (tm_start_ts tm)
     \<and> finish_inv (tm_txn_map tm) (tm_finishing tm) (tm_finished tm) (tm_beginned tm) (tm_start_ts tm) (tm_next_txn_id tm)"

lemma set_txn_simps [simp]:
  "tm_txn_map (set_txn i t tm) = (tm_txn_map tm)(i \<mapsto> t)" "tm_wait (set_txn i t tm) = tm_wait tm"
  "tm_put (set_txn i t tm) = tm_put tm" "tm_flushed (set_txn i t tm) = tm_flushed tm"
  "tm_start_ts (set_txn i t tm) = tm_start_ts tm" "tm_finishing (set_txn i t tm) = tm_finishing tm"
  "tm_finished (set_txn i t tm) = tm_finished tm" "tm_beginned (set_txn i t tm) = tm_beginned tm"
  "tm_running (set_txn i t tm) = tm_running tm" "tm_next_txn_id (set_txn i t tm) = tm_next_txn_id tm"
  by (simp_all add: set_txn_def)

lemma uns_upd: "uns tm' = (uns tm)(i := unsent_ts t)" if "tm_txn_map tm' = (tm_txn_map tm)(i \<mapsto> t)"
  using that by (auto simp: uns_def)

lemma snt_upd: "snt tm' = (snt tm)(i := sent_ts t)" if "tm_txn_map tm' = (tm_txn_map tm)(i \<mapsto> t)"
  using that by (auto simp: snt_def)

lemma finish_invD:
  assumes "finish_inv M finishing finished beginned start next_id"
  shows "finite (dom M)"
    and "\<And>i. i \<in> set finishing \<longleftrightarrow> (\<exists>t. M i = Some t \<and> tx_type t = kWrite)"
    and "\<And>ts j. (ts, j) \<in> set finished \<Longrightarrow> ts \<le> start"
    and "\<And>ts j. (ts, j) \<in> set finished \<Longrightarrow>
          \<exists>t. M j = Some t \<and> tx_pc t = Finished \<and> (tx_state t = kCommitted \<longrightarrow> tx_committed_ts t = ts)"
    and "\<And>i t. M i = Some t \<Longrightarrow> tx_pc t = Finished \<Longrightarrow> i \<in> snd ` set finished"
    and "distinct (map snd finished)"
    and "\<And>i t. M i = Some t \<Longrightarrow> tx_begin_ts t \<le> start"
    and "\<And>i t. M i = Some t \<Longrightarrow> i \<le> next_id"
    and "\<And>i t. M i = Some t \<Longrightarrow> \<not> txn_done t \<Longrightarrow> i \<in> set beginned"
    and "\<And>i. i \<in> set beginned \<Longrightarrow> i \<le> next_id"
    and "sorted_wrt (\<lambda>i j. \<forall>t u. M i = Some t \<longrightarrow> M j = Some u \<longrightarrow> tx_begin_ts t \<le> tx_begin_ts u) beginned"
  using assms unfolding finish_inv_def by blast+

lemma finish_invI:
  assumes "finite (dom M)"
    and "\<And>i. i \<in> set finishing \<longleftrightarrow> (\<exists>t. M i = Some t \<and> tx_type t = kWrite)"
    and "\<And>ts j. (ts, j) \<in> set finished \<Longrightarrow> ts \<le> start"
    and "\<And>ts j. (ts, j) \<in> set finished \<Longrightarrow>
          \<exists>t. M j = Some t \<and> tx_pc t = Finished \<and> (tx_state t = kCommitted \<longrightarrow> tx_committed_ts t = ts)"
    and "\<And>i t. M i = Some t \<Longrightarrow> tx_pc t = Finished \<Longrightarrow> i \<in> snd ` set finished"
    and "distinct (map snd finished)"
    and "\<And>i t. M i = Some t \<Longrightarrow> tx_begin_ts t \<le> start"
    and "\<And>i t. M i = Some t \<Longrightarrow> i \<le> next_id"
    and "\<And>i t. M i = Some t \<Longrightarrow> \<not> txn_done t \<Longrightarrow> i \<in> set beginned"
    and "\<And>i. i \<in> set beginned \<Longrightarrow> i \<le> next_id"
    and "sorted_wrt (\<lambda>i j. \<forall>t u. M i = Some t \<longrightarrow> M j = Some u \<longrightarrow> tx_begin_ts t \<le> tx_begin_ts u) beginned"
  shows "finish_inv M finishing finished beginned start next_id"
  unfolding finish_inv_def using assms by blast

lemma finish_inv_upd:
  assumes inv: "finish_inv M finishing finished beginned start next_id" and i: "M i = Some t"
    and t': "tx_begin_ts t' = tx_begin_ts t" "tx_pc t \<noteq> Finished" "tx_pc t' \<noteq> Finished" "txn_done t \<Longrightarrow> txn_done t'"
    and start: "start \<le> start'"
    and fi: "\<And>j. j \<in> set finishing' \<longleftrightarrow> (if j = i then tx_type t' = kWrite else j \<in> set finishing)"
  shows "finish_inv (M(i \<mapsto> t')) finishing' finished beginned start' next_id"
proof (rule finish_invI)
  note f = finish_invD [OF inv]
  show "finite (dom (M(i \<mapsto> t')))" using f(1) by simp
  show "j \<in> set finishing' \<longleftrightarrow> (\<exists>u. (M(i \<mapsto> t')) j = Some u \<and> tx_type u = kWrite)" for j
    using f(2) [of j] fi [of j] by auto
  show "ts \<le> start'" if "(ts, j) \<in> set finished" for ts j using f(3) [OF that] start by (rule order_trans)
  show "\<exists>u. (M(i \<mapsto> t')) j = Some u \<and> tx_pc u = Finished \<and> (tx_state u = kCommitted \<longrightarrow> tx_committed_ts u = ts)"
    if "(ts, j) \<in> set finished" for ts j using f(4) [OF that] i t'(2) by auto
  show "j \<in> snd ` set finished" if "(M(i \<mapsto> t')) j = Some u" "tx_pc u = Finished" for j u
    using f(5) [of j u] t'(3) that by (auto split: if_splits)
  show "distinct (map snd finished)" by (rule f(6))
  show "tx_begin_ts u \<le> start'" if "(M(i \<mapsto> t')) j = Some u" for j u
    using f(7) [of j u] f(7) [OF i] t'(1) start that by (auto split: if_splits intro: order_trans)
  show "j \<le> next_id" if "(M(i \<mapsto> t')) j = Some u" for j u
    using f(8) [of j u] f(8) [OF i] that by (auto split: if_splits)
  show "j \<in> set beginned" if "(M(i \<mapsto> t')) j = Some u" "\<not> txn_done u" for j u
    using f(9) [of j u] f(9) [OF i] t'(4) that by (auto split: if_splits)
  show "j \<le> next_id" if "j \<in> set beginned" for j by (rule f(10) [OF that])
  show "sorted_wrt (\<lambda>k j. \<forall>t u. (M(i \<mapsto> t')) k = Some t \<longrightarrow> (M(i \<mapsto> t')) j = Some u \<longrightarrow> tx_begin_ts t \<le> tx_begin_ts u) beginned"
    by (rule sorted_wrt_mono_rel [OF _ f(11)]) (use i t'(1) in \<open>auto split: if_splits\<close>)
qed

text \<open>A step that changes nothing but its own transaction and perhaps takes a new time stamp for reading.\<close>

lemma txn_inv_local:
  assumes inv: "txn_inv tm" and i: "tm_txn_map tm i = Some t"
    and t': "tx_begin_ts t' = tx_begin_ts t" "tx_pc t \<noteq> Finished" "tx_pc t' \<noteq> Finished" "txn_done t \<Longrightarrow> txn_done t'"
      "pc_ok i t'" "unsent_ts t' = unsent_ts t" "sent_ts t' = sent_ts t" "tx_type t' = kWrite \<longleftrightarrow> tx_type t = kWrite"
    and start: "tm_start_ts tm \<le> s"
  shows "txn_inv (set_txn i t' (tm\<lparr>tm_start_ts := s\<rparr>))"
proof -
  let ?tm = "set_txn i t' (tm\<lparr>tm_start_ts := s\<rparr>)"
  have iv: "\<forall>i t. tm_txn_map tm i = Some t \<longrightarrow> pc_ok i t" "tm_running tm"
    "queue_inv (uns tm) (snt tm) (tm_wait tm) (tm_put tm) (tm_flushed tm) (tm_start_ts tm)"
    "finish_inv (tm_txn_map tm) (tm_finishing tm) (tm_finished tm) (tm_beginned tm) (tm_start_ts tm) (tm_next_txn_id tm)"
    using inv unfolding txn_inv_def by blast+
  have m: "tm_txn_map ?tm = (tm_txn_map tm)(i \<mapsto> t')" by simp
  have "uns ?tm = uns tm" "snt ?tm = snt tm"
    using i t'(6,7) by (auto simp: uns_upd [OF m] snt_upd [OF m] uns_def snt_def)
  then have "queue_inv (uns ?tm) (snt ?tm) (tm_wait ?tm) (tm_put ?tm) (tm_flushed ?tm) (tm_start_ts ?tm)"
    using queue_inv_later [OF iv(3) start] by simp
  moreover have "finish_inv (tm_txn_map ?tm) (tm_finishing ?tm) (tm_finished ?tm) (tm_beginned ?tm) (tm_start_ts ?tm) (tm_next_txn_id ?tm)"
    using finish_inv_upd [OF iv(4) i t'(1-4) start, of "tm_finishing tm"] t'(8) finish_invD(2) [OF iv(4), of i] i by auto
  ultimately show ?thesis using iv(1,2) t'(5) unfolding txn_inv_def by simp
qed

lemmas txn_inv_act = txn_inv_local [OF _ _ _ _ _ _ _ _ _ _ order.refl, simplified]

section \<open>Every step keeps the invariant\<close>

lemma txn_invD:
  assumes "txn_inv tm"
  shows "tm_running tm" and "\<And>i t. tm_txn_map tm i = Some t \<Longrightarrow> pc_ok i t"
    and "queue_inv (uns tm) (snt tm) (tm_wait tm) (tm_put tm) (tm_flushed tm) (tm_start_ts tm)"
    and "queue_pre (uns tm) (snt tm) (tm_wait tm) (tm_put tm) (tm_flushed tm) (tm_start_ts tm)"
    and "finish_inv (tm_txn_map tm) (tm_finishing tm) (tm_finished tm) (tm_beginned tm) (tm_start_ts tm) (tm_next_txn_id tm)"
  using assms unfolding txn_inv_def queue_inv_def by blast+

lemma txn_invI:
  assumes "tm_running tm" and "\<And>i t. tm_txn_map tm i = Some t \<Longrightarrow> pc_ok i t"
    and "queue_inv (uns tm) (snt tm) (tm_wait tm) (tm_put tm) (tm_flushed tm) (tm_start_ts tm)"
    and "finish_inv (tm_txn_map tm) (tm_finishing tm) (tm_finished tm) (tm_beginned tm) (tm_start_ts tm) (tm_next_txn_id tm)"
  shows "txn_inv tm"
  using assms unfolding txn_inv_def by blast

lemma at_pc_simps [simp]:
  "tx_pc (at_pc pc t) = pc" "tx_state (at_pc pc t) = tx_state t" "tx_type (at_pc pc t) = tx_type t"
  "tx_begin_ts (at_pc pc t) = tx_begin_ts t" "tx_commit_ts (at_pc pc t) = tx_commit_ts t"
  "tx_committed_ts (at_pc pc t) = tx_committed_ts t" "tx_wal_entry (at_pc pc t) = tx_wal_entry t"
  "tx_store (at_pc pc t) = tx_store t" "txn_done (at_pc pc t) = txn_done t"
  by (simp_all add: at_pc_def txn_done_def)

lemma txn_inv_start: "txn_inv (TxnManager_start next_txn_id start_ts)"
  by (rule txn_invI)
    (simp_all add: TxnManager_start_def uns_def snt_def queue_inv_def queue_pre_def queued_def finish_inv_def)

lemma txn_inv_begin:
  assumes inv: "txn_inv tm" and s: "stamps_left tm" and b: "BeginTxn tm = Inr (i, tm')"
  shows "txn_inv tm'"
proof -
  let ?i = "tm_next_txn_id tm + 1" and ?ts = "tm_start_ts tm + 1"
  note iv = txn_invD [OF inv] and f = finish_invD [OF txn_invD(5) [OF inv]]
  have i: "i = ?i" and tm': "tm' = tm\<lparr>tm_next_txn_id := ?i, tm_start_ts := ?ts,
      tm_txn_map := (tm_txn_map tm)(?i \<mapsto> Txn_new ?ts), tm_beginned := tm_beginned tm @ [?i]\<rparr>"
    using b iv(1) by (auto simp: BeginTxn_def Let_def)
  have lt: "tm_next_txn_id tm < ?i" "tm_start_ts tm < ?ts" using s less_inc by auto
  have new: "tm_txn_map tm ?i = None" using f(8) lt(1) by (metis leD not_None_eq)
  have m: "tm_txn_map tm' = (tm_txn_map tm)(?i \<mapsto> Txn_new ?ts)" by (simp add: tm')
  have us: "uns tm' = uns tm" "snt tm' = snt tm"
    using new by (auto simp: uns_upd [OF m] snt_upd [OF m] Txn_new_def unsent_ts_def sent_ts_def uns_def snt_def)
  show ?thesis
  proof (rule txn_invI)
    show "tm_running tm'" using iv(1) by (simp add: tm')
    show "pc_ok j t" if "tm_txn_map tm' j = Some t" for j t
      using iv(2) [of j t] that unfolding m by (auto simp: pc_ok_def Txn_new_def split: if_splits)
    show "queue_inv (uns tm') (snt tm') (tm_wait tm') (tm_put tm') (tm_flushed tm') (tm_start_ts tm')"
      using queue_inv_later [OF iv(3) less_imp_le [OF lt(2)]] unfolding us by (simp add: tm')
    have "finish_inv ((tm_txn_map tm)(?i \<mapsto> Txn_new ?ts)) (tm_finishing tm) (tm_finished tm) (tm_beginned tm @ [?i]) ?ts ?i"
    proof (rule finish_invI)
      show "j \<in> set (tm_finishing tm) \<longleftrightarrow> (\<exists>t. ((tm_txn_map tm)(?i \<mapsto> Txn_new ?ts)) j = Some t \<and> tx_type t = kWrite)" for j
        using f(2) [of j] new by (auto simp: Txn_new_def)
      show "\<exists>t. ((tm_txn_map tm)(?i \<mapsto> Txn_new ?ts)) j = Some t \<and> tx_pc t = Finished \<and> (tx_state t = kCommitted \<longrightarrow> tx_committed_ts t = ts)"
        if "(ts, j) \<in> set (tm_finished tm)" for ts j using f(4) [OF that] new by auto
      show "j \<in> snd ` set (tm_finished tm)" if "((tm_txn_map tm)(?i \<mapsto> Txn_new ?ts)) j = Some t" "tx_pc t = Finished" for j t
        using f(5) that by (auto simp: Txn_new_def split: if_splits)
      show "tx_begin_ts t \<le> ?ts" if "((tm_txn_map tm)(?i \<mapsto> Txn_new ?ts)) j = Some t" for j t
        using f(7) [of j t] lt(2) that by (auto simp: Txn_new_def split: if_splits)
      show "j \<le> ?i" if "((tm_txn_map tm)(?i \<mapsto> Txn_new ?ts)) j = Some t" for j t
        using f(8) [of j t] lt(1) that by (auto split: if_splits)
      show "j \<in> set (tm_beginned tm @ [?i])" if "((tm_txn_map tm)(?i \<mapsto> Txn_new ?ts)) j = Some t" "\<not> txn_done t" for j t
        using f(9) [of j t] that by (auto split: if_splits)
      show "j \<le> ?i" if "j \<in> set (tm_beginned tm @ [?i])" for j using f(10) [of j] lt(1) that by auto
      have ni: "?i \<notin> set (tm_beginned tm)" using f(10) lt(1) leD by blast
      have "sorted_wrt (\<lambda>k j. \<forall>t u. ((tm_txn_map tm)(?i \<mapsto> Txn_new ?ts)) k = Some t \<longrightarrow>
          ((tm_txn_map tm)(?i \<mapsto> Txn_new ?ts)) j = Some u \<longrightarrow> tx_begin_ts t \<le> tx_begin_ts u) (tm_beginned tm)"
        by (rule sorted_wrt_mono_rel [OF _ f(11)]) (use ni in auto)
      then show "sorted_wrt (\<lambda>k j. \<forall>t u. ((tm_txn_map tm)(?i \<mapsto> Txn_new ?ts)) k = Some t \<longrightarrow>
          ((tm_txn_map tm)(?i \<mapsto> Txn_new ?ts)) j = Some u \<longrightarrow> tx_begin_ts t \<le> tx_begin_ts u) (tm_beginned tm @ [?i])"
        using f(7) lt(2) by (fastforce simp: sorted_wrt_append Txn_new_def)
      show "ts \<le> ?ts" if "(ts, j) \<in> set (tm_finished tm)" for ts j using f(3) [OF that] lt(2) by simp
    qed (use f(1,6) in simp_all)
    then show "finish_inv (tm_txn_map tm') (tm_finishing tm') (tm_finished tm') (tm_beginned tm') (tm_start_ts tm') (tm_next_txn_id tm')"
      by (simp add: tm')
  qed
qed

lemma txn_at_Some: "tm_txn_map tm i = Some t \<Longrightarrow> txn_at tm i = Inr t"
  by (simp add: txn_at_def)

lemma txn_inv_stampW:
  assumes inv: "txn_inv tm" and s: "stamps_left tm" and i: "tm_txn_map tm i = Some t" and pc: "tx_pc t = Running"
  shows "txn_inv (set_txn i (at_pc (Stamped (tm_start_ts tm + 1)) (t\<lparr>tx_type := kWrite\<rparr>))
           (tm\<lparr>tm_start_ts := tm_start_ts tm + 1, tm_wait := map_emplace (tm_start_ts tm + 1) None (tm_wait tm),
               tm_finishing := List.insert i (tm_finishing tm)\<rparr>))" (is "txn_inv ?tm")
proof (rule txn_invI)
  note iv = txn_invD [OF inv]
  let ?t = "at_pc (Stamped (tm_start_ts tm + 1)) (t\<lparr>tx_type := kWrite\<rparr>)"
  have m: "tm_txn_map ?tm = (tm_txn_map tm)(i \<mapsto> ?t)" by simp
  have lt: "tm_start_ts tm < tm_start_ts tm + 1" using s less_inc by blast
  have pk: "pc_ok i t" by (rule iv(2) [OF i])
  have us: "uns ?tm = (uns tm)(i \<mapsto> tm_start_ts tm + 1)" "snt ?tm = snt tm" "uns tm i = None"
    using i pc by (auto simp: uns_upd [OF m] snt_upd [OF m] unsent_ts_def sent_ts_def uns_def snt_def)
  show "tm_running ?tm" using iv(1) by simp
  show "pc_ok j u" if "tm_txn_map ?tm j = Some u" for j u
    using iv(2) [of j u] pk pc that unfolding m by (auto simp: pc_ok_def split: if_splits)
  show "queue_inv (uns ?tm) (snt ?tm) (tm_wait ?tm) (tm_put ?tm) (tm_flushed ?tm) (tm_start_ts ?tm)"
    using queue_stamp [OF iv(3) _ us(3)] s unfolding us(1,2) by simp
  show "finish_inv (tm_txn_map ?tm) (tm_finishing ?tm) (tm_finished ?tm) (tm_beginned ?tm) (tm_start_ts ?tm) (tm_next_txn_id ?tm)"
    using finish_inv_upd [OF iv(5) i _ _ _ _ less_imp_le [OF lt], of ?t "List.insert i (tm_finishing tm)"] pc
    by (auto simp: txn_done_def)
qed

text \<open>The errors of \<^verbatim>\<open>SendToWAL\<close> do not occur: the place of an unsent time stamp is still kept.\<close>

lemma SendToWAL_ok:
  assumes inv: "txn_inv tm" and i: "tm_txn_map tm i = Some t" and u: "unsent_ts t = Some (tx_commit_ts t)"
  shows "SendToWAL i tm = Inr (tm\<lparr>
      tm_wait := dropWhile (\<lambda>(_, e). e \<noteq> None) (case tx_wal_entry t of
          Some e \<Rightarrow> map (\<lambda>(k, v). if k = tx_commit_ts t then (k, Some e) else (k, v)) (tm_wait tm)
        | None \<Rightarrow> map_erase (tx_commit_ts t) (tm_wait tm)),
      tm_put := tm_put tm @ map (\<lambda>(_, e). the e) (takeWhile (\<lambda>(_, e). e \<noteq> None) (case tx_wal_entry t of
          Some e \<Rightarrow> map (\<lambda>(k, v). if k = tx_commit_ts t then (k, Some e) else (k, v)) (tm_wait tm)
        | None \<Rightarrow> map_erase (tx_commit_ts t) (tm_wait tm)))\<rparr>)"
proof -
  note q = queue_preD [OF txn_invD(4) [OF inv]]
  have "uns tm i = Some (tx_commit_ts t)" using i u by (simp add: uns_def)
  then have n: "(tx_commit_ts t, None) \<in> set (tm_wait tm)" using q(3) by blast
  then obtain k v w where w: "tm_wait tm = (k, v) # w" by (cases "tm_wait tm") auto
  have "k \<le> tx_commit_ts t"
    using q(1) n unfolding w by (auto simp: sorted_wrt_append)
  moreover have "tx_commit_ts t \<in> fst ` set (tm_wait tm)" using n by force
  ultimately show ?thesis
    using txn_invD(1) [OF inv] w
    by (simp add: SendToWAL_def txn_at_Some [OF i] Let_def map_set_def not_less split: option.split)
qed

lemma txn_inv_send:
  assumes inv: "txn_inv tm" and i: "tm_txn_map tm i = Some t"
    and pc: "tx_pc t = Passed \<and> pc = Sent \<or> tx_pc t = Conflicted \<and> pc = ConflictSent"
    and r: "SendToWAL i tm = Inr tm1"
  shows "txn_inv (set_txn i (at_pc pc t) tm1)" and "tm_txn_map tm1 = tm_txn_map tm"
proof -
  note iv = txn_invD [OF inv]
  have pk: "pc_ok i t" by (rule iv(2) [OF i])
  have u: "unsent_ts t = Some (tx_commit_ts t)" using pc by (auto simp: unsent_ts_def)
  let ?w = "case tx_wal_entry t of
          Some e \<Rightarrow> map (\<lambda>(k, v). if k = tx_commit_ts t then (k, Some e) else (k, v)) (tm_wait tm)
        | None \<Rightarrow> map_erase (tx_commit_ts t) (tm_wait tm)"
  let ?tm = "set_txn i (at_pc pc t) tm1"
  have tm1: "tm1 = tm\<lparr>tm_wait := dropWhile (\<lambda>(_, e). e \<noteq> None) ?w,
      tm_put := tm_put tm @ map (\<lambda>(_, e). the e) (takeWhile (\<lambda>(_, e). e \<noteq> None) ?w)\<rparr>"
    using r SendToWAL_ok [OF inv i u] by simp
  then show m1: "tm_txn_map tm1 = tm_txn_map tm" by simp
  then have m: "tm_txn_map ?tm = (tm_txn_map tm)(i \<mapsto> at_pc pc t)" by simp
  have ui: "uns tm i = Some (tx_commit_ts t)" "snt tm i = None"
    using i u pc by (auto simp: uns_def snt_def sent_ts_def)
  have "queue_pre (uns ?tm) (snt ?tm) ?w (tm_put tm) (tm_flushed tm) (tm_start_ts tm)"
  proof (cases "tx_pc t = Passed")
    case True
    then obtain e where e: "tx_wal_entry t = Some e" "we_commit_ts e = tx_commit_ts t" "we_txn_id e = i"
      using pk by (auto simp: pc_ok_def)
    have "uns ?tm = (uns tm)(i := None)" "snt ?tm = (snt tm)(i \<mapsto> tx_commit_ts t)"
      unfolding uns_upd [OF m] snt_upd [OF m] using pc True by (auto simp: unsent_ts_def sent_ts_def)
    then show ?thesis using queue_send [OF iv(4) ui e(2,3)] e(1) by simp
  next
    case False
    then have "tx_wal_entry t = None" using pc pk by (auto simp: pc_ok_def)
    moreover have "uns ?tm = (uns tm)(i := None)" "snt ?tm = snt tm"
      unfolding uns_upd [OF m] snt_upd [OF m] using pc False ui(2) by (auto simp: unsent_ts_def sent_ts_def)
    ultimately show ?thesis using queue_drop [OF iv(4) ui(1)] by simp
  qed
  from queue_release [OF this]
  have q: "queue_inv (uns ?tm) (snt ?tm) (tm_wait ?tm) (tm_put ?tm) (tm_flushed ?tm) (tm_start_ts ?tm)"
    unfolding tm1 by simp
  have "finish_inv (tm_txn_map ?tm) (tm_finishing tm) (tm_finished tm) (tm_beginned tm) (tm_start_ts tm) (tm_next_txn_id tm)"
    unfolding m using finish_inv_upd [OF iv(5) i _ _ _ _ order.refl, of "at_pc pc t" "tm_finishing tm"]
      finish_invD(2) [OF iv(5), of i] i pc pk by (auto simp: pc_ok_def)
  then have f: "finish_inv (tm_txn_map ?tm) (tm_finishing ?tm) (tm_finished ?tm) (tm_beginned ?tm) (tm_start_ts ?tm) (tm_next_txn_id ?tm)"
    unfolding tm1 by simp
  show "txn_inv ?tm"
  proof (rule txn_invI [OF _ _ q f])
    show "tm_running ?tm" using iv(1) by (simp add: tm1)
    show "pc_ok j v" if "tm_txn_map ?tm j = Some v" for j v
      using iv(2) [of j v] pk pc that unfolding m by (auto simp: pc_ok_def split: if_splits)
  qed
qed

lemma flush_target:
  assumes inv: "txn_inv tm" and f: "tm_flushed tm < length (tm_put tm)"
  obtains t where "tm_txn_map tm (we_txn_id (tm_put tm ! tm_flushed tm)) = Some t" "tx_pc t = Sent"
proof -
  have "snt tm (we_txn_id (tm_put tm ! tm_flushed tm)) \<noteq> None"
    using queue_flush(2) [OF txn_invD(4) [OF inv] f] by simp
  then obtain t where "tm_txn_map tm (we_txn_id (tm_put tm ! tm_flushed tm)) = Some t" "sent_ts t \<noteq> None"
    by (auto simp: snt_def bind_eq_Some_conv)
  then show ?thesis using that by (auto simp: sent_ts_def split: if_splits)
qed

lemma txn_inv_flush:
  assumes inv: "txn_inv tm" and f: "tm_flushed tm < length (tm_put tm)" and r: "flush_next tm = Inr tm'"
  shows "txn_inv tm'"
proof -
  note iv = txn_invD [OF inv]
  let ?i = "we_txn_id (tm_put tm ! tm_flushed tm)"
  obtain t where t: "tm_txn_map tm ?i = Some t" "tx_pc t = Sent" by (rule flush_target [OF inv f])
  have pk: "pc_ok ?i t" by (rule iv(2) [OF t(1)])
  have tm': "tm' = set_txn ?i (at_pc Finishing t) (tm\<lparr>tm_flushed := tm_flushed tm + 1\<rparr>)"
    using r t(1) by (simp add: flush_next_def GetTxn_def Let_def)
  then have m: "tm_txn_map tm' = (tm_txn_map tm)(?i \<mapsto> at_pc Finishing t)" by simp
  have us: "uns tm' = uns tm" "snt tm' = (snt tm)(?i := None)"
    using t by (auto simp: uns_upd [OF m] snt_upd [OF m] unsent_ts_def sent_ts_def uns_def)
  have fi: "finish_inv (tm_txn_map tm') (tm_finishing tm) (tm_finished tm) (tm_beginned tm) (tm_start_ts tm) (tm_next_txn_id tm)"
    unfolding m using finish_inv_upd [OF iv(5) t(1) _ _ _ _ order.refl, of "at_pc Finishing t" "tm_finishing tm"]
      finish_invD(2) [OF iv(5), of ?i] t by auto
  show ?thesis
  proof (rule txn_invI)
    show "tm_running tm'" using iv(1) by (simp add: tm')
    show "pc_ok j v" if "tm_txn_map tm' j = Some v" for j v
      using iv(2) [of j v] pk t(2) that unfolding m by (auto simp: pc_ok_def split: if_splits)
    show "queue_inv (uns tm') (snt tm') (tm_wait tm') (tm_put tm') (tm_flushed tm') (tm_start_ts tm')"
      using queue_flush(1) [OF iv(4) f] iv(3) unfolding us queue_inv_def by (simp add: tm')
    show "finish_inv (tm_txn_map tm') (tm_finishing tm') (tm_finished tm') (tm_beginned tm') (tm_start_ts tm') (tm_next_txn_id tm')"
      using fi by (simp add: tm')
  qed
qed

subsection \<open>Finishing\<close>

lemma queue_inv_remove:
  assumes "queue_inv (uns tm) (snt tm) w p n s" and "tm_txn_map tm i = Some t" and "unsent_ts t = None" "sent_ts t = None"
    and m: "tm_txn_map tm' = (tm_txn_map tm)(i := None)"
  shows "queue_inv (uns tm') (snt tm') w p n s"
proof -
  have "uns tm' = uns tm" "snt tm' = snt tm" using assms(2-4) by (auto simp: uns_def snt_def m)
  with assms(1) show ?thesis by simp
qed

lemma sorted_begin_remove:
  "sorted_wrt (\<lambda>i j. \<forall>t u. M i = Some t \<longrightarrow> M j = Some u \<longrightarrow> tx_begin_ts t \<le> tx_begin_ts u) js \<Longrightarrow>
   sorted_wrt (\<lambda>i j. \<forall>t u. (M(k := None)) i = Some t \<longrightarrow> (M(k := None)) j = Some u \<longrightarrow> tx_begin_ts t \<le> tx_begin_ts u) js"
  by (erule sorted_wrt_mono_rel [rotated]) auto

lemma txn_inv_remove_read:
  assumes inv: "txn_inv tm" and i: "tm_txn_map tm i = Some t" and t: "tx_type t = kRead" "tx_pc t = Finishing"
  shows "txn_inv (tm\<lparr>tm_txn_map := (tm_txn_map tm)(i := None)\<rparr>)" (is "txn_inv ?tm")
proof (rule txn_invI)
  note iv = txn_invD [OF inv] and f = finish_invD [OF txn_invD(5) [OF inv]]
  show "tm_running ?tm" using iv(1) by simp
  show "pc_ok j u" if "tm_txn_map ?tm j = Some u" for j u using iv(2) [of j u] that by (auto split: if_splits)
  show "queue_inv (uns ?tm) (snt ?tm) (tm_wait ?tm) (tm_put ?tm) (tm_flushed ?tm) (tm_start_ts ?tm)"
    using queue_inv_remove [OF iv(3) i _ _, of ?tm] t by (simp add: unsent_ts_def sent_ts_def)
  have "finish_inv ((tm_txn_map tm)(i := None)) (tm_finishing tm) (tm_finished tm) (tm_beginned tm) (tm_start_ts tm) (tm_next_txn_id tm)"
  proof (rule finish_invI)
    show "j \<in> set (tm_finishing tm) \<longleftrightarrow> (\<exists>u. ((tm_txn_map tm)(i := None)) j = Some u \<and> tx_type u = kWrite)" for j
      using f(2) [of j] i t(1) by auto
    show "\<exists>u. ((tm_txn_map tm)(i := None)) j = Some u \<and> tx_pc u = Finished \<and> (tx_state u = kCommitted \<longrightarrow> tx_committed_ts u = ts)"
      if "(ts, j) \<in> set (tm_finished tm)" for ts j using f(4) [OF that] i t(2) by auto
    show "sorted_wrt (\<lambda>k l. \<forall>t u. ((tm_txn_map tm)(i := None)) k = Some t \<longrightarrow>
        ((tm_txn_map tm)(i := None)) l = Some u \<longrightarrow> tx_begin_ts t \<le> tx_begin_ts u) (tm_beginned tm)"
      by (rule sorted_begin_remove) (use finish_invD(11) [OF txn_invD(5) [OF inv]] in simp)
  qed (use f in \<open>auto split: if_splits\<close>)
  then show "finish_inv (tm_txn_map ?tm) (tm_finishing ?tm) (tm_finished ?tm) (tm_beginned ?tm) (tm_start_ts ?tm) (tm_next_txn_id ?tm)"
    by simp
qed

lemma txn_inv_remove_finished:
  assumes inv: "txn_inv (tm\<lparr>tm_finished := (ts, j) # fin\<rparr>)"
  shows "txn_inv (tm\<lparr>tm_finishing := removeAll j (tm_finishing tm), tm_txn_map := (tm_txn_map tm)(j := None), tm_finished := fin\<rparr>)"
    (is "txn_inv ?tm")
proof (rule txn_invI)
  note iv = txn_invD [OF inv] and f = finish_invD [OF txn_invD(5) [OF inv], simplified]
  obtain t where t: "tm_txn_map tm j = Some t" "tx_pc t = Finished" using f(4) [of ts j] by auto
  show "tm_running ?tm" using iv(1) by simp
  show "pc_ok k u" if "tm_txn_map ?tm k = Some u" for k u using iv(2) [of k u] that by (auto split: if_splits)
  show "queue_inv (uns ?tm) (snt ?tm) (tm_wait ?tm) (tm_put ?tm) (tm_flushed ?tm) (tm_start_ts ?tm)"
    using queue_inv_remove [OF iv(3) _ _ _, of j t ?tm] t by (simp add: unsent_ts_def sent_ts_def)
  have "finish_inv ((tm_txn_map tm)(j := None)) (removeAll j (tm_finishing tm)) fin (tm_beginned tm) (tm_start_ts tm) (tm_next_txn_id tm)"
  proof (rule finish_invI)
    show "\<exists>u. ((tm_txn_map tm)(j := None)) k = Some u \<and> tx_pc u = Finished \<and> (tx_state u = kCommitted \<longrightarrow> tx_committed_ts u = x)"
      if "(x, k) \<in> set fin" for x k
    proof -
      have "k \<noteq> j" using f(6) that by (auto simp: image_iff)
      then show ?thesis using f(4) [of x k] that by auto
    qed
    show "k \<in> snd ` set fin" if "((tm_txn_map tm)(j := None)) k = Some u" "tx_pc u = Finished" for k u
      using f(5) [of k u] that by (auto split: if_splits)
    show "k \<in> set (removeAll j (tm_finishing tm)) \<longleftrightarrow> (\<exists>t. ((tm_txn_map tm)(j := None)) k = Some t \<and> tx_type t = kWrite)" for k
      using f(2) [of k] by auto
    show "sorted_wrt (\<lambda>k l. \<forall>t u. ((tm_txn_map tm)(j := None)) k = Some t \<longrightarrow>
        ((tm_txn_map tm)(j := None)) l = Some u \<longrightarrow> tx_begin_ts t \<le> tx_begin_ts u) (tm_beginned tm)"
      by (rule sorted_begin_remove) (use finish_invD(11) [OF txn_invD(5) [OF inv]] in simp)
  qed (use f in \<open>auto split: if_splits\<close>)
  then show "finish_inv (tm_txn_map ?tm) (tm_finishing ?tm) (tm_finished ?tm) (tm_beginned ?tm) (tm_start_ts ?tm) (tm_next_txn_id ?tm)"
    by simp
qed

lemma pop_finished_ok:
  assumes "txn_inv (tm\<lparr>tm_finished := fin\<rparr>)"
  obtains tm' where "pop_finished least fin tm = Inr tm'" "txn_inv tm'"
    "tm_start_ts tm' = tm_start_ts tm" "tm_put tm' = tm_put tm" "tm_flushed tm' = tm_flushed tm" "tm_wait tm' = tm_wait tm"
    "\<And>k u. tm_txn_map tm' k = Some u \<Longrightarrow> tm_txn_map tm k = Some u"
    "\<And>k u. tm_txn_map tm k = Some u \<Longrightarrow> tm_txn_map tm' k = None \<Longrightarrow> \<exists>ts \<le> least. (ts, k) \<in> set fin"
  using assms
proof (induction fin arbitrary: tm thesis)
  case Nil
  show ?case by (rule Nil.prems(1) [of "tm\<lparr>tm_finished := []\<rparr>"]) (use Nil.prems(2) in simp_all)
next
  case (Cons x fin)
  obtain ts j where x: "x = (ts, j)" by (cases x)
  obtain t where t: "tm_txn_map tm j = Some t" "tx_pc t = Finished"
    using finish_invD(4) [OF txn_invD(5) [OF Cons.prems(2)], of ts j] x by auto
  then have d: "txn_done t" using txn_invD(2) [OF Cons.prems(2), of j t] by (simp add: pc_ok_def)
  show ?case
  proof (cases "ts > least")
    case True
    then have "pop_finished least (x # fin) tm = Inr (tm\<lparr>tm_finished := x # fin\<rparr>)"
      using d by (simp add: x txn_at_Some [OF t(1)] txn_done_def)
    then show ?thesis by (rule Cons.prems(1)) (use Cons.prems(2) in simp_all)
  next
    case False
    let ?tm = "tm\<lparr>tm_finishing := removeAll j (tm_finishing tm), tm_txn_map := (tm_txn_map tm)(j := None)\<rparr>"
    have "txn_inv (?tm\<lparr>tm_finished := fin\<rparr>)"
      using txn_inv_remove_finished [of ts j fin tm] Cons.prems(2) x by simp
    then obtain tm' where tm': "pop_finished least fin ?tm = Inr tm'" "txn_inv tm'"
      "tm_start_ts tm' = tm_start_ts tm" "tm_put tm' = tm_put tm" "tm_flushed tm' = tm_flushed tm" "tm_wait tm' = tm_wait tm"
      "\<And>k u. tm_txn_map tm' k = Some u \<Longrightarrow> tm_txn_map ?tm k = Some u"
      "\<And>k u. tm_txn_map ?tm k = Some u \<Longrightarrow> tm_txn_map tm' k = None \<Longrightarrow> \<exists>ts \<le> least. (ts, k) \<in> set fin"
      by (rule Cons.IH [rotated]) simp_all
    have "pop_finished least (x # fin) tm = Inr tm'"
      using d False tm'(1) by (auto simp: x txn_at_Some [OF t(1)] txn_done_def)
    then show ?thesis
    proof (rule Cons.prems(1))
      show "tm_txn_map tm k = Some u" if "tm_txn_map tm' k = Some u" for k u
        using tm'(7) [OF that] by (auto split: if_splits)
      show "\<exists>ts \<le> least. (ts, k) \<in> set (x # fin)" if "tm_txn_map tm k = Some u" "tm_txn_map tm' k = None" for k u
      proof (cases "k = j")
        case True
        then show ?thesis using False x by (intro exI [of _ ts]) auto
      next
        case False
        then show ?thesis using tm'(8) [of k u] that by auto
      qed
    qed (use tm' in simp_all)
  qed
qed

lemma first_uncommitted_spec:
  assumes "first_uncommitted tm js d = (js', least)"
    and "sorted_wrt (\<lambda>i j. \<forall>t u. tm_txn_map tm i = Some t \<longrightarrow> tm_txn_map tm j = Some u \<longrightarrow> tx_begin_ts t \<le> tx_begin_ts u) js"
  shows "\<exists>pre. js = pre @ js'"
    and "\<And>i t. i \<in> set js \<Longrightarrow> tm_txn_map tm i = Some t \<Longrightarrow> \<not> txn_done t \<Longrightarrow> i \<in> set js' \<and> least \<le> tx_begin_ts t"
  using assms
proof (induction js arbitrary: js')
  case (Cons j js)
  { case 1
    then show ?case
      using Cons.IH(1) [of js'] by (auto split: option.splits if_splits)
  next
    case (2 i t)
    show ?case
    proof (cases "\<exists>u. tm_txn_map tm j = Some u \<and> \<not> txn_done u")
      case True
      then show ?thesis using 2 by (auto simp: txn_done_def split: if_splits)
    next
      case False
      then have "first_uncommitted tm js d = (js', least)"
        using 2(4) by (auto simp: txn_done_def split: option.splits if_splits)
      moreover have "i \<in> set js" using False 2(1-3) by auto
      ultimately show ?thesis using Cons.IH(2) [OF _ 2(2,3)] 2(5) by simp
    qed }
qed simp_all

lemma finish_inv_beginned:
  assumes inv: "finish_inv M finishing finished js start next_id" and js: "js = pre @ js'"
    and a: "\<And>i t. i \<in> set js \<Longrightarrow> M i = Some t \<Longrightarrow> \<not> txn_done t \<Longrightarrow> i \<in> set js'"
  shows "finish_inv M finishing finished js' start next_id"
proof (rule finish_invI)
  note f = finish_invD [OF inv]
  show "i \<in> set js'" if "M i = Some t" "\<not> txn_done t" for i t using a [OF f(9)] that by blast
  show "sorted_wrt (\<lambda>i j. \<forall>t u. M i = Some t \<longrightarrow> M j = Some u \<longrightarrow> tx_begin_ts t \<le> tx_begin_ts u) js'"
    using f(11) unfolding js sorted_wrt_append by blast
  show "i \<le> next_id" if "i \<in> set js'" for i using f(10) js that by simp
qed (use finish_invD [OF inv] in blast)+

text \<open>
  Finishing a writing transaction: the transactions that are forgotten finished before every
  unfinished transaction began.
\<close>

lemma FinishTxn_write:
  assumes inv: "txn_inv tm" and s: "tm_start_ts tm < - 1" and i: "tm_txn_map tm i = Some t"
    and t: "tx_pc t = Finishing" "tx_type t = kWrite"
  obtains tm' least where "FinishTxn i (set_txn i (at_pc Finished t) tm) = Inr tm'" "txn_inv tm'"
    "tm_put tm' = tm_put tm" "tm_flushed tm' = tm_flushed tm"
    "\<And>k u. tm_txn_map tm' k = Some u \<Longrightarrow> if k = i then tx_pc u = Finished else tm_txn_map tm k = Some u"
    "\<And>k. tm_txn_map tm k \<noteq> None \<Longrightarrow> tm_txn_map tm' k = None \<Longrightarrow>
        \<exists>ts \<le> least. (ts, k) \<in> set (tm_finished tm @ [(tm_start_ts tm + 1, i)])"
    "\<And>k u. tm_txn_map tm' k = Some u \<Longrightarrow> \<not> txn_done u \<Longrightarrow> least \<le> tx_begin_ts u"
proof -
  note iv = txn_invD [OF inv] and f = finish_invD [OF txn_invD(5) [OF inv]]
  let ?ts = "tm_start_ts tm + 1" and ?tm0 = "set_txn i (at_pc Finished t) tm"
  have lt: "tm_start_ts tm < ?ts" by (rule less_inc [OF s])
  have st: "tx_state t = kCommitting \<or> tx_state t = kRollbacking" using iv(2) [OF i] t by (auto simp: pc_ok_def)
  define t' where "t' = (if tx_state t = kCommitting then (at_pc Finished t)\<lparr>tx_state := kCommitted, tx_committed_ts := ?ts\<rparr>
      else (at_pc Finished t)\<lparr>tx_state := kRollbacked\<rparr>)"
  have t': "tx_begin_ts t' = tx_begin_ts t" "tx_pc t' = Finished" "tx_type t' = kWrite" "txn_done t'"
    "tx_state t' = kCommitted \<longrightarrow> tx_committed_ts t' = ?ts" "unsent_ts t' = None" "sent_ts t' = None"
    using t by (auto simp: t'_def txn_done_def unsent_ts_def sent_ts_def)
  define tm1 where "tm1 = set_txn i t' (tm\<lparr>tm_start_ts := ?ts\<rparr>)"
  obtain js least where js: "first_uncommitted tm1 (tm_beginned tm) (tx_commit_ts t' + 1) = (js, least)" by fastforce
  have r: "FinishTxn i ?tm0 = pop_finished least (tm_finished tm @ [(?ts, i)]) (tm1\<lparr>tm_beginned := js\<rparr>)"
    using st t js by (auto simp: FinishTxn_def txn_at_def SetTxnCommitted_def SetTxnRollbacked_def t'_def tm1_def set_txn_def Let_def)
  have m: "tm_txn_map tm1 = (tm_txn_map tm)(i \<mapsto> t')" by (simp add: tm1_def)
  have ni: "i \<notin> snd ` set (tm_finished tm)" using f(4) i t(1) by fastforce
  have fi: "finish_inv (tm_txn_map tm1) (tm_finishing tm) (tm_finished tm @ [(?ts, i)]) (tm_beginned tm) ?ts (tm_next_txn_id tm)"
  proof (rule finish_invI)
    show "finite (dom (tm_txn_map tm1))" using f(1) by (simp add: m)
    show "j \<in> set (tm_finishing tm) \<longleftrightarrow> (\<exists>u. tm_txn_map tm1 j = Some u \<and> tx_type u = kWrite)" for j
      using f(2) [of j] i t(2) t'(3) by (auto simp: m)
    show "ts \<le> ?ts" if "(ts, j) \<in> set (tm_finished tm @ [(?ts, i)])" for ts j using f(3) [of ts j] lt that by auto
    show "\<exists>u. tm_txn_map tm1 j = Some u \<and> tx_pc u = Finished \<and> (tx_state u = kCommitted \<longrightarrow> tx_committed_ts u = ts)"
      if "(ts, j) \<in> set (tm_finished tm @ [(?ts, i)])" for ts j
      using f(4) [of ts j] t'(2,5) ni that by (force simp: m)
    show "j \<in> snd ` set (tm_finished tm @ [(?ts, i)])" if "tm_txn_map tm1 j = Some u" "tx_pc u = Finished" for j u
      using f(5) [of j u] that by (auto simp: m split: if_splits)
    show "distinct (map snd (tm_finished tm @ [(?ts, i)]))" using f(6) ni by simp
    show "tx_begin_ts u \<le> ?ts" if "tm_txn_map tm1 j = Some u" for j u
      using f(7) [of j u] f(7) [OF i] t'(1) lt that by (auto simp: m split: if_splits)
    show "j \<le> tm_next_txn_id tm" if "tm_txn_map tm1 j = Some u" for j u
      using f(8) [of j u] f(8) [OF i] that by (auto simp: m split: if_splits)
    show "j \<in> set (tm_beginned tm)" if "tm_txn_map tm1 j = Some u" "\<not> txn_done u" for j u
      using f(9) [of j u] t'(4) that by (auto simp: m split: if_splits)
    show "j \<le> tm_next_txn_id tm" if "j \<in> set (tm_beginned tm)" for j by (rule f(10) [OF that])
    show "sorted_wrt (\<lambda>k j. \<forall>t u. tm_txn_map tm1 k = Some t \<longrightarrow> tm_txn_map tm1 j = Some u \<longrightarrow> tx_begin_ts t \<le> tx_begin_ts u) (tm_beginned tm)"
      by (rule sorted_wrt_mono_rel [OF _ f(11)]) (use i t'(1) in \<open>auto simp: m split: if_splits\<close>)
  qed
  note fu = first_uncommitted_spec [OF js finish_invD(11) [OF fi]]
  obtain pre where "tm_beginned tm = pre @ js" using fu(1) by blast
  from finish_inv_beginned [OF fi this] fu(2)
  have fi': "finish_inv (tm_txn_map tm1) (tm_finishing tm) (tm_finished tm @ [(?ts, i)]) js ?ts (tm_next_txn_id tm)" by blast
  let ?tm2 = "tm1\<lparr>tm_beginned := js\<rparr>"
  have "txn_inv (?tm2\<lparr>tm_finished := tm_finished tm @ [(?ts, i)]\<rparr>)" (is "txn_inv ?tm3")
  proof (rule txn_invI)
    show "tm_running ?tm3" using iv(1) by (simp add: tm1_def)
    show "pc_ok j u" if "tm_txn_map ?tm3 j = Some u" for j u
      using iv(2) [of j u] t' that by (auto simp: m pc_ok_def split: if_splits)
    have "uns ?tm3 = uns tm" "snt ?tm3 = snt tm"
      using i t t'(6,7) by (auto simp: uns_def snt_def m unsent_ts_def sent_ts_def)
    then show "queue_inv (uns ?tm3) (snt ?tm3) (tm_wait ?tm3) (tm_put ?tm3) (tm_flushed ?tm3) (tm_start_ts ?tm3)"
      using queue_inv_later [OF iv(3) less_imp_le [OF lt]] by (simp add: tm1_def)
    show "finish_inv (tm_txn_map ?tm3) (tm_finishing ?tm3) (tm_finished ?tm3) (tm_beginned ?tm3) (tm_start_ts ?tm3) (tm_next_txn_id ?tm3)"
      using fi' by (simp add: tm1_def)
  qed
  then obtain tm' where tm': "pop_finished least (tm_finished tm @ [(?ts, i)]) ?tm2 = Inr tm'" "txn_inv tm'"
    "tm_put tm' = tm_put ?tm2" "tm_flushed tm' = tm_flushed ?tm2"
    "\<And>k u. tm_txn_map tm' k = Some u \<Longrightarrow> tm_txn_map ?tm2 k = Some u"
    "\<And>k u. tm_txn_map ?tm2 k = Some u \<Longrightarrow> tm_txn_map tm' k = None \<Longrightarrow> \<exists>ts \<le> least. (ts, k) \<in> set (tm_finished tm @ [(?ts, i)])"
    by (rule pop_finished_ok) blast
  show ?thesis
  proof (rule that [of tm' least])
    show "FinishTxn i ?tm0 = Inr tm'" using r tm'(1) by simp
    show "tm_put tm' = tm_put tm" "tm_flushed tm' = tm_flushed tm" using tm'(3,4) by (simp_all add: tm1_def)
    show "if k = i then tx_pc u = Finished else tm_txn_map tm k = Some u" if "tm_txn_map tm' k = Some u" for k u
      using tm'(5) [OF that] t'(2) by (auto simp: m split: if_splits)
    show "\<exists>ts \<le> least. (ts, k) \<in> set (tm_finished tm @ [(?ts, i)])" if k: "tm_txn_map tm k \<noteq> None" "tm_txn_map tm' k = None" for k
    proof -
      obtain u where "tm_txn_map ?tm2 k = Some u" using k(1) by (cases "k = i") (auto simp: m)
      then show ?thesis using tm'(6) k(2) by blast
    qed
    show "least \<le> tx_begin_ts u" if u: "tm_txn_map tm' k = Some u" "\<not> txn_done u" for k u
    proof -
      have "tm_txn_map tm1 k = Some u" using tm'(5) [OF u(1)] by simp
      then show ?thesis using fu(2) [OF finish_invD(9) [OF fi]] u(2) by blast
    qed
  qed (fact tm'(2))
qed

subsection \<open>Progress\<close>

text \<open>An upper bound for the steps a transaction still takes, and for all of them together.\<close>

fun pc_rank :: "txn_pc \<Rightarrow> nat" where
  "pc_rank Running = 0"
| "pc_rank (Stamped _) = 5"
| "pc_rank Prepared = 4"
| "pc_rank Conflicted = 3"
| "pc_rank Passed = 3"
| "pc_rank Sent = 2"
| "pc_rank ConflictSent = 2"
| "pc_rank (ReadStamped _) = 3"
| "pc_rank (ReadCommitting _) = 2"
| "pc_rank (AbortStamped _) = 2"
| "pc_rank Finishing = 1"
| "pc_rank Finished = 0"

definition txn_work :: "txn_manager \<Rightarrow> nat" where
  "txn_work tm = (\<Sum>i \<in> dom (tm_txn_map tm). pc_rank (tx_pc (the (tm_txn_map tm i))))"

definition settled :: "txn_manager \<Rightarrow> bool" where
  "settled tm \<longleftrightarrow> (\<forall>i t. tm_txn_map tm i = Some t \<longrightarrow> tx_pc t = Running \<or> tx_pc t = Finished)"

lemma txn_work_less:
  assumes fin: "finite (dom (tm_txn_map tm))" and i: "tm_txn_map tm i = Some t"
    and sub: "\<And>k u. tm_txn_map tm' k = Some u \<Longrightarrow> k \<noteq> i \<Longrightarrow> tm_txn_map tm k = Some u"
    and less: "\<And>u. tm_txn_map tm' i = Some u \<Longrightarrow> pc_rank (tx_pc u) < pc_rank (tx_pc t)" and pos: "0 < pc_rank (tx_pc t)"
  shows "txn_work tm' < txn_work tm"
proof -
  let ?r = "\<lambda>tm i. case tm_txn_map tm i of None \<Rightarrow> 0 | Some t \<Rightarrow> pc_rank (tx_pc t)"
  have d: "dom (tm_txn_map tm') \<subseteq> dom (tm_txn_map tm)" 
  proof
    fix k assume "k \<in> dom (tm_txn_map tm')"
    then obtain u where "tm_txn_map tm' k = Some u" by blast
    then show "k \<in> dom (tm_txn_map tm)" using sub [of k u] i by (cases "k = i") auto
  qed
  have "txn_work tm' = (\<Sum>i \<in> dom (tm_txn_map tm'). ?r tm' i)" unfolding txn_work_def by (rule sum.cong) auto
  also have "\<dots> = (\<Sum>i \<in> dom (tm_txn_map tm). ?r tm' i)"
    by (rule sum.mono_neutral_left [OF fin d]) (auto simp: domIff)
  also have "\<dots> < (\<Sum>i \<in> dom (tm_txn_map tm). ?r tm i)"
  proof (rule sum_strict_mono_ex1 [OF fin])
    show "\<forall>k \<in> dom (tm_txn_map tm). ?r tm' k \<le> ?r tm k"
    proof
      fix k assume "k \<in> dom (tm_txn_map tm)"
      show "?r tm' k \<le> ?r tm k"
        using sub [of k] less i by (cases "k = i"; cases "tm_txn_map tm' k") (simp_all add: less_imp_le)
    qed
    show "\<exists>k \<in> dom (tm_txn_map tm). ?r tm' k < ?r tm k"
      by (rule bexI [of _ i]) (use less i pos in \<open>simp_all add: domI split: option.split\<close>)
  qed
  also have "\<dots> = txn_work tm" unfolding txn_work_def by (rule sum.cong) auto
  finally show ?thesis .
qed

lemma candidate_txns_ok: "\<forall>j \<in> set js. tm_txn_map tm j \<noteq> None \<Longrightarrow> \<exists>cs. candidate_txns tm t js = Inr cs"
  by (induction js) (auto simp: txn_at_def)

lemma CheckConflict_ok:
  assumes "txn_inv tm" and "tm_txn_map tm i = Some t"
  obtains c where "CheckConflict i tm = Inr c"
proof -
  have "\<forall>j \<in> set (tm_finishing tm). tm_txn_map tm j \<noteq> None"
    using finish_invD(2) [OF txn_invD(5) [OF assms(1)]] by auto
  from candidate_txns_ok [OF this, of t] obtain cs where "candidate_txns tm t (tm_finishing tm) = Inr cs" ..
  then show ?thesis using that by (simp add: CheckConflict_def txn_at_Some [OF assms(2)])
qed

lemma pop_finished_start: "pop_finished least fs tm = Inr tm' \<Longrightarrow> tm_start_ts tm' = tm_start_ts tm"
  by (induction least fs tm rule: pop_finished.induct) (auto simp: txn_at_def split: option.splits if_splits)

lemma FinishTxn_start: "FinishTxn i tm = Inr tm' \<Longrightarrow> tm_start_ts tm' = tm_start_ts tm \<or> tm_start_ts tm' = tm_start_ts tm + 1"
  by (cases "txn_at tm i")
    (auto simp: FinishTxn_def Let_def res_bind_def split: txn_type.splits prod.splits sum.splits dest!: pop_finished_start)

text \<open>One step forward of a thread inside \<^verbatim>\<open>Commit\<close> or \<^verbatim>\<open>Rollback\<close> that keeps the invariant.\<close>

definition advances :: "txn_manager \<Rightarrow> txn_manager \<Rightarrow> bool" where
  "advances tm tm' \<longleftrightarrow> txn_inv tm' \<and> txn_work tm' < txn_work tm
     \<and> (tm_start_ts tm' = tm_start_ts tm \<or> tm_start_ts tm' = tm_start_ts tm + 1)"

lemma advances_local:
  assumes inv: "txn_inv tm" and i: "tm_txn_map tm i = Some t"
    and t': "tx_begin_ts t' = tx_begin_ts t" "tx_pc t \<noteq> Finished" "tx_pc t' \<noteq> Finished" "txn_done t \<Longrightarrow> txn_done t'"
      "pc_ok i t'" "unsent_ts t' = unsent_ts t" "sent_ts t' = sent_ts t" "tx_type t' = kWrite \<longleftrightarrow> tx_type t = kWrite"
      "pc_rank (tx_pc t') < pc_rank (tx_pc t)"
  shows "advances tm (set_txn i t' tm)"
  unfolding advances_def
proof (intro conjI)
  show "txn_inv (set_txn i t' tm)" using txn_inv_act [OF inv i t'(1-8)] by (simp add: set_txn_def)
  show "txn_work (set_txn i t' tm) < txn_work tm"
    by (rule txn_work_less [OF finish_invD(1) [OF txn_invD(5) [OF inv]] i]) (use t'(9) in \<open>auto split: if_splits\<close>)
qed simp

lemma advances_send:
  assumes inv: "txn_inv tm" and i: "tm_txn_map tm i = Some t"
    and pc: "tx_pc t = Passed \<and> pc = Sent \<or> tx_pc t = Conflicted \<and> pc = ConflictSent"
  shows "\<exists>tm'. res_bind (SendToWAL i tm) (move_txn i pc) = Inr tm' \<and> advances tm tm'"
proof -
  have "unsent_ts t = Some (tx_commit_ts t)" using pc by (auto simp: unsent_ts_def)
  from SendToWAL_ok [OF inv i this] obtain tm1 where r: "SendToWAL i tm = Inr tm1" and s: "tm_start_ts tm1 = tm_start_ts tm"
    by simp
  note v = txn_inv_send [OF inv i pc r]
  have "txn_work (set_txn i (at_pc pc t) tm1) < txn_work tm"
    by (rule txn_work_less [OF finish_invD(1) [OF txn_invD(5) [OF inv]] i]) (use pc v(2) in \<open>auto split: if_splits\<close>)
  then have "advances tm (set_txn i (at_pc pc t) tm1)" using v(1) s by (simp add: advances_def)
  moreover have "move_txn i pc tm1 = Inr (set_txn i (at_pc pc t) tm1)"
    using i v(2) by (simp add: move_txn_def txn_at_def)
  ultimately show ?thesis using r by simp
qed

lemma advances_finish:
  assumes inv: "txn_inv tm" and s: "tm_start_ts tm < - 1" and i: "tm_txn_map tm i = Some t" and pc: "tx_pc t = Finishing"
  shows "\<exists>tm'. FinishTxn i (set_txn i (at_pc Finished t) tm) = Inr tm' \<and> advances tm tm'"
proof -
  note fin = finish_invD(1) [OF txn_invD(5) [OF inv]]
  from txn_invD(2) [OF inv i] pc consider "tx_type t = kRead" | "tx_type t = kWrite"
    by (cases "tx_type t") (auto simp: pc_ok_def)
  then show ?thesis
  proof cases
    case 1
    let ?tm = "tm\<lparr>tm_txn_map := (tm_txn_map tm)(i := None)\<rparr>"
    have "FinishTxn i (set_txn i (at_pc Finished t) tm) = Inr ?tm"
      using 1 by (simp add: FinishTxn_def txn_at_def set_txn_def)
    moreover have "txn_work ?tm < txn_work tm" by (rule txn_work_less [OF fin i]) (use pc in auto)
    ultimately show ?thesis using txn_inv_remove_read [OF inv i 1 pc] by (simp add: advances_def)
  next
    case 2
    obtain tm' where r: "FinishTxn i (set_txn i (at_pc Finished t) tm) = Inr tm'" and v: "txn_inv tm'"
      and m: "\<And>k u. tm_txn_map tm' k = Some u \<Longrightarrow> if k = i then tx_pc u = Finished else tm_txn_map tm k = Some u"
      by (rule FinishTxn_write [OF inv s i pc 2]) blast
    have "txn_work tm' < txn_work tm"
      by (rule txn_work_less [OF fin i]) (use m pc in \<open>fastforce+\<close>)
    then show ?thesis using r v FinishTxn_start [OF r] by (auto simp: advances_def)
  qed
qed

text \<open>
  A thread inside \<^verbatim>\<open>Commit\<close> or \<^verbatim>\<open>Rollback\<close> always succeeds with its next step: no error of the manager, no
  pointer to a deleted transaction.
\<close>

lemma txn_action_ok:
  assumes inv: "txn_inv tm" and s: "tm_start_ts tm < - 1" and i: "tm_txn_map tm i = Some t" and w: "working (tx_pc t)"
  shows "\<exists>tm'. txn_action i tm = Inr tm' \<and> advances tm tm'"
proof -
  have pk: "pc_ok i t" by (rule txn_invD(2) [OF inv i])
  note defs = txn_action_def txn_at_Some [OF i] SetTxnCommitting_def SetTxnCommitted_def SetTxnRollbacking_def
  note loc = advances_local [OF inv i] and ok = pc_ok_def unsent_ts_def sent_ts_def txn_done_def
  show ?thesis
  proof (cases "tx_pc t")
    case Prepared
    obtain c where "CheckConflict i tm = Inr c" by (rule CheckConflict_ok [OF inv i])
    with Prepared pk show ?thesis by (cases c) (auto simp: defs ok intro!: loc)
  next
    case Conflicted
    then show ?thesis using advances_send [OF inv i, of ConflictSent] by (simp add: defs)
  next
    case Passed
    then show ?thesis using advances_send [OF inv i, of Sent] by (simp add: defs)
  next
    case Finishing
    then show ?thesis using advances_finish [OF inv s i] by (simp add: defs)
  qed (use w pk in \<open>auto simp: defs working_def ok intro!: loc\<close>)
qed

lemma flush_next_ok:
  assumes inv: "txn_inv tm" and f: "tm_flushed tm < length (tm_put tm)"
  shows "\<exists>tm'. flush_next tm = Inr tm' \<and> advances tm tm'"
proof -
  let ?i = "we_txn_id (tm_put tm ! tm_flushed tm)"
  obtain t where t: "tm_txn_map tm ?i = Some t" "tx_pc t = Sent" by (rule flush_target [OF inv f])
  let ?tm = "set_txn ?i (at_pc Finishing t) (tm\<lparr>tm_flushed := tm_flushed tm + 1\<rparr>)"
  have r: "flush_next tm = Inr ?tm" using t(1) by (simp add: flush_next_def GetTxn_def Let_def)
  have "txn_work ?tm < txn_work tm"
    by (rule txn_work_less [OF finish_invD(1) [OF txn_invD(5) [OF inv]] t(1)]) (use t(2) in \<open>auto split: if_splits\<close>)
  then show ?thesis using r txn_inv_flush [OF inv f r] by (simp add: advances_def)
qed

lemma finish_step_advances:
  assumes "finish_step tm tm'" and inv: "txn_inv tm" and s: "tm_start_ts tm < - 1"
  shows "advances tm tm'"
  using assms(1)
proof cases
  case (act i t)
  then show ?thesis using txn_action_ok [OF inv s] by fastforce
next
  case flush
  then show ?thesis using flush_next_ok [OF inv] by fastforce
qed

lemma txn_inv_stampR:
  assumes inv: "txn_inv tm" and s: "stamps_left tm" and i: "tm_txn_map tm i = Some t" and pc: "tx_pc t = Running"
    and p: "p = ReadStamped x \<or> p = AbortStamped x"
  shows "txn_inv (set_txn i (at_pc p (t\<lparr>tx_type := kRead\<rparr>)) (tm\<lparr>tm_start_ts := tm_start_ts tm + 1\<rparr>))"
proof (rule txn_inv_local [OF inv i])
  show "tm_start_ts tm \<le> tm_start_ts tm + 1" using s less_inc by (blast intro: less_imp_le)
qed (use txn_invD(2) [OF inv i] pc p in \<open>auto simp: pc_ok_def unsent_ts_def sent_ts_def txn_done_def\<close>)

text \<open>
  The cleanup time stamp: the transactions that are not finished began at it or later.
\<close>

lemma scan_split:
  obtains pre js where "xs = pre @ js" "\<forall>j \<in> set pre. M j = None" "dropWhile (\<lambda>j. M j = None) xs = js"
    "js = [] \<or> (\<exists>t. M (hd js) = Some t)"
proof
  let ?js = "dropWhile (\<lambda>j. M j = None) xs"
  show "xs = takeWhile (\<lambda>j. M j = None) xs @ ?js" by simp
  show "\<forall>j \<in> set (takeWhile (\<lambda>j. M j = None) xs). M j = None" by (auto dest: set_takeWhileD)
  show "?js = [] \<or> (\<exists>t. M (hd ?js) = Some t)" using hd_dropWhile [of "\<lambda>j. M j = None" xs] by blast
qed (rule refl)

lemma GetCleanupScanTS_spec:
  assumes r: "GetCleanupScanTS checkpointed_ts tm = (ts, tm')" and inv: "txn_inv tm"
  shows "txn_inv tm'" and "ts \<le> checkpointed_ts" and "ts \<le> tm_start_ts tm"
    and "\<And>j t. j \<in> set (tm_beginned tm) \<Longrightarrow> tm_txn_map tm j = Some t \<Longrightarrow> ts \<le> tx_begin_ts t"
    and "\<And>x. x \<le> checkpointed_ts \<Longrightarrow> x \<le> tm_start_ts tm \<Longrightarrow>
      (\<And>j t. j \<in> set (tm_beginned tm) \<Longrightarrow> tm_txn_map tm j = Some t \<Longrightarrow> x \<le> tx_begin_ts t) \<Longrightarrow> x \<le> ts"
    and "\<exists>js. tm' = tm\<lparr>tm_beginned := js\<rparr> \<and> set js \<subseteq> set (tm_beginned tm)"
proof -
  note iv = txn_invD [OF inv] and f = finish_invD [OF txn_invD(5) [OF inv]]
  obtain pre js where js: "tm_beginned tm = pre @ js" "\<forall>j \<in> set pre. tm_txn_map tm j = None"
    "dropWhile (\<lambda>j. tm_txn_map tm j = None) (tm_beginned tm) = js" "js = [] \<or> (\<exists>t. tm_txn_map tm (hd js) = Some t)"
    by (rule scan_split)
  have tm': "tm' = tm\<lparr>tm_beginned := js\<rparr>" using r js(3,4) by (cases js) (auto simp: GetCleanupScanTS_def)
  have "finish_inv (tm_txn_map tm) (tm_finishing tm) (tm_finished tm) js (tm_start_ts tm) (tm_next_txn_id tm)"
    by (rule finish_inv_beginned [OF iv(5) js(1)]) (use js(1,2) in auto)
  moreover have "uns tm' = uns tm" "snt tm' = snt tm" by (simp_all add: tm' uns_def snt_def fun_eq_iff)
  ultimately show "txn_inv tm'" using iv(1,2,3) by (intro txn_invI) (simp_all add: tm')
  show "\<exists>js. tm' = tm\<lparr>tm_beginned := js\<rparr> \<and> set js \<subseteq> set (tm_beginned tm)" using tm' js(1) by auto
  show "ts \<le> checkpointed_ts" using r js(3) by (cases js) (auto simp: GetCleanupScanTS_def)
  have ts: "ts = min (case js of [] \<Rightarrow> tm_start_ts tm | j # _ \<Rightarrow> tx_begin_ts (the (tm_txn_map tm j))) checkpointed_ts"
    using r js(3) by (cases js) (auto simp: GetCleanupScanTS_def)
  show "ts \<le> tm_start_ts tm"
    using js(4) f(7) unfolding ts by (cases js) (auto intro: min.coboundedI1)
  show "ts \<le> tx_begin_ts t" if "j \<in> set (tm_beginned tm)" "tm_txn_map tm j = Some t" for j t
  proof -
    from that js(1,2) have j: "j \<in> set js" by auto
    then obtain k ks u where k: "js = k # ks" "tm_txn_map tm k = Some u" using js(4) by (cases js) auto
    then have "tx_begin_ts u \<le> tx_begin_ts t"
      using f(11) that(2) j unfolding js(1) by (auto simp: sorted_wrt_append)
    then show ?thesis using k unfolding ts by (simp add: min.coboundedI1)
  qed
  show "x \<le> ts" if x: "x \<le> checkpointed_ts" "x \<le> tm_start_ts tm"
    "\<And>j t. j \<in> set (tm_beginned tm) \<Longrightarrow> tm_txn_map tm j = Some t \<Longrightarrow> x \<le> tx_begin_ts t" for x
  proof (cases js)
    case (Cons j ks)
    then obtain t where t: "tm_txn_map tm j = Some t" using js(4) by auto
    have "x \<le> tx_begin_ts t" by (rule x(3) [OF _ t]) (simp add: js(1) Cons)
    with t x(1) Cons show ?thesis unfolding ts by simp
  qed (use x ts in simp)
qed

lemma txn_step_inv: "txn_step tm tm' \<Longrightarrow> txn_inv tm \<Longrightarrow> txn_inv tm'"
proof (induction rule: txn_step.induct)
  case (begin_txn tm i tm')
  then show ?case using txn_inv_begin by blast
next
  case (statement tm i t e st)
  then have "txn_inv (set_txn i (t\<lparr>tx_store := st, tx_wal_entry := Some e\<rparr>) (tm\<lparr>tm_start_ts := tm_start_ts tm\<rparr>))"
    using txn_invD(2) [OF statement(3,1)]
    by (intro txn_inv_local [OF statement(3,1)]) (auto simp: pc_ok_def unsent_ts_def sent_ts_def txn_done_def)
  then show ?case by simp
next
  case (commit tm i t tm')
  let ?m = "\<lambda>p ty tm. set_txn i (at_pc p (t\<lparr>tx_type := ty\<rparr>)) tm"
  let ?s = "tm_start_ts tm + 1"
  have "tm' = ?m (ReadStamped ?s) kRead (tm\<lparr>tm_start_ts := ?s\<rparr>)
     \<or> tm' = ?m (Stamped ?s) kWrite (tm\<lparr>tm_start_ts := ?s, tm_wait := map_emplace ?s None (tm_wait tm),
               tm_finishing := List.insert i (tm_finishing tm)\<rparr>)"
    using commit(2,4)
    by (auto simp: Commit_begin_def txn_at_def GetCommitTimeStampR_def GetCommitTimeStampW_def move_txn_def Let_def set_txn_def
      split: if_splits)
  then show ?case
    using txn_inv_stampR [OF commit(5,1-3), of "ReadStamped ?s"] txn_inv_stampW [OF commit(5,1-3)] by auto
next
  case (rollback tm i t tm')
  then have "tm' = set_txn i (at_pc (AbortStamped (tm_start_ts tm + 1)) (t\<lparr>tx_type := kRead\<rparr>)) (tm\<lparr>tm_start_ts := tm_start_ts tm + 1\<rparr>)"
    by (simp add: Rollback_begin_def txn_at_def GetCommitTimeStampR_def move_txn_def Let_def set_txn_def)
  then show ?case using txn_inv_stampR [OF rollback(5,1-3), of "AbortStamped (tm_start_ts tm + 1)"] by auto
next
  case (finish tm tm')
  then show ?case using finish_step_advances by (auto simp: advances_def)
next
  case (cleanup checkpointed_ts tm visible_ts tm')
  then show ?case by (rule GetCleanupScanTS_spec(1))
qed

lemma reachable_inv: "reachable tm \<Longrightarrow> txn_inv tm"
proof -
  assume "reachable tm"
  then obtain n s where "txn_step\<^sup>*\<^sup>* (TxnManager_start n s) tm" by (auto simp: reachable_def)
  then show "txn_inv tm" by (induction rule: rtranclp_induct) (auto intro: txn_inv_start txn_step_inv)
qed

lemma unsent_working: "unsent_ts t = Some ts \<Longrightarrow> working (tx_pc t)"
  by (cases "tx_pc t") (simp_all add: unsent_ts_def working_def)

lemma idle_ts: "tx_pc t = Running \<or> tx_pc t = Finished \<Longrightarrow> unsent_ts t = None \<and> sent_ts t = None"
  by (auto simp: unsent_ts_def sent_ts_def)

lemma not_settled_step:
  assumes inv: "txn_inv tm" and s: "tm_start_ts tm < - 1" and n: "\<not> settled tm"
  shows "\<exists>tm'. finish_step tm tm'"
proof -
  obtain i t where i: "tm_txn_map tm i = Some t" and pc: "tx_pc t \<noteq> Running" "tx_pc t \<noteq> Finished"
    using n by (auto simp: settled_def)
  note q = queue_preD [OF txn_invD(4) [OF inv]]
  consider "working (tx_pc t)" | "tx_pc t = Sent" using pc by (auto simp: working_def)
  then show ?thesis
  proof cases
    case 1
    then show ?thesis using txn_action_ok [OF inv s i] i by (blast intro: finish_step.act)
  next
    case 2
    show ?thesis
    proof (cases "tm_flushed tm < length (tm_put tm)")
      case True
      then show ?thesis using flush_next_ok [OF inv] by (blast intro: finish_step.flush)
    next
      case False
      have "snt tm i \<noteq> None" using i 2 by (simp add: snt_def sent_ts_def)
      from q(8) [OF this] obtain ts e where "(ts, Some e) \<in> set (tm_wait tm)" using False by (auto simp: queued_def)
      then have "tm_wait tm \<noteq> []" by auto
      then obtain ts' w where "tm_wait tm = (ts', None) # w"
        using txn_invD(3) [OF inv] by (cases "tm_wait tm") (auto simp: queue_inv_def)
      then obtain j where "uns tm j = Some ts'" using q(3) [of ts'] by auto
      then obtain u where "tm_txn_map tm j = Some u" "unsent_ts u = Some ts'" by (auto simp: uns_def bind_eq_Some_conv)
      note u = this(1) unsent_working [OF this(2)]
      then show ?thesis using txn_action_ok [OF inv s] by (blast intro: finish_step.act)
    qed
  qed
qed

lemma settled_flushed:
  assumes inv: "txn_inv tm" and n: "settled tm"
  shows "tm_wait tm = []" "tm_flushed tm = length (tm_put tm)"
proof -
  note q = queue_preD [OF txn_invD(4) [OF inv]]
  have "uns tm i = None" "snt tm i = None" for i
    using n idle_ts by (cases "tm_txn_map tm i"; simp add: uns_def snt_def settled_def)+
  note none = this
  have w: "(ts, None) \<notin> set (tm_wait tm)" for ts using q(3) none by simp
  have e: "queued (tm_put tm) (tm_flushed tm) (tm_wait tm) = {}" using q(7) none by auto
  show "tm_wait tm = []"
    using w [of "fst (hd (tm_wait tm))"] txn_invD(3) [OF inv] by (cases "tm_wait tm") (auto simp: queue_inv_def)
  show "tm_flushed tm = length (tm_put tm)" using e q(6) by (simp add: queued_def)
qed

lemma txn_work_bound: "txn_work tm \<le> 5 * card (dom (tm_txn_map tm))"
proof -
  have "pc_rank pc \<le> 5" for pc by (cases pc) simp_all
  then have "txn_work tm \<le> of_nat (card (dom (tm_txn_map tm))) * 5"
    unfolding txn_work_def by (intro sum_bounded_above)
  then show ?thesis by simp
qed

text \<open>With enough time stamps left for the work to be done, a run of finishing steps keeps everything needed.\<close>

definition enough_stamps :: "txn_manager \<Rightarrow> bool" where
  "enough_stamps tm \<longleftrightarrow> unat (tm_start_ts tm) + txn_work tm < 2 ^ 64 - 1"

lemma enough_stampsD: "enough_stamps tm \<Longrightarrow> tm_start_ts tm < - 1"
  by (simp add: enough_stamps_def word_less_nat_alt unsigned_minus_1_eq_mask mask_eq_exp_minus_1)

lemma finish_step_keeps:
  assumes step: "finish_step tm tm'" and inv: "txn_inv tm" and e: "enough_stamps tm"
  shows "txn_inv tm'" "enough_stamps tm'" "txn_work tm' < txn_work tm"
proof -
  have a: "advances tm tm'" by (rule finish_step_advances [OF step inv enough_stampsD [OF e]])
  then show "txn_inv tm'" and w: "txn_work tm' < txn_work tm" by (simp_all add: advances_def)
  have "unat (tm_start_ts tm') \<le> unat (tm_start_ts tm) + 1"
    using a by (auto simp: advances_def unat_word_ariths)
  then show "enough_stamps tm'" using e w by (simp add: enough_stamps_def)
qed

lemma finish_steps_keep:
  assumes "finish_step\<^sup>*\<^sup>* tm tm'" and "txn_inv tm" and "enough_stamps tm"
  shows "txn_inv tm' \<and> enough_stamps tm'"
  using assms(1) by (induction rule: rtranclp_induct) (use assms(2,3) finish_step_keeps in \<open>auto\<close>)

lemma finish_steps_length:
  "(finish_step ^^ n) tm tm' \<Longrightarrow> txn_inv tm \<Longrightarrow> enough_stamps tm \<Longrightarrow> n \<le> txn_work tm"
proof (induction n arbitrary: tm)
  case (Suc n)
  from Suc.prems(1) obtain tm1 where s: "finish_step tm tm1" and r: "(finish_step ^^ n) tm1 tm'"
    by (rule relpowp_Suc_E2)
  note k = finish_step_keeps [OF s Suc.prems(2,3)]
  from Suc.IH [OF r k(1,2)] k(3) show ?case by simp
qed simp

lemma settle:
  "txn_inv tm \<Longrightarrow> enough_stamps tm \<Longrightarrow> \<exists>tm'. finish_step\<^sup>*\<^sup>* tm tm' \<and> settled tm'"
proof (induction "txn_work tm" arbitrary: tm rule: less_induct)
  case less
  show ?case
  proof (cases "settled tm")
    case False
    then obtain tm1 where s: "finish_step tm tm1" using not_settled_step [OF less.prems(1) enough_stampsD [OF less.prems(2)]] by blast
    note k = finish_step_keeps [OF s less.prems]
    from less.hyps [OF k(3,1,2)] s show ?thesis by (blast intro: converse_rtranclp_into_rtranclp)
  qed blast
qed

lemma candidate_txns_complete:
  "candidate_txns tm t js = Inr cs \<Longrightarrow> j \<in> set js \<Longrightarrow> tm_txn_map tm j = Some u \<Longrightarrow> conflict_candidate t u \<Longrightarrow> u \<in> set cs"
  by (induction js arbitrary: cs) (auto simp: txn_at_def res_bind_def split: option.splits sum.splits if_splits)

subsection \<open>Time goes on\<close>

text \<open>What a step leaves of the beginning of the transactions.\<close>

definition later :: "txn_manager \<Rightarrow> txn_manager \<Rightarrow> bool" where
  "later tm tm' \<longleftrightarrow> tm_start_ts tm \<le> tm_start_ts tm' \<and> set (tm_beginned tm') \<subseteq> set (tm_beginned tm)
     \<and> (\<forall>j u'. tm_txn_map tm' j = Some u' \<longrightarrow> (\<exists>u. tm_txn_map tm j = Some u \<and> tx_begin_ts u' = tx_begin_ts u))"

lemma later_trans: "later a b \<Longrightarrow> later b c \<Longrightarrow> later a c"
  unfolding later_def by (fastforce intro: order_trans)

lemma later_set_txn:
  "later tm tm1 \<Longrightarrow> tm_txn_map tm i = Some t \<Longrightarrow> tx_begin_ts t' = tx_begin_ts t \<Longrightarrow> later tm (set_txn i t' tm1)"
  by (auto simp: later_def)

lemma later_refl: "later tm tm"
  by (auto simp: later_def)

lemma later_fields:
  "tm_txn_map tm' = tm_txn_map tm \<Longrightarrow> tm_beginned tm' = tm_beginned tm \<Longrightarrow> tm_start_ts tm \<le> tm_start_ts tm' \<Longrightarrow> later tm tm'"
  by (simp add: later_def)

lemma first_uncommitted_subset: "first_uncommitted tm js d = (js', least) \<Longrightarrow> set js' \<subseteq> set js"
  by (induction js) (auto split: option.splits if_splits)

lemma pop_finished_later: "pop_finished least fs tm = Inr tm' \<Longrightarrow> later tm tm'"
proof (induction least fs tm rule: pop_finished.induct)
  case (1 least tm)
  then show ?case by (auto simp: later_def)
next
  case (2 least ts j fs tm)
  then obtain f where f: "txn_at tm j = Inr f" by (cases "txn_at tm j") auto
  let ?tm = "tm\<lparr>tm_finishing := removeAll j (tm_finishing tm), tm_txn_map := (tm_txn_map tm)(j := None)\<rparr>"
  have l: "later tm ?tm" by (auto simp: later_def)
  show ?case
  proof (cases "tx_state f \<noteq> kCommitted \<and> tx_state f \<noteq> kRollbacked \<or> ts > least")
    case True
    then have "tm' = tm\<lparr>tm_finished := (ts, j) # fs\<rparr>" using "2.prems" f by (auto split: if_splits)
    then show ?thesis by (simp add: later_def)
  next
    case False
    then have "later ?tm tm'" using "2.IH" [of f] "2.prems" f by (auto split: if_splits)
    with l show ?thesis by (rule later_trans)
  qed
qed

lemma FinishTxn_later:
  assumes r: "FinishTxn i tm = Inr tm'" and s: "tm_start_ts tm < - 1"
  shows "later tm tm'"
proof -
  obtain t where m: "tm_txn_map tm i = Some t" using r by (cases "tm_txn_map tm i") (simp_all add: FinishTxn_def txn_at_def)
  note t = txn_at_Some [OF m] m
  show ?thesis
  proof (cases "tx_type t")
    case kRead
    then show ?thesis using r t by (auto simp: FinishTxn_def later_def split: if_splits)
  next
    case kWrite
    let ?ts = "tm_start_ts tm + 1"
    define t' where "t' = (if tx_state t = kCommitting then t\<lparr>tx_state := kCommitted, tx_committed_ts := ?ts\<rparr>
        else if tx_state t = kRollbacking then t\<lparr>tx_state := kRollbacked\<rparr> else t)"
    have t': "tx_begin_ts t' = tx_begin_ts t" by (simp add: t'_def)
    have r': "(let tm = set_txn i t' (tm\<lparr>tm_start_ts := ?ts\<rparr>);
                  (beginned, least) = first_uncommitted tm (tm_beginned tm) (tx_commit_ts t' + 1)
              in pop_finished least (tm_finished tm @ [(?ts, i)]) (tm\<lparr>tm_beginned := beginned\<rparr>)) = Inr tm'"
      using r t(1) kWrite
      by (cases "tx_state t") (simp_all add: FinishTxn_def Let_def SetTxnCommitted_def SetTxnRollbacked_def t'_def)
    let ?tm1 = "set_txn i t' (tm\<lparr>tm_start_ts := ?ts\<rparr>)"
    obtain js least where js: "first_uncommitted ?tm1 (tm_beginned ?tm1) (tx_commit_ts t' + 1) = (js, least)" by fastforce
    have "tm_start_ts tm \<le> ?ts" using less_inc [OF s] by (rule less_imp_le)
    then have "later tm (?tm1\<lparr>tm_beginned := js\<rparr>)"
      using first_uncommitted_subset [OF js] t(2) t' by (auto simp: later_def)
    moreover have "later (?tm1\<lparr>tm_beginned := js\<rparr>) tm'"
      using r' js by (simp add: Let_def pop_finished_later)
    ultimately show ?thesis by (rule later_trans)
  qed (use r t(1) in \<open>simp add: FinishTxn_def\<close>)
qed

lemma SendToWAL_same:
  assumes "SendToWAL i tm = Inr tm'"
  shows "tm_txn_map tm' = tm_txn_map tm" "tm_beginned tm' = tm_beginned tm" "tm_start_ts tm' = tm_start_ts tm"
  using assms
  by (auto simp: SendToWAL_def Let_def res_bind_def split: if_splits sum.splits list.splits option.splits)

lemma send_later:
  assumes "res_bind (SendToWAL i tm) (move_txn i pc) = Inr tm'"
  shows "later tm tm'"
proof -
  obtain tm1 where s: "SendToWAL i tm = Inr tm1" and m: "move_txn i pc tm1 = Inr tm'"
    using assms by (cases "SendToWAL i tm") auto
  note same = SendToWAL_same [OF s]
  obtain t where "tm_txn_map tm1 i = Some t" "tm' = set_txn i (at_pc pc t) tm1"
    using m by (auto simp: move_txn_def txn_at_def split: option.splits)
  then show ?thesis using later_set_txn [OF later_fields [of tm1 tm], of i t "at_pc pc t"] same by simp
qed

lemma txn_action_later:
  assumes i: "tm_txn_map tm i = Some t" and r: "txn_action i tm = Inr tm'" and s: "tm_start_ts tm < - 1"
  shows "later tm tm'"
proof -
  note defs = txn_action_def txn_at_Some [OF i] SetTxnCommitting_def SetTxnCommitted_def SetTxnRollbacking_def
  note l = later_set_txn [OF later_refl i]
  show ?thesis
  proof (cases "tx_pc t")
    case Finishing
    then have "FinishTxn i (set_txn i (at_pc Finished t) tm) = Inr tm'" using r by (simp add: defs)
    from FinishTxn_later [OF this] s have "later (set_txn i (at_pc Finished t) tm) tm'" by simp
    with l [of "at_pc Finished t"] show ?thesis by (auto intro: later_trans)
  next
    case Prepared
    then show ?thesis using r by (cases "CheckConflict i tm") (auto simp: defs split: if_splits intro!: l)
  qed (use r in \<open>auto simp: defs later_refl split: if_splits intro!: l elim: send_later\<close>)
qed

lemma txn_step_later:
  assumes "txn_step tm tm'" and inv: "txn_inv tm"
  shows "tm_start_ts tm \<le> tm_start_ts tm'" and "j \<in> set (tm_beginned tm') \<Longrightarrow> tm_txn_map tm' j = Some u' \<Longrightarrow>
    tm_start_ts tm \<le> tx_begin_ts u' \<or> j \<in> set (tm_beginned tm) \<and> (\<exists>u. tm_txn_map tm j = Some u \<and> tx_begin_ts u = tx_begin_ts u')"
proof -
  have "later tm tm' \<or> tm_start_ts tm \<le> tm_start_ts tm' \<and>
      (\<forall>j u'. j \<in> set (tm_beginned tm') \<longrightarrow> tm_txn_map tm' j = Some u' \<longrightarrow>
        tm_start_ts tm \<le> tx_begin_ts u' \<or> j \<in> set (tm_beginned tm) \<and> tm_txn_map tm j = Some u')"
    using assms(1)
  proof cases
    case (begin_txn i)
    then have "tm_start_ts tm \<le> tm_start_ts tm + 1" using less_inc by (blast intro: less_imp_le)
    then show ?thesis
      using begin_txn(2) by (auto simp: BeginTxn_def Let_def Txn_new_def split: if_splits)
  next
    case (statement i t e st)
    then show ?thesis using later_set_txn [OF later_refl] by auto
  next
    case (commit i t)
    then have "tm_start_ts tm \<le> tm_start_ts tm + 1" using less_inc by (blast intro: less_imp_le)
    then show ?thesis using commit
      by (auto simp: Commit_begin_def GetCommitTimeStampR_def GetCommitTimeStampW_def move_txn_def txn_at_def Let_def later_def split: if_splits)
  next
    case (rollback i t)
    then have "tm_start_ts tm \<le> tm_start_ts tm + 1" using less_inc by (blast intro: less_imp_le)
    then show ?thesis using rollback
      by (auto simp: Rollback_begin_def GetCommitTimeStampR_def move_txn_def txn_at_def Let_def later_def split: if_splits)
  next
    case finish
    from finish(2) show ?thesis
    proof cases
      case (act i t)
      then show ?thesis using txn_action_later finish(1) by blast
    next
      case flush
      then show ?thesis by (auto simp: flush_next_def Let_def GetTxn_def later_def split: option.splits if_splits)
    qed
  next
    case (cleanup checkpointed_ts visible_ts)
    then show ?thesis using GetCleanupScanTS_spec(6) [OF cleanup inv] by (auto simp: later_def)
  qed
  then show "tm_start_ts tm \<le> tm_start_ts tm'" "j \<in> set (tm_beginned tm') \<Longrightarrow> tm_txn_map tm' j = Some u' \<Longrightarrow>
    tm_start_ts tm \<le> tx_begin_ts u' \<or> j \<in> set (tm_beginned tm) \<and> (\<exists>u. tm_txn_map tm j = Some u \<and> tx_begin_ts u = tx_begin_ts u')"
    by (fastforce simp: later_def)+
qed

section \<open>Runs\<close>

text \<open>A schedule, as a list of the steps the threads take.\<close>

definition res_option :: "'a res \<Rightarrow> 'a option" where
  "res_option r = (case r of Inl _ \<Rightarrow> None | Inr x \<Rightarrow> Some x)"

lemma res_option_Some: "res_option r = Some x \<longleftrightarrow> r = Inr x"
  by (simp add: res_option_def split: sum.split)

datatype txn_cmd = CBegin | CStatement u64 txn_store wal_entry | CCommit u64 | CRollback u64 | CAct u64 | CFlush

fun run_cmd :: "txn_cmd \<Rightarrow> txn_manager \<Rightarrow> txn_manager option" where
  "run_cmd CBegin tm = (if stamps_left tm then map_option snd (res_option (BeginTxn tm)) else None)"
| "run_cmd (CStatement i st e) tm =
     (case tm_txn_map tm i of
        Some t \<Rightarrow> if tx_pc t = Running then Some (set_txn i (t\<lparr>tx_store := st, tx_wal_entry := Some e\<rparr>) tm) else None
      | None \<Rightarrow> None)"
| "run_cmd (CCommit i) tm =
     (case tm_txn_map tm i of
        Some t \<Rightarrow> if stamps_left tm \<and> tx_pc t = Running then res_option (Commit_begin i tm) else None
      | None \<Rightarrow> None)"
| "run_cmd (CRollback i) tm =
     (case tm_txn_map tm i of
        Some t \<Rightarrow> if stamps_left tm \<and> tx_pc t = Running then res_option (Rollback_begin i tm) else None
      | None \<Rightarrow> None)"
| "run_cmd (CAct i) tm =
     (case tm_txn_map tm i of
        Some t \<Rightarrow> if stamps_left tm \<and> working (tx_pc t) then res_option (txn_action i tm) else None
      | None \<Rightarrow> None)"
| "run_cmd CFlush tm =
     (if stamps_left tm \<and> tm_flushed tm < length (tm_put tm) then res_option (flush_next tm) else None)"

fun run_cmds :: "txn_cmd list \<Rightarrow> txn_manager \<Rightarrow> txn_manager option" where
  "run_cmds [] tm = Some tm"
| "run_cmds (c # cs) tm = Option.bind (run_cmd c tm) (run_cmds cs)"

lemma run_cmd_step: "run_cmd c tm = Some tm' \<Longrightarrow> txn_step tm tm'"
  by (cases c) (auto simp: res_option_Some split: option.splits if_splits
    intro: txn_step.intros finish_step.intros)

lemma run_cmds_reachable: "run_cmds cs tm = Some tm' \<Longrightarrow> reachable tm \<Longrightarrow> reachable tm'"
proof (induction cs arbitrary: tm)
  case (Cons c cs)
  then obtain tm1 where s: "run_cmd c tm = Some tm1" "run_cmds cs tm1 = Some tm'" by (auto simp: bind_eq_Some_conv)
  have "reachable tm1"
    using Cons.prems(2) run_cmd_step [OF s(1)] unfolding reachable_def by (blast intro: rtranclp.rtrancl_into_rtrancl)
  with Cons.IH s(2) show ?case by blast
qed simp

lemma reachable_start: "reachable (TxnManager_start n s)"
  by (auto simp: reachable_def)

lemma stamps_numeral [simp]: "(numeral n :: u64) < - 1 \<longleftrightarrow> take_bit 64 (numeral n :: nat) < 2 ^ 64 - 1"
  "(0 :: u64) < - 1" "(1 :: u64) < - 1"
  by (simp_all add: word_less_nat_alt unsigned_minus_1_eq_mask mask_eq_exp_minus_1)

lemmas run_simps = TxnManager_start_def BeginTxn_def res_option_def Let_def Txn_new_def new_wal_entry_def
  set_txn_def Commit_begin_def txn_at_def GetCommitTimeStampW_def GetCommitTimeStampR_def move_txn_def at_pc_def working_def
  txn_action_def SetTxnCommitting_def SetTxnCommitted_def CheckConflict_def conflict_candidate_def SendToWAL_def map_set_def
  flush_next_def GetTxn_def FinishTxn_def

section \<open>A run\<close>

text \<open>
  Two writing transactions that overlap, and a third one that begins before the second has finished: first up to the
  place where the second waits for the log, then to the place where it is about to finish.
\<close>

definition sample_run :: "txn_cmd list" where
  "sample_run =
     (let e = new_wal_entry\<lparr>we_cmds := [WalCmdDropDatabase ''db'']\<rparr>
      in [CBegin, CBegin, CStatement 1 TxnStore_new e, CStatement 2 TxnStore_new e,
          CCommit 1, CAct 1, CAct 1, CAct 1, CFlush, CAct 1, CBegin, CCommit 2, CAct 2, CAct 2, CAct 2])"

definition sample_tm :: txn_manager where
  "sample_tm = the (run_cmds sample_run (TxnManager_start 0 0))"

definition sample_tm2 :: txn_manager where
  "sample_tm2 = the (run_cmds (sample_run @ [CFlush]) (TxnManager_start 0 0))"

lemmas sample_simps = run_simps sample_run_def TxnStore_new_def TxnStore_CheckConflict_def

lemma sample_reachable: "reachable sample_tm" "reachable sample_tm2"
proof -
  have "run_cmds sample_run (TxnManager_start 0 0) \<noteq> None" "run_cmds (sample_run @ [CFlush]) (TxnManager_start 0 0) \<noteq> None"
    by (simp_all add: sample_simps)
  then show "reachable sample_tm" "reachable sample_tm2"
    unfolding sample_tm_def sample_tm2_def using run_cmds_reachable [OF _ reachable_start] by (metis option.collapse)+
qed

lemma sample_tm_state:
  "tm_start_ts sample_tm = 6" "map we_commit_ts (tm_put sample_tm) = [3, 6]" "map we_txn_id (tm_put sample_tm) = [1, 2]"
  "tm_flushed sample_tm = 1" "dom (tm_txn_map sample_tm) = {1, 2, 3}"
  by (simp_all add: sample_tm_def sample_simps insert_commute)

lemma sample_tm2_state:
  "tm_start_ts sample_tm2 = 6" "\<exists>t. tm_txn_map sample_tm2 2 = Some t \<and> tx_pc t = Finishing \<and> tx_type t = kWrite"
  "\<exists>c. tm_txn_map sample_tm2 1 = Some c"
  "\<exists>tm' u. txn_action 2 sample_tm2 = Inr tm' \<and> tm_txn_map tm' 1 = None \<and> tm_txn_map tm' 3 = Some u \<and> tx_state u = kStarted"
  by (simp_all add: sample_tm2_def sample_simps)

section \<open>What the manager guarantees\<close>

text \<open>
  C6: In every reachable state of the transaction manager, whatever the interleaving of the threads, the entries handed
  to the log are in strictly increasing order of their commit time stamps, and every entry the log thread has not yet
  taken belongs to a transaction that is still known, is waiting for it, and has that commit time stamp.
\<close>

theorem log_in_commit_order:
  assumes "reachable tm"
  shows "sorted_wrt (<) (map we_commit_ts (tm_put tm))
    \<and> (\<forall>e \<in> set (drop (tm_flushed tm) (tm_put tm)).
           \<exists>t. tm_txn_map tm (we_txn_id e) = Some t \<and> tx_pc t = Sent \<and> tx_commit_ts t = we_commit_ts e)"
proof (rule conjI)
  note q = queue_preD [OF txn_invD(4) [OF reachable_inv [OF assms]]]
  show "sorted_wrt (<) (map we_commit_ts (tm_put tm))" using q(1) by (simp add: sorted_wrt_append)
  show "\<forall>e \<in> set (drop (tm_flushed tm) (tm_put tm)).
           \<exists>t. tm_txn_map tm (we_txn_id e) = Some t \<and> tx_pc t = Sent \<and> tx_commit_ts t = we_commit_ts e"
  proof
    fix e assume "e \<in> set (drop (tm_flushed tm) (tm_put tm))"
    then have "snt tm (we_txn_id e) = Some (we_commit_ts e)" by (intro q(7)) (simp add: queued_def)
    then show "\<exists>t. tm_txn_map tm (we_txn_id e) = Some t \<and> tx_pc t = Sent \<and> tx_commit_ts t = we_commit_ts e"
      by (auto simp: snt_def sent_ts_def bind_eq_Some_conv split: if_splits)
  qed
qed

theorem log_in_commit_order_witness:
  "reachable sample_tm \<and> map we_commit_ts (tm_put sample_tm) = [3, 6] \<and> sorted_wrt (<) (map we_commit_ts (tm_put sample_tm))
   \<and> (\<exists>t. tm_txn_map sample_tm 2 = Some t \<and> tx_pc t = Sent \<and> tx_commit_ts t = 6)"
proof -
  note s = sample_tm_state(2-4)
  obtain a b where ab: "tm_put sample_tm = [a, b]" "we_commit_ts b = 6" "we_txn_id b = 2"
    using s(1,2) by (auto simp: map_eq_Cons_conv)
  then have "b \<in> set (drop (tm_flushed sample_tm) (tm_put sample_tm))" using s(3) by simp
  then show ?thesis using log_in_commit_order [OF sample_reachable(1)] s(1) ab(2,3) sample_reachable(1) by metis
qed





text \<open>
  C8: \<^verbatim>\<open>FinishTxn\<close> forgets a transaction only when no unfinished transaction needs it any more for its conflict
  check: the transaction that is forgotten is not the one that finishes, and it is no candidate for any transaction that
  goes on.
\<close>

theorem forgotten_txn_not_needed:
  assumes "reachable tm" and "tm_start_ts tm < - 1"
    and "tm_txn_map tm i = Some t" "tx_pc t = Finishing" "tx_type t = kWrite" "txn_action i tm = Inr tm'"
    and "tm_txn_map tm k = Some c" "tm_txn_map tm' k = None"
    and "tm_txn_map tm' j = Some u" "\<not> txn_done u"
  shows "k \<noteq> i \<and> \<not> conflict_candidate u c"
proof -
  note inv = reachable_inv [OF assms(1)]
  note f = finish_invD [OF txn_invD(5) [OF inv]]
  obtain tm1 least where r: "FinishTxn i (set_txn i (at_pc Finished t) tm) = Inr tm1"
    and m: "\<And>k u. tm_txn_map tm1 k = Some u \<Longrightarrow> if k = i then tx_pc u = Finished else tm_txn_map tm k = Some u"
    and g: "\<And>k. tm_txn_map tm k \<noteq> None \<Longrightarrow> tm_txn_map tm1 k = None \<Longrightarrow>
        \<exists>ts \<le> least. (ts, k) \<in> set (tm_finished tm @ [(tm_start_ts tm + 1, i)])"
    and l: "\<And>k u. tm_txn_map tm1 k = Some u \<Longrightarrow> \<not> txn_done u \<Longrightarrow> least \<le> tx_begin_ts u" and v: "txn_inv tm1"
    by (rule FinishTxn_write [OF inv assms(2-5)]) blast
  have tm1: "tm' = tm1" using r assms(3,4,6) by (simp add: txn_action_def txn_at_Some)
  have "j \<noteq> i"
    using m assms(9,10) txn_invD(2) [OF v, of j u] by (auto simp: tm1 pc_ok_def)
  then have "tm_txn_map tm j = Some u" using m [of j u] assms(9) by (simp add: tm1)
  then have lb: "least \<le> tm_start_ts tm" using l [of j u] f(7) [of j u] assms(9,10) unfolding tm1 by (blast intro: order_trans)
  obtain ts where ts: "ts \<le> least" "(ts, k) \<in> set (tm_finished tm @ [(tm_start_ts tm + 1, i)])"
    using g [of k] assms(7,8) unfolding tm1 by blast
  have "(ts, k) \<noteq> (tm_start_ts tm + 1, i)" using ts(1) lb less_inc [OF assms(2)] by auto
  then have k: "(ts, k) \<in> set (tm_finished tm)" using ts(2) by auto
  from f(4) [OF k] assms(7) have c: "tx_pc c = Finished" "tx_state c = kCommitted \<longrightarrow> tx_committed_ts c = ts" by auto
  have "txn_done c" using txn_invD(2) [OF inv assms(7)] c(1) by (simp add: pc_ok_def)
  moreover have "ts \<le> tx_begin_ts u" using ts(1) l [of j u] assms(9,10) unfolding tm1 by (blast intro: order_trans)
  ultimately show ?thesis
    using c assms(3,4,7) by (auto simp: conflict_candidate_def txn_done_def)
qed

theorem forgotten_txn_not_needed_witness:
  "\<exists>tm' c u. reachable sample_tm2 \<and> tm_txn_map sample_tm2 1 = Some c \<and> txn_action 2 sample_tm2 = Inr tm' \<and> tm_txn_map tm' 1 = None
     \<and> tm_txn_map tm' 3 = Some u \<and> \<not> txn_done u \<and> \<not> conflict_candidate u c"
proof -
  note s = sample_tm2_state and r = sample_reachable(2)
  obtain t where t: "tm_txn_map sample_tm2 2 = Some t" "tx_pc t = Finishing" "tx_type t = kWrite" using s(2) by blast
  obtain c where c: "tm_txn_map sample_tm2 1 = Some c" using s(3) by blast
  obtain tm' u where u: "txn_action 2 sample_tm2 = Inr tm'" "tm_txn_map tm' 1 = None" "tm_txn_map tm' 3 = Some u" "tx_state u = kStarted"
    using s(4) by blast
  have "\<not> txn_done u" using u(4) by (simp add: txn_done_def)
  moreover from forgotten_txn_not_needed [OF r _ t u(1) c u(2,3) this] have "\<not> conflict_candidate u c" by (simp add: s(1))
  ultimately show ?thesis using r c u(1-3) by blast
qed

text \<open>
  C12: The conflict check of a committing transaction finds every writing transaction that has changed the same things and
  either has committed since it began, or is committing with a smaller time stamp: the commit is given up, its entry is
  dropped and never reaches the log.
\<close>

theorem conflict_detected:
  assumes "reachable tm" and "tm_txn_map tm i = Some t" "tx_pc t = Prepared" and "tm_txn_map tm j = Some u" "tx_type u = kWrite"
    and "tx_state u = kCommitted \<and> tx_begin_ts t < tx_committed_ts u \<or> tx_state u = kCommitting \<and> tx_commit_ts u < tx_commit_ts t"
    and "TxnStore_CheckConflict (tx_store t) (tx_store u)"
  shows "txn_action i tm = Inr (set_txn i (t\<lparr>tx_wal_entry := None, tx_pc := Conflicted\<rparr>) tm)"
proof -
  note f = finish_invD [OF txn_invD(5) [OF reachable_inv [OF assms(1)]]]
  have j: "j \<in> set (tm_finishing tm)" using f(2) assms(4,5) by blast
  have "\<forall>k \<in> set (tm_finishing tm). tm_txn_map tm k \<noteq> None" using f(2) by auto
  from candidate_txns_ok [OF this, of t] obtain cs where cs: "candidate_txns tm t (tm_finishing tm) = Inr cs" ..
  have "conflict_candidate t u" using assms(6) by (auto simp: conflict_candidate_def)
  from candidate_txns_complete [OF cs j assms(4) this] have "u \<in> set cs" .
  then have "list_ex (\<lambda>c. TxnStore_CheckConflict (tx_store t) (tx_store c)) cs" using assms(7) by (auto simp: list_ex_iff)
  then have "CheckConflict i tm = Inr True" using cs by (simp add: CheckConflict_def txn_at_Some [OF assms(2)])
  then show ?thesis using assms(3) by (simp add: txn_action_def txn_at_Some [OF assms(2)] at_pc_def)
qed

theorem conflict_detected_witness:
  "\<exists>tm t. reachable tm \<and> tm_txn_map tm 2 = Some t \<and> txn_action 2 tm = Inr (set_txn 2 (t\<lparr>tx_wal_entry := None, tx_pc := Conflicted\<rparr>) tm)"
proof -
  let ?e = "new_wal_entry\<lparr>we_cmds := [WalCmdDropDatabase ''db'']\<rparr>"
    and ?st = "TxnStore_new\<lparr>st_txn_tables_store := [(''t'', TxnTableStore_new\<lparr>ts_rows := [(0, [(0, [3])])]\<rparr>)]\<rparr>"
  let ?cs = "[CBegin, CBegin, CStatement 1 ?st ?e, CStatement 2 ?st ?e, CCommit 1, CAct 1, CCommit 2, CAct 2]"
  have "\<exists>tm t u. run_cmds ?cs (TxnManager_start 0 0) = Some tm \<and> tm_txn_map tm 2 = Some t \<and> tx_pc t = Prepared
     \<and> tm_txn_map tm 1 = Some u \<and> tx_type u = kWrite \<and> tx_state u = kCommitting \<and> tx_commit_ts u < tx_commit_ts t
     \<and> tx_store t = ?st \<and> tx_store u = ?st"
    by (simp add: run_simps)
  then obtain tm t u where r: "run_cmds ?cs (TxnManager_start 0 0) = Some tm"
    and t: "tm_txn_map tm 2 = Some t" "tx_pc t = Prepared" and u: "tm_txn_map tm 1 = Some u" "tx_type u = kWrite"
    and c: "tx_state u = kCommitting" "tx_commit_ts u < tx_commit_ts t" "tx_store t = ?st" "tx_store u = ?st"
    by (elim exE conjE)
  have "TxnStore_CheckConflict ?st ?st"
    by (simp add: TxnStore_CheckConflict_def TxnTableStore_CheckConflict_def TxnStore_new_def TxnTableStore_new_def)
  then have "TxnStore_CheckConflict (tx_store t) (tx_store u)" by (simp only: c(3,4))
  moreover from r have rt: "reachable tm" by (rule run_cmds_reachable [OF _ reachable_start])
  ultimately have "txn_action 2 tm = Inr (set_txn 2 (t\<lparr>tx_wal_entry := None, tx_pc := Conflicted\<rparr>) tm)"
    by (intro conflict_detected [OF _ t u]) (simp_all add: c)
  with rt t(1) show ?thesis by blast
qed


text \<open>
  C14: The time stamp up to which the cleanup removes old versions is safe: no unfinished transaction began before it, it
  is not beyond the last checkpoint, and, whatever the threads do between two scans, it never decreases, so the cleanup
  never stops with \<^verbatim>\<open>The visible timestamp is not monotonic\<close>.
\<close>

theorem cleanup_scan_safe:
  assumes "reachable tm" and "GetCleanupScanTS checkpointed_ts tm = (visible_ts, tm1)"
  shows "visible_ts \<le> checkpointed_ts
    \<and> (\<forall>i t. tm_txn_map tm i = Some t \<longrightarrow> \<not> txn_done t \<longrightarrow> visible_ts \<le> tx_begin_ts t)
    \<and> (\<forall>tm' checkpointed_ts' visible_ts' tm2. txn_step\<^sup>*\<^sup>* tm1 tm' \<longrightarrow> checkpointed_ts \<le> checkpointed_ts' \<longrightarrow>
         GetCleanupScanTS checkpointed_ts' tm' = (visible_ts', tm2) \<longrightarrow> visible_ts \<le> visible_ts')"
proof (intro conjI allI impI)
  note inv = reachable_inv [OF assms(1)]
  note spec = GetCleanupScanTS_spec [OF assms(2) inv]
  show "visible_ts \<le> checkpointed_ts" by (rule spec(2))
  show "visible_ts \<le> tx_begin_ts t" if "tm_txn_map tm i = Some t" "\<not> txn_done t" for i t
    using spec(4) finish_invD(9) [OF txn_invD(5) [OF inv]] that by blast
  fix tm' checkpointed_ts' visible_ts' tm2
  assume steps: "txn_step\<^sup>*\<^sup>* tm1 tm'" and le: "checkpointed_ts \<le> checkpointed_ts'"
    and r: "GetCleanupScanTS checkpointed_ts' tm' = (visible_ts', tm2)"
  have start: "visible_ts \<le> tm_start_ts tm1" and begins: "\<And>j t. j \<in> set (tm_beginned tm1) \<Longrightarrow> tm_txn_map tm1 j = Some t \<Longrightarrow> visible_ts \<le> tx_begin_ts t"
    using spec(3,4,6) by auto
  from steps have "txn_inv tm' \<and> visible_ts \<le> tm_start_ts tm'
      \<and> (\<forall>j t. j \<in> set (tm_beginned tm') \<longrightarrow> tm_txn_map tm' j = Some t \<longrightarrow> visible_ts \<le> tx_begin_ts t)"
  proof (induction rule: rtranclp_induct)
    case base
    then show ?case using spec(1) start begins by blast
  next
    case (step y z)
    then have y: "txn_inv y" "visible_ts \<le> tm_start_ts y"
      and b: "\<And>j t. j \<in> set (tm_beginned y) \<Longrightarrow> tm_txn_map y j = Some t \<Longrightarrow> visible_ts \<le> tx_begin_ts t" by auto
    note l = txn_step_later [OF step.hyps(2) y(1)]
    have "visible_ts \<le> tx_begin_ts t" if "j \<in> set (tm_beginned z)" "tm_txn_map z j = Some t" for j t
      using l(2) [OF that] b [of j] y(2) by (auto intro: order_trans)
    then show ?case using txn_step_inv [OF step.hyps(2) y(1)] l(1) y(2) by (blast intro: order_trans)
  qed
  then have t': "txn_inv tm'" "visible_ts \<le> tm_start_ts tm'"
    and b: "\<And>j t. j \<in> set (tm_beginned tm') \<Longrightarrow> tm_txn_map tm' j = Some t \<Longrightarrow> visible_ts \<le> tx_begin_ts t" by auto
  show "visible_ts \<le> visible_ts'"
    by (rule GetCleanupScanTS_spec(5) [OF r t'(1) order_trans [OF spec(2) le] t'(2) b])
qed

theorem cleanup_scan_safe_witness:
  "\<exists>tm1 t. reachable sample_tm \<and> GetCleanupScanTS 100 sample_tm = (2, tm1) \<and> tm_txn_map sample_tm 3 = Some t \<and> 2 \<le> tx_begin_ts t"
proof -
  have "\<exists>tm1 t. GetCleanupScanTS 100 sample_tm = (2, tm1) \<and> tm_txn_map sample_tm 3 = Some t \<and> tx_state t = kStarted"
    by (simp add: sample_tm_def sample_simps GetCleanupScanTS_def)
  then obtain tm1 t where r: "GetCleanupScanTS 100 sample_tm = (2, tm1)" and t: "tm_txn_map sample_tm 3 = Some t" "tx_state t = kStarted"
    by blast
  from t(2) have "\<not> txn_done t" by (simp add: txn_done_def)
  then have "2 \<le> tx_begin_ts t" using cleanup_scan_safe [OF sample_reachable(1) r] t(1) by blast
  with r t(1) sample_reachable(1) show ?thesis by blast
qed

end
