(* ===== verification/Spec2Isabelle.thy ===== *)
theory Spec2Isabelle
  imports Table_Def Index_Def Date_Time Crc Column_Data Catalog_Delta Txn_Manager
begin

text \<open>
  A verification library for the storage engine of Infinity, a database server written in C++ whose sources are under
  \<^verbatim>\<open>src/src/\<close>; paths below are relative to that directory.

  \<^bold>\<open>The program.\<close>  A statement runs in a transaction.  The transaction collects its changes, asks its manager for a
  commit time stamp, is checked against the transactions that committed since it began, and hands an entry with its
  commands to the manager of the write-ahead log.  A thread of the log manager appends the entries to the log file, makes
  a new log file when the old one is large enough, and asks for checkpoints, which write the catalog to a file, append an
  entry to the log and recycle the files no longer needed.  When the server starts, it reads the log files from the newest
  entry backwards, cuts off a torn end, finds the latest checkpoint and replays the entries the checkpoint does not cover.
  An entry holds serialised commands, and these hold table and index definitions, data types, literals and blocks of
  column data.  The library models this path, from the bytes of a plain value to recovery after a crash.

  \<^bold>\<open>Conventions.\<close>  Machine integers are words (\<open>u64\<close>, \<open>i32\<close>, ...) where their width matters for bytes or wrap-around;
  in the code for dates they are \<open>int\<close> with the range checks written out.  A failing operation yields \<open>Inl\<close> with the
  exception, \<open>UndefinedBehaviour\<close> where the C++ code reads beyond a buffer, overflows a signed integer or uses a dangling
  pointer.  A struct is a record whose fields carry a short prefix; an operation of a class is a definition with the name
  of the method, and the class in front of it where two classes share the name.  Definitions without a counterpart in the
  code (\<open>valid_\<close> predicates, invariants, reference functions) are only used in statements.

  \<^bold>\<open>Theories.\<close>
  \<^item> \<open>Infinity_Prelude\<close>: machine words, errors, and the readers and writers that model code with a
    \<^verbatim>\<open>char *&\<close> cursor; the interface \<open>sized_codec\<close> of a type that is written,
    sized and read back.
  \<^item> \<open>Serialize\<close>: \<^verbatim>\<open>parser/type/serialize.h\<close>: plain values in little-endian
    order and strings.
  \<^item> \<open>Text_Format\<close>: the parts of the C++ library that print and parse numbers.
  \<^item> \<open>Json\<close>: the JSON values the catalog code uses.
  \<^item> \<open>Logical_Type, Data_Type\<close>: \<^verbatim>\<open>parser/type/logical_type.cpp\<close>,
    \<^verbatim>\<open>data_type.cpp\<close> and \<^verbatim>\<open>info/\<close>: types, their names, sizes,
    comparison, binary and JSON forms, with both round trips.
  \<^item> \<open>Date_Type, Date_Time\<close>: \<^verbatim>\<open>parser/type/datetime/\<close>: the table-driven
    calendar agrees with the Gregorian one, conversions, arithmetic and texts are inverse or exact within the ranges
    stated.
  \<^item> \<open>Constant_Expr, Table_Def, Index_Def\<close>:
    \<^verbatim>\<open>parser/expr/constant_expr.cpp\<close>,
    \<^verbatim>\<open>parser/definition/column_def.cpp\<close>, \<^verbatim>\<open>storage/definition/\<close>:
    literals, columns, tables and indexes with their binary forms.
  \<^item> \<open>Crc\<close>: \<^verbatim>\<open>common/utility/crc.cppm\<close>: the table-driven checksum equals
    the bitwise division and detects bursts.
  \<^item> \<open>Bitmask, Fix_Heap, Column_Data\<close>: \<^verbatim>\<open>storage/column_vector/\<close> and
    \<^verbatim>\<open>storage/data_block.cpp\<close>: null masks row by row, also with shared buffers, the chunked
    heap with every stored item, and data blocks with their binary form.
  \<^item> \<open>Wal_Entry\<close>: \<^verbatim>\<open>storage/wal/wal_entry.cpp\<close>: the commands of the log and
    the framed entries; entries are read back and corruption is detected.
  \<^item> \<open>Wal_Replay\<close>: the iterators of \<^verbatim>\<open>wal_entry.cpp\<close> and the selection of
    \<^verbatim>\<open>WalManager::ReplayWalFile\<close>: exactly the entries behind the latest checkpoint are
    replayed.
  \<^item> \<open>Log_File\<close>: \<^verbatim>\<open>storage/wal/log_file.cpp\<close>: names of catalog and log
    files, the files recovery loads and the files a checkpoint recycles.
  \<^item> \<open>Wal_Manager\<close>: \<^verbatim>\<open>storage/wal/wal_manager.cpp\<close>: the rounds of the log
    thread, checkpoints, and recovery from the files they leave.
  \<^item> \<open>Catalog_Delta_Op, Catalog_Delta\<close>:
    \<^verbatim>\<open>storage/wal/catalog_delta_entry.cpp\<close> and the delta files of
    \<^verbatim>\<open>storage/meta/catalog.cpp\<close>: the operations with which a transaction changed the catalog,
    their paths and binary form; their merging, which refines the operations applied one by one and does not depend on
    the order of arrival; and the delta files, which are read back as written.
  \<^item> \<open>Txn_Store, Txn_Manager\<close>: \<^verbatim>\<open>storage/txn/\<close>: what a transaction changed,
    conflicts, and the interleaved threads that begin, commit and finish transactions as a step relation with its
    invariants.

  \<^bold>\<open>Bounds.\<close>  Loops over bytes of unknown contents recurse on what is left of the buffer, on the number of entries a
  directory or a file still has, or on a bound: the reader of nested literals takes the number of bytes left, and
  it is proved that a larger bound never changes its result.  The iterators over log files terminate
  because each step consumes bytes of the files (\<open>Next_left\<close>, \<open>next_entry_left\<close>).  The finishing of transactions takes at
  most five steps for each.

  \<^bold>\<open>Not modelled.\<close>
  \<^item> The catalog (\<^verbatim>\<open>storage/meta/\<close>) and the effect of replayed entries on it: its
    entries share pointers, buffers, files and locks.  The file system is a map from paths to contents, so a crash in
    the middle of a write is a torn end of the file that is written.
  \<^item> Indexes, column functions, filters over floating-point values and the analyzers: they compute in floating
    point or with vector instructions, which HOL-Library has no model for.
  \<^item> The parser, planner, executor, scheduler, network and client code, which do not take part in the path from
    a commit to recovery.  Parser and protocol code is in part generated.
  \<^item> The code of operating system, standard library and third-party packages; what the modelled code relies on
    of them is a definition of the language's own library or a parameter with the assumption stated in the theorem.
\<close>

section \<open>From commit to recovery\<close>

text \<open>The entries arrive at the log manager in batches, and the log thread runs a round after each.\<close>

fun flush_batches :: "wal_entry list list \<Rightarrow> wal_manager \<Rightarrow> wal_manager res" where
  "flush_batches [] wm = Inr wm"
| "flush_batches (batch # batches) wm = res_bind (Flush_round (PutEntries batch wm)) (\<lambda>(_, _, wm). flush_batches batches wm)"

lemma flush_batches_run:
  assumes "wal_run ls wm hist recycled" and "lists_files ls" and "wm_wait_flush wm = []" and "list_all good_entry (concat batches)"
    and "sorted_wrt (<) (map we_commit_ts (hist @ concat batches))"
  shows "\<exists>wm'. flush_batches batches wm = Inr wm' \<and> wal_run ls wm' (hist @ filter nonempty (concat batches)) recycled
    \<and> wm_wait_flush wm' = [] \<and> wm_wal_dir wm' = wm_wal_dir wm"
  using assms
proof (induction batches arbitrary: wm hist)
  case (Cons batch batches)
  have put: "wal_run ls (PutEntries batch wm) hist recycled"
    by (rule wal_run.put [OF Cons.prems(1)]) (use Cons.prems in \<open>simp_all add: sorted_wrt_append\<close>)
  have "wm_running wm" using wal_run_inv [OF Cons.prems(1,2)] by (auto simp: wal_inv_def)
  then have q: "wm_wait_flush (PutEntries batch wm) = map Some batch" "wm_wal_dir (PutEntries batch wm) = wm_wal_dir wm"
    using Cons.prems(3) by (simp_all add: PutEntries_def)
  obtain queue submitted wm1 where w: "wm_wait_flush (PutEntries batch wm) = map Some queue"
    "Flush_round (PutEntries batch wm) = Inr (queue, submitted, wm1)" "wm_wait_flush wm1 = []"
    "wm_wal_dir wm1 = wm_wal_dir (PutEntries batch wm)"
    by (rule Flush_round_log [OF wal_run_inv [OF put Cons.prems(2)]])
  then have "queue = batch" using q(1) by (simp add: inj_map_eq_map)
  then have r1: "wal_run ls wm1 (hist @ filter nonempty batch) recycled" using wal_run.flush [OF put w(2)] by simp
  have "sorted_wrt (<) (map we_commit_ts (hist @ filter nonempty batch @ concat batches))"
    using Cons.prems(5) by (auto simp: sorted_wrt_append sorted_wrt_map intro: sorted_wrt_filter) blast
  then have "\<exists>wm'. flush_batches batches wm1 = Inr wm' \<and> wal_run ls wm' ((hist @ filter nonempty batch) @ filter nonempty (concat batches)) recycled
    \<and> wm_wait_flush wm' = [] \<and> wm_wal_dir wm' = wm_wal_dir wm1"
    by (intro Cons.IH [OF r1 Cons.prems(2) w(3)]) (use Cons.prems(4) in simp_all)
  then show ?case using w(2,4) q(2) by auto
qed auto

text \<open>
  C1: From commit to recovery.  Transactions begin, commit and roll back in any interleaving; the entries they hand to the
  log, in batches of any size, are written by the rounds of the log thread, which never fail, starting with an empty log.
  When the server then stops without further notice, recovery succeeds, and what it replays on top of the catalog of the
  last checkpoint \<open>c\<close> is, in commit order, exactly the entries with changes of all transactions that committed after the
  time stamp of the checkpoint.
\<close>

theorem commits_recovered:
  assumes "reachable tm" and "concat batches = tm_put tm" and "list_all good_entry (tm_put tm)" and "lists_files ls"
    and "wal_log wal_dir (open_app (wal_path wal_dir) fs) [] []" and "catalog_dir \<noteq> wal_dir"
    and "filter nonempty (tm_put tm) = as @ c # bs" and "checkpoint_of c = Some (WalCmdCheckpoint ts is_full path)"
    and "\<forall>b \<in> set bs. no_checkpoint b" and "scast ts < we_commit_ts c" and "full_ts \<le> scast ts" and "unat full_ts < 2 ^ 63"
  shows "\<exists>wm. flush_batches batches (WalManager_Start (WalManager_new wal_dir catalog_dir threshold interval fs)) = Inr wm
    \<and> ((\<forall>bs \<in> ran (wm_files wm). length bs < 2 ^ 63) \<longrightarrow> wm_files wm (parent_path path @ ''/'' @ FullCheckpoingFilename full_ts) \<noteq> None \<longrightarrow>
         (\<exists>rec fs'. ReplayWalFile ls wal_dir (wm_files wm) = Inr (Some rec, fs')
            \<and> rc_entries rec = map lentry (filter (\<lambda>e. nonempty e \<and> scast ts < we_commit_ts e \<and> e \<noteq> c) (tm_put tm))))"
proof -
  let ?gt = "\<lambda>e. scast ts < we_commit_ts e"
  let ?wm0 = "WalManager_Start (WalManager_new wal_dir catalog_dir threshold interval fs)"
  have s: "sorted_wrt (<) (map we_commit_ts (tm_put tm))"
    using queue_preD(1) [OF txn_invD(4) [OF reachable_inv [OF assms(1)]]] by (simp add: sorted_wrt_append)
  then have "sorted_wrt (<) (map we_commit_ts (filter nonempty (tm_put tm)))"
    by (auto simp: sorted_wrt_map intro: sorted_wrt_filter)
  then have "\<forall>e \<in> set as. we_commit_ts e < we_commit_ts c" "\<forall>e \<in> set bs. we_commit_ts c < we_commit_ts e"
    unfolding assms(7) by (auto simp: sorted_wrt_append)
  then have "filter (\<lambda>e. ?gt e \<and> e \<noteq> c) as = filter ?gt as" "filter (\<lambda>e. ?gt e \<and> e \<noteq> c) bs = bs"
    using assms(10) by (auto simp: filter_id_conv intro!: filter_cong)
  then have e: "filter ?gt as @ bs = filter (\<lambda>e. ?gt e \<and> e \<noteq> c) (filter nonempty (tm_put tm))"
    unfolding assms(7) by simp
  also have "\<dots> = filter (\<lambda>e. nonempty e \<and> ?gt e \<and> e \<noteq> c) (tm_put tm)" by (simp add: conj_commute)
  finally have f: "filter ?gt as @ bs = filter (\<lambda>e. nonempty e \<and> ?gt e \<and> e \<noteq> c) (tm_put tm)" .
  have "(WalManager_new wal_dir catalog_dir threshold interval fs)\<lparr>wm_max_commit_ts := 0\<rparr> = WalManager_new wal_dir catalog_dir threshold interval fs"
    by (simp add: WalManager_new_def)
  then have run0: "wal_run ls ?wm0 [] 0"
    using wal_run.start [OF assms(5,6), of 0 ls threshold interval] by simp
  have w0: "wm_wait_flush ?wm0 = []" "wm_wal_dir ?wm0 = wal_dir" by (simp_all add: WalManager_Start_def WalManager_new_def)
  obtain wm where wm: "flush_batches batches ?wm0 = Inr wm" "wal_run ls wm (filter nonempty (tm_put tm)) 0"
    "wm_wait_flush wm = []" "wm_wal_dir wm = wal_dir"
    using flush_batches_run [OF run0 assms(4) w0(1), of batches] assms(2,3) s w0(2) by auto
  have "wal_inv wm (filter nonempty (tm_put tm)) 0" by (rule wal_run_inv [OF wm(2) assms(4)])
  then have "wm_files wm (wal_path wal_dir) \<noteq> None" using wm(4) by (auto elim!: wal_invE dest: wal_logD(2))
  then have fs: "wm_files wm = append_file (wal_path (wm_wal_dir wm)) (file_of [] @ []) (wm_files wm)"
    using wm(4) by (auto simp: append_file_def file_of_def fun_upd_idem)
  have "\<exists>rec fs'. ReplayWalFile ls wal_dir (wm_files wm) = Inr (Some rec, fs') \<and> rc_entries rec = map lentry (filter ?gt as @ bs)"
    if "\<forall>bs \<in> ran (wm_files wm). length bs < 2 ^ 63" "wm_files wm (parent_path path @ ''/'' @ FullCheckpoingFilename full_ts) \<noteq> None"
    using crash_replay [OF wm(2) assms(4) _ disjI1 [OF refl] fs that(1) _ assms(8,9) _ assms(10) that(2) assms(11,12), of "[]"]
      assms(7) wm(3,4) by auto
  then show ?thesis using wm(1) unfolding f by blast
qed

text \<open>A run with a checkpoint and a later change, and what a round of the log thread makes of it.\<close>

definition ckp_run :: "txn_cmd list" where
  "ckp_run =
     [CBegin, CBegin, CStatement 1 TxnStore_new (new_wal_entry\<lparr>we_cmds := [WalCmdCheckpoint 5 True sample_catalog]\<rparr>),
      CStatement 2 TxnStore_new (new_wal_entry\<lparr>we_cmds := [WalCmdDropDatabase ''db'']\<rparr>),
      CCommit 1, CAct 1, CAct 1, CAct 1, CFlush, CAct 1, CCommit 2, CAct 2, CAct 2, CAct 2]"

definition ckp_tm :: txn_manager where
  "ckp_tm = the (run_cmds ckp_run (TxnManager_start 0 5))"

definition ckp_entry :: wal_entry where
  "ckp_entry = \<lparr>we_size = 0, we_checksum = 0, we_txn_id = 1, we_commit_ts = 8, we_cmds = [WalCmdCheckpoint 5 True sample_catalog]\<rparr>"

definition drop_entry :: wal_entry where
  "drop_entry = \<lparr>we_size = 0, we_checksum = 0, we_txn_id = 2, we_commit_ts = 10, we_cmds = [WalCmdDropDatabase ''db'']\<rparr>"

lemma ckp_tm_state: "reachable ckp_tm" "tm_put ckp_tm = [ckp_entry, drop_entry]"
proof -
  have "run_cmds ckp_run (TxnManager_start 0 5) \<noteq> None" by (simp add: run_simps ckp_run_def TxnStore_new_def TxnStore_CheckConflict_def)
  then show "reachable ckp_tm"
    unfolding ckp_tm_def using run_cmds_reachable [OF _ reachable_start] by (metis option.collapse)
  show "tm_put ckp_tm = [ckp_entry, drop_entry]"
    by (simp add: ckp_tm_def run_simps ckp_run_def TxnStore_new_def TxnStore_CheckConflict_def ckp_entry_def drop_entry_def)
qed

lemma ckp_good: "list_all good_entry [ckp_entry, drop_entry]"
  using sample_catalog_length
  by (simp add: good_entry_def valid_wal_entry_def ckp_entry_def drop_entry_def valid_string_def WriteBufAdv_type_def)

definition ckp_start :: wal_manager where
  "ckp_start = WalManager_Start (WalManager_new ''w'' ''c'' (2 ^ 40) 100000 [sample_catalog \<mapsto> []])"

lemma ckp_flushed:
  obtains wm where "flush_batches [[ckp_entry, drop_entry]] ckp_start = Inr wm"
    "wm_files wm = [sample_catalog \<mapsto> [], wal_path ''w'' \<mapsto> file_of [ckp_entry, drop_entry]]"
proof -
  let ?es = "[ckp_entry, drop_entry]" and ?fs = "[sample_catalog \<mapsto> [], wal_path ''w'' \<mapsto> []]"
  have n: "sample_catalog \<noteq> wal_path ''w''" unfolding sample_catalog_def by (rule full_not_wal)
  have v: "list_all valid_wal_entry ?es" using ckp_good by (simp add: good_entry_def)
  have s: "wm_files ckp_start = ?fs" "wm_wal_dir ckp_start = ''w''" "wm_running ckp_start" "wm_wait_flush ckp_start = []"
    "wm_cfg_wal_size_threshold ckp_start = 2 ^ 40"
    using n by (auto simp: ckp_start_def WalManager_Start_def WalManager_new_def open_app_def)
  define wm0 where "wm0 = ckp_start\<lparr>wm_wait_flush := map Some ?es\<rparr>"
  have p: "PutEntries ?es ckp_start = wm0" using s by (simp add: PutEntries_def wm0_def)
  have ne: "filter nonempty ?es = ?es" by (simp add: ckp_entry_def drop_entry_def)
  obtain k where w: "Flush_write (map Some ?es) (wm0\<lparr>wm_wait_flush := []\<rparr>) = Inr (wm0\<lparr>wm_wait_flush := [],
      wm_files := [sample_catalog \<mapsto> [], wal_path ''w'' \<mapsto> file_of ?es],
      wm_max_commit_ts := fold (\<lambda>e _. we_commit_ts e) ?es (wm_max_commit_ts wm0), wm_wal_size := k\<rparr>)" (is "_ = Inr ?wm1")
    using Flush_write_log [OF v, of "wm0\<lparr>wm_wait_flush := []\<rparr>" "[]"] s unfolding ne by (auto simp: wm0_def)
  have "length (file_of ?es) < 2 ^ 40"
    using v length_wbytes [of ckp_entry] length_wbytes [of drop_entry] by (simp add: file_of_def)
  then have "\<not> word_of_nat (length (file_of ?es)) > (2 ^ 40 :: u64)"
    by (simp add: word_less_nat_alt unat_of_nat take_bit_eq_mod)
  then have sw: "Flush_swap ?wm1 = Inr ?wm1" using s by (simp add: Flush_swap_def wm0_def)
  obtain submitted b where c: "Flush_checkpoint ?wm1 = (submitted, ?wm1\<lparr>wm_checkpoint_in_progress := b\<rparr>)"
    by (rule Flush_checkpoint_log)
  have "Flush_round wm0 = Inr (?es, submitted, ?wm1\<lparr>wm_checkpoint_in_progress := b\<rparr>)"
    using w sw c s by (simp add: Flush_round_def wm0_def)
  then have "flush_batches [?es] ckp_start = Inr (?wm1\<lparr>wm_checkpoint_in_progress := b\<rparr>)" by (simp add: p)
  then show ?thesis by (rule that) simp
qed

theorem commits_recovered_witness:
  "\<exists>wm rec fs'. flush_batches [tm_put ckp_tm] ckp_start = Inr wm
     \<and> ReplayWalFile sorted_lister ''w'' (wm_files wm) = Inr (Some rec, fs') \<and> rc_entries rec = [lentry drop_entry]"
proof -
  have n: "sample_catalog \<noteq> wal_path ''w''" unfolding sample_catalog_def by (rule full_not_wal)
  obtain wm where wm: "flush_batches [[ckp_entry, drop_entry]] ckp_start = Inr wm"
    "wm_files wm = [sample_catalog \<mapsto> [], wal_path ''w'' \<mapsto> file_of [ckp_entry, drop_entry]]"
    by (rule ckp_flushed)
  have v: "valid_wal_entry ckp_entry" "valid_wal_entry drop_entry" using ckp_good by (simp_all add: good_entry_def)
  have size: "\<forall>bs \<in> ran (wm_files wm). length bs < 2 ^ 63"
    using length_wbytes [OF v(1)] length_wbytes [OF v(2)] by (auto simp: wm(2) ran_def file_of_def split: if_splits)
  have cat: "wm_files wm (parent_path sample_catalog @ ''/'' @ FullCheckpoingFilename 5) \<noteq> None"
    using n by (simp add: wm(2) sample_catalog_parent) (simp add: sample_catalog_def)
  have ne: "filter nonempty (tm_put ckp_tm) = [] @ ckp_entry # [drop_entry]"
    by (simp add: ckp_tm_state ckp_entry_def drop_entry_def)
  have ck: "checkpoint_of ckp_entry = Some (WalCmdCheckpoint 5 True sample_catalog)" "no_checkpoint drop_entry"
    by (simp_all add: checkpoint_of_def ckp_entry_def IsCheckPoint_def drop_entry_def)
  have "in_directory ''c'' sample_catalog"
    unfolding sample_catalog_def in_directory_def using names_no_slash(1) by blast
  then have "\<not> in_directory ''w'' sample_catalog" using in_directory_unique [of "''c''" sample_catalog "''w''"] by auto
  then have log: "wal_log ''w'' (open_app (wal_path ''w'') [sample_catalog \<mapsto> []]) [] []"
    using n by (intro wal_logI) (auto simp: open_app_def file_of_def split: if_splits)
  have "\<exists>wm. flush_batches [tm_put ckp_tm] (WalManager_Start (WalManager_new ''w'' ''c'' (2 ^ 40) 100000 [sample_catalog \<mapsto> []])) = Inr wm
    \<and> ((\<forall>bs \<in> ran (wm_files wm). length bs < 2 ^ 63) \<longrightarrow> wm_files wm (parent_path sample_catalog @ ''/'' @ FullCheckpoingFilename 5) \<noteq> None \<longrightarrow>
         (\<exists>rec fs'. ReplayWalFile sorted_lister ''w'' (wm_files wm) = Inr (Some rec, fs')
            \<and> rc_entries rec = map lentry (filter (\<lambda>e. nonempty e \<and> scast (5 :: i64) < we_commit_ts e \<and> e \<noteq> ckp_entry) (tm_put ckp_tm))))"
    by (rule commits_recovered [OF ckp_tm_state(1) _ _ sorted_lister_lists log _ ne ck(1)])
      (use ckp_good ck(2) in \<open>simp_all add: ckp_tm_state(2), simp add: ckp_entry_def\<close>)
  moreover have "filter (\<lambda>e. nonempty e \<and> scast (5 :: i64) < we_commit_ts e \<and> e \<noteq> ckp_entry) [ckp_entry, drop_entry] = [drop_entry]"
    by (simp add: ckp_entry_def drop_entry_def)
  ultimately show ?thesis using wm(1) size cat unfolding ckp_tm_state(2) ckp_start_def [symmetric] by auto
qed


end
